(* ===== verification/Prelude.thy ===== *)
theory Prelude
  imports Main "HOL-Library.Sublist" "HOL-Library.Char_ord" "HOL-Library.List_Lexorder"
begin

text \<open>
  Shared vocabulary of the development: the parts of Go's standard library that the modelled
  code uses on strings (packages \<open>strings\<close> and \<open>unicode/utf8\<close>), Go's 64-bit \<open>int\<close>
  arithmetic, and two small interfaces that several components provide: a machine whose
  operations keep an invariant, and a bounded window over a stream of items.

  A Go \<open>string\<close> or \<open>[]byte\<close> is an Isabelle \<open>string\<close>, a list of 8-bit characters, so
  \<open>length\<close> counts bytes as Go's \<open>len\<close> does. A Go \<open>rune\<close> is a \<open>nat\<close>; the conversion
  \<open>[]rune(s)\<close> is \<open>runes\<close>, with the replacement character for malformed input.
\<close>

named_theorems str_simps \<open>executable equations of the string helpers\<close>
named_theorems inv_intros \<open>operations keep the invariant of their component\<close>

section \<open>Package strings\<close>

fun HasPrefix :: "'a list \<Rightarrow> 'a list \<Rightarrow> bool" where
  "HasPrefix s [] = True"
| "HasPrefix [] (c # p) = False"
| "HasPrefix (d # s) (c # p) = (d = c \<and> HasPrefix s p)"

definition HasSuffix :: "'a list \<Rightarrow> 'a list \<Rightarrow> bool" where
  "HasSuffix s p = HasPrefix (rev s) (rev p)"

fun Contains :: "'a list \<Rightarrow> 'a list \<Rightarrow> bool" where
  "Contains [] sub = (sub = [])"
| "Contains (c # s) sub = (HasPrefix (c # s) sub \<or> Contains s sub)"

definition ContainsAny :: "'a list \<Rightarrow> 'a list \<Rightarrow> bool" where
  "ContainsAny s cs = list_ex (\<lambda>c. c \<in> set cs) s"

definition TrimPrefix :: "'a list \<Rightarrow> 'a list \<Rightarrow> 'a list" where
  "TrimPrefix s p = (if HasPrefix s p then drop (length p) s else s)"

definition TrimSuffix :: "'a list \<Rightarrow> 'a list \<Rightarrow> 'a list" where
  "TrimSuffix s p = (if HasSuffix s p then take (length s - length p) s else s)"

text \<open>\<open>strings.Cut(s, sep)\<close> for a one-byte separator: the part before it.\<close>

definition CutBefore :: "'a list \<Rightarrow> 'a \<Rightarrow> 'a list" where
  "CutBefore s c = takeWhile (\<lambda>x. x \<noteq> c) s"

text \<open>\<open>strings.Split\<close> for a one-byte separator, and \<open>strings.Join\<close>.\<close>

fun Split :: "'a list \<Rightarrow> 'a \<Rightarrow> 'a list list" where
  "Split [] c = [[]]"
| "Split (x # xs) c =
     (if x = c then [] # Split xs c
      else (case Split xs c of [] \<Rightarrow> [[x]] | y # ys \<Rightarrow> (x # y) # ys))"

fun Join :: "'a list list \<Rightarrow> 'a \<Rightarrow> 'a list" where
  "Join [] c = []"
| "Join [x] c = x"
| "Join (x # y # zs) c = x @ c # Join (y # zs) c"

lemma HasPrefix_iff_prefix: "HasPrefix s p \<longleftrightarrow> prefix p s"
  by (induction s p rule: HasPrefix.induct) auto

lemma HasPrefix_append [simp]: "HasPrefix (p @ s) p"
  by (simp add: HasPrefix_iff_prefix)

lemma HasSuffix_iff_suffix: "HasSuffix s p \<longleftrightarrow> suffix p s"
  by (simp add: HasSuffix_def HasPrefix_iff_prefix suffix_to_prefix)

lemma HasSuffix_append [simp]: "HasSuffix (s @ p) p"
  by (simp add: HasSuffix_iff_suffix suffix_def)

lemma Contains_iff_sublist: "Contains s sub \<longleftrightarrow> sublist sub s"
  by (induction s) (auto simp: HasPrefix_iff_prefix sublist_Cons_right)

lemma Split_not_Nil [simp]: "Split s c \<noteq> []"
  by (cases s) (auto split: list.splits)

lemma Join_Cons: "ys \<noteq> [] \<Longrightarrow> Join (x # ys) c = x @ c # Join ys c"
  by (cases ys) auto

lemma Join_Split [simp]: "Join (Split s c) c = s"
proof (induction s)
  case Nil
  then show ?case by simp
next
  case (Cons x xs)
  then show ?case
    by (cases "Split xs c"; cases "tl (Split xs c)") (auto simp: Join_Cons split: list.splits)
qed

lemma Split_no_sep: "seg \<in> set (Split s c) \<Longrightarrow> c \<notin> set seg"
proof (induction s arbitrary: seg)
  case Nil
  then show ?case by simp
next
  case (Cons x xs)
  then show ?case
    by (cases "Split xs c") (auto split: if_splits)
qed

lemma Split_append:
  "c \<notin> set a \<Longrightarrow> Split (a @ c # s) c = a # Split s c"
  by (induction a) auto

lemma Split_single: "c \<notin> set a \<Longrightarrow> Split a c = [a]"
  by (induction a) auto

lemma Split_Join:
  "segs \<noteq> [] \<Longrightarrow> \<forall>s \<in> set segs. c \<notin> set s \<Longrightarrow> Split (Join segs c) c = segs"
  by (induction segs c rule: Join.induct) (auto simp: Split_append Split_single)

lemma sublist_Join: "x \<in> set segs \<Longrightarrow> sublist x (Join segs c)"
proof (induction segs c rule: Join.induct)
  case (3 y z zs c)
  show ?case
  proof (cases "x = y")
    case False
    with 3 obtain a b where "Join (z # zs) c = a @ x @ b" by (auto simp: sublist_def)
    then have "Join (y # z # zs) c = (y @ c # a) @ x @ b" by simp
    then show ?thesis unfolding sublist_def by blast
  qed (auto intro: prefix_imp_sublist)
qed auto

section \<open>Package unicode/utf8\<close>

text \<open>
  One step of \<open>utf8.DecodeRune\<close> on a non-empty byte list: the rune and its width, or
  \<open>None\<close> for an encoding Go rejects (it then yields U+FFFD with width 1). The second byte's
  range depends on the first, which rules out overlong forms and surrogates.
\<close>

definition in_range :: "nat \<Rightarrow> nat \<Rightarrow> char \<Rightarrow> bool" where
  "in_range lo hi c = (lo \<le> of_char c \<and> of_char c \<le> hi)"

definition cont_bits :: "char \<Rightarrow> nat" where
  "cont_bits c = of_char c - 0x80"

definition second_lo :: "nat \<Rightarrow> nat" where
  "second_lo b = (if b = 0xE0 then 0xA0 else if b = 0xF0 then 0x90 else 0x80)"

definition second_hi :: "nat \<Rightarrow> nat" where
  "second_hi b = (if b = 0xED then 0x9F else if b = 0xF4 then 0x8F else 0xBF)"

fun decode_rune :: "string \<Rightarrow> (nat \<times> nat) option" where
  "decode_rune [] = None"
| "decode_rune (c0 # s) =
     (let b = (of_char c0 :: nat) in
      if b < 0x80 then Some (b, 1)
      else if b < 0xC2 then None
      else if b \<le> 0xDF then
        (case s of
           c1 # _ \<Rightarrow> if in_range 0x80 0xBF c1 then Some ((b - 0xC0) * 64 + cont_bits c1, 2) else None
         | [] \<Rightarrow> None)
      else if b \<le> 0xEF then
        (case s of
           c1 # c2 # _ \<Rightarrow>
             if in_range (second_lo b) (second_hi b) c1 \<and> in_range 0x80 0xBF c2
             then Some ((b - 0xE0) * 4096 + cont_bits c1 * 64 + cont_bits c2, 3) else None
         | _ \<Rightarrow> None)
      else if b \<le> 0xF4 then
        (case s of
           c1 # c2 # c3 # _ \<Rightarrow>
             if in_range (second_lo b) (second_hi b) c1 \<and> in_range 0x80 0xBF c2 \<and> in_range 0x80 0xBF c3
             then Some ((b - 0xF0) * 262144 + cont_bits c1 * 4096 + cont_bits c2 * 64 + cont_bits c3, 4)
             else None
         | _ \<Rightarrow> None)
      else None)"

definition rune_error :: nat where
  "rune_error = 0xFFFD"

definition valid_rune :: "nat \<Rightarrow> bool" where
  "valid_rune r = (r < 0xD800 \<or> 0xE000 \<le> r \<and> r < 0x110000)"

text \<open>The runes of a string together with the bytes each one came from (\<open>for _, r := range s\<close>).\<close>

function chunks :: "string \<Rightarrow> (nat \<times> string) list" where
  "chunks [] = []"
| "chunks (c # s) =
     (case decode_rune (c # s) of
        None \<Rightarrow> (rune_error, [c]) # chunks s
      | Some (r, w) \<Rightarrow> (r, c # take (w - 1) s) # chunks (drop (w - 1) s))"
  by pat_completeness auto
termination
  by (relation "measure length") auto

definition runes :: "string \<Rightarrow> nat list" where
  "runes s = map fst (chunks s)"

text \<open>\<open>utf8.AppendRune\<close>: surrogates and values beyond U+10FFFF are written as U+FFFD.\<close>

definition encode_valid :: "nat \<Rightarrow> string" where
  "encode_valid r =
     (if r < 0x80 then [char_of r]
      else if r < 0x800 then [char_of (0xC0 + r div 64), char_of (0x80 + r mod 64)]
      else if r < 0x10000 then
        [char_of (0xE0 + r div 4096), char_of (0x80 + r div 64 mod 64), char_of (0x80 + r mod 64)]
      else
        [char_of (0xF0 + r div 262144), char_of (0x80 + r div 4096 mod 64),
         char_of (0x80 + r div 64 mod 64), char_of (0x80 + r mod 64)])"

definition encode_rune :: "nat \<Rightarrow> string" where
  "encode_rune r = encode_valid (if valid_rune r then r else rune_error)"

definition string_of_runes :: "nat list \<Rightarrow> string" where
  "string_of_runes rs = concat (map encode_rune rs)"

text \<open>Facts about decoding: it looks at a bounded window and never past the bytes it consumes.\<close>

lemma of_char_lt_256 [simp]: "(of_char c :: nat) < 256"
  by (metis UNIV_I nat_of_char_less_256)

lemma decode_rune_width:
  "decode_rune s = Some (r, w) \<Longrightarrow> 0 < w \<and> w \<le> length s"
  by (cases s) (auto simp: Let_def split: if_splits list.splits)

lemma second_lo_ge [simp]: "0x80 \<le> second_lo b"
  by (simp add: second_lo_def)

lemma not_second_ascii [simp]: "(of_char c :: nat) < 0x80 \<Longrightarrow> \<not> second_lo b \<le> of_char c"
  using second_lo_ge [of b] by linarith

lemma cont_bits_le: "in_range 0x80 0xBF c \<Longrightarrow> cont_bits c \<le> 63"
  by (auto simp: in_range_def cont_bits_def)

lemma cont_bits_second:
  assumes "in_range (second_lo b) (second_hi b) c"
  shows "cont_bits c \<le> 63" "b = 0xE0 \<Longrightarrow> 32 \<le> cont_bits c" "b = 0xED \<Longrightarrow> cont_bits c \<le> 31"
    "b = 0xF0 \<Longrightarrow> 16 \<le> cont_bits c" "b = 0xF4 \<Longrightarrow> cont_bits c \<le> 15"
  using assms by (auto simp: in_range_def cont_bits_def second_lo_def second_hi_def split: if_splits)

lemma decode_rune_append:
  "decode_rune s = Some rw \<Longrightarrow> decode_rune (s @ t) = Some rw"
  by (cases s) (auto simp: Let_def split: if_splits list.splits)

lemma decode_rune_shorter:
  assumes "decode_rune (s @ t) = Some (r, w)" "w \<le> length s"
  shows "decode_rune s = Some (r, w)"
proof -
  have "s \<noteq> []" using decode_rune_width [OF assms(1)] assms(2) by auto
  with assms show ?thesis
    by (cases s; cases "tl s"; cases "tl (tl s)"; cases "tl (tl (tl s))")
      (auto simp: Let_def split: if_splits list.splits)
qed

lemma decode_rune_before_ascii:
  "s \<noteq> [] \<Longrightarrow> (of_char c :: nat) < 0x80 \<Longrightarrow> decode_rune (s @ c # t) = decode_rune s"
  by (cases s; cases "tl s"; cases "tl (tl s)"; cases "tl (tl (tl s))")
    (auto simp: Let_def in_range_def split: if_splits list.splits)

lemma decode_rune_ascii:
  "(of_char c :: nat) < 0x80 \<Longrightarrow> decode_rune (c # s) = Some (of_char c, 1)"
  by simp

lemma valid_rune2: "0xC2 \<le> b \<Longrightarrow> b \<le> 0xDF \<Longrightarrow> x \<le> 63 \<Longrightarrow> valid_rune ((b - 0xC0) * 64 + x)"
proof -
  assume "0xC2 \<le> b" "b \<le> 0xDF" "x \<le> 63"
  then have "(b - 0xC0) * 64 + x < 0xD800" by linarith
  then show ?thesis by (simp add: valid_rune_def)
qed

lemma valid_rune3:
  assumes "0xDF < b" "b \<le> 0xEF" "x \<le> 63" "b = 0xED \<Longrightarrow> x \<le> 31" "y \<le> 63"
  shows "valid_rune ((b - 0xE0) * 4096 + x * 64 + y)"
proof -
  have "b < 0xED \<or> b = 0xED \<or> b = 0xEE \<or> b = 0xEF" using assms by linarith
  then show ?thesis using assms by (auto simp: valid_rune_def)
qed

lemma valid_rune4:
  assumes "0xEF < b" "b \<le> 0xF4" "x \<le> 63" "b = 0xF0 \<Longrightarrow> 16 \<le> x" "b = 0xF4 \<Longrightarrow> x \<le> 15"
    "y \<le> 63" "z \<le> 63"
  shows "valid_rune ((b - 0xF0) * 262144 + x * 4096 + y * 64 + z)"
proof -
  have "b = 0xF0 \<or> b = 0xF1 \<or> b = 0xF2 \<or> b = 0xF3 \<or> b = 0xF4" using assms by linarith
  then show ?thesis using assms by (auto simp: valid_rune_def)
qed

lemma decode_rune_valid: "decode_rune s = Some (r, w) \<Longrightarrow> valid_rune r"
proof (cases s)
  case (Cons c0 s')
  assume "decode_rune s = Some (r, w)"
  with Cons show ?thesis
    by (auto simp: Let_def cont_bits_le cont_bits_second split: if_splits list.splits
        intro!: valid_rune2 valid_rune3 valid_rune4)
      (simp add: valid_rune_def)
qed simp

lemma valid_rune_error [simp]: "valid_rune rune_error"
  by (simp add: valid_rune_def rune_error_def)

lemma nat_of_char_of [simp]: "n < 256 \<Longrightarrow> of_char (char_of n :: char) = (n :: nat)"
  by (simp add: of_char_of)

lemma digit_split3: "(r::nat) div 4096 * 4096 + r div 64 mod 64 * 64 + r mod 64 = r"
proof -
  have "r div 4096 = r div 64 div 64" by (simp add: div_mult2_eq [symmetric])
  then have "r div 4096 * 64 + r div 64 mod 64 = r div 64" by simp
  then have "(r div 4096 * 64 + r div 64 mod 64) * 64 + r mod 64 = r" by simp
  then show ?thesis by simp
qed

lemma digit_split4:
  "(r::nat) div 262144 * 262144 + r div 4096 mod 64 * 4096 + r div 64 mod 64 * 64 + r mod 64 = r"
proof -
  have "r div 262144 = r div 4096 div 64" by (simp add: div_mult2_eq [symmetric])
  then have "r div 262144 * 64 + r div 4096 mod 64 = r div 4096" by simp
  then have "(r div 262144 * 64 + r div 4096 mod 64) * 4096 = r div 4096 * 4096" by simp
  then show ?thesis using digit_split3 [of r] by simp
qed

lemma decode_bytes2:
  "2 \<le> a \<Longrightarrow> a < 32 \<Longrightarrow> b < 64 \<Longrightarrow>
    decode_rune (char_of (0xC0 + a) # char_of (0x80 + b) # t) = Some (a * 64 + b, 2)"
  by (simp add: Let_def in_range_def cont_bits_def)

lemma decode_bytes3:
  "a < 16 \<Longrightarrow> b < 64 \<Longrightarrow> c < 64 \<Longrightarrow> (a = 0 \<Longrightarrow> 32 \<le> b) \<Longrightarrow> (a = 13 \<Longrightarrow> b < 32) \<Longrightarrow>
    decode_rune (char_of (0xE0 + a) # char_of (0x80 + b) # char_of (0x80 + c) # t)
      = Some (a * 4096 + b * 64 + c, 3)"
  by (force simp add: Let_def in_range_def cont_bits_def second_lo_def second_hi_def)

lemma decode_bytes4:
  "a \<le> 4 \<Longrightarrow> b < 64 \<Longrightarrow> c < 64 \<Longrightarrow> d < 64 \<Longrightarrow> (a = 0 \<Longrightarrow> 16 \<le> b) \<Longrightarrow> (a = 4 \<Longrightarrow> b < 16) \<Longrightarrow>
    decode_rune (char_of (0xF0 + a) # char_of (0x80 + b) # char_of (0x80 + c) # char_of (0x80 + d) # t)
      = Some (a * 262144 + b * 4096 + c * 64 + d, 4)"
  by (force simp add: Let_def in_range_def cont_bits_def second_lo_def second_hi_def)

lemma decode_encode2:
  assumes "0x80 \<le> r" "r < 0x800"
  shows "decode_rune (encode_valid r @ t) = Some (r, 2)"
proof -
  define a b where "a = r div 64" and "b = r mod 64"
  have r: "a * 64 + b = r" "b < 64" by (simp_all add: a_def b_def)
  have "2 \<le> a" "a < 32" using r assms by linarith+
  from decode_bytes2 [OF this r(2)] r(1) show ?thesis
    using assms by (simp add: encode_valid_def a_def [symmetric] b_def [symmetric] del: decode_rune.simps)
qed

lemma decode_encode3:
  assumes "0x800 \<le> r" "r < 0x10000" "valid_rune r"
  shows "decode_rune (encode_valid r @ t) = Some (r, 3)"
proof -
  define a b c where "a = r div 4096" and "b = r div 64 mod 64" and "c = r mod 64"
  have r: "a * 4096 + b * 64 + c = r" "b < 64" "c < 64"
    using digit_split3 [of r] by (simp_all add: a_def b_def c_def)
  have "a < 16" "a = 0 \<Longrightarrow> 32 \<le> b" using r assms(1,2) by linarith+
  moreover have "a = 13 \<Longrightarrow> b < 32" using r assms(3) by (auto simp: valid_rune_def)
  ultimately have "decode_rune (char_of (0xE0 + a) # char_of (0x80 + b) # char_of (0x80 + c) # t) = Some (r, 3)"
    using decode_bytes3 [of a b c t] r by simp
  then show ?thesis
    using assms(1,2)
    by (simp add: encode_valid_def a_def [symmetric] b_def [symmetric] c_def [symmetric] del: decode_rune.simps)
qed

lemma decode_encode4:
  assumes "0x10000 \<le> r" "valid_rune r"
  shows "decode_rune (encode_valid r @ t) = Some (r, 4)"
proof -
  define a b c d where "a = r div 262144" and "b = r div 4096 mod 64"
    and "c = r div 64 mod 64" and "d = r mod 64"
  have r: "a * 262144 + b * 4096 + c * 64 + d = r" "b < 64" "c < 64" "d < 64"
    using digit_split4 [of r] by (simp_all add: a_def b_def c_def d_def)
  have "r < 0x110000" using assms by (auto simp: valid_rune_def)
  then have "a \<le> 4" "a = 0 \<Longrightarrow> 16 \<le> b" "a = 4 \<Longrightarrow> b < 16" using r assms(1) by linarith+
  then have "decode_rune (char_of (0xF0 + a) # char_of (0x80 + b) # char_of (0x80 + c) # char_of (0x80 + d) # t)
      = Some (r, 4)"
    using decode_bytes4 [of a b c d t] r by simp
  then show ?thesis
    using assms(1)
    by (simp add: encode_valid_def a_def [symmetric] b_def [symmetric] c_def [symmetric] d_def [symmetric]
        del: decode_rune.simps)
qed

lemma decode_encode_rune:
  assumes "valid_rune r"
  shows "decode_rune (encode_rune r @ t) = Some (r, length (encode_rune r))"
proof -
  consider "r < 0x80" | "0x80 \<le> r" "r < 0x800" | "0x800 \<le> r" "r < 0x10000" | "0x10000 \<le> r"
    by linarith
  then have "decode_rune (encode_valid r @ t) = Some (r, length (encode_valid r))"
  proof cases
    case 1
    then show ?thesis by (simp add: encode_valid_def)
  next
    case 2
    then show ?thesis using decode_encode2 [of r t] by (simp add: encode_valid_def)
  next
    case 3
    then show ?thesis using decode_encode3 [of r t] assms by (simp add: encode_valid_def)
  next
    case 4
    then show ?thesis using decode_encode4 [of r t] assms by (simp add: encode_valid_def)
  qed
  with assms show ?thesis by (simp add: encode_rune_def)
qed

declare decode_rune.simps [simp del]

subsection \<open>Splitting a string into runes\<close>

lemma chunks_Cons:
  "s \<noteq> [] \<Longrightarrow> chunks s =
     (case decode_rune s of
        None \<Rightarrow> (rune_error, take 1 s) # chunks (drop 1 s)
      | Some (r, w) \<Rightarrow> (r, take w s) # chunks (drop w s))"
  by (cases s) (auto split: option.split dest: decode_rune_width simp: take_Cons' drop_Cons')

declare chunks.simps(2) [simp del]

lemma chunks_bad:
  "s \<noteq> [] \<Longrightarrow> decode_rune s = None \<Longrightarrow> chunks s = (rune_error, take 1 s) # chunks (drop 1 s)"
  by (simp add: chunks_Cons)

lemma chunks_good:
  "s \<noteq> [] \<Longrightarrow> decode_rune s = Some (r, w) \<Longrightarrow> chunks s = (r, take w s) # chunks (drop w s)"
  by (simp add: chunks_Cons)

lemma chunks_induct [case_names Nil bad good]:
  assumes "P []"
    and "\<And>s. s \<noteq> [] \<Longrightarrow> decode_rune s = None \<Longrightarrow> P (drop 1 s) \<Longrightarrow> P s"
    and "\<And>s r w. s \<noteq> [] \<Longrightarrow> decode_rune s = Some (r, w) \<Longrightarrow> 0 < w \<Longrightarrow> w \<le> length s \<Longrightarrow> P (drop w s) \<Longrightarrow> P s"
  shows "P s"
proof (induction s rule: length_induct)
  case (1 s)
  show ?case
  proof (cases "s = []")
    case False
    then have "P (drop w s)" if "0 < w" for w
      using 1 that by (simp add: length_drop)
    with False assms(2,3) [of s] show ?thesis
      by (cases "decode_rune s") (auto dest: decode_rune_width)
  qed (simp add: assms(1))
qed

lemma chunks_ascii [str_simps]:
  "(of_char c :: nat) < 0x80 \<Longrightarrow> chunks (c # s) = (of_char c, [c]) # chunks s"
  by (simp add: chunks_Cons decode_rune.simps)

lemma chunks_concat [simp]: "concat (map snd (chunks s)) = s"
  by (induction s rule: chunks_induct) (simp_all add: chunks_bad chunks_good del: One_nat_def)

lemma chunks_append_ascii:
  assumes "(of_char c :: nat) < 0x80"
  shows "chunks (s @ c # t) = chunks s @ chunks (c # t)"
proof (induction s rule: chunks_induct)
  case (bad s)
  then have "decode_rune (s @ c # t) = None"
    by (simp add: decode_rune_before_ascii [OF _ assms])
  with bad show ?case by (cases s) (simp_all add: chunks_bad)
next
  case (good s r w)
  then have "decode_rune (s @ c # t) = Some (r, w)"
    by (simp add: decode_rune_before_ascii [OF _ assms])
  with good show ?case by (simp add: chunks_good)
qed simp

lemma chunks_suffix: "chunks s = a @ b \<Longrightarrow> chunks (concat (map snd b)) = b"
proof (induction a arbitrary: s)
  case Nil
  then show ?case by (metis append_Nil chunks_concat)
next
  case (Cons x a)
  then have "s \<noteq> []" by auto
  with Cons.prems obtain t where "chunks t = a @ b"
    by (auto simp: chunks_Cons split: option.splits)
  then show ?case by (rule Cons.IH)
qed

lemma chunks_prefix: "chunks s = a @ b \<Longrightarrow> chunks (concat (map snd a)) = a"
proof (induction a arbitrary: s)
  case (Cons x a)
  then have "s \<noteq> []" by auto
  let ?s' = "concat (map snd (x # a))"
  have s: "s = ?s' @ concat (map snd b)"
    using chunks_concat [of s] Cons.prems by simp
  show ?case
  proof (cases "decode_rune s")
    case None
    with Cons.prems \<open>s \<noteq> []\<close> have x: "x = (rune_error, take 1 s)" and "chunks (drop 1 s) = a @ b"
      by (auto simp: chunks_Cons)
    from Cons.IH [OF this(2)] have a: "chunks (concat (map snd a)) = a" .
    have "decode_rune ?s' = None"
      using None decode_rune_append [of ?s' _ "concat (map snd b)"] s by (cases "decode_rune ?s'") auto
    with x a \<open>s \<noteq> []\<close> show ?thesis by (cases s) (auto simp: chunks_Cons)
  next
    case (Some rw)
    obtain r w where rw: "rw = (r, w)" by (cases rw)
    with Some Cons.prems \<open>s \<noteq> []\<close> have x: "x = (r, take w s)" and "chunks (drop w s) = a @ b"
      by (auto simp: chunks_Cons)
    from Cons.IH [OF this(2)] have a: "chunks (concat (map snd a)) = a" .
    from Some rw have w: "0 < w" "w \<le> length s" by (auto dest: decode_rune_width)
    then have len: "length (snd x) = w" using x by simp
    have "decode_rune ?s' = Some (r, w)"
      by (rule decode_rune_shorter [of _ "concat (map snd b)"]) (use Some rw s len in auto)
    with x a len w \<open>s \<noteq> []\<close> show ?thesis
      by (subst chunks_good [of ?s' r w]) auto
  qed
qed simp

lemma runes_Nil [simp]: "runes [] = []"
  by (simp add: runes_def)

lemma runes_append_ascii:
  "(of_char c :: nat) < 0x80 \<Longrightarrow> runes (s @ c # t) = runes s @ runes (c # t)"
  by (simp add: runes_def chunks_append_ascii)

lemma runes_ascii [str_simps]:
  "(of_char c :: nat) < 0x80 \<Longrightarrow> runes (c # s) = of_char c # runes s"
  by (simp add: runes_def chunks_ascii)

lemma runes_valid: "r \<in> set (runes s) \<Longrightarrow> valid_rune r"
  by (induction s rule: chunks_induct)
    (auto simp: runes_def chunks_bad chunks_good dest: decode_rune_valid simp del: One_nat_def)

lemma runes_encode_rune:
  "valid_rune r \<Longrightarrow> runes (encode_rune r @ t) = r # runes t"
proof -
  assume v: "valid_rune r"
  have "encode_rune r \<noteq> []" by (simp add: encode_rune_def encode_valid_def)
  with decode_encode_rune [OF v, of t] show ?thesis
    by (simp add: runes_def chunks_Cons)
qed

lemma runes_string_of_runes:
  "list_all valid_rune rs \<Longrightarrow> runes (string_of_runes rs @ t) = rs @ runes t"
  by (induction rs) (simp_all add: string_of_runes_def runes_encode_rune)

section \<open>strings.TrimSpace\<close>

text \<open>\<open>unicode.IsSpace\<close>: the Latin-1 spaces and the other code points with the White_Space property.\<close>

definition is_space :: "nat \<Rightarrow> bool" where
  "is_space r = (9 \<le> r \<and> r \<le> 13 \<or> r = 32 \<or> r = 0x85 \<or> r = 0xA0 \<or> r = 0x1680 \<or>
     0x2000 \<le> r \<and> r \<le> 0x200A \<or> r = 0x2028 \<or> r = 0x2029 \<or> r = 0x202F \<or> r = 0x205F \<or> r = 0x3000)"

definition trim_chunks :: "(nat \<times> string) list \<Rightarrow> (nat \<times> string) list" where
  "trim_chunks cs = rev (dropWhile (is_space \<circ> fst) (rev (dropWhile (is_space \<circ> fst) cs)))"

definition TrimSpace :: "string \<Rightarrow> string" where
  "TrimSpace s = concat (map snd (trim_chunks (chunks s)))"

definition trimmed :: "string \<Rightarrow> bool" where
  "trimmed s = (case chunks s of [] \<Rightarrow> True | c # cs \<Rightarrow> \<not> is_space (fst c) \<and> \<not> is_space (fst (last (c # cs))))"

lemma dropWhile_split: "\<exists>a. xs = a @ dropWhile P xs"
  by (metis takeWhile_dropWhile_id)

lemma trim_chunks_infix: "\<exists>a b. cs = a @ trim_chunks cs @ b"
proof -
  obtain a where a: "cs = a @ dropWhile (is_space \<circ> fst) cs" using dropWhile_split by blast
  obtain b where "rev (dropWhile (is_space \<circ> fst) cs) = b @ rev (trim_chunks cs)"
    unfolding trim_chunks_def rev_rev_ident using dropWhile_split by blast
  then have "dropWhile (is_space \<circ> fst) cs = trim_chunks cs @ rev b"
    by (metis rev_append rev_rev_ident)
  with a show ?thesis by metis
qed

lemma chunks_TrimSpace: "chunks (TrimSpace s) = trim_chunks (chunks s)"
proof -
  obtain a b where "chunks s = a @ trim_chunks (chunks s) @ b"
    using trim_chunks_infix by blast
  then have "chunks (concat (map snd (trim_chunks (chunks s) @ b))) = trim_chunks (chunks s) @ b"
    by (rule chunks_suffix)
  then show ?thesis unfolding TrimSpace_def by (rule chunks_prefix)
qed

lemma trim_chunks_ends:
  assumes "trim_chunks cs \<noteq> []"
  shows "\<not> is_space (fst (hd (trim_chunks cs)))" "\<not> is_space (fst (last (trim_chunks cs)))"
proof -
  let ?d = "dropWhile (is_space \<circ> fst) cs" and ?e = "dropWhile (is_space \<circ> fst) (rev (dropWhile (is_space \<circ> fst) cs))"
  have "?e \<noteq> []" using assms unfolding trim_chunks_def by simp
  moreover from this have "?d \<noteq> []" by (metis dropWhile.simps(1) rev.simps(1))
  ultimately have e: "?e \<noteq> []" "?d \<noteq> []" .
  show "\<not> is_space (fst (last (trim_chunks cs)))"
    using hd_dropWhile [OF e(1)] e(1) by (simp add: trim_chunks_def last_rev)
  obtain b where b: "rev ?d = b @ ?e" using dropWhile_split by blast
  then have "?d = rev ?e @ rev b" by (metis rev_append rev_rev_ident)
  then have "hd (rev ?e) = hd ?d" using e(1) by (metis hd_append2 rev_is_Nil_conv)
  then show "\<not> is_space (fst (hd (trim_chunks cs)))"
    using hd_dropWhile [OF e(2)] by (simp add: trim_chunks_def)
qed

lemma trimmed_TrimSpace [simp]: "trimmed (TrimSpace s)"
  using trim_chunks_ends [of "chunks s"]
  by (auto simp: trimmed_def chunks_TrimSpace split: list.split)

lemma trim_chunks_id:
  "cs \<noteq> [] \<Longrightarrow> \<not> is_space (fst (hd cs)) \<Longrightarrow> \<not> is_space (fst (last cs)) \<Longrightarrow> trim_chunks cs = cs"
proof -
  assume "cs \<noteq> []" "\<not> is_space (fst (hd cs))" "\<not> is_space (fst (last cs))"
  then have "dropWhile (is_space \<circ> fst) cs = cs" "dropWhile (is_space \<circ> fst) (rev cs) = rev cs"
    by (simp_all add: dropWhile_eq_self_iff hd_rev)
  then show ?thesis by (simp add: trim_chunks_def)
qed

lemma TrimSpace_trimmed [simp]: "trimmed s \<Longrightarrow> TrimSpace s = s"
proof (cases "chunks s")
  case Nil
  then have "s = []" using chunks_concat [of s] by simp
  then show ?thesis by (simp add: TrimSpace_def trim_chunks_def)
next
  case (Cons c cs)
  assume "trimmed s"
  with Cons have "trim_chunks (chunks s) = chunks s"
    by (intro trim_chunks_id) (auto simp: trimmed_def)
  then show ?thesis by (simp add: TrimSpace_def)
qed

lemma TrimSpace_idem [simp]: "TrimSpace (TrimSpace s) = TrimSpace s"
  by simp

lemma TrimSpace_Nil [simp]: "TrimSpace [] = []"
  by (simp add: TrimSpace_def trim_chunks_def)

section \<open>64-bit integers\<close>

text \<open>Go's \<open>int\<close> and \<open>int64\<close> wrap around at 64 bits.\<close>

definition wrap64 :: "int \<Rightarrow> int" where
  "wrap64 n = (n + 2 ^ 63) mod 2 ^ 64 - 2 ^ 63"

lemma wrap64_id [simp]: "- (2 ^ 63) \<le> n \<Longrightarrow> n < 2 ^ 63 \<Longrightarrow> wrap64 n = n"
  by (simp add: wrap64_def)

lemma wrap64_range: "- (2 ^ 63) \<le> wrap64 n \<and> wrap64 n < 2 ^ 63"
  using pos_mod_bound [of "2 ^ 64" "n + 2 ^ 63"] pos_mod_sign [of "2 ^ 64" "n + 2 ^ 63"]
  unfolding wrap64_def by simp

section \<open>Interfaces shared by components\<close>

text \<open>A component whose every operation keeps an invariant: then every run of it does.\<close>

locale machine =
  fixes step :: "'s \<Rightarrow> 'e \<Rightarrow> 's"
    and invar :: "'s \<Rightarrow> bool"
  assumes step_invar: "invar s \<Longrightarrow> invar (step s e)"
begin

lemma run_invar: "invar s \<Longrightarrow> invar (foldl step s es)"
  by (induction es arbitrary: s) (auto intro: step_invar)

end

text \<open>
  A bounded window: adding an item drops the oldest one when the window is full. What a client
  may rely on is that the window always shows the last items that were added.
\<close>

definition last_n :: "nat \<Rightarrow> 'a list \<Rightarrow> 'a list" where
  "last_n n xs = drop (length xs - n) xs"

lemma last_n_all [simp]: "length xs \<le> n \<Longrightarrow> last_n n xs = xs"
  by (simp add: last_n_def)

lemma length_last_n [simp]: "length (last_n n xs) = min n (length xs)"
  by (simp add: last_n_def)

lemma last_n_snoc:
  "0 < n \<Longrightarrow> last_n n (xs @ [x]) =
     (if length (last_n n xs) = n then tl (last_n n xs) @ [x] else last_n n xs @ [x])"
  by (auto simp: last_n_def drop_Suc [symmetric] Suc_diff_le min_def simp flip: drop_tl)

locale window =
  fixes add :: "'a \<Rightarrow> 'w \<Rightarrow> 'w"
    and items :: "'w \<Rightarrow> 'a list"
    and size_of :: "'w \<Rightarrow> nat"
    and invar :: "'w \<Rightarrow> bool"
    and fresh :: "'a \<Rightarrow> 'w \<Rightarrow> bool"
  assumes invar_add: "invar w \<Longrightarrow> invar (add x w)"
    and size_pos: "invar w \<Longrightarrow> 0 < size_of w"
    and size_add: "invar w \<Longrightarrow> size_of (add x w) = size_of w"
    and items_bound: "invar w \<Longrightarrow> length (items w) \<le> size_of w"
    and items_add: "invar w \<Longrightarrow> fresh x w \<Longrightarrow> items (add x w) =
      (if length (items w) = size_of w then tl (items w) @ [x] else items w @ [x])"
    and items_old: "invar w \<Longrightarrow> \<not> fresh x w \<Longrightarrow> items (add x w) = items w"
begin

text \<open>The items that really entered the window.\<close>

primrec entered :: "'a list \<Rightarrow> 'w \<Rightarrow> 'a list" where
  "entered [] w = []"
| "entered (x # xs) w = (if fresh x w then x # entered xs (add x w) else entered xs (add x w))"

lemma items_add_last_n:
  "invar w \<Longrightarrow> fresh x w \<Longrightarrow> items w = last_n (size_of w) ys \<Longrightarrow>
    items (add x w) = last_n (size_of w) (ys @ [x])"
  using size_pos [of w] by (simp add: items_add last_n_snoc)

lemma items_run:
  "invar w \<Longrightarrow> items w = last_n (size_of w) ys \<Longrightarrow>
    items (fold add xs w) = last_n (size_of w) (ys @ entered xs w)"
proof (induction xs arbitrary: w ys)
  case (Cons x xs)
  show ?case
  proof (cases "fresh x w")
    case True
    then have "items (add x w) = last_n (size_of (add x w)) (ys @ [x])"
      using Cons.prems by (simp add: items_add_last_n size_add)
    from Cons.IH [OF invar_add [OF Cons.prems(1)] this] True Cons.prems show ?thesis
      by (simp add: size_add)
  next
    case False
    then have "items (add x w) = last_n (size_of (add x w)) ys"
      using Cons.prems by (simp add: items_old size_add)
    from Cons.IH [OF invar_add [OF Cons.prems(1)] this] False Cons.prems show ?thesis
      by (simp add: size_add)
  qed
qed simp

lemma items_after:
  "invar w \<Longrightarrow> items (fold add xs w) = last_n (size_of w) (items w @ entered xs w)"
  by (rule items_run) (simp_all add: items_bound)

lemma items_never_exceed: "invar w \<Longrightarrow> length (items (fold add xs w)) \<le> size_of w"
  by (simp add: items_after)

end

section \<open>Package strconv\<close>

text \<open>\<open>strconv.FormatUint(n, 10)\<close>, and the value of a string of decimal digits.\<close>

definition digit_char :: "nat \<Rightarrow> char" where
  "digit_char d = char_of (0x30 + d)"

fun FormatUint :: "nat \<Rightarrow> string" where
  "FormatUint n = (if n < 10 then [digit_char n] else FormatUint (n div 10) @ [digit_char (n mod 10)])"

declare FormatUint.simps [simp del]

definition is_digit :: "char \<Rightarrow> bool" where
  "is_digit c = (0x30 \<le> (of_char c :: nat) \<and> (of_char c :: nat) \<le> 0x39)"

definition decimal_value :: "string \<Rightarrow> nat" where
  "decimal_value s = foldl (\<lambda>a c. a * 10 + (of_char c - 0x30)) 0 s"

lemma decimal_value_snoc [simp]:
  "decimal_value (s @ [c]) = decimal_value s * 10 + (of_char c - 0x30)"
  by (simp add: decimal_value_def)

lemma digit_char_simps [simp]:
  "d < 10 \<Longrightarrow> is_digit (digit_char d)" "d < 10 \<Longrightarrow> (of_char (digit_char d) :: nat) = 0x30 + d"
  by (simp_all add: is_digit_def digit_char_def)

lemma decimal_value_FormatUint [simp]: "decimal_value (FormatUint n) = n"
proof (induction n rule: less_induct)
  case (less n)
  show ?case
  proof (cases "n < 10")
    case True
    then show ?thesis by (simp add: FormatUint.simps [of n] decimal_value_def)
  next
    case False
    then have "decimal_value (FormatUint (n div 10)) = n div 10" by (intro less.IH) simp
    with False show ?thesis by (simp add: FormatUint.simps [of n])
  qed
qed

lemma FormatUint_inject [simp]: "FormatUint a = FormatUint b \<longleftrightarrow> a = b"
  by (metis decimal_value_FormatUint)

lemma FormatUint_not_Nil [simp]: "FormatUint n \<noteq> []"
  by (simp add: FormatUint.simps [of n])

lemma FormatUint_digits: "list_all is_digit (FormatUint n)"
proof (induction n rule: less_induct)
  case (less n)
  show ?case
  proof (cases "n < 10")
    case False
    then have "list_all is_digit (FormatUint (n div 10))" by (intro less.IH) simp
    with False show ?thesis by (simp add: FormatUint.simps [of n])
  qed (simp add: FormatUint.simps [of n])
qed

end
