(* ===== verification/Permission_Types.thy ===== *)
theory Permission_Types
  imports Prelude
begin

text \<open>
  The data of package \<open>internal/permissions\<close>: permission modes, decisions, resolver stages,
  rules and their sources, with the conversions between the mode types and the clamp that keeps
  a sub-agent at least as strict as its parent (\<open>mode.go\<close>, \<open>clamp.go\<close>, \<open>decision.go\<close>,
  the types of \<open>rules.go\<close>, and \<open>Permission\<close>/\<open>PermissionMode\<close> of \<open>internal/tools\<close>).

  Go's string enums admit any string, so each datatype has a constructor for the others
  (\<open>ModeOther\<close> holds the empty mode as well); \<open>mode_of_string\<close> is how a Go value reads.
\<close>

section \<open>Modes\<close>

datatype mode =
    ModeBypass
  | ModeDontAsk
  | ModeAuto
  | ModeAcceptEdits
  | ModeDefault
  | ModePlan
  | ModeBubble
  | ModeOther string

fun mode_String :: "mode \<Rightarrow> string" where
  "mode_String ModeBypass = ''bypass''"
| "mode_String ModeDontAsk = ''dontAsk''"
| "mode_String ModeAuto = ''auto''"
| "mode_String ModeAcceptEdits = ''acceptEdits''"
| "mode_String ModeDefault = ''default''"
| "mode_String ModePlan = ''plan''"
| "mode_String ModeBubble = ''bubble''"
| "mode_String (ModeOther s) = s"

definition mode_of_string :: "string \<Rightarrow> mode" where
  "mode_of_string s =
     (if s = ''bypass'' then ModeBypass
      else if s = ''dontAsk'' then ModeDontAsk
      else if s = ''auto'' then ModeAuto
      else if s = ''acceptEdits'' then ModeAcceptEdits
      else if s = ''default'' then ModeDefault
      else if s = ''plan'' then ModePlan
      else if s = ''bubble'' then ModeBubble
      else ModeOther s)"

fun Normalize :: "mode \<Rightarrow> mode" where
  "Normalize (ModeOther _) = ModeDefault"
| "Normalize m = m"

text \<open>The legacy mode of \<open>internal/tools\<close> (\<open>context.go\<close>).\<close>

datatype tools_mode =
    PermissionDefault
  | PermissionBypassPermissions
  | PermissionPlan
  | PermissionDontAsk
  | PermissionModeOther string

fun FromToolsMode :: "tools_mode \<Rightarrow> mode" where
  "FromToolsMode PermissionBypassPermissions = ModeBypass"
| "FromToolsMode PermissionDontAsk = ModeDontAsk"
| "FromToolsMode PermissionPlan = ModePlan"
| "FromToolsMode PermissionDefault = ModeDefault"
| "FromToolsMode (PermissionModeOther _) = ModeDefault"

definition ToToolsMode :: "mode \<Rightarrow> tools_mode" where
  "ToToolsMode m =
     (case Normalize m of
        ModeBypass \<Rightarrow> PermissionBypassPermissions
      | ModeDontAsk \<Rightarrow> PermissionDontAsk
      | ModePlan \<Rightarrow> PermissionPlan
      | _ \<Rightarrow> PermissionDefault)"

fun strictness :: "mode \<Rightarrow> int" where
  "strictness ModeBypass = 0"
| "strictness ModeAcceptEdits = 1"
| "strictness ModeAuto = 2"
| "strictness ModeDefault = 3"
| "strictness ModeBubble = 3"
| "strictness ModeDontAsk = 4"
| "strictness ModePlan = 5"
| "strictness (ModeOther _) = 3"

text \<open>The constants \<open>ClampMode\<close>'s switch accepts.\<close>

definition known_mode :: "mode \<Rightarrow> bool" where
  "known_mode m = (case m of ModeOther _ \<Rightarrow> False | _ \<Rightarrow> True)"

definition ClampMode :: "mode \<Rightarrow> mode \<Rightarrow> mode" where
  "ClampMode parent requested =
     (let parent = Normalize parent in
      if requested = ModeOther '''' then parent
      else if \<not> known_mode requested then parent
      else if strictness requested < strictness parent then parent
      else requested)"

section \<open>Decisions, stages and results\<close>

datatype decision = DecisionAllow | DecisionDeny | DecisionAsk | DecisionOther string

datatype stage = StageHook | StageRule | StageTool | StageMode | StagePrompt | StageClassifier

text \<open>\<open>type Source int\<close>: the constants are 0 to 5, other values are possible.\<close>

datatype source = Source (source_int: int)

abbreviation "SourcePolicy \<equiv> Source 0"
abbreviation "SourceUser \<equiv> Source 1"
abbreviation "SourceProject \<equiv> Source 2"
abbreviation "SourceLocal \<equiv> Source 3"
abbreviation "SourceCLI \<equiv> Source 4"
abbreviation "SourceSession \<equiv> Source 5"

instantiation source :: linorder
begin

definition less_eq_source :: "source \<Rightarrow> source \<Rightarrow> bool" where
  "less_eq_source a b = (source_int a \<le> source_int b)"

definition less_source :: "source \<Rightarrow> source \<Rightarrow> bool" where
  "less_source a b = (source_int a < source_int b)"

instance
  by standard (auto simp: less_eq_source_def less_source_def source.expand)

end

record rule =
  Pattern :: string
  rule_Source :: source

record rules =
  AlwaysAllow :: "rule list"
  AlwaysDeny :: "rule list"
  AlwaysAsk :: "rule list"

record 'i result =
  res_Decision :: decision
  res_Stage :: stage
  res_Reason :: string
  res_UpdatedInput :: "'i option"
  res_Rule :: "rule option"

text \<open>\<open>type Permission int\<close> of \<open>internal/tools\<close> and a tool classifier's answer.\<close>

datatype permission = PermAllow | PermDeny | PermAsk | PermOther int

record 'i permission_result =
  pr_Decision :: permission
  pr_Reason :: string
  pr_UpdatedInput :: "'i option"

section \<open>Facts\<close>

lemma mode_of_string_String [simp]: "known_mode m \<Longrightarrow> mode_of_string (mode_String m) = m"
  by (cases m) (auto simp: mode_of_string_def known_mode_def)

lemma mode_String_of_string [simp]: "mode_String (mode_of_string s) = s"
  by (simp add: mode_of_string_def)

lemma known_Normalize [simp]: "known_mode (Normalize m)"
  by (cases m) (auto simp: known_mode_def)

lemma Normalize_known [simp]: "known_mode m \<Longrightarrow> Normalize m = m"
  by (cases m) (auto simp: known_mode_def)

lemma strictness_Normalize [simp]: "strictness (Normalize m) = strictness m"
  by (cases m) auto

lemma ClampMode_cases:
  "ClampMode p r = Normalize p \<or> ClampMode p r = r \<and> known_mode r \<and> strictness p \<le> strictness r"
  by (auto simp: ClampMode_def Let_def)

lemma ClampMode_known [simp]: "known_mode (ClampMode p r)"
  using ClampMode_cases [of p r] by auto

lemma ClampMode_strictness: "strictness p \<le> strictness (ClampMode p r)"
  using ClampMode_cases [of p r] by auto

lemma ClampMode_chain_strictness: "strictness p \<le> strictness (foldl ClampMode p rs)"
  by (induction rs rule: rev_induct) (auto intro: order_trans ClampMode_strictness)

lemma ToToolsMode_strictness: "strictness m \<le> strictness (FromToolsMode (ToToolsMode m))"
  by (cases m) (auto simp: ToToolsMode_def)

text \<open>
  C40. A sub-agent's mode is never looser than its parent's, however deep the chain of
  sub-agents: clamping a whole list of requested modes, one per nesting level, never lowers the
  strictness rank of the run at the top, and every clamped mode is one of the seven known modes.
  Requests may be empty or unknown strings.
\<close>

theorem clamp_chain_never_looser:
  "strictness parent \<le> strictness (foldl ClampMode parent (map mode_of_string requests))
    \<and> (requests \<noteq> [] \<longrightarrow> known_mode (foldl ClampMode parent (map mode_of_string requests)))"
  by (cases requests rule: rev_cases) (simp_all add: ClampMode_chain_strictness
      ClampMode_chain_strictness [of _ "_ @ [_]", simplified])

theorem clamp_chain_never_looser_witness:
  "strictness ModeDefault \<le> strictness (foldl ClampMode ModeDefault (map mode_of_string [''plan'', ''bypass'']))
    \<and> known_mode (foldl ClampMode ModeDefault (map mode_of_string [''plan'', ''bypass'']))
    \<and> foldl ClampMode ModeDefault (map mode_of_string [''plan'', ''bypass'']) = ModePlan"
  using clamp_chain_never_looser [of ModeDefault "[''plan'', ''bypass'']"]
  by (simp add: ClampMode_def mode_of_string_def known_mode_def)

end
