(* ===== verification/Glob_Match.thy ===== *)
theory Glob_Match
  imports Prelude
begin

text \<open>
  The pattern matcher behind permission rules (\<open>internal/permissions/match.go\<close>): parsing of
  \<open>Tool(glob)\<close> patterns, the backtracking wildcard matcher over runes, character classes, and
  the expansion of whole-segment \<open>**\<close>.

  The code walks \<open>p\<close> and \<open>s\<close> with indices \<open>pi\<close> and \<open>si\<close>; the model carries the suffixes
  \<open>p[pi:]\<close> and \<open>s[si:]\<close> instead, and the saved pair \<open>(star, mark)\<close> is the pair of suffixes
  \<open>(p[star+1:], s[mark:])\<close>, \<open>None\<close> for \<open>star = -1\<close>.
\<close>

abbreviation "R_star \<equiv> (42::nat)"
abbreviation "R_quest \<equiv> (63::nat)"
abbreviation "R_bslash \<equiv> (92::nat)"
abbreviation "R_lbrack \<equiv> (91::nat)"
abbreviation "R_rbrack \<equiv> (93::nat)"
abbreviation "R_bang \<equiv> (33::nat)"
abbreviation "R_caret \<equiv> (94::nat)"
abbreviation "R_minus \<equiv> (45::nat)"

section \<open>Patterns of the form Tool(glob)\<close>

definition ParsePattern :: "string \<Rightarrow> (string \<times> string) option" where
  "ParsePattern pattern0 =
     (let pattern = TrimSpace pattern0 in
      if pattern = [] then None
      else if CHR ''('' \<notin> set pattern then None
      else
        let openIdx = length (takeWhile (\<lambda>c. c \<noteq> CHR ''('') pattern);
            toolName = TrimSpace (take openIdx pattern) in
        if toolName = [] then None
        else if \<not> HasSuffix pattern '')'' then None
        else
          let argGlob = take (length pattern - 1 - (openIdx + 1)) (drop (openIdx + 1) pattern) in
          if argGlob = [] then None else Some (toolName, argGlob))"

text \<open>\<open>filepath.ToSlash\<close>: \<open>sep\<close> is the platform's separator, so this is the identity on Unix.\<close>

definition normalizePathSeparators :: "char \<Rightarrow> string \<Rightarrow> string" where
  "normalizePathSeparators sep s = map (\<lambda>c. if c = sep then CHR ''/'' else c) s"

section \<open>One pattern element\<close>

text \<open>
  The loop of \<open>matchClass\<close> from \<open>p[i:]\<close>: \<open>Some (next, matched \<noteq> negate)\<close> at the closing
  bracket, \<open>None\<close> when the class is not terminated. \<open>class_item\<close> is one turn of it: the item's
  range \<open>lo..hi\<close> and what follows.
\<close>

definition class_lo :: "nat list \<Rightarrow> nat list" where
  "class_lo p = (case p of x # y # r \<Rightarrow> if x = R_bslash then y # r else p | _ \<Rightarrow> p)"

definition class_item :: "nat list \<Rightarrow> nat \<times> nat \<times> nat list" where
  "class_item p =
     (case class_lo p of
        lo # m # hi # r \<Rightarrow>
          if m = R_minus \<and> hi \<noteq> R_rbrack then (lo, hi, r) else (lo, lo, m # hi # r)
      | lo # r \<Rightarrow> (lo, lo, r)
      | [] \<Rightarrow> (0, 0, []))"

lemma class_item_shorter: "class_item (x # p) = (lo, hi, r) \<Longrightarrow> length r < length (x # p)"
  by (auto simp: class_item_def class_lo_def split: list.splits if_splits)

function class_loop :: "nat list \<Rightarrow> bool \<Rightarrow> bool \<Rightarrow> bool \<Rightarrow> nat \<Rightarrow> (nat list \<times> bool) option" where
  "class_loop [] first matched negate c = None"
| "class_loop (x # p) first matched negate c =
     (if x = R_rbrack \<and> \<not> first then Some (p, matched \<noteq> negate)
      else case class_item (x # p) of (lo, hi, r) \<Rightarrow>
        class_loop r False (matched \<or> lo \<le> c \<and> c \<le> hi) negate c)"
  by pat_completeness auto
termination
  by (relation "measure (\<lambda>(p, _). length p)")
    (auto dest!: sym [of "(_, _)" "class_item _"] class_item_shorter)

text \<open>\<open>matchClass(p, pi, c)\<close> with \<open>p[pi:] = [ # p\<close>.\<close>

definition matchClass :: "nat list \<Rightarrow> nat \<Rightarrow> (nat list \<times> bool) option" where
  "matchClass p c =
     (case p of
        x # r \<Rightarrow> if x = R_bang \<or> x = R_caret then class_loop r True False True c
                  else class_loop p True False False c
      | [] \<Rightarrow> class_loop [] True False False c)"

text \<open>\<open>matchOne(p, pi, c)\<close>: what follows the element at the head of \<open>p\<close>, and whether it matches.\<close>

fun matchOne :: "nat list \<Rightarrow> nat \<Rightarrow> nat list \<times> bool" where
  "matchOne [] c = ([], False)"
| "matchOne (x # p) c =
     (if x = R_quest then (p, True)
      else if x = R_bslash then
        (case p of y # r \<Rightarrow> (r, y = c) | [] \<Rightarrow> (p, c = R_bslash))
      else if x = R_lbrack then
        (case matchClass p c of Some (next, matched) \<Rightarrow> (next, matched) | None \<Rightarrow> (p, c = R_lbrack))
      else (p, x = c))"

lemma class_loop_shorter: "class_loop p first matched negate c = Some (q, b) \<Longrightarrow> length q < length p"
proof (induction p first matched negate c rule: class_loop.induct)
  case (2 x p first matched negate c)
  obtain lo hi r where item: "class_item (x # p) = (lo, hi, r)" by (cases "class_item (x # p)")
  show ?case
  proof (cases "x = R_rbrack \<and> \<not> first")
    case False
    with "2.prems" item have "class_loop r False (matched \<or> lo \<le> c \<and> c \<le> hi) negate c = Some (q, b)"
      by simp
    with "2.IH" [OF False item [symmetric] refl] class_item_shorter [OF item] show ?thesis by simp
  qed (use "2.prems" in auto)
qed simp

lemma matchClass_shorter: "matchClass p c = Some (q, b) \<Longrightarrow> length q < length p"
  by (auto simp: matchClass_def dest: class_loop_shorter split: if_splits list.splits
      simp del: class_loop.simps)

lemma matchOne_shorter: "matchOne (x # p) c = (q, b) \<Longrightarrow> length q \<le> length p"
  by (auto dest: matchClass_shorter split: if_splits list.splits option.splits)

section \<open>The wildcard matcher\<close>

definition skip_stars :: "nat list \<Rightarrow> nat list" where
  "skip_stars p = dropWhile (\<lambda>x. x = R_star) p"

text \<open>
  One turn of the loop of \<open>wildcardMatch\<close>: \<open>Inr b\<close> returns, \<open>Inl\<close> is the next loop state.
\<close>

type_synonym star_mark = "(nat list \<times> nat list) option"

definition backtrack :: "star_mark \<Rightarrow> (nat list \<times> nat list \<times> star_mark) + bool" where
  "backtrack sm =
     (case sm of
        Some (sp, m # ms) \<Rightarrow> Inl (sp, ms, Some (sp, ms))
      | _ \<Rightarrow> Inr False)"

definition wild_step :: "nat list \<Rightarrow> nat list \<Rightarrow> star_mark \<Rightarrow> (nat list \<times> nat list \<times> star_mark) + bool" where
  "wild_step p s sm =
     (case s of
        [] \<Rightarrow> Inr (skip_stars p = [])
      | c # s' \<Rightarrow>
          (case p of
             [] \<Rightarrow> backtrack sm
           | x # p' \<Rightarrow>
               if x = R_star then Inl (p', s, Some (p', s))
               else (case matchOne p c of
                  (next, True) \<Rightarrow> Inl (next, s', sm)
                | (_, False) \<Rightarrow> backtrack sm)))"

definition wild_measure :: "nat list \<Rightarrow> nat list \<Rightarrow> star_mark \<Rightarrow> nat \<times> nat \<times> nat" where
  "wild_measure p s sm =
     (case sm of
        None \<Rightarrow> (length p, 0, length s)
      | Some (sp, ms) \<Rightarrow> (max (length p) (length sp), length ms, length s))"

lemma backtrack_Inl: "backtrack sm = Inl st \<Longrightarrow> \<exists>sp m ms. sm = Some (sp, m # ms) \<and> st = (sp, ms, Some (sp, ms))"
  by (auto simp: backtrack_def split: option.splits list.splits)

lemma wild_step_cases [consumes 1, case_names star one retry]:
  assumes "wild_step p s sm = Inl st"
  obtains p' where "p = R_star # p'" "s \<noteq> []" "st = (p', s, Some (p', s))"
  | x q c s' n where "p = x # q" "x \<noteq> R_star" "s = c # s'" "matchOne p c = (n, True)" "st = (n, s', sm)"
  | sp m ms where "s \<noteq> []" "sm = Some (sp, m # ms)" "st = (sp, ms, Some (sp, ms))"
  using assms
  by (auto simp: wild_step_def dest!: backtrack_Inl
      split: list.splits if_splits prod.splits bool.splits simp del: matchOne.simps)

lemma wild_step_measure:
  assumes "wild_step p s sm = Inl (p', s', sm')"
  shows "(wild_measure p' s' sm', wild_measure p s sm) \<in> less_than <*lex*> less_than <*lex*> less_than"
  using assms
proof (cases rule: wild_step_cases)
  case (one x q c t n)
  then have "length n \<le> length q" by (auto dest: matchOne_shorter simp del: matchOne.simps)
  with one show ?thesis by (auto simp: wild_measure_def max_def split: option.splits)
qed (auto simp: wild_measure_def max_def split: option.splits)

function wild_loop :: "nat list \<Rightarrow> nat list \<Rightarrow> star_mark \<Rightarrow> bool" where
  "wild_loop p s sm =
     (case wild_step p s sm of
        Inr b \<Rightarrow> b
      | Inl (p', s', sm') \<Rightarrow> wild_loop p' s' sm')"
  by pat_completeness auto
termination
  by (relation "inv_image (less_than <*lex*> less_than <*lex*> less_than) (\<lambda>(p, s, sm). wild_measure p s sm)")
    (auto intro!: wild_step_measure simp del: in_lex_prod)

declare wild_loop.simps [simp del]

lemma wild_loop_Inr: "wild_step p s sm = Inr b \<Longrightarrow> wild_loop p s sm = b"
  by (subst wild_loop.simps) simp

lemma wild_loop_Inl: "wild_step p s sm = Inl (p', s', sm') \<Longrightarrow> wild_loop p s sm = wild_loop p' s' sm'"
  by (subst wild_loop.simps) simp

definition wildcardMatch :: "nat list \<Rightarrow> nat list \<Rightarrow> bool" where
  "wildcardMatch p s = wild_loop p s None"

section \<open>Whole-segment double stars\<close>

abbreviation "DStar \<equiv> ''**''"

text \<open>Adjacent \<open>**\<close> segments collapse to one: \<open>dedup\<close> grows at its end.\<close>

definition dedup_step :: "string list \<Rightarrow> string \<Rightarrow> string list" where
  "dedup_step dedup seg =
     (if seg = DStar \<and> dedup \<noteq> [] \<and> last dedup = DStar then dedup else dedup @ [seg])"

definition dedup_segs :: "string list \<Rightarrow> string list" where
  "dedup_segs segs = foldl dedup_step [] segs"

definition maxDoubleStarSegments :: nat where
  "maxDoubleStarSegments = 12"

definition star_indices :: "string list \<Rightarrow> nat list" where
  "star_indices segs = filter (\<lambda>i. segs ! i = DStar) [0..<length segs]"

text \<open>The segments kept for one \<open>mask\<close>: bit \<open>b\<close> of it drops the \<open>b\<close>-th star segment.\<close>

definition dropped :: "nat list \<Rightarrow> nat \<Rightarrow> nat set" where
  "dropped starIdx msk = set (map snd (filter (\<lambda>(b, idx). odd (msk div 2 ^ b)) (enumerate 0 starIdx)))"

definition kept_segs :: "string list \<Rightarrow> nat set \<Rightarrow> string list" where
  "kept_segs segs drop_set = map snd (filter (\<lambda>(i, seg). i \<notin> drop_set) (enumerate 0 segs))"

definition doubleStarVariants :: "string \<Rightarrow> string list" where
  "doubleStarVariants pattern =
     (if \<not> Contains pattern DStar then [pattern]
      else
        let segs = dedup_segs (Split pattern CHR ''/'');
            starIdx = star_indices segs in
        if starIdx = [] then [pattern]
        else
          let starIdx = take maxDoubleStarSegments starIdx in
          map (\<lambda>msk. Join (kept_segs segs (dropped starIdx msk)) CHR ''/'') [0..<2 ^ length starIdx])"

definition globMatch :: "string \<Rightarrow> string \<Rightarrow> bool" where
  "globMatch pattern target =
     list_ex (\<lambda>variant. wildcardMatch (runes variant) (runes target)) (doubleStarVariants pattern)"

definition matches :: "char \<Rightarrow> string \<Rightarrow> string \<Rightarrow> string \<Rightarrow> bool" where
  "matches sep pattern toolName target =
     (case ParsePattern pattern of
        None \<Rightarrow> False
      | Some (pToolName, argGlob) \<Rightarrow>
          if pToolName \<noteq> toolName then False
          else globMatch argGlob (normalizePathSeparators sep target))"

section \<open>What the matcher means\<close>

text \<open>
  The declarative reading of a pattern: \<open>*\<close> stands for any run of runes, every other element
  for one rune. \<open>wildcardMatch\<close> keeps only the last star it passed to return to; that this
  loses no match is the theorem below.
\<close>

inductive glob :: "nat list \<Rightarrow> nat list \<Rightarrow> bool" where
  glob_end: "glob [] []"
| glob_star: "glob p v \<Longrightarrow> glob (R_star # p) (u @ v)"
| glob_one: "x \<noteq> R_star \<Longrightarrow> matchOne (x # p) c = (n, True) \<Longrightarrow> glob n s \<Longrightarrow> glob (x # p) (c # s)"

declare matchOne.simps(2) [simp del]

inductive_cases glob_ConsE: "glob (x # p) s"
inductive_simps glob_Nil_iff: "glob [] s"

lemma glob_star_iff: "glob (R_star # p) s \<longleftrightarrow> (\<exists>u v. s = u @ v \<and> glob p v)"
  by (blast elim: glob_ConsE intro: glob_star)

lemma glob_star_step:
  "glob (R_star # p) s \<longleftrightarrow> glob p s \<or> (\<exists>m ms. s = m # ms \<and> glob (R_star # p) ms)"
  unfolding glob_star_iff by (metis append_Cons append_Nil list.exhaust)

lemma glob_star_absorb: "glob (R_star # p) v \<Longrightarrow> glob (R_star # p) (u @ v)"
  unfolding glob_star_iff by (metis append_assoc)

lemma glob_empty_input: "glob p [] \<longleftrightarrow> skip_stars p = []"
proof (induction p)
  case Nil
  then show ?case by (simp add: skip_stars_def glob_Nil_iff)
next
  case (Cons x p)
  then show ?case
    by (cases "x = R_star") (auto simp: skip_stars_def glob_star_iff elim: glob_ConsE)
qed

lemma class_loop_next:
  "class_loop p f m g c = Some (q, b) \<Longrightarrow> \<exists>b'. class_loop p f m' g d = Some (q, b')"
proof (induction p f m g c arbitrary: m' rule: class_loop.induct)
  case (2 x p f m g c)
  obtain lo hi r where item: "class_item (x # p) = (lo, hi, r)" by (cases "class_item (x # p)")
  show ?case
  proof (cases "x = R_rbrack \<and> \<not> f")
    case False
    with "2.prems" item have "class_loop r False (m \<or> lo \<le> c \<and> c \<le> hi) g c = Some (q, b)"
      by simp
    from "2.IH" [OF False item [symmetric] refl this] False item show ?thesis
      by (simp only: class_loop.simps if_False prod.case)
  qed (use "2.prems" in auto)
qed simp

lemma matchClass_next: "matchClass p c = Some (q, b) \<Longrightarrow> \<exists>b'. matchClass p d = Some (q, b')"
  by (auto simp: matchClass_def dest: class_loop_next split: if_splits list.splits simp del: class_loop.simps)

lemma matchClass_None: "matchClass p c = None \<longleftrightarrow> matchClass p d = None"
  by (metis matchClass_next not_None_eq surj_pair)

lemma matchOne_next: "fst (matchOne p c) = fst (matchOne p d)"
proof (cases p)
  case (Cons x r)
  show ?thesis
  proof (cases "matchClass r c")
    case None
    then have "matchClass r d = None" using matchClass_None by blast
    with None Cons show ?thesis by (auto simp: matchOne.simps split: list.splits)
  next
    case (Some qb)
    then obtain b' where "matchClass r d = Some (fst qb, b')"
      using matchClass_next [of r c "fst qb" "snd qb" d] by auto
    with Some Cons show ?thesis by (cases qb) (auto simp: matchOne.simps split: list.splits)
  qed
qed simp

lemma glob_one_iff:
  "x \<noteq> R_star \<Longrightarrow> glob (x # p) (c # s) \<longleftrightarrow> snd (matchOne (x # p) c) \<and> glob (fst (matchOne (x # p) c)) s"
  by (cases "matchOne (x # p) c") (auto elim!: glob_ConsE intro: glob_one)

text \<open>\<open>seg p u q\<close>: the star-free elements between \<open>p\<close> and \<open>q\<close> match \<open>u\<close>, one rune each.\<close>

inductive seg :: "nat list \<Rightarrow> nat list \<Rightarrow> nat list \<Rightarrow> bool" where
  seg_Nil: "seg p [] p"
| seg_one: "x \<noteq> R_star \<Longrightarrow> matchOne (x # p) c = (n, True) \<Longrightarrow> seg n u q \<Longrightarrow> seg (x # p) (c # u) q"

lemma seg_snoc:
  "seg p u (x # r) \<Longrightarrow> x \<noteq> R_star \<Longrightarrow> matchOne (x # r) c = (n, True) \<Longrightarrow> seg p (u @ [c]) n"
  by (induction p u "x # r" rule: seg.induct) (auto intro: seg.intros)

lemma seg_glob:
  "seg p u q \<Longrightarrow> glob p v \<Longrightarrow> \<exists>w v'. v = w @ v' \<and> length w = length u \<and> glob q v'"
proof (induction arbitrary: v rule: seg.induct)
  case (seg_Nil p)
  then show ?case by auto
next
  case (seg_one x p c n u q)
  from seg_one.prems seg_one.hyps(1) obtain d v1 where v: "v = d # v1"
    by (auto elim: glob_ConsE)
  with seg_one.prems seg_one.hyps(1) have "glob (fst (matchOne (x # p) d)) v1"
    by (simp add: glob_one_iff)
  then have "glob n v1" using seg_one.hyps(2) matchOne_next [of "x # p" d c] by simp
  from seg_one.IH [OF this] v show ?case by (metis append_Cons length_Cons)
qed

definition mark_ok :: "nat list \<Rightarrow> nat list \<Rightarrow> star_mark \<Rightarrow> bool" where
  "mark_ok p s sm = (case sm of None \<Rightarrow> True | Some (sp, ms) \<Rightarrow> \<exists>u. ms = u @ s \<and> seg sp u p)"

definition retry_match :: "star_mark \<Rightarrow> bool" where
  "retry_match sm = (case sm of Some (sp, m # ms) \<Rightarrow> glob (R_star # sp) ms | _ \<Rightarrow> False)"

text \<open>A later match of the last star's tail leaves a tail that the rest of the pattern matches.\<close>

lemma retry_tail:
  assumes "mark_ok p s sm" "retry_match sm"
  shows "\<exists>w v. s = w @ v \<and> w \<noteq> [] \<and> glob p v"
proof -
  obtain sp m ms where sm: "sm = Some (sp, m # ms)" and star: "glob (R_star # sp) ms"
    using assms(2) by (cases sm; cases "snd (the sm)") (auto simp: retry_match_def split: prod.splits)
  from assms(1) sm obtain u where u: "m # ms = u @ s" "seg sp u p"
    by (auto simp: mark_ok_def)
  from star obtain a b where ab: "ms = a @ b" "glob sp b" by (auto simp: glob_star_iff)
  from seg_glob [OF u(2) ab(2)] obtain w v where wv: "b = w @ v" "length w = length u" "glob p v"
    by blast
  have eq: "(m # a @ w) @ v = u @ s" using u(1) ab(1) wv(1) by simp
  have len: "length u < length (m # a @ w)" using wv(2) by simp
  then have "length u \<le> length (m # a @ w)" by simp
  with eq obtain x where x: "m # a @ w = u @ x" "s = x @ v"
    by (metis append_eq_append_conv_if append_take_drop_id)
  then have "x \<noteq> []" using len by auto
  with x wv(3) show ?thesis by blast
qed

lemma retry_match_step:
  "retry_match (Some (sp, m # ms)) \<longleftrightarrow> glob sp ms \<or> retry_match (Some (sp, ms))"
  using glob_star_step [of sp ms] by (auto simp: retry_match_def split: list.splits)

lemma backtrack_correct:
  assumes "mark_ok p s sm" "s \<noteq> []" "wild_step p s sm = backtrack sm"
    and "\<And>p' s' sm'. wild_step p s sm = Inl (p', s', sm') \<Longrightarrow> mark_ok p' s' sm' \<Longrightarrow>
      wild_loop p' s' sm' \<longleftrightarrow> glob p' s' \<or> retry_match sm'"
  shows "wild_loop p s sm \<longleftrightarrow> retry_match sm"
proof (cases sm)
  case None
  with assms(3) show ?thesis by (auto simp: backtrack_def retry_match_def dest: wild_loop_Inr)
next
  case (Some pm)
  with assms(1,2) obtain sp m ms where pm: "pm = (sp, m # ms)"
    by (cases pm; cases "snd pm") (auto simp: mark_ok_def)
  then have st: "wild_step p s sm = Inl (sp, ms, Some (sp, ms))"
    using assms(3) Some by (simp add: backtrack_def)
  have "mark_ok sp ms (Some (sp, ms))" by (auto simp: mark_ok_def intro: seg_Nil)
  from assms(4) [OF st this] show ?thesis
    using wild_loop_Inl [OF st] Some pm by (simp add: retry_match_step)
qed

lemma wild_loop_correct:
  "mark_ok p s sm \<Longrightarrow> wild_loop p s sm \<longleftrightarrow> glob p s \<or> retry_match sm"
proof (induction p s sm rule: wild_loop.induct)
  case (1 p s sm)
  note IH = "1.IH" [OF _ refl refl] and ok = "1.prems"
  show ?case
  proof (cases s)
    case Nil
    have "\<not> retry_match sm" using retry_tail [OF ok] Nil by auto
    with Nil show ?thesis
      by (simp add: wild_loop_Inr wild_step_def glob_empty_input)
  next
    case s: (Cons c s')
    show ?thesis
    proof (cases p)
      case Nil
      with s have "wild_step p s sm = backtrack sm" by (simp add: wild_step_def)
      from backtrack_correct [OF ok _ this IH] s Nil show ?thesis by (simp add: glob_Nil_iff)
    next
      case p: (Cons x p')
      consider "x = R_star" | "x \<noteq> R_star" "snd (matchOne p c)" | "x \<noteq> R_star" "\<not> snd (matchOne p c)"
        by blast
      then show ?thesis
      proof cases
        case 1
        with s p have st: "wild_step p s sm = Inl (p', s, Some (p', s))" by (simp add: wild_step_def)
        have "mark_ok p' s (Some (p', s))" by (auto simp: mark_ok_def intro: seg_Nil)
        from IH [OF st this] have "wild_loop p s sm \<longleftrightarrow> glob p' s \<or> retry_match (Some (p', s))"
          using wild_loop_Inl [OF st] by simp
        also have "\<dots> \<longleftrightarrow> glob p s"
          using glob_star_step [of p' s] s p 1 by (simp add: retry_match_def)
        also have "\<dots> \<longleftrightarrow> glob p s \<or> retry_match sm"
          using retry_tail [OF ok] glob_star_absorb [of p'] p 1 by blast
        finally show ?thesis .
      next
        case 2
        then obtain n where m: "matchOne p c = (n, True)" by (cases "matchOne p c") auto
        with s p 2 have st: "wild_step p s sm = Inl (n, s', sm)" by (simp add: wild_step_def)
        have "mark_ok n s' sm"
          using ok s p m 2 seg_snoc [of _ _ x p' c n] by (fastforce simp: mark_ok_def split: option.splits)
        from IH [OF st this] show ?thesis
          using wild_loop_Inl [OF st] m s p 2 by (simp add: glob_one_iff)
      next
        case 3
        then obtain n where m: "matchOne p c = (n, False)" by (cases "matchOne p c") auto
        with s p 3 have "wild_step p s sm = backtrack sm" by (simp add: wild_step_def)
        from backtrack_correct [OF ok _ this IH] s p m 3 show ?thesis by (simp add: glob_one_iff)
      qed
    qed
  qed
qed

text \<open>
  C31. The iterative matcher agrees with the declarative reading of the pattern for every pattern
  and every target: keeping only the last star to return to loses no match and adds none.
\<close>

theorem wildcardMatch_iff_glob: "wildcardMatch p s \<longleftrightarrow> glob p s"
  using wild_loop_correct [of p s None] by (simp add: wildcardMatch_def mark_ok_def retry_match_def)

section \<open>Double stars never lose the plain reading\<close>

lemma length_doubleStarVariants: "length (doubleStarVariants p) \<le> 2 ^ maxDoubleStarSegments"
  by (auto simp: doubleStarVariants_def Let_def maxDoubleStarSegments_def min_def
      intro!: power_increasing [of _ 12 2, simplified])

lemma dropped_zero [simp]: "dropped starIdx 0 = {}"
  by (simp add: dropped_def)

lemma kept_segs_empty [simp]: "kept_segs segs {} = segs"
  by (simp add: kept_segs_def)

text \<open>Mask 0 keeps every segment, so the pattern with adjacent double stars merged is a variant.\<close>

lemma variant_zero:
  "Contains p DStar \<Longrightarrow> star_indices (dedup_segs (Split p CHR ''/'')) \<noteq> [] \<Longrightarrow>
    Join (dedup_segs (Split p CHR ''/'')) CHR ''/'' \<in> set (doubleStarVariants p)"
  by (auto simp: doubleStarVariants_def Let_def image_iff intro!: bexI [of _ 0])

lemma globMatch_no_dstar:
  "\<not> Contains p DStar \<Longrightarrow> globMatch p t \<longleftrightarrow> glob (runes p) (runes t)"
  by (simp add: globMatch_def doubleStarVariants_def wildcardMatch_iff_glob)

lemma globMatch_iff:
  "globMatch p t \<longleftrightarrow> (\<exists>v \<in> set (doubleStarVariants p). glob (runes v) (runes t))"
  by (simp add: globMatch_def list_ex_iff wildcardMatch_iff_glob)

text \<open>Every variant drops only whole \<open>**\<close> segments.\<close>

lemma dropped_star:
  "i \<in> dropped (take n (star_indices segs)) msk \<Longrightarrow> i < length segs \<and> segs ! i = DStar"
  by (auto simp: dropped_def star_indices_def enumerate_eq_zip dest!: set_zip_rightD in_set_takeD)

lemma kept_segs_others:
  assumes "\<And>i. i \<in> D \<Longrightarrow> i < length segs \<Longrightarrow> segs ! i = DStar"
  shows "filter (\<lambda>s. s \<noteq> DStar) (kept_segs segs D) = filter (\<lambda>s. s \<noteq> DStar) segs"
proof -
  have "filter (\<lambda>s. s \<noteq> DStar) (kept_segs segs D)
      = map snd (filter (\<lambda>(i, s). i \<notin> D \<and> s \<noteq> DStar) (enumerate 0 segs))"
    by (simp add: kept_segs_def filter_map comp_def case_prod_unfold conj_commute)
  also have "filter (\<lambda>(i, s). i \<notin> D \<and> s \<noteq> DStar) (enumerate 0 segs)
      = filter (\<lambda>(i, s). s \<noteq> DStar) (enumerate 0 segs)"
    by (rule filter_cong) (auto simp: in_set_enumerate_eq assms)
  also have "map snd \<dots> = filter (\<lambda>s. s \<noteq> DStar) segs"
    using filter_map [of "\<lambda>s. s \<noteq> DStar" snd "enumerate 0 segs"]
    by (simp add: comp_def case_prod_unfold)
  finally show ?thesis .
qed

subsection \<open>One double-star segment\<close>

lemma dedup_step_append:
  "DStar \<notin> set segs \<Longrightarrow> foldl dedup_step acc segs = acc @ segs"
  by (induction segs arbitrary: acc) (auto simp: dedup_step_def)

lemma dedup_one_star:
  assumes "DStar \<notin> set A" "DStar \<notin> set B"
  shows "dedup_segs (A @ DStar # B) = A @ DStar # B"
proof -
  have "foldl dedup_step [] (A @ DStar # B) = foldl dedup_step (dedup_step A DStar) B"
    using dedup_step_append [OF assms(1), of "[]"] by simp
  also have "dedup_step A DStar = A @ [DStar]"
    using assms(1) last_in_set [of A] unfolding dedup_step_def by metis
  finally show ?thesis
    using dedup_step_append [OF assms(2)] by (simp add: dedup_segs_def)
qed

lemma star_indices_one:
  assumes "DStar \<notin> set A" "DStar \<notin> set B"
  shows "star_indices (A @ DStar # B) = [length A]"
proof -
  let ?segs = "A @ DStar # B"
  have iff: "i < length ?segs \<Longrightarrow> ?segs ! i = DStar \<longleftrightarrow> i = length A" for i
  proof -
    assume i: "i < length ?segs"
    consider "i < length A" | "i = length A" | k where "i = length A + Suc k" "k < length B"
      using i by (metis add_Suc_right length_append length_Cons less_imp_Suc_add linorder_neqE_nat
          nat_add_left_cancel_less Suc_less_eq)
    then show ?thesis
    proof cases
      case 1
      then have "A ! i \<noteq> DStar" using assms(1) nth_mem by metis
      with 1 show ?thesis by (simp add: nth_append)
    next
      case 3
      then have "B ! k \<noteq> DStar" using assms(2) nth_mem by metis
      with 3 show ?thesis by (simp add: nth_append)
    qed simp
  qed
  have "star_indices ?segs = filter (\<lambda>i. i = length A) [0..<length ?segs]"
    unfolding star_indices_def
    by (rule filter_cong [OF refl]) (simp only: set_upt atLeastLessThan_iff iff)
  also have "[0..<length ?segs] = [0..<length A] @ [length A..<length A + Suc (length B)]"
    using upt_add_eq_append [of 0 "length A" "Suc (length B)"] by simp
  also have "[length A..<length A + Suc (length B)] = length A # [Suc (length A)..<length A + Suc (length B)]"
    by (rule upt_conv_Cons) simp
  finally show ?thesis by (simp add: filter_False)
qed

lemma kept_segs_one: "kept_segs (A @ x # B) {length A} = A @ B"
proof -
  have "enumerate 0 (A @ x # B) = enumerate 0 A @ (length A, x) # enumerate (Suc (length A)) B"
    by (simp add: enumerate_append_eq)
  moreover have "filter (\<lambda>(i, seg). i \<notin> {length A}) (enumerate 0 A) = enumerate 0 A"
    by (rule filter_True) (auto simp: in_set_enumerate_eq)
  moreover have "filter (\<lambda>(i, seg). i \<notin> {length A}) (enumerate (Suc (length A)) B) = enumerate (Suc (length A)) B"
    by (rule filter_True) (auto simp: in_set_enumerate_eq)
  ultimately show ?thesis by (simp add: kept_segs_def)
qed

lemma doubleStarVariants_one:
  assumes "DStar \<notin> set A" "DStar \<notin> set B" "\<forall>s \<in> set (A @ B). CHR ''/'' \<notin> set s"
  shows "doubleStarVariants (Join (A @ DStar # B) CHR ''/'')
    = [Join (A @ DStar # B) CHR ''/'', Join (A @ B) CHR ''/'']"
proof -
  let ?segs = "A @ DStar # B"
  have split: "Split (Join ?segs CHR ''/'') CHR ''/'' = ?segs"
    using assms(3) by (intro Split_Join) auto
  have "sublist DStar (Join ?segs CHR ''/'')" by (rule sublist_Join) simp
  then have "Contains (Join ?segs CHR ''/'') DStar" by (simp add: Contains_iff_sublist)
  moreover have "dropped [length A] 1 = {length A}" by (simp add: dropped_def)
  moreover have "[0..<2 ^ length [length A]] = [0, 1::nat]" by (simp add: upt_rec)
  ultimately show ?thesis
    using split dedup_one_star [OF assms(1,2)] star_indices_one [OF assms(1,2)] kept_segs_one [of A DStar B]
    by (simp add: doubleStarVariants_def Let_def maxDoubleStarSegments_def)
qed

text \<open>
  A double star that forms a whole path segment matches exactly what the plain reading of
  the pattern matches, plus what is matched when that segment is absent (zero directories):
  \<open>docs/**\<close> matches \<open>docs\<close> and \<open>src/**/x.go\<close> matches \<open>src/x.go\<close>. \<open>A\<close> and \<open>B\<close> are the segments
  before and after the only double-star segment of the pattern.
\<close>

theorem double_star_zero_directories:
  assumes "DStar \<notin> set A" "DStar \<notin> set B" "\<forall>s \<in> set (A @ B). CHR ''/'' \<notin> set s"
  shows "globMatch (Join (A @ DStar # B) CHR ''/'') target \<longleftrightarrow>
    glob (runes (Join (A @ DStar # B) CHR ''/'')) (runes target)
    \<or> glob (runes (Join (A @ B) CHR ''/'')) (runes target)"
  unfolding globMatch_iff doubleStarVariants_one [OF assms] by simp

theorem double_star_zero_directories_witness:
  "globMatch (Join ([''src''] @ DStar # [''x.go'']) CHR ''/'') ''src/x.go''
    \<longleftrightarrow> glob (runes (Join ([''src''] @ DStar # [''x.go'']) CHR ''/'')) (runes ''src/x.go'')
      \<or> glob (runes (Join ([''src''] @ [''x.go'']) CHR ''/'')) (runes ''src/x.go'')"
  by (rule double_star_zero_directories) simp_all

end
