(* ===== verification/Permission_Rules.thy ===== *)
theory Permission_Rules
  imports Permission_Types Glob_Match
begin

text \<open>
  Permission rules (\<open>rules.go\<close>, \<open>session_rule.go\<close>): merging two rule sets, the first matching
  rule in the precedence deny, ask, allow, and the exact rule that "always allow" creates.

  The lookup is a client of the pattern matcher through the locale \<open>rule_lookup\<close>: it needs
  only a match predicate. The interpretation is on \<open>matches\<close> of theory \<open>Glob_Match\<close>.
\<close>

section \<open>Merge\<close>

definition Empty :: "rules \<Rightarrow> bool" where
  "Empty r = (length (AlwaysAllow r) = 0 \<and> length (AlwaysDeny r) = 0 \<and> length (AlwaysAsk r) = 0)"

text \<open>\<open>allRules\<close>: a map from decision and source to the rules appended under that key.\<close>

type_synonym rule_table = "decision \<times> source \<rightharpoonup> rule list"

definition table_append :: "decision \<Rightarrow> rule_table \<Rightarrow> rule \<Rightarrow> rule_table" where
  "table_append d m r =
     (let key = (d, rule_Source r) in
      m(key \<mapsto> (case m key of None \<Rightarrow> [r] | Some rs \<Rightarrow> rs @ [r])))"

definition merge_table :: "rules \<Rightarrow> rules \<Rightarrow> rule_table" where
  "merge_table a b =
     (let m = Map.empty;
          m = foldl (table_append DecisionAllow) m (AlwaysAllow a);
          m = foldl (table_append DecisionAllow) m (AlwaysAllow b);
          m = foldl (table_append DecisionDeny) m (AlwaysDeny a);
          m = foldl (table_append DecisionDeny) m (AlwaysDeny b);
          m = foldl (table_append DecisionAsk) m (AlwaysAsk a);
          m = foldl (table_append DecisionAsk) m (AlwaysAsk b)
      in m)"

definition merge_sources :: "source list" where
  "merge_sources = [SourcePolicy, SourceUser, SourceProject, SourceLocal, SourceCLI, SourceSession]"

definition collect_bucket :: "rule_table \<Rightarrow> decision \<Rightarrow> rule list" where
  "collect_bucket m d =
     foldl (\<lambda>acc src. case m (d, src) of Some rs \<Rightarrow> acc @ rs | None \<Rightarrow> acc) [] merge_sources"

definition Merge :: "rules \<Rightarrow> rules \<Rightarrow> rules" where
  "Merge a b =
     (let m = merge_table a b in
      \<lparr>AlwaysAllow = collect_bucket m DecisionAllow,
       AlwaysDeny = collect_bucket m DecisionDeny,
       AlwaysAsk = collect_bucket m DecisionAsk\<rparr>)"

section \<open>First matching rule\<close>

definition first_match :: "(string \<Rightarrow> bool) \<Rightarrow> rules \<Rightarrow> (rule \<times> decision) option" where
  "first_match m r =
     (case List.find (\<lambda>x. m (Pattern x)) (AlwaysDeny r) of
        Some x \<Rightarrow> Some (x, DecisionDeny)
      | None \<Rightarrow>
     (case List.find (\<lambda>x. m (Pattern x)) (AlwaysAsk r) of
        Some x \<Rightarrow> Some (x, DecisionAsk)
      | None \<Rightarrow>
     (case List.find (\<lambda>x. m (Pattern x)) (AlwaysAllow r) of
        Some x \<Rightarrow> Some (x, DecisionAllow)
      | None \<Rightarrow> None)))"

definition FirstMatchingRule :: "char \<Rightarrow> rules \<Rightarrow> string \<Rightarrow> string \<Rightarrow> (rule \<times> decision) option" where
  "FirstMatchingRule sep r toolName target = first_match (\<lambda>p. matches sep p toolName target) r"

section \<open>The session rule\<close>

definition escapeGlob :: "string \<Rightarrow> string" where
  "escapeGlob s =
     concat (map (\<lambda>r. (if r = R_star \<or> r = R_quest \<or> r = R_lbrack \<or> r = R_bslash
                       then [CHR 92] else []) @ encode_rune r) (runes s))"

definition SessionAllowRule :: "char \<Rightarrow> string \<Rightarrow> string \<Rightarrow> rule option" where
  "SessionAllowRule sep toolName target =
     (let toolName = TrimSpace toolName; target = TrimSpace target in
      if toolName = [] \<or> target = [] \<or> ContainsAny toolName ''()'' then None
      else Some \<lparr>Pattern = toolName @ ''('' @ escapeGlob (normalizePathSeparators sep target) @ '')'',
                 rule_Source = SourceSession\<rparr>)"

section \<open>What Merge keeps\<close>

lemma foldl_table_append:
  "foldl (table_append d) m rs (d', src) =
     (if d' = d \<and> filter (\<lambda>r. rule_Source r = src) rs \<noteq> []
      then Some ((case m (d, src) of None \<Rightarrow> [] | Some xs \<Rightarrow> xs) @ filter (\<lambda>r. rule_Source r = src) rs)
      else m (d', src))"
proof (induction rs arbitrary: m)
  case (Cons r rs)
  then show ?case
    by (auto simp: table_append_def Let_def split: option.split)
qed simp

definition from_source :: "source \<Rightarrow> rule list \<Rightarrow> rule list" where
  "from_source src rs = filter (\<lambda>r. rule_Source r = src) rs"

lemma merge_table_entry:
  "(case merge_table a b (DecisionAllow, src) of None \<Rightarrow> [] | Some xs \<Rightarrow> xs)
     = from_source src (AlwaysAllow a @ AlwaysAllow b)"
  "(case merge_table a b (DecisionDeny, src) of None \<Rightarrow> [] | Some xs \<Rightarrow> xs)
     = from_source src (AlwaysDeny a @ AlwaysDeny b)"
  "(case merge_table a b (DecisionAsk, src) of None \<Rightarrow> [] | Some xs \<Rightarrow> xs)
     = from_source src (AlwaysAsk a @ AlwaysAsk b)"
  unfolding merge_table_def from_source_def Let_def by (auto simp: foldl_table_append)

lemma collect_bucket_concat:
  "collect_bucket m d = concat (map (\<lambda>src. case m (d, src) of None \<Rightarrow> [] | Some xs \<Rightarrow> xs) merge_sources)"
proof -
  have "foldl (\<lambda>acc src. case m (d, src) of Some rs \<Rightarrow> acc @ rs | None \<Rightarrow> acc) acc srcs =
      acc @ concat (map (\<lambda>src. case m (d, src) of None \<Rightarrow> [] | Some xs \<Rightarrow> xs) srcs)" for acc srcs
    by (induction srcs arbitrary: acc) (auto split: option.split)
  then show ?thesis by (simp add: collect_bucket_def)
qed

definition by_source :: "rule list \<Rightarrow> rule list" where
  "by_source rs = concat (map (\<lambda>src. from_source src rs) merge_sources)"

lemma Merge_buckets:
  "AlwaysAllow (Merge a b) = by_source (AlwaysAllow a @ AlwaysAllow b)"
  "AlwaysDeny (Merge a b) = by_source (AlwaysDeny a @ AlwaysDeny b)"
  "AlwaysAsk (Merge a b) = by_source (AlwaysAsk a @ AlwaysAsk b)"
  by (simp_all add: Merge_def Let_def collect_bucket_concat merge_table_entry by_source_def)

definition known_source :: "rule \<Rightarrow> bool" where
  "known_source r = (rule_Source r \<in> set merge_sources)"

definition known_sources :: "rules \<Rightarrow> bool" where
  "known_sources r = (list_all known_source (AlwaysAllow r) \<and> list_all known_source (AlwaysDeny r)
     \<and> list_all known_source (AlwaysAsk r))"

lemma set_by_source: "set (by_source rs) = {r \<in> set rs. known_source r}"
  by (auto simp: by_source_def from_source_def known_source_def)

lemma sorted_from_sources:
  "sorted srcs \<Longrightarrow> sorted (map rule_Source (concat (map (\<lambda>src. from_source src rs) srcs)))"
proof (induction srcs)
  case (Cons s srcs)
  have "sorted (map rule_Source (from_source s rs))"
    by (induction rs) (auto simp: from_source_def)
  with Cons show ?case by (auto simp: sorted_append from_source_def)
qed simp

lemma sorted_by_source: "sorted (map rule_Source (by_source rs))"
proof -
  have "sorted merge_sources" by (simp add: merge_sources_def less_eq_source_def)
  then show ?thesis unfolding by_source_def by (rule sorted_from_sources)
qed

lemma from_source_by_source:
  "src \<in> set merge_sources \<Longrightarrow> from_source src (by_source rs) = from_source src rs"
  by (auto simp: by_source_def from_source_def merge_sources_def)

lemma first_match_simps:
  "first_match m r = Some (x, DecisionDeny) \<longleftrightarrow> List.find (\<lambda>x. m (Pattern x)) (AlwaysDeny r) = Some x"
  by (auto simp: first_match_def split: option.splits)

definition bucket_hit :: "(string \<Rightarrow> bool) \<Rightarrow> rule list \<Rightarrow> bool" where
  "bucket_hit m rs = list_ex (\<lambda>x. m (Pattern x)) rs"

text \<open>The decision alone, as the precedence deny, ask, allow over the buckets.\<close>

definition rule_decision :: "(string \<Rightarrow> bool) \<Rightarrow> rules \<Rightarrow> decision option" where
  "rule_decision m r =
     (if bucket_hit m (AlwaysDeny r) then Some DecisionDeny
      else if bucket_hit m (AlwaysAsk r) then Some DecisionAsk
      else if bucket_hit m (AlwaysAllow r) then Some DecisionAllow else None)"

lemma find_hit: "(case List.find (\<lambda>x. m (Pattern x)) rs of None \<Rightarrow> False | Some _ \<Rightarrow> True) = bucket_hit m rs"
  by (auto simp: bucket_hit_def list_ex_iff find_None_iff find_Some_iff split: option.split)

lemma find_None_hit: "List.find (\<lambda>x. m (Pattern x)) rs = None \<longleftrightarrow> \<not> bucket_hit m rs"
  by (auto simp: bucket_hit_def list_ex_iff find_None_iff)

lemma map_snd_first_match: "map_option snd (first_match m r) = rule_decision m r"
  by (auto simp: first_match_def rule_decision_def find_None_hit [symmetric] split: option.splits)

lemma first_match_in:
  "first_match m r = Some (x, d) \<Longrightarrow> m (Pattern x) \<and>
    x \<in> set (case d of DecisionDeny \<Rightarrow> AlwaysDeny r | DecisionAsk \<Rightarrow> AlwaysAsk r | _ \<Rightarrow> AlwaysAllow r)"
  by (auto simp: first_match_def find_Some_iff split: option.splits)

lemma bucket_hit_by_source:
  "bucket_hit m (by_source rs) \<longleftrightarrow> (\<exists>x \<in> set rs. known_source x \<and> m (Pattern x))"
  by (auto simp: bucket_hit_def list_ex_iff set_by_source)

lemma bucket_hit_append [simp]: "bucket_hit m (a @ b) \<longleftrightarrow> bucket_hit m a \<or> bucket_hit m b"
  by (simp add: bucket_hit_def)

lemma bucket_hit_by_source_known:
  "list_all known_source rs \<Longrightarrow> bucket_hit m (by_source rs) = bucket_hit m rs"
  unfolding bucket_hit_by_source by (auto simp: bucket_hit_def list_all_iff list_ex_iff)

text \<open>
  \<open>Merge\<close> is a stable sort of both rule sets by source, bucket by bucket: the merged bucket
  is ordered policy, user, project, local, CLI, session, and within each source it holds the
  rules of \<open>a\<close> followed by those of \<open>b\<close>, duplicates included, in their original order.
\<close>

theorem Merge_stable_by_source:
  "sorted (map rule_Source (AlwaysDeny (Merge a b)))
    \<and> sorted (map rule_Source (AlwaysAsk (Merge a b)))
    \<and> sorted (map rule_Source (AlwaysAllow (Merge a b)))
    \<and> list_all (\<lambda>src.
        from_source src (AlwaysDeny (Merge a b)) = from_source src (AlwaysDeny a @ AlwaysDeny b)
      \<and> from_source src (AlwaysAsk (Merge a b)) = from_source src (AlwaysAsk a @ AlwaysAsk b)
      \<and> from_source src (AlwaysAllow (Merge a b)) = from_source src (AlwaysAllow a @ AlwaysAllow b))
      merge_sources"
  unfolding Merge_buckets list_all_iff
  by (simp add: sorted_by_source from_source_by_source)

text \<open>
  Merging never weakens a denial: with rules of the six known sources, the merged set denies
  a call exactly when one of the two sets denies it, asks exactly when one of them asks and
  neither denies, and allows only when neither set denies or asks.
\<close>

theorem Merge_decision:
  assumes "known_sources a" "known_sources b"
  shows "map_option snd (FirstMatchingRule sep (Merge a b) tool target) =
    (let da = map_option snd (FirstMatchingRule sep a tool target);
         db = map_option snd (FirstMatchingRule sep b tool target) in
     if da = Some DecisionDeny \<or> db = Some DecisionDeny then Some DecisionDeny
     else if da = Some DecisionAsk \<or> db = Some DecisionAsk then Some DecisionAsk
     else if da = Some DecisionAllow then da else db)"
  using assms
  by (auto simp: FirstMatchingRule_def map_snd_first_match rule_decision_def Merge_buckets
      bucket_hit_by_source_known known_sources_def Let_def)

definition demo_rules :: rules where
  "demo_rules = \<lparr>AlwaysAllow = [\<lparr>Pattern = ''Bash(ls)'', rule_Source = SourceUser\<rparr>],
                 AlwaysDeny = [], AlwaysAsk = []\<rparr>"

theorem Merge_decision_witness:
  "map_option snd (FirstMatchingRule CHR ''/'' (Merge demo_rules demo_rules) ''Bash'' ''ls'') =
    (let da = map_option snd (FirstMatchingRule CHR ''/'' demo_rules ''Bash'' ''ls'');
         db = map_option snd (FirstMatchingRule CHR ''/'' demo_rules ''Bash'' ''ls'') in
     if da = Some DecisionDeny \<or> db = Some DecisionDeny then Some DecisionDeny
     else if da = Some DecisionAsk \<or> db = Some DecisionAsk then Some DecisionAsk
     else if da = Some DecisionAllow then da else db)"
  by (rule Merge_decision)
    (simp_all add: known_sources_def demo_rules_def known_source_def merge_sources_def)

section \<open>The session rule matches exactly one call\<close>

definition is_meta :: "nat \<Rightarrow> bool" where
  "is_meta r = (r = R_star \<or> r = R_quest \<or> r = R_lbrack \<or> r = R_bslash)"

definition escape_runes :: "nat list \<Rightarrow> nat list" where
  "escape_runes rs = concat (map (\<lambda>r. (if is_meta r then [R_bslash] else []) @ [r]) rs)"

lemma encode_ascii: "r < 0x80 \<Longrightarrow> encode_rune r = [char_of r]"
  by (simp add: encode_rune_def encode_valid_def valid_rune_def)

lemma encode_rune_char: "(of_char c :: nat) < 0x80 \<Longrightarrow> encode_rune (of_char c) = [c]"
  by (simp add: encode_ascii)

lemma encode_bslash [simp]: "encode_rune R_bslash = [CHR 92]"
  using encode_rune_char [of "CHR 92"] by simp

lemma encode_star [simp]: "encode_rune R_star = ''*''"
  using encode_rune_char [of "CHR ''*''"] by simp

lemma encode_no_ascii:
  assumes "(of_char c :: nat) < 0x80" "of_char c \<noteq> r"
  shows "c \<notin> set (encode_rune r)"
proof -
  have "of_char x = r \<or> 0x80 \<le> (of_char x :: nat)" if "x \<in> set (encode_valid r)" "r < 0x110000" for x
    using that by (auto simp: encode_valid_def less_mult_imp_div_less split: if_splits)
  moreover have "0x80 \<le> (of_char x :: nat)" if "x \<in> set (encode_valid rune_error)" for x
    using that by (auto simp: encode_valid_def rune_error_def)
  ultimately show ?thesis using assms
    by (fastforce simp: encode_rune_def valid_rune_def split: if_splits)
qed

lemma escapeGlob_runes: "escapeGlob s = string_of_runes (escape_runes (runes s))"
proof -
  have "concat (map (\<lambda>r. (if r = R_star \<or> r = R_quest \<or> r = R_lbrack \<or> r = R_bslash
      then [CHR 92] else []) @ encode_rune r) rs) = string_of_runes (escape_runes rs)" for rs
    by (induction rs) (auto simp: string_of_runes_def escape_runes_def is_meta_def)
  then show ?thesis by (simp add: escapeGlob_def)
qed

lemma valid_escape_runes: "list_all valid_rune rs \<Longrightarrow> list_all valid_rune (escape_runes rs)"
  by (auto simp: escape_runes_def list_all_iff valid_rune_def)

lemma runes_escapeGlob: "runes (escapeGlob s) = escape_runes (runes s)"
  using runes_string_of_runes [of "escape_runes (runes s)" "[]"] valid_escape_runes [of "runes s"]
  by (simp add: escapeGlob_runes list_all_iff runes_valid)

lemma escapeGlob_not_Nil: "s \<noteq> [] \<Longrightarrow> escapeGlob s \<noteq> []"
proof
  assume "s \<noteq> []" "escapeGlob s = []"
  then have "escape_runes (runes s) = []" using runes_escapeGlob [of s] by simp
  then have "runes s = []" by (cases "runes s") (auto simp: escape_runes_def)
  with \<open>s \<noteq> []\<close> show False by (cases s) (auto simp: runes_def chunks_Cons split: option.splits)
qed

text \<open>An escaped target never contains two adjacent stars, so it has no double-star variants.\<close>

lemma Contains_append_no_star:
  "CHR ''*'' \<notin> set u \<Longrightarrow> Contains (u @ v) DStar \<longleftrightarrow> Contains v DStar"
  by (induction u) (auto split: list.split)

lemma escaped_no_dstar:
  "\<not> Contains (string_of_runes (escape_runes rs)) DStar
    \<and> \<not> HasPrefix (string_of_runes (escape_runes rs)) [CHR ''*'']"
proof (induction rs)
  case Nil
  then show ?case by (simp add: string_of_runes_def escape_runes_def)
next
  case (Cons r rs)
  let ?t = "string_of_runes (escape_runes rs)"
  have eq: "string_of_runes (escape_runes (r # rs)) = (if is_meta r then [CHR 92] else []) @ encode_rune r @ ?t"
    by (simp add: string_of_runes_def escape_runes_def)
  show ?case
  proof (cases "r = R_star")
    case True
    then have "string_of_runes (escape_runes (r # rs)) = CHR 92 # CHR ''*'' # ?t"
      unfolding eq by (simp add: is_meta_def)
    then show ?thesis using Cons by (simp add: HasPrefix_iff_prefix)
  next
    case False
    then have star: "CHR ''*'' \<notin> set (encode_rune r)"
      by (intro encode_no_ascii) auto
    have ne: "encode_rune r \<noteq> []" by (simp add: encode_rune_def encode_valid_def)
    with star have hd: "\<not> HasPrefix (encode_rune r @ ?t) [CHR ''*'']"
      by (cases "encode_rune r") auto
    have "\<not> Contains (encode_rune r @ ?t) DStar"
      using Contains_append_no_star [OF star] Cons by simp
    with hd show ?thesis by (auto simp: eq)
  qed
qed

lemma glob_escape_runes: "glob (escape_runes rs) t \<longleftrightarrow> rs = t"
proof (induction rs arbitrary: t)
  case Nil
  then show ?case by (auto simp: escape_runes_def glob_Nil_iff)
next
  case (Cons r rs)
  have eq: "escape_runes (r # rs) = (if is_meta r then [R_bslash] else []) @ r # escape_runes rs"
    by (simp add: escape_runes_def)
  show ?case
  proof (cases t)
    case Nil
    then show ?thesis
      by (auto simp: eq is_meta_def glob_empty_input skip_stars_def)
  next
    case (Cons c t')
    then show ?thesis
      using Cons.IH [of t'] by (auto simp: eq is_meta_def glob_one_iff matchOne.simps)
  qed
qed

lemma globMatch_escape: "globMatch (escapeGlob s) t \<longleftrightarrow> runes t = runes s"
proof -
  have "\<not> Contains (escapeGlob s) DStar"
    using escaped_no_dstar by (simp add: escapeGlob_runes)
  then have "globMatch (escapeGlob s) t \<longleftrightarrow> glob (escape_runes (runes s)) (runes t)"
    by (simp add: globMatch_no_dstar runes_escapeGlob)
  then show ?thesis by (auto simp: glob_escape_runes)
qed

lemma chunks_not_Nil: "s \<noteq> [] \<Longrightarrow> chunks s \<noteq> []"
  by (metis chunks_concat concat.simps(1) list.map(1))

text \<open>The pattern \<open>tool(g)\<close> parses back to \<open>tool\<close> and \<open>g\<close>.\<close>

lemma ParsePattern_build:
  assumes "trimmed tool" "tool \<noteq> []" "CHR ''('' \<notin> set tool" "g \<noteq> []"
  shows "ParsePattern (tool @ ''('' @ g @ '')'') = Some (tool, g)"
proof -
  let ?p = "tool @ ''('' @ g @ '')''"
  have "chunks (tool @ CHR ''('' # (g @ '')'')) = chunks tool @ chunks (CHR ''('' # (g @ '')''))"
    by (rule chunks_append_ascii) simp
  moreover have "chunks ((tool @ ''('' @ g) @ CHR '')'' # []) = chunks (tool @ ''('' @ g) @ chunks '')''"
    by (rule chunks_append_ascii) simp
  ultimately have ch: "chunks ?p = chunks tool @ chunks (CHR ''('' # (g @ '')''))"
      "chunks ?p = chunks (tool @ ''('' @ g) @ [(41, '')'')]"
    by (simp_all add: chunks_ascii)
  obtain c cs where c: "chunks tool = c # cs" using chunks_not_Nil [OF assms(2)] by (cases "chunks tool") auto
  then have "\<not> is_space (fst c)" using assms(1) by (simp add: trimmed_def)
  moreover have "hd (chunks ?p) = c" using ch(1) c by simp
  moreover have "last (chunks ?p) = (41, '')'')" unfolding ch(2) by simp
  ultimately have "trimmed ?p"
    by (cases "chunks ?p") (simp_all add: trimmed_def is_space_def)
  then have trim: "TrimSpace ?p = ?p" by simp
  have open': "takeWhile (\<lambda>c. c \<noteq> CHR ''('') ?p = tool"
    using assms(3) by (subst takeWhile_append2) auto
  have suf: "HasSuffix ?p '')''" using HasSuffix_append [of "tool @ ''('' @ g" "'')''"] by simp
  show ?thesis
    unfolding ParsePattern_def Let_def trim open' using assms(1,2,4) suf by auto
qed

lemma normalize_not_Nil: "s \<noteq> [] \<Longrightarrow> normalizePathSeparators sep s \<noteq> []"
  by (simp add: normalizePathSeparators_def)

definition same_target :: "char \<Rightarrow> string \<Rightarrow> string \<Rightarrow> bool" where
  "same_target sep a b = (runes (normalizePathSeparators sep a) = runes (normalizePathSeparators sep b))"

lemma SessionAllowRule_Some:
  assumes "SessionAllowRule sep tool target = Some r"
  shows "Pattern r = TrimSpace tool @ ''('' @ escapeGlob (normalizePathSeparators sep (TrimSpace target)) @ '')''"
    "TrimSpace tool \<noteq> []" "TrimSpace target \<noteq> []" "CHR ''('' \<notin> set (TrimSpace tool)"
    "rule_Source r = SourceSession"
proof -
  let ?bad = "TrimSpace tool = [] \<or> TrimSpace target = [] \<or> ContainsAny (TrimSpace tool) ''()''"
  have ok: "\<not> ?bad"
  proof
    assume ?bad
    then have "SessionAllowRule sep tool target = None"
      unfolding SessionAllowRule_def Let_def by (rule if_P)
    with assms show False by simp
  qed
  then have "SessionAllowRule sep tool target = Some
      \<lparr>Pattern = TrimSpace tool @ ''('' @ escapeGlob (normalizePathSeparators sep (TrimSpace target)) @ '')'',
       rule_Source = SourceSession\<rparr>"
    unfolding SessionAllowRule_def Let_def by (rule if_not_P)
  with assms have r: "r = \<lparr>Pattern = TrimSpace tool @ ''('' @
      escapeGlob (normalizePathSeparators sep (TrimSpace target)) @ '')'', rule_Source = SourceSession\<rparr>"
    by simp
  show "Pattern r = TrimSpace tool @ ''('' @ escapeGlob (normalizePathSeparators sep (TrimSpace target)) @ '')''"
    "rule_Source r = SourceSession" unfolding r by simp_all
  show "TrimSpace tool \<noteq> []" "TrimSpace target \<noteq> []" using ok by simp_all
  show "CHR ''('' \<notin> set (TrimSpace tool)"
  proof
    assume "CHR ''('' \<in> set (TrimSpace tool)"
    then have "ContainsAny (TrimSpace tool) ''()''"
      unfolding ContainsAny_def list_ex_iff by (rule bexI [rotated]) simp
    with ok show False by simp
  qed
qed

lemma session_rule_matches:
  assumes "SessionAllowRule sep tool target = Some r"
  shows "matches sep (Pattern r) tool' target' \<longleftrightarrow>
    tool' = TrimSpace tool \<and> same_target sep target' (TrimSpace target)"
proof -
  let ?g = "escapeGlob (normalizePathSeparators sep (TrimSpace target))"
  note r = SessionAllowRule_Some [OF assms]
  have "?g \<noteq> []" using r(3) by (intro escapeGlob_not_Nil normalize_not_Nil)
  then have "ParsePattern (Pattern r) = Some (TrimSpace tool, ?g)"
    unfolding r(1) by (intro ParsePattern_build r(2,4)) simp_all
  then show ?thesis
    by (auto simp: matches_def globMatch_escape same_target_def)
qed

text \<open>
  C30. An "always allow" rule matches exactly the approved call: the rule built for a tool and a
  target matches a later call if and only if it is the same tool (as trimmed) with the same
  target up to path separators, rune for rune. Glob metacharacters in the approved target never
  widen it.
\<close>

theorem session_rule_exact:
  assumes "SessionAllowRule sep tool target = Some r"
  shows "matches sep (Pattern r) tool' target' \<longleftrightarrow>
    tool' = TrimSpace tool \<and> same_target sep target' (TrimSpace target)"
  using assms by (rule session_rule_matches)

theorem session_rule_exact_witness:
  "SessionAllowRule CHR ''/'' ''Bash'' ''rm -rf *''
      = Some \<lparr>Pattern = ''Bash(rm -rf '' @ [CHR 92] @ ''*)'', rule_Source = SourceSession\<rparr>
    \<and> (matches CHR ''/'' (''Bash(rm -rf '' @ [CHR 92] @ ''*)'') ''Bash'' ''rm -rf /home'' \<longleftrightarrow>
         ''Bash'' = TrimSpace ''Bash'' \<and> same_target CHR ''/'' ''rm -rf /home'' (TrimSpace ''rm -rf *''))"
proof -
  have h: "SessionAllowRule CHR ''/'' ''Bash'' ''rm -rf *''
      = Some \<lparr>Pattern = ''Bash(rm -rf '' @ [CHR 92] @ ''*)'', rule_Source = SourceSession\<rparr>"
    by (simp add: SessionAllowRule_def Let_def TrimSpace_def trim_chunks_def chunks_ascii is_space_def
        ContainsAny_def escapeGlob_def normalizePathSeparators_def runes_ascii
        encode_rune_def encode_valid_def valid_rune_def char_of_def bit_0)
  show ?thesis using h session_rule_exact [OF h] by simp
qed

section \<open>Looking a call up, over any matcher\<close>

text \<open>
  What the resolver and a session rely on from a matcher: \<open>m\<close> decides whether a pattern covers a
  call, and \<open>session\<close> builds a rule that covers exactly the calls \<open>same\<close> as the approved one.
\<close>

locale rule_lookup =
  fixes m :: "string \<Rightarrow> 'call \<Rightarrow> bool"
    and session :: "'call \<Rightarrow> rule option"
    and same :: "'call \<Rightarrow> 'call \<Rightarrow> bool"
  assumes session_exact: "session c = Some r \<Longrightarrow> m (Pattern r) c' \<longleftrightarrow> same c c'"
begin

lemma deny_wins:
  "x \<in> set (AlwaysDeny rs) \<Longrightarrow> m (Pattern x) c \<Longrightarrow>
    rule_decision (\<lambda>p. m p c) rs = Some DecisionDeny"
  by (auto simp: rule_decision_def bucket_hit_def list_ex_iff)

lemma ask_beats_allow:
  "x \<in> set (AlwaysAsk rs) \<Longrightarrow> m (Pattern x) c \<Longrightarrow>
    rule_decision (\<lambda>p. m p c) rs \<in> {Some DecisionDeny, Some DecisionAsk}"
  by (auto simp: rule_decision_def bucket_hit_def list_ex_iff)

text \<open>Recording an approval changes the answer for calls equal to the approved one, and only those.\<close>

lemma allow_session:
  assumes "session c = Some r"
  shows "rule_decision (\<lambda>p. m p c') (rs\<lparr>AlwaysAllow := AlwaysAllow rs @ [r]\<rparr>) =
    (case rule_decision (\<lambda>p. m p c') rs of
       None \<Rightarrow> if same c c' then Some DecisionAllow else None
     | Some d \<Rightarrow> Some d)"
  using session_exact [OF assms, of c']
  by (auto simp: rule_decision_def bucket_hit_def)

end

interpretation perm: rule_lookup
  "\<lambda>p (tool, target). matches sep p tool target"
  "\<lambda>(tool, target). SessionAllowRule sep tool target"
  "\<lambda>(tool, target) (tool', target'). tool' = TrimSpace tool \<and> same_target sep target' (TrimSpace target)"
  for sep
  by unfold_locales (auto simp: session_rule_matches)

end
