(* ===== verification/Permission_Resolver.thy ===== *)
theory Permission_Resolver
  imports Permission_Rules
begin

text \<open>
  The permission resolver (\<open>internal/permissions/resolver.go\<close>) and the extraction of a call's
  permission target (\<open>ExtractTarget\<close> of \<open>match.go\<close>).

  The tool, the hook, the prompt and the classifier are the callbacks the code is given, so they
  are arguments of the model: a callback that may be nil is an \<open>option\<close>, the \<open>ok\<close> flag of its
  result is the outer \<open>option\<close> of what it returns, and a prompt that fails returns \<open>None\<close>. The
  observer's calls are returned as a list beside the result.
\<close>

section \<open>Permission targets\<close>

text \<open>
  What \<open>ExtractTarget\<close> can learn about an input of type \<open>any\<close>: the interfaces it implements
  (\<open>None\<close> when the type assertion fails), its JSON encoding (\<open>None\<close> for an error of
  \<open>json.Marshal\<close>), and the three string fields \<open>json.Unmarshal\<close> reads back.
\<close>

record 'i input_view =
  asPermissionTarget :: "'i \<Rightarrow> string option"
  asPath :: "'i \<Rightarrow> string option"
  asCommand :: "'i \<Rightarrow> string option"
  asQuery :: "'i \<Rightarrow> string option"
  marshal :: "'i \<Rightarrow> string option"
  unmarshalFields :: "string \<Rightarrow> (string \<times> string \<times> string) option"

definition nonempty :: "string option \<Rightarrow> string option" where
  "nonempty x = (case x of Some s \<Rightarrow> if s \<noteq> [] then Some s else None | None \<Rightarrow> None)"

definition ExtractTarget :: "'i input_view \<Rightarrow> 'i \<Rightarrow> string" where
  "ExtractTarget v input =
     (case asPermissionTarget v input of Some t \<Rightarrow> t | None \<Rightarrow>
      case nonempty (asPath v input) of Some p \<Rightarrow> p | None \<Rightarrow>
      case nonempty (asCommand v input) of Some c \<Rightarrow> c | None \<Rightarrow>
      case nonempty (asQuery v input) of Some q \<Rightarrow> q | None \<Rightarrow>
      case marshal v input of
        None \<Rightarrow> ''''
      | Some json \<Rightarrow>
          (case unmarshalFields v json of
             Some (path, command, query) \<Rightarrow>
               if path \<noteq> '''' then path
               else if command \<noteq> '''' then command
               else if query \<noteq> '''' then query
               else json
           | None \<Rightarrow> json))"

section \<open>Modes\<close>

fun mapToolPermissionToDecision :: "permission \<Rightarrow> decision" where
  "mapToolPermissionToDecision PermDeny = DecisionDeny"
| "mapToolPermissionToDecision PermAllow = DecisionAllow"
| "mapToolPermissionToDecision PermAsk = DecisionAsk"
| "mapToolPermissionToDecision (PermOther _) = DecisionDeny"

definition mk_result :: "decision \<Rightarrow> stage \<Rightarrow> string \<Rightarrow> 'i result" where
  "mk_result d s r = \<lparr>res_Decision = d, res_Stage = s, res_Reason = r,
     res_UpdatedInput = None, res_Rule = None\<rparr>"

text \<open>The branch shared by \<open>auto\<close>, \<open>acceptEdits\<close>, \<open>default\<close> and the fallback.\<close>

definition ask_like_default :: "decision \<Rightarrow> string \<Rightarrow> 'i result" where
  "ask_like_default d reason =
     (if d = DecisionAllow then mk_result DecisionAllow StageMode ''classifier allows this operation''
      else if d = DecisionDeny then mk_result DecisionDeny StageTool reason
      else mk_result DecisionAsk StageMode reason)"

fun applyMode :: "mode \<Rightarrow> decision \<Rightarrow> string \<Rightarrow> 'i result" where
  "applyMode ModeBypass d reason =
     (if d = DecisionDeny then mk_result DecisionDeny StageTool reason
      else mk_result DecisionAllow StageMode ''bypass mode allows this operation'')"
| "applyMode ModeDontAsk d reason =
     (if d = DecisionAllow
      then mk_result DecisionAllow StageMode ''classifier allows and dontAsk mode permits it''
      else mk_result DecisionDeny StageMode ''dontAsk mode denies operations that would require a prompt'')"
| "applyMode ModeAuto d reason = ask_like_default d reason"
| "applyMode ModeAcceptEdits d reason = ask_like_default d reason"
| "applyMode ModeDefault d reason = ask_like_default d reason"
| "applyMode ModePlan d reason =
     (if d = DecisionAllow then mk_result DecisionAllow StageMode ''plan mode allows read-only operations''
      else mk_result DecisionDeny StageMode ''plan mode denies operations that would modify state'')"
| "applyMode ModeBubble d reason =
     (if d = DecisionDeny then mk_result DecisionDeny StageTool reason
      else mk_result DecisionAsk StageMode ''bubble mode asks all decisions, deferring to parent'')"
| "applyMode (ModeOther _) d reason = ask_like_default d reason"

section \<open>The resolver\<close>

record tool_context =
  tc_PermissionMode :: tools_mode

definition neutralContext :: "'c tool_context_scheme \<Rightarrow> 'c tool_context_scheme" where
  "neutralContext ctx = ctx\<lparr>tc_PermissionMode := PermissionDefault\<rparr>"

type_synonym ('c, 'i) tool_checker = "'c tool_context_scheme \<Rightarrow> 'i \<Rightarrow> 'i permission_result"

record ('c, 'i) request =
  rq_Mode :: mode
  rq_Rules :: rules
  rq_Tool :: "('c, 'i) tool_checker option"
  rq_ToolName :: string
  rq_Input :: 'i
  rq_ToolContext :: "'c tool_context_scheme"

record prompt =
  prompt_ToolName :: string
  prompt_Target :: string
  prompt_Reason :: string

record ('c, 'i) callbacks =
  HookDecision :: "(('c, 'i) request \<Rightarrow> 'i result option) option"
  Prompt :: "(prompt \<Rightarrow> (decision \<times> string) option) option"
  Classifier :: "(('c, 'i) request \<Rightarrow> 'i permission_result \<Rightarrow> 'i result option) option"
  Observer :: bool

text \<open>\<open>observe\<close>: the result, and the observer's calls with the request as it is by then.\<close>

definition observe :: "bool \<Rightarrow> ('c, 'i) request \<Rightarrow> 'i result \<Rightarrow>
    'i result \<times> (('c, 'i) request \<times> 'i result) list" where
  "observe has_observer req res = (res, if has_observer then [(req, res)] else [])"

definition run_hook :: "('c, 'i) callbacks \<Rightarrow> ('c, 'i) request \<Rightarrow> 'i result option" where
  "run_hook cb req = (case HookDecision cb of None \<Rightarrow> None | Some h \<Rightarrow> h req)"

definition run_prompt :: "('c, 'i) callbacks \<Rightarrow> prompt \<Rightarrow> (decision \<times> string) option" where
  "run_prompt cb p = (case Prompt cb of None \<Rightarrow> None | Some f \<Rightarrow> f p)"

definition run_classifier :: "('c, 'i) callbacks \<Rightarrow> ('c, 'i) request \<Rightarrow> 'i permission_result \<Rightarrow> 'i result option" where
  "run_classifier cb req pr = (case Classifier cb of None \<Rightarrow> None | Some f \<Rightarrow> f req pr)"

definition Resolve :: "char \<Rightarrow> 'i input_view \<Rightarrow> ('c, 'i) callbacks \<Rightarrow> ('c, 'i) request \<Rightarrow>
    'i result \<times> (('c, 'i) request \<times> 'i result) list" where
  "Resolve sep v cb req0 =
     (case rq_Tool req0 of
        None \<Rightarrow> observe (Observer cb) req0
          (mk_result DecisionDeny StageTool ''invalid request: tool or tool name missing'')
      | Some check \<Rightarrow>
        if rq_ToolName req0 = '''' then observe (Observer cb) req0
          (mk_result DecisionDeny StageTool ''invalid request: tool or tool name missing'')
        else
        let req = req0\<lparr>rq_Mode := Normalize (rq_Mode req0)\<rparr> in
        case run_hook cb req of
          Some res \<Rightarrow> observe (Observer cb) req res
        | None \<Rightarrow>
        let target = ExtractTarget v (rq_Input req) in
        case FirstMatchingRule sep (rq_Rules req) (rq_ToolName req) target of
          Some (rule, decision) \<Rightarrow> observe (Observer cb) req
            \<lparr>res_Decision = decision, res_Stage = StageRule, res_Reason = ''matched rule: '' @ Pattern rule,
             res_UpdatedInput = None, res_Rule = Some rule\<rparr>
        | None \<Rightarrow>
        let pr = check (neutralContext (rq_ToolContext req)) (rq_Input req);
            toolDecision = mapToolPermissionToDecision (pr_Decision pr);
            req = (case pr_UpdatedInput pr of None \<Rightarrow> req | Some i \<Rightarrow> req\<lparr>rq_Input := i\<rparr>) in
        if toolDecision = DecisionDeny then observe (Observer cb) req
          \<lparr>res_Decision = DecisionDeny, res_Stage = StageTool, res_Reason = pr_Reason pr,
           res_UpdatedInput = pr_UpdatedInput pr, res_Rule = None\<rparr>
        else
        let modeResult = applyMode (rq_Mode req) toolDecision (pr_Reason pr) in
        if res_Decision modeResult \<noteq> DecisionAsk then observe (Observer cb) req modeResult
        else
        case run_prompt cb \<lparr>prompt_ToolName = rq_ToolName req, prompt_Target = target,
                            prompt_Reason = res_Reason modeResult\<rparr> of
          Some (decision, reason) \<Rightarrow> observe (Observer cb) req
            \<lparr>res_Decision = decision, res_Stage = StagePrompt, res_Reason = reason,
             res_UpdatedInput = pr_UpdatedInput pr, res_Rule = None\<rparr>
        | None \<Rightarrow>
        case run_classifier cb req pr of
          Some res \<Rightarrow> observe (Observer cb) req (res\<lparr>res_UpdatedInput := pr_UpdatedInput pr\<rparr>)
        | None \<Rightarrow> observe (Observer cb) req (modeResult\<lparr>res_UpdatedInput := pr_UpdatedInput pr\<rparr>))"

section \<open>The stages, one lemma each\<close>

definition valid_request :: "('c, 'i) request \<Rightarrow> bool" where
  "valid_request req = (rq_Tool req \<noteq> None \<and> rq_ToolName req \<noteq> [])"

text \<open>What the tool's own classifier answers for a request, and the decision it maps to.\<close>

definition tool_answer :: "('c, 'i) request \<Rightarrow> 'i permission_result" where
  "tool_answer req = the (rq_Tool req) (neutralContext (rq_ToolContext req)) (rq_Input req)"

definition tool_decision :: "('c, 'i) request \<Rightarrow> decision" where
  "tool_decision req = mapToolPermissionToDecision (pr_Decision (tool_answer req))"

definition rule_answer :: "char \<Rightarrow> 'i input_view \<Rightarrow> ('c, 'i) request \<Rightarrow> (rule \<times> decision) option" where
  "rule_answer sep v req =
     FirstMatchingRule sep (rq_Rules req) (rq_ToolName req) (ExtractTarget v (rq_Input req))"

definition normalized :: "('c, 'i) request \<Rightarrow> ('c, 'i) request" where
  "normalized req = req\<lparr>rq_Mode := Normalize (rq_Mode req)\<rparr>"

definition hook_silent :: "('c, 'i) callbacks \<Rightarrow> ('c, 'i) request \<Rightarrow> bool" where
  "hook_silent cb req = (run_hook cb (normalized req) = None)"

lemma fst_observe [simp]: "fst (observe ob req res) = res"
  by (simp add: observe_def)

lemma snd_observe [simp]: "snd (observe ob req res) = (if ob then [(req, res)] else [])"
  by (simp add: observe_def)

lemma invalid_denied:
  "\<not> valid_request req \<Longrightarrow> res_Decision (fst (Resolve sep v cb req)) = DecisionDeny"
  by (auto simp: Resolve_def valid_request_def mk_result_def split: option.split)

lemma hook_decides:
  "valid_request req \<Longrightarrow> run_hook cb (normalized req) = Some res \<Longrightarrow> fst (Resolve sep v cb req) = res"
  by (auto simp: Resolve_def valid_request_def normalized_def)

lemma rule_decides:
  "valid_request req \<Longrightarrow> hook_silent cb req \<Longrightarrow> rule_answer sep v req = Some (r, d) \<Longrightarrow>
    fst (Resolve sep v cb req) = \<lparr>res_Decision = d, res_Stage = StageRule,
      res_Reason = ''matched rule: '' @ Pattern r, res_UpdatedInput = None, res_Rule = Some r\<rparr>"
  by (auto simp: Resolve_def valid_request_def normalized_def hook_silent_def rule_answer_def)

definition reaches_tool :: "char \<Rightarrow> 'i input_view \<Rightarrow> ('c, 'i) callbacks \<Rightarrow> ('c, 'i) request \<Rightarrow> bool" where
  "reaches_tool sep v cb req = (valid_request req \<and> hook_silent cb req \<and> rule_answer sep v req = None)"

lemmas reach_defs = reaches_tool_def valid_request_def normalized_def hook_silent_def
  rule_answer_def tool_decision_def tool_answer_def

lemma tool_denies:
  "reaches_tool sep v cb req \<Longrightarrow> tool_decision req = DecisionDeny \<Longrightarrow>
    res_Decision (fst (Resolve sep v cb req)) = DecisionDeny
      \<and> res_Stage (fst (Resolve sep v cb req)) = StageTool"
  by (auto simp: Resolve_def reach_defs Let_def)

abbreviation mode_result :: "('c, 'i) request \<Rightarrow> 'i result" where
  "mode_result req \<equiv> applyMode (Normalize (rq_Mode req)) (tool_decision req) (pr_Reason (tool_answer req))"

lemma mode_decides:
  "reaches_tool sep v cb req \<Longrightarrow> tool_decision req \<noteq> DecisionDeny \<Longrightarrow>
    res_Decision (mode_result req :: 'i result) \<noteq> DecisionAsk \<Longrightarrow>
    fst (Resolve sep v cb req) = (mode_result req :: 'i result)"
  by (auto simp: Resolve_def reach_defs Let_def split: option.split)

lemma ask_decides:
  assumes "reaches_tool sep v cb (req :: ('c, 'i) request)" "tool_decision req \<noteq> DecisionDeny"
    "res_Decision (mode_result req :: 'i result) = DecisionAsk"
    "run_prompt cb \<lparr>prompt_ToolName = rq_ToolName req, prompt_Target = ExtractTarget v (rq_Input req),
      prompt_Reason = res_Reason (mode_result req :: 'i result)\<rparr> = answer"
  shows "answer = Some (d, why) \<Longrightarrow> res_Decision (fst (Resolve sep v cb req)) = d
      \<and> res_Stage (fst (Resolve sep v cb req)) = StagePrompt"
    and "answer = None \<Longrightarrow> (\<And>r p. run_classifier cb r p = None) \<Longrightarrow>
      res_Decision (fst (Resolve sep v cb req)) = DecisionAsk"
  using assms by (auto simp: Resolve_def reach_defs Let_def split: option.split)

lemmas stage_lemmas = hook_decides rule_decides tool_denies mode_decides ask_decides

section \<open>What a mode lets through without asking\<close>

lemma applyMode_decision:
  "res_Decision (applyMode m d reason :: 'i result) =
     (case Normalize m of
        ModeBypass \<Rightarrow> if d = DecisionDeny then DecisionDeny else DecisionAllow
      | ModeDontAsk \<Rightarrow> if d = DecisionAllow then DecisionAllow else DecisionDeny
      | ModePlan \<Rightarrow> if d = DecisionAllow then DecisionAllow else DecisionDeny
      | ModeBubble \<Rightarrow> if d = DecisionDeny then DecisionDeny else DecisionAsk
      | _ \<Rightarrow> if d = DecisionAllow then DecisionAllow else if d = DecisionDeny then DecisionDeny else DecisionAsk)"
  by (cases m) (auto simp: mk_result_def ask_like_default_def)

text \<open>The mode lets a call through on its own, with no one asked.\<close>

definition auto_allows :: "mode \<Rightarrow> decision \<Rightarrow> bool" where
  "auto_allows m d = (res_Decision (applyMode m d [] :: unit result) = DecisionAllow)"

lemma auto_allows_iff:
  "auto_allows m d \<longleftrightarrow> d = DecisionAllow \<and> m \<noteq> ModeBubble \<or> m = ModeBypass \<and> d \<noteq> DecisionDeny"
  by (cases m) (auto simp: auto_allows_def mk_result_def ask_like_default_def)

lemma applyMode_reason_irrelevant:
  "res_Decision (applyMode m d reason :: 'i result) = res_Decision (applyMode m d reason' :: 'j result)"
  by (simp add: applyMode_decision)

lemma auto_allows_mono:
  "strictness p \<le> strictness c \<Longrightarrow> p \<noteq> ModeBubble \<Longrightarrow> auto_allows c d \<Longrightarrow> auto_allows p d"
  by (cases p; cases c) (auto simp: auto_allows_iff)

lemma FirstMatchingRule_deny:
  assumes "bucket_hit (\<lambda>p. matches sep p tool target) (AlwaysDeny rs)"
  shows "\<exists>r \<in> set (AlwaysDeny rs). FirstMatchingRule sep rs tool target = Some (r, DecisionDeny)"
proof -
  have "rule_decision (\<lambda>p. matches sep p tool target) rs = Some DecisionDeny"
    using assms by (simp add: rule_decision_def)
  then obtain r where r: "first_match (\<lambda>p. matches sep p tool target) rs = Some (r, DecisionDeny)"
    by (auto simp: map_snd_first_match [symmetric])
  with first_match_in [OF r] show ?thesis by (auto simp: FirstMatchingRule_def)
qed

lemma auto_allows_mode_result:
  "res_Decision (mode_result req :: 'i result) = DecisionAllow \<longleftrightarrow>
    auto_allows (Normalize (rq_Mode req)) (tool_decision req)"
  unfolding auto_allows_def by (metis applyMode_reason_irrelevant)

section \<open>Properties of the resolver\<close>

text \<open>
  C29. A matching deny rule is final: unless a hook decided before, the call is denied at the
  rule stage by a rule of the deny list, whatever the tool's classifier, the mode, the prompt and
  the auto classifier would answer.
\<close>

theorem deny_rule_final:
  assumes "valid_request req" "hook_silent cb req"
    "bucket_hit (\<lambda>p. matches sep p (rq_ToolName req) (ExtractTarget v (rq_Input req)))
       (AlwaysDeny (rq_Rules req))"
  shows "res_Decision (fst (Resolve sep v cb req)) = DecisionDeny
    \<and> res_Stage (fst (Resolve sep v cb req)) = StageRule
    \<and> (\<exists>r \<in> set (AlwaysDeny (rq_Rules req)). res_Rule (fst (Resolve sep v cb req)) = Some r)"
proof -
  from FirstMatchingRule_deny [OF assms(3)] obtain r where
    r: "r \<in> set (AlwaysDeny (rq_Rules req))" "rule_answer sep v req = Some (r, DecisionDeny)"
    by (auto simp: rule_answer_def)
  from rule_decides [OF assms(1,2) r(2)] r(1) show ?thesis by auto
qed

definition demo_view :: "string input_view" where
  "demo_view = \<lparr>asPermissionTarget = (\<lambda>_. None), asPath = (\<lambda>_. None), asCommand = Some,
     asQuery = (\<lambda>_. None), marshal = (\<lambda>_. None), unmarshalFields = (\<lambda>_. None)\<rparr>"

definition demo_callbacks :: "(unit, string) callbacks" where
  "demo_callbacks = \<lparr>HookDecision = None, Prompt = Some (\<lambda>_. Some (DecisionAllow, ''yes'')),
     Classifier = None, Observer = True\<rparr>"

definition demo_request :: "mode \<Rightarrow> rules \<Rightarrow> permission \<Rightarrow> (unit, string) request" where
  "demo_request m rs p = \<lparr>rq_Mode = m, rq_Rules = rs,
     rq_Tool = Some (\<lambda>_ _. \<lparr>pr_Decision = p, pr_Reason = [], pr_UpdatedInput = None\<rparr>),
     rq_ToolName = ''Bash'', rq_Input = ''rm x'',
     rq_ToolContext = \<lparr>tc_PermissionMode = PermissionDefault\<rparr>\<rparr>"

definition no_rules :: rules where
  "no_rules = \<lparr>AlwaysAllow = [], AlwaysDeny = [], AlwaysAsk = []\<rparr>"

definition demo_deny :: rules where
  "demo_deny = no_rules\<lparr>AlwaysDeny := [\<lparr>Pattern = ''Bash(rm x)'', rule_Source = SourceSession\<rparr>]\<rparr>"

lemma demo_match: "matches CHR ''/'' ''Bash(rm x)'' ''Bash'' ''rm x''"
proof -
  have h: "SessionAllowRule CHR ''/'' ''Bash'' ''rm x''
      = Some \<lparr>Pattern = ''Bash(rm x)'', rule_Source = SourceSession\<rparr>"
    by (simp add: SessionAllowRule_def Let_def TrimSpace_def trim_chunks_def chunks_ascii is_space_def
        ContainsAny_def escapeGlob_def normalizePathSeparators_def runes_ascii
        encode_rune_def encode_valid_def valid_rune_def char_of_def bit_0)
  show ?thesis using session_rule_matches [OF h, of "''Bash''" "''rm x''"]
    by (simp add: same_target_def TrimSpace_def trim_chunks_def chunks_ascii is_space_def)
qed

lemma demo_no_rule: "rq_Rules req = no_rules \<Longrightarrow> rule_answer sep v req = None"
  by (simp add: rule_answer_def FirstMatchingRule_def first_match_def no_rules_def)

theorem deny_rule_final_witness:
  "res_Decision (fst (Resolve CHR ''/'' demo_view demo_callbacks (demo_request ModeBypass demo_deny PermAllow)))
     = DecisionDeny
   \<and> res_Stage (fst (Resolve CHR ''/'' demo_view demo_callbacks (demo_request ModeBypass demo_deny PermAllow)))
     = StageRule
   \<and> (\<exists>r \<in> set (AlwaysDeny (rq_Rules (demo_request ModeBypass demo_deny PermAllow))).
       res_Rule (fst (Resolve CHR ''/'' demo_view demo_callbacks (demo_request ModeBypass demo_deny PermAllow)))
         = Some r)"
proof (rule deny_rule_final)
  show "valid_request (demo_request ModeBypass demo_deny PermAllow)"
    by (simp add: valid_request_def demo_request_def)
  show "hook_silent demo_callbacks (demo_request ModeBypass demo_deny PermAllow)"
    by (simp add: hook_silent_def run_hook_def demo_callbacks_def)
  show "bucket_hit (\<lambda>p. matches CHR ''/'' p (rq_ToolName (demo_request ModeBypass demo_deny PermAllow))
      (ExtractTarget demo_view (rq_Input (demo_request ModeBypass demo_deny PermAllow))))
     (AlwaysDeny (rq_Rules (demo_request ModeBypass demo_deny PermAllow)))"
    by (simp add: bucket_hit_def demo_request_def demo_deny_def no_rules_def demo_view_def
        ExtractTarget_def nonempty_def demo_match)
qed

text \<open>
  Where an allow can come from: a request that is allowed is well-formed, and either the hook
  allowed it, or an allow rule matched it, or no rule matched, the tool's own classifier did not
  deny it and one of these said yes: the mode (bypass, or any mode but bubble for a call the
  classifier allows), the prompt, or the auto classifier. In no other way is a call allowed.
\<close>

theorem allow_provenance:
  assumes "res_Decision (fst (Resolve sep v cb (req :: ('c, 'i) request))) = DecisionAllow"
  shows "valid_request req \<and>
    ((\<exists>res. run_hook cb (normalized req) = Some res \<and> res_Decision res = DecisionAllow)
     \<or> hook_silent cb req \<and> (\<exists>r \<in> set (AlwaysAllow (rq_Rules req)). rule_answer sep v req = Some (r, DecisionAllow))
     \<or> reaches_tool sep v cb req \<and> tool_decision req \<noteq> DecisionDeny \<and>
         (auto_allows (Normalize (rq_Mode req)) (tool_decision req)
          \<or> (\<exists>p why. run_prompt cb p = Some (DecisionAllow, why))
          \<or> (\<exists>r res. run_classifier cb r (tool_answer req) = Some res \<and> res_Decision res = DecisionAllow)))"
proof -
  have valid: "valid_request req" using assms invalid_denied [of req sep v cb] by auto
  show ?thesis
  proof (cases "run_hook cb (normalized req)")
    case (Some res)
    with hook_decides [OF valid Some] valid assms show ?thesis by auto
  next
    case None
    then have silent: "hook_silent cb req" by (simp add: hook_silent_def)
    show ?thesis
    proof (cases "rule_answer sep v req")
      case (Some rd)
      then obtain r d where rd: "rule_answer sep v req = Some (r, d)" by (cases rd) auto
      with rule_decides [OF valid silent rd] assms have "d = DecisionAllow" by simp
      with rd first_match_in [of _ "rq_Rules req" r d] silent valid show ?thesis
        by (auto simp: rule_answer_def FirstMatchingRule_def)
    next
      case None
      with valid silent have reach: "reaches_tool sep v cb req" by (simp add: reaches_tool_def)
      with assms tool_denies have tool: "tool_decision req \<noteq> DecisionDeny" by fastforce
      show ?thesis
      proof (cases "res_Decision (mode_result req :: 'i result) = DecisionAsk")
        case False
        with mode_decides [OF reach tool] assms auto_allows_mode_result [of req] reach tool valid
        show ?thesis by simp
      next
        case True
        then show ?thesis using assms reach tool
          by (auto simp: Resolve_def reach_defs Let_def split: option.splits)
      qed
    qed
  qed
qed

theorem allow_provenance_witness:
  "valid_request (demo_request ModeDefault no_rules PermAsk) \<and>
    ((\<exists>res. run_hook demo_callbacks (normalized (demo_request ModeDefault no_rules PermAsk)) = Some res
        \<and> res_Decision res = DecisionAllow)
     \<or> hook_silent demo_callbacks (demo_request ModeDefault no_rules PermAsk)
         \<and> (\<exists>r \<in> set (AlwaysAllow (rq_Rules (demo_request ModeDefault no_rules PermAsk))).
             rule_answer CHR ''/'' demo_view (demo_request ModeDefault no_rules PermAsk) = Some (r, DecisionAllow))
     \<or> reaches_tool CHR ''/'' demo_view demo_callbacks (demo_request ModeDefault no_rules PermAsk)
         \<and> tool_decision (demo_request ModeDefault no_rules PermAsk) \<noteq> DecisionDeny \<and>
         (auto_allows (Normalize (rq_Mode (demo_request ModeDefault no_rules PermAsk)))
            (tool_decision (demo_request ModeDefault no_rules PermAsk))
          \<or> (\<exists>p why. run_prompt demo_callbacks p = Some (DecisionAllow, why))
          \<or> (\<exists>r res. run_classifier demo_callbacks r (tool_answer (demo_request ModeDefault no_rules PermAsk))
                = Some res \<and> res_Decision res = DecisionAllow)))"
proof (rule allow_provenance)
  show "res_Decision (fst (Resolve CHR ''/'' demo_view demo_callbacks
      (demo_request ModeDefault no_rules PermAsk))) = DecisionAllow"
    by (simp add: Resolve_def demo_request_def demo_callbacks_def demo_view_def no_rules_def run_hook_def
        run_prompt_def ExtractTarget_def nonempty_def FirstMatchingRule_def first_match_def
        ask_like_default_def mk_result_def)
qed

text \<open>
  Modes that never ask: once the hook and the rules are silent, \<open>plan\<close>, \<open>dontAsk\<close> and
  \<open>bypass\<close> decide on the tool's own classifier alone. No prompt and no auto classifier can
  change the decision, and it is never ask: \<open>plan\<close> and \<open>dontAsk\<close> allow exactly what the
  classifier allows, \<open>bypass\<close> allows exactly what it does not deny.
\<close>

theorem silent_modes_never_ask:
  assumes "reaches_tool sep v cb (req :: ('c, 'i) request)" "Normalize (rq_Mode req) \<in> {ModePlan, ModeDontAsk, ModeBypass}"
  shows "res_Decision (fst (Resolve sep v cb req)) =
    (if tool_decision req = DecisionAllow
        \<or> Normalize (rq_Mode req) = ModeBypass \<and> tool_decision req \<noteq> DecisionDeny
     then DecisionAllow else DecisionDeny)"
proof (cases "tool_decision req = DecisionDeny")
  case True
  then show ?thesis using tool_denies [OF assms(1)] by simp
next
  case False
  have d: "res_Decision (mode_result req :: 'i result) =
    (if tool_decision req = DecisionAllow
        \<or> Normalize (rq_Mode req) = ModeBypass \<and> tool_decision req \<noteq> DecisionDeny
     then DecisionAllow else DecisionDeny)"
    using assms(2) False by (auto simp: applyMode_decision)
  then have "res_Decision (mode_result req :: 'i result) \<noteq> DecisionAsk" by simp
  from mode_decides [OF assms(1) False this] d show ?thesis by simp
qed

theorem silent_modes_never_ask_witness:
  "res_Decision (fst (Resolve CHR ''/'' demo_view demo_callbacks (demo_request ModePlan no_rules PermAsk))) =
    (if tool_decision (demo_request ModePlan no_rules PermAsk) = DecisionAllow
        \<or> Normalize (rq_Mode (demo_request ModePlan no_rules PermAsk)) = ModeBypass
          \<and> tool_decision (demo_request ModePlan no_rules PermAsk) \<noteq> DecisionDeny
     then DecisionAllow else DecisionDeny)"
proof (rule silent_modes_never_ask)
  show "reaches_tool CHR ''/'' demo_view demo_callbacks (demo_request ModePlan no_rules PermAsk)"
    by (simp add: reaches_tool_def demo_no_rule demo_request_def valid_request_def
        hook_silent_def run_hook_def demo_callbacks_def)
  show "Normalize (rq_Mode (demo_request ModePlan no_rules PermAsk)) \<in> {ModePlan, ModeDontAsk, ModeBypass}"
    by (simp add: demo_request_def)
qed

text \<open>
  The observer hears of every resolution exactly once, on every path including malformed
  requests, and what it hears is the result that is returned; without an observer nothing is
  reported. The request it sees has a normalized mode unless the request was malformed.
\<close>

theorem observed_exactly_once:
  "map snd (snd (Resolve sep v cb req)) = (if Observer cb then [fst (Resolve sep v cb req)] else [])
   \<and> (valid_request req \<longrightarrow> list_all (\<lambda>(r, _). known_mode (rq_Mode r)) (snd (Resolve sep v cb req)))"
  by (auto simp: Resolve_def Let_def valid_request_def split: option.split)

theorem observed_exactly_once_witness:
  "map snd (snd (Resolve CHR ''/'' demo_view demo_callbacks (demo_request ModePlan no_rules PermAsk))) =
     (if Observer demo_callbacks
      then [fst (Resolve CHR ''/'' demo_view demo_callbacks (demo_request ModePlan no_rules PermAsk))] else [])
   \<and> list_all (\<lambda>(r, _). known_mode (rq_Mode r))
       (snd (Resolve CHR ''/'' demo_view demo_callbacks (demo_request ModePlan no_rules PermAsk)))"
  using observed_exactly_once [of "CHR ''/''" demo_view demo_callbacks "demo_request ModePlan no_rules PermAsk"]
  by (simp add: valid_request_def demo_request_def)

text \<open>
  A sub-agent is never let through where its parent would have stopped: for a parent in any
  mode but bubble, whatever modes a chain of nested sub-agents requested, a call the innermost
  one's mode allows on its own is a call the parent's mode allows on its own. The exception is
  real: a bubble parent asks about every call, and its sub-agents may run in a mode that asks less.
\<close>

theorem sub_agent_no_looser:
  assumes "parent \<noteq> ModeBubble" "auto_allows (foldl ClampMode parent requests) d"
  shows "auto_allows parent d"
  using auto_allows_mono [OF ClampMode_chain_strictness assms] .

theorem sub_agent_no_looser_witness:
  "auto_allows ModeAuto DecisionAllow
    \<and> foldl ClampMode ModeAuto [ModePlan, ModeBypass] = ModePlan
    \<and> \<not> auto_allows ModeBubble DecisionAllow \<and> auto_allows (ClampMode ModeBubble ModeDefault) DecisionAllow"
  using sub_agent_no_looser [of ModeAuto "[ModePlan, ModeBypass]" DecisionAllow]
  by (simp add: auto_allows_iff ClampMode_def known_mode_def)

end
