(* ===== verification/Bash_Classify.thy ===== *)
theory Bash_Classify
  imports Permission_Resolver
begin

text \<open>
  The Bash tool's command classifier (\<open>internal/tools/bash/classify.go\<close>) and the permission
  check built on it (\<open>bash.go\<close>).

  The shell parser is third-party code (\<open>mvdan.cc/sh/v3/syntax\<close>), so it is the parameter
  \<open>parse\<close>, which gives a syntax tree or \<open>None\<close> for a parse error. A tree node carries what the
  classifier reads of it and the children that \<open>syntax.Walk\<close> visits, in order; \<open>walk\<close> is the
  documented pre-order traversal that does not enter a node whose callback returns false.
\<close>

section \<open>Syntax trees\<close>

datatype word_part =
    Lit string
  | SglQuoted bool string
  | DblQuoted bool "word_part list"
  | OtherPart

type_synonym word = "word_part list"

text \<open>A statement with its number of redirections; a call with its assignments and words.\<close>

datatype node_kind =
    Stmt nat
  | CallExpr nat "word list"
  | CmdSubst
  | ProcSubst
  | OtherNode

datatype node = Node (kind: node_kind) (children: "node list")

section \<open>Words\<close>

fun inner_literals :: "word_part list \<Rightarrow> string option" where
  "inner_literals [] = Some []"
| "inner_literals (Lit v # ps) =
     (if CHR 92 \<in> set v then None
      else map_option (\<lambda>rest. v @ rest) (inner_literals ps))"
| "inner_literals (_ # ps) = None"

fun literalWord :: "word \<Rightarrow> string option" where
  "literalWord [] = Some []"
| "literalWord (Lit v # ps) =
     (if ContainsAny v [CHR 92, CHR ''{''] then None
      else map_option (\<lambda>rest. v @ rest) (literalWord ps))"
| "literalWord (SglQuoted dollar v # ps) =
     (if dollar then None else map_option (\<lambda>rest. v @ rest) (literalWord ps))"
| "literalWord (DblQuoted dollar inner # ps) =
     (if dollar then None
      else case inner_literals inner of
        None \<Rightarrow> None
      | Some v \<Rightarrow> map_option (\<lambda>rest. v @ rest) (literalWord ps))"
| "literalWord (OtherPart # ps) = None"

definition commandName :: "word list \<Rightarrow> string option" where
  "commandName ws = (case ws of [] \<Rightarrow> None | w # _ \<Rightarrow> literalWord w)"

text \<open>The arguments, an expansion showing as the empty string, and whether all were literal.\<close>

definition commandArgs :: "word list \<Rightarrow> string list \<times> bool" where
  "commandArgs ws =
     (map (\<lambda>w. case literalWord w of Some s \<Rightarrow> s | None \<Rightarrow> []) (tl ws),
      list_all (\<lambda>w. literalWord w \<noteq> None) (tl ws))"

section \<open>Command tables\<close>

definition isNeutralCommand :: "string \<Rightarrow> bool" where
  "isNeutralCommand name = (name \<in> set [''echo'', ''printf'', ''true'', ''false'', ''pwd''])"

text \<open>Long options match any abbreviation of at least three characters; short ones exactly.\<close>

definition flag_matches :: "string \<Rightarrow> string \<Rightarrow> bool" where
  "flag_matches opt f =
     (opt = f \<or> HasPrefix f ''--'' \<and> HasPrefix opt ''--'' \<and> 2 < length opt \<and> HasPrefix f opt)"

definition hasAnyFlag :: "string list \<Rightarrow> string list \<Rightarrow> bool" where
  "hasAnyFlag args flags = list_ex (\<lambda>a. list_ex (flag_matches (CutBefore a CHR ''='')) flags) args"

definition findWriteFlags :: "string list" where
  "findWriteFlags = [''-delete'', ''-exec'', ''-execdir'', ''-ok'', ''-okdir'', ''-fprint'',
     ''-fprint0'', ''-fprintf'', ''-fls'']"

definition positionalCount :: "string list \<Rightarrow> nat" where
  "positionalCount args = length (filter (\<lambda>a. a = [] \<or> \<not> HasPrefix a ''-'') args)"

text \<open>\<open>len(a) > 1 && a[0] == '-' && a[1] != '-' && strings.Contains(a, c)\<close>.\<close>

definition short_cluster :: "char \<Rightarrow> string \<Rightarrow> bool" where
  "short_cluster c a = (1 < length a \<and> a ! 0 = CHR ''-'' \<and> a ! 1 \<noteq> CHR ''-'' \<and> c \<in> set a)"

definition sortWrites :: "string list \<Rightarrow> bool" where
  "sortWrites args = (hasAnyFlag args [''--output'', ''--compress-program'']
     \<or> list_ex (short_cluster CHR ''o'') args)"

definition dateSetsClock :: "string list \<Rightarrow> bool" where
  "dateSetsClock args = (hasAnyFlag args [''--set''] \<or> list_ex (short_cluster CHR ''s'') args)"

definition branch_listing_flags :: "string list" where
  "branch_listing_flags = [''--list'', ''-l'', ''--contains'', ''--no-contains'', ''--merged'',
     ''--no-merged'', ''--points-at'']"

definition branch_known_flags :: "string list" where
  "branch_known_flags = [''-a'', ''-r'', ''-v'', ''-vv'', ''-av'', ''-ar'', ''-rv'', ''--all'',
     ''--remotes'', ''--verbose'', ''--list'', ''-l'', ''--show-current'', ''--merged'',
     ''--no-merged'', ''--contains'', ''--no-contains'', ''--points-at'', ''--sort'', ''--format'',
     ''--color'', ''--no-color'', ''--column'', ''--no-column'', ''-i'', ''--ignore-case'',
     ''--abbrev'', ''--no-abbrev'']"

definition gitBranchReadOnly :: "string list \<Rightarrow> bool" where
  "gitBranchReadOnly args =
     (let listing = list_ex (\<lambda>a. a \<in> set branch_listing_flags) args in
      list_all (\<lambda>a. if \<not> HasPrefix a ''-'' then listing
                    else CutBefore a CHR ''='' \<in> set branch_known_flags) args)"

definition gitRemoteReadOnly :: "string list \<Rightarrow> bool" where
  "gitRemoteReadOnly args =
     (if length args = 0 then True
      else length args = 1 \<and> (args ! 0 = ''-v'' \<or> args ! 0 = ''--verbose''))"

definition gitReadOnly :: "string list \<Rightarrow> bool" where
  "gitReadOnly args =
     (let sub = hd args; rest = tl args in
      if hasAnyFlag rest [''--output'', ''--open-files-in-pager'', ''--ext-diff'', ''--textconv''] then False
      else if sub = ''grep'' \<and> list_ex (short_cluster CHR ''O'') rest then False
      else if sub \<in> set [''status'', ''diff'', ''log'', ''show'', ''rev-parse'', ''ls-files'', ''grep''] then True
      else if sub = ''branch'' then gitBranchReadOnly rest
      else if sub = ''remote'' then gitRemoteReadOnly rest
      else False)"

definition goTestRunsOrWrites :: "string list \<Rightarrow> bool" where
  "goTestRunsOrWrites args =
     list_ex (\<lambda>a. HasPrefix a ''-'' \<and>
       (let name = CutBefore (dropWhile (\<lambda>c. c = CHR ''-'') a) CHR ''='' in
        name \<in> set [''exec'', ''toolexec'', ''o'', ''c'', ''trace''] \<or> Contains name ''profile'')) args"

definition goReadOnly :: "string list \<Rightarrow> bool" where
  "goReadOnly args =
     (if hd args = ''test'' then \<not> goTestRunsOrWrites (tl args)
      else if hd args = ''list'' \<or> hd args = ''version'' then True
      else if hd args = ''env'' then \<not> hasAnyFlag (tl args) [''-w'', ''-u'']
      else False)"

definition isReadOnlyCommand :: "string \<Rightarrow> string list \<Rightarrow> bool" where
  "isReadOnlyCommand name args =
     (if name \<in> set [''ls'', ''cat'', ''head'', ''tail'', ''wc'', ''cut'', ''grep'', ''egrep'', ''fgrep'',
          ''stat'', ''file'', ''du'', ''df'', ''printenv'', ''which'', ''type'', ''uname''] then True
      else if name = ''env'' then True
      else if name = ''rg'' then \<not> hasAnyFlag args [''--pre'', ''--pre-glob'']
      else if name = ''find'' then \<not> hasAnyFlag args findWriteFlags
      else if name = ''sort'' then \<not> sortWrites args
      else if name = ''uniq'' then positionalCount args \<le> 1
      else if name = ''date'' then \<not> dateSetsClock args
      else if name = ''git'' then 0 < length args \<and> gitReadOnly args
      else if name = ''go'' then 0 < length args \<and> goReadOnly args
      else False)"

definition isDestructiveCommand :: "string \<Rightarrow> string list \<Rightarrow> bool" where
  "isDestructiveCommand name args =
     (if name \<in> set [''rm'', ''rmdir'', ''mv'', ''cp'', ''mkdir'', ''touch'', ''chmod'', ''chown'', ''dd'',
          ''tee'', ''truncate'', ''curl'', ''wget'', ''ssh'', ''scp'', ''sudo''] then True
      else if name = ''find'' then hasAnyFlag args findWriteFlags
      else if name = ''git'' then 0 < length args \<and> \<not> gitReadOnly args
      else if name = ''go'' then 0 < length args \<and> \<not> goReadOnly args
      else False)"

section \<open>Wrapper commands\<close>

text \<open>
  The option loops return the words from the inner command on (\<open>[]\<close> for Go's nil) and whether
  they could tell. An option with a separate value skips one more word, if there is one.
\<close>

definition env_value_options :: "string list" where
  "env_value_options = [''-u'', ''--unset'', ''-C'', ''--chdir'']"

definition env_plain_options :: "string list" where
  "env_plain_options = [''-i'', ''-0'', ''-v'', ''--ignore-environment'', ''--null'', ''--debug'']"

fun skipEnvOptions :: "string list \<Rightarrow> bool \<Rightarrow> string list \<times> bool \<times> bool" where
  "skipEnvOptions [] tainted = ([], True, tainted)"
| "skipEnvOptions (a # rest) tainted =
     (if a = [] then ([], False, tainted)
      else if a = ''--'' then (rest, True, tainted)
      else if a \<in> set env_value_options then skipEnvOptions (drop 1 rest) tainted
      else if a = ''-S'' \<or> HasPrefix a ''-S'' \<or> HasPrefix a ''--split-string'' then ([], False, tainted)
      else if a \<in> set env_plain_options then skipEnvOptions rest tainted
      else if HasPrefix a ''--unset='' \<or> HasPrefix a ''--chdir='' \<or> HasPrefix a ''-u'' \<and> 2 < length a
        then skipEnvOptions rest tainted
      else if HasPrefix a ''-'' then ([], False, tainted)
      else if CHR ''='' \<in> set a then skipEnvOptions rest True
      else (a # rest, True, tainted))"

definition isNumericOption :: "string \<Rightarrow> bool" where
  "isNumericOption a =
     (if length a < 2 \<or> a ! 0 \<noteq> CHR ''-'' then False
      else list_all (\<lambda>r. \<not> (r < 48 \<or> 57 < r)) (runes (tl a)))"

fun skipNiceOptions :: "string list \<Rightarrow> string list \<times> bool" where
  "skipNiceOptions [] = ([], True)"
| "skipNiceOptions (a # rest) =
     (if a = [] then ([], False)
      else if a = ''--'' then (rest, True)
      else if a = ''-n'' \<or> a = ''--adjustment'' then skipNiceOptions (drop 1 rest)
      else if HasPrefix a ''-n'' \<or> HasPrefix a ''--adjustment='' \<or> isNumericOption a
        then skipNiceOptions rest
      else if HasPrefix a ''-'' then ([], False)
      else (a # rest, True))"

definition timeout_value_options :: "string list" where
  "timeout_value_options = [''-s'', ''-k'', ''--signal'', ''--kill-after'']"

definition timeout_plain_options :: "string list" where
  "timeout_plain_options = [''-v'', ''--verbose'', ''--foreground'', ''--preserve-status'']"

definition timeout_attached_options :: "string list" where
  "timeout_attached_options = [''--signal='', ''--kill-after='', ''-s'', ''-k'']"

text \<open>\<open>Inl words\<close>: the option loop ended before \<open>words\<close>; \<open>Inr ()\<close>: it gave up.\<close>

fun timeout_options :: "string list \<Rightarrow> string list + unit" where
  "timeout_options [] = Inl []"
| "timeout_options (a # rest) =
     (if a = [] then Inr ()
      else if a = ''--'' then Inl rest
      else if a \<in> set timeout_value_options then timeout_options (drop 1 rest)
      else if a \<in> set timeout_plain_options \<or> list_ex (HasPrefix a) timeout_attached_options then timeout_options rest
      else if HasPrefix a ''-'' then Inr ()
      else Inl (a # rest))"

definition skipTimeoutOptions :: "string list \<Rightarrow> string list \<times> bool" where
  "skipTimeoutOptions args =
     (case timeout_options args of
        Inr _ \<Rightarrow> ([], False)
      | Inl [] \<Rightarrow> ([], True)
      | Inl (a # rest) \<Rightarrow> if a = [] then ([], False) else (rest, True))"

fun skipCommandOptions :: "string list \<Rightarrow> string list \<times> bool" where
  "skipCommandOptions [] = ([], True)"
| "skipCommandOptions (a # rest) =
     (if a = ''-v'' \<or> a = ''-V'' then ([''which''], True)
      else if a = ''-p'' then skipCommandOptions rest
      else if a = ''--'' then (rest, True)
      else if HasPrefix a ''-'' then ([], False)
      else (a # rest, True))"

definition xargs_value_options :: "string list" where
  "xargs_value_options = [''-n'', ''-I'', ''-P'', ''-d'', ''-L'', ''-s'', ''-E'', ''-a'', ''-i'']"

fun skipXargsOptions :: "string list \<Rightarrow> string list \<times> bool" where
  "skipXargsOptions [] = ([], True)"
| "skipXargsOptions (a # rest) =
     (if a = [] then ([], False)
      else if a = ''--'' then (rest, True)
      else if a \<in> set xargs_value_options then skipXargsOptions (drop 1 rest)
      else if HasPrefix a ''-'' then skipXargsOptions rest
      else (a # rest, True))"

text \<open>The switch of the loop: \<open>None\<close> for a command that is no wrapper, else (inner, known, taint).\<close>

definition unwrap_once :: "string \<Rightarrow> string list \<Rightarrow> (string list \<times> bool \<times> bool) option" where
  "unwrap_once name args =
     (if name = ''env'' then Some (skipEnvOptions args False)
      else if name = ''nice'' then Some (case skipNiceOptions args of (i, k) \<Rightarrow> (i, k, False))
      else if name = ''timeout'' then Some (case skipTimeoutOptions args of (i, k) \<Rightarrow> (i, k, False))
      else if name = ''nohup'' \<or> name = ''builtin'' \<or> name = ''exec'' then Some (args, True, False)
      else if name = ''command'' then Some (case skipCommandOptions args of (i, k) \<Rightarrow> (i, k, False))
      else if name = ''xargs'' then Some (case skipXargsOptions args of (i, k) \<Rightarrow> (i, k, False))
      else None)"

fun unwrap_loop :: "nat \<Rightarrow> string \<Rightarrow> string list \<Rightarrow> bool \<Rightarrow> string \<times> string list \<times> bool \<times> bool" where
  "unwrap_loop 0 name args tainted = ([], [], False, tainted)"
| "unwrap_loop (Suc n) name args tainted =
     (case unwrap_once name args of
        None \<Rightarrow> (name, args, True, tainted)
      | Some (inner, known, taint) \<Rightarrow>
          let tainted = (tainted \<or> taint) in
          if \<not> known then ([], [], False, tainted)
          else case inner of
            [] \<Rightarrow> if name = ''xargs'' then (''echo'', [], True, tainted)
                  else if name = ''env'' then (''env'', [], True, tainted)
                  else ([], [], False, tainted)
          | name' # args' \<Rightarrow>
              if name' = [] then ([], [], False, tainted)
              else unwrap_loop n name' args' tainted)"

definition unwrapWrappers :: "string \<Rightarrow> string list \<Rightarrow> string \<times> string list \<times> bool \<times> bool" where
  "unwrapWrappers name args = unwrap_loop 8 name args False"

section \<open>The walk\<close>

record classification =
  readOnly :: bool
  destructive :: bool

record walk_state = classification +
  seenCommand :: bool

definition unsafe_state :: "walk_state \<Rightarrow> walk_state" where
  "unsafe_state st = st\<lparr>readOnly := False, destructive := True\<rparr>"

text \<open>The callback given to \<open>syntax.Walk\<close>: the new state, and whether to enter the children.\<close>

definition visit :: "node_kind \<Rightarrow> walk_state \<Rightarrow> walk_state \<times> bool" where
  "visit k st =
     (if \<not> readOnly st \<and> destructive st then (st, False)
      else case k of
        Stmt redirs \<Rightarrow> if 0 < redirs then (unsafe_state st, False) else (st, True)
      | CallExpr assigns ws \<Rightarrow>
          (case commandName ws of
             None \<Rightarrow> (unsafe_state st, False)
           | Some name0 \<Rightarrow>
               let st = st\<lparr>seenCommand := True\<rparr>;
                   (args0, allLiteral) = commandArgs ws;
                   (name, args, resolved, tainted) = unwrapWrappers name0 args0;
                   unsafe = (0 < assigns \<or> \<not> allLiteral \<or> tainted) in
               if \<not> resolved then (unsafe_state st, False)
               else if isDestructiveCommand name args then (unsafe_state st, False)
               else if isNeutralCommand name then (st, True)
               else if unsafe then (st\<lparr>readOnly := False\<rparr>, True)
               else if \<not> isReadOnlyCommand name args then (st\<lparr>readOnly := False\<rparr>, True)
               else (st, True))
      | CmdSubst \<Rightarrow> (unsafe_state st, False)
      | ProcSubst \<Rightarrow> (unsafe_state st, False)
      | OtherNode \<Rightarrow> (st, True))"

fun walk :: "node \<Rightarrow> walk_state \<Rightarrow> walk_state"
  and walks :: "node list \<Rightarrow> walk_state \<Rightarrow> walk_state" where
  "walk (Node k cs) st = (case visit k st of (st', enter) \<Rightarrow> if enter then walks cs st' else st')"
| "walks [] st = st"
| "walks (c # cs) st = walks cs (walk c st)"

definition start_state :: walk_state where
  "start_state = \<lparr>readOnly = True, destructive = False, seenCommand = False\<rparr>"

definition classify :: "(string \<Rightarrow> node option) \<Rightarrow> string \<Rightarrow> classification" where
  "classify parse command =
     (case parse command of
        None \<Rightarrow> \<lparr>readOnly = False, destructive = True\<rparr>
      | Some file \<Rightarrow>
          let st = walk file start_state in
          if \<not> seenCommand st then \<lparr>readOnly = False, destructive = True\<rparr>
          else \<lparr>readOnly = readOnly st, destructive = destructive st\<rparr>)"

section \<open>The Bash tool\<close>

text \<open>\<open>Input\<close>: the environment overrides are part of the call, the command is what is classified.\<close>

record bash_input =
  Command :: string
  Description :: string
  TimeoutMS :: int
  Env :: "(string \<times> string) list"

definition bash_PermissionTarget :: "bash_input \<Rightarrow> string" where
  "bash_PermissionTarget i = Command i"

definition isReadOnly :: "(string \<Rightarrow> node option) \<Rightarrow> bash_input option \<Rightarrow> bool" where
  "isReadOnly parse input = (case input of None \<Rightarrow> False | Some i \<Rightarrow> readOnly (classify parse (Command i)))"

definition isDestructive :: "(string \<Rightarrow> node option) \<Rightarrow> bash_input option \<Rightarrow> bool" where
  "isDestructive parse input = (case input of None \<Rightarrow> True | Some i \<Rightarrow> destructive (classify parse (Command i)))"

definition perm_result :: "permission \<Rightarrow> string \<Rightarrow> 'i option \<Rightarrow> 'i permission_result" where
  "perm_result d why updated = \<lparr>pr_Decision = d, pr_Reason = why, pr_UpdatedInput = updated\<rparr>"

definition bash_checkPermissions ::
    "(string \<Rightarrow> node option) \<Rightarrow> tools_mode \<Rightarrow> bash_input option \<Rightarrow> bash_input permission_result" where
  "bash_checkPermissions parse mode input =
     (case input of
        None \<Rightarrow> perm_result PermDeny ''invalid Bash input'' None
      | Some i \<Rightarrow>
          let c = classify parse (Command i) in
          if destructive c \<and> mode = PermissionDefault
          then perm_result PermDeny ''command is classified as destructive'' None
          else case mode of
            PermissionBypassPermissions \<Rightarrow>
              if destructive c then perm_result PermDeny ''destructive commands cannot be bypassed'' None
              else perm_result PermAllow [] (Some i)
          | PermissionPlan \<Rightarrow>
              if readOnly c then perm_result PermAllow [] (Some i)
              else perm_result PermDeny ''plan mode allows only read-only commands'' None
          | PermissionDontAsk \<Rightarrow>
              if readOnly c then perm_result PermAllow [] (Some i)
              else perm_result PermDeny ''command requires permission prompt'' None
          | _ \<Rightarrow>
              if readOnly c then perm_result PermAllow [] (Some i)
              else perm_result PermAsk ''command is not classified as read-only'' (Some i))"

section \<open>What the walk computes\<close>

text \<open>
  The specification looks at all the nodes of the tree, without an order, an early exit or a
  state: a node is dangerous on its own, or calm (it keeps a command read-only).
\<close>

fun nodes :: "node \<Rightarrow> node_kind list"
  and nodes_list :: "node list \<Rightarrow> node_kind list" where
  "nodes (Node k cs) = k # nodes_list cs"
| "nodes_list [] = []"
| "nodes_list (c # cs) = nodes c @ nodes_list cs"

definition resolved_call :: "word list \<Rightarrow> (string \<times> string list \<times> bool) option" where
  "resolved_call ws =
     (case commandName ws of None \<Rightarrow> None | Some n0 \<Rightarrow>
      case unwrapWrappers n0 (fst (commandArgs ws)) of
        (n, args, resolved, tainted) \<Rightarrow> if resolved then Some (n, args, tainted) else None)"

definition dangerous :: "node_kind \<Rightarrow> bool" where
  "dangerous k = (case k of
     Stmt r \<Rightarrow> 0 < r
   | CallExpr a ws \<Rightarrow> (case resolved_call ws of None \<Rightarrow> True | Some (n, args, _) \<Rightarrow> isDestructiveCommand n args)
   | CmdSubst \<Rightarrow> True | ProcSubst \<Rightarrow> True | OtherNode \<Rightarrow> False)"

definition calm :: "node_kind \<Rightarrow> bool" where
  "calm k = (\<not> dangerous k \<and> (case k of
     CallExpr a ws \<Rightarrow> (case resolved_call ws of None \<Rightarrow> False | Some (n, args, tainted) \<Rightarrow>
        isNeutralCommand n \<or> a = 0 \<and> snd (commandArgs ws) \<and> \<not> tainted \<and> isReadOnlyCommand n args)
   | _ \<Rightarrow> True))"

definition is_call :: "node_kind \<Rightarrow> bool" where
  "is_call k = (case k of CallExpr _ _ \<Rightarrow> True | _ \<Rightarrow> False)"

lemma calm_not_dangerous: "calm k \<Longrightarrow> \<not> dangerous k"
  by (simp add: calm_def)

lemma visit_stopped: "\<not> readOnly st \<Longrightarrow> destructive st \<Longrightarrow> visit k st = (st, False)"
  by (simp add: visit_def)

lemma visit_dangerous:
  "\<not> destructive st \<Longrightarrow> dangerous k \<Longrightarrow> \<exists>st'. visit k st = (st', False) \<and> \<not> readOnly st' \<and> destructive st'"
  by (auto simp: visit_def dangerous_def resolved_call_def unsafe_state_def Let_def
      split: node_kind.splits option.splits prod.splits if_splits)

lemma visit_safe:
  "\<not> destructive st \<Longrightarrow> \<not> dangerous k \<Longrightarrow>
    visit k st = (st\<lparr>readOnly := readOnly st \<and> calm k, seenCommand := seenCommand st \<or> is_call k\<rparr>, True)"
  by (auto simp: visit_def dangerous_def calm_def is_call_def resolved_call_def Let_def
      split: node_kind.splits option.splits prod.splits if_splits)

lemma walk_stopped:
  "\<not> readOnly st \<Longrightarrow> destructive st \<Longrightarrow> walk n st = st"
  "\<not> readOnly st \<Longrightarrow> destructive st \<Longrightarrow> walks ns st = st"
  by (induction n st and ns st rule: walk_walks.induct) (auto simp: visit_stopped)

lemma walk_spec:
  "\<not> destructive st \<Longrightarrow>
    (if list_ex dangerous (nodes n) then \<not> readOnly (walk n st) \<and> destructive (walk n st)
     else walk n st = st\<lparr>readOnly := readOnly st \<and> list_all calm (nodes n),
                         seenCommand := seenCommand st \<or> list_ex is_call (nodes n)\<rparr>)"
  "\<not> destructive st \<Longrightarrow>
    (if list_ex dangerous (nodes_list ns) then \<not> readOnly (walks ns st) \<and> destructive (walks ns st)
     else walks ns st = st\<lparr>readOnly := readOnly st \<and> list_all calm (nodes_list ns),
                           seenCommand := seenCommand st \<or> list_ex is_call (nodes_list ns)\<rparr>)"
proof (induction n st and ns st rule: walk_walks.induct)
  case (1 k cs st)
  show ?case
  proof (cases "dangerous k")
    case True
    from visit_dangerous [OF "1.prems" True] True show ?thesis by auto
  next
    case False
    note v = visit_safe [OF "1.prems" False]
    from "1.IH" [OF v [symmetric]] "1.prems" False show ?thesis
      by (auto simp: v)
  qed
next
  case (2 st)
  then show ?case by simp
next
  case (3 c cs st)
  show ?case
  proof (cases "list_ex dangerous (nodes c)")
    case True
    with "3.IH"(1) [OF "3.prems"] show ?thesis by (auto simp: walk_stopped)
  next
    case False
    with "3.IH"(1) [OF "3.prems"] have w: "walk c st = st\<lparr>readOnly := readOnly st \<and> list_all calm (nodes c),
                         seenCommand := seenCommand st \<or> list_ex is_call (nodes c)\<rparr>" by simp
    then have "\<not> destructive (walk c st)" using "3.prems" by simp
    from "3.IH"(2) [OF this] False show ?thesis by (auto simp: w)
  qed
qed

lemma walk_start:
  "(if list_ex dangerous (nodes n) then \<not> readOnly (walk n start_state) \<and> destructive (walk n start_state)
    else readOnly (walk n start_state) = list_all calm (nodes n)
      \<and> \<not> destructive (walk n start_state)
      \<and> seenCommand (walk n start_state) = list_ex is_call (nodes n))"
  using walk_spec(1) [of start_state n] by (auto simp: start_state_def)

text \<open>
  C34. The one-pass walk with its early exits computes an order-free specification over all the
  nodes of the syntax tree. A command is destructive exactly when it does not parse, contains no
  call, or some node anywhere in it is dangerous: a redirection, a command or process
  substitution, a call whose name or wrapper cannot be read statically, or a destructive
  command. It is read-only exactly when it parses, contains a call, and every node is calm.
\<close>

theorem classify_exact:
  "destructive (classify parse command) =
     (case parse command of None \<Rightarrow> True
      | Some t \<Rightarrow> list_ex dangerous (nodes t) \<or> \<not> list_ex is_call (nodes t))
   \<and> readOnly (classify parse command) =
     (case parse command of None \<Rightarrow> False
      | Some t \<Rightarrow> list_ex is_call (nodes t) \<and> list_all calm (nodes t))"
proof (cases "parse command")
  case None
  then show ?thesis by (simp add: classify_def)
next
  case (Some t)
  have "list_all calm (nodes t) \<Longrightarrow> \<not> list_ex dangerous (nodes t)"
    by (auto simp: list_all_iff list_ex_iff calm_not_dangerous)
  with Some walk_start [of t] show ?thesis
    by (auto simp: classify_def Let_def split: if_splits)
qed

theorem classify_exact_witness:
  "destructive (classify (\<lambda>_. Some (Node OtherNode [])) ''#'')
    \<and> \<not> readOnly (classify (\<lambda>_. Some (Node OtherNode [])) ''#'')
    \<and> destructive (classify (\<lambda>_. None) ''('')"
  using classify_exact [of "\<lambda>_. Some (Node OtherNode [])" "''#''"] classify_exact [of "\<lambda>_. None" "''(''"]
  by (simp add: is_call_def)

lemma readOnly_not_destructive:
  "readOnly (classify parse c) \<Longrightarrow> \<not> destructive (classify parse c)"
  using classify_exact [of parse c]
  by (auto simp: list_all_iff list_ex_iff calm_not_dangerous split: option.splits)

section \<open>Wrappers\<close>

lemma skipEnv_cases:
  "skipEnvOptions (a # rest) t \<in> {([], False, t), (rest, True, t), (a # rest, True, t),
     skipEnvOptions (drop 1 rest) t, skipEnvOptions rest t, skipEnvOptions rest True}"
  by (simp only: skipEnvOptions.simps insert_iff simp_thms split: if_split)

lemma skip_suffix:
  "skipEnvOptions args t = (inner, k, t') \<Longrightarrow> inner = [] \<or> suffix inner args"
  "skipNiceOptions args = (inner, k) \<Longrightarrow> inner = [] \<or> suffix inner args"
  "timeout_options args = Inl inner \<Longrightarrow> suffix inner args"
  "skipCommandOptions args = (inner, k) \<Longrightarrow> inner = [] \<or> inner = [''which''] \<or> suffix inner args"
  "skipXargsOptions args = (inner, k) \<Longrightarrow> inner = [] \<or> suffix inner args"
proof -
  have drop1: "suffix xs (drop 1 rest) \<Longrightarrow> suffix xs (a # rest)" for xs :: "string list" and a rest
    by (rule suffix_ConsI [OF suffix_order.trans [OF _ suffix_drop]])
  show "skipEnvOptions args t = (inner, k, t') \<Longrightarrow> inner = [] \<or> suffix inner args"
  proof (induction args arbitrary: t rule: measure_induct_rule [where f = length])
    case (less args)
    show ?case
    proof (cases args)
      case Nil
      with less.prems show ?thesis by simp
    next
      case (Cons a rest)
      have "length (drop 1 rest) < length args" "length rest < length args" using Cons by simp_all
      note ih = less.IH [OF this(1)] less.IH [OF this(2)]
      show ?thesis using skipEnv_cases [of a rest t] ih less.prems
        unfolding Cons by (auto simp del: skipEnvOptions.simps intro: suffix_ConsI drop1)
    qed
  qed
  show "skipNiceOptions args = (inner, k) \<Longrightarrow> inner = [] \<or> suffix inner args"
    by (induction args rule: skipNiceOptions.induct)
      (auto split: if_splits intro: suffix_ConsI drop1)
  show "timeout_options args = Inl inner \<Longrightarrow> suffix inner args"
    by (induction args rule: timeout_options.induct)
      (auto split: if_splits intro: suffix_ConsI drop1)
  show "skipCommandOptions args = (inner, k) \<Longrightarrow> inner = [] \<or> inner = [''which''] \<or> suffix inner args"
    by (induction args rule: skipCommandOptions.induct)
      (auto split: if_splits intro: suffix_ConsI)
  show "skipXargsOptions args = (inner, k) \<Longrightarrow> inner = [] \<or> suffix inner args"
    by (induction args rule: skipXargsOptions.induct)
      (auto split: if_splits intro: suffix_ConsI drop1)
qed

lemma skipTimeout_suffix: "skipTimeoutOptions args = (inner, k) \<Longrightarrow> inner = [] \<or> suffix inner args"
  using skip_suffix(3) [of args]
  by (auto simp: skipTimeoutOptions_def split: sum.splits list.splits if_splits dest: suffix_ConsD)

lemma unwrap_once_suffix:
  "unwrap_once name args = Some (inner, k, t) \<Longrightarrow> inner = [] \<or> inner = [''which''] \<or> suffix inner args"
  by (auto simp: unwrap_once_def split: if_splits prod.splits dest: skip_suffix skipTimeout_suffix)

text \<open>The stand-ins for a wrapper without an inner command, and for \<open>command -v\<close>.\<close>

definition stand_in :: "string \<Rightarrow> string list \<Rightarrow> bool" where
  "stand_in name args = (args = [] \<and> name \<in> set [''echo'', ''env'', ''which''])"

definition is_wrapper :: "string \<Rightarrow> bool" where
  "is_wrapper name = (name \<in> set [''env'', ''nice'', ''timeout'', ''nohup'', ''builtin'', ''exec'',
     ''command'', ''xargs''])"

lemma unwrap_once_None: "unwrap_once name args = None \<longleftrightarrow> \<not> is_wrapper name"
  by (simp add: unwrap_once_def is_wrapper_def)

lemma unwrap_which: "unwrap_loop n ''which'' args t = (if n = 0 then ([], [], False, t) else (''which'', args, True, t))"
  by (cases n) (simp_all add: unwrap_once_def)

lemma unwrap_loop_sound:
  "unwrap_loop n name args t = (name', args', True, t') \<Longrightarrow>
    (\<not> is_wrapper name' \<or> name' = ''env'' \<and> args' = [])
    \<and> (stand_in name' args' \<or> suffix (name' # args') (name # args))"
proof (induction n name args t rule: unwrap_loop.induct)
  case (2 n name args t)
  show ?case
  proof (cases "unwrap_once name args")
    case None
    with "2.prems" show ?thesis by (simp add: unwrap_once_None)
  next
    case (Some step)
    obtain inner k taint where s: "step = (inner, k, taint)" by (cases step) auto
    note once = Some [unfolded s]
    have known: k using "2.prems" once by (cases k) (auto simp: Let_def)
    show ?thesis
    proof (cases inner)
      case Nil
      with "2.prems" once known show ?thesis
        by (auto simp: Let_def stand_in_def is_wrapper_def split: if_splits)
    next
      case (Cons name1 args1)
      with "2.prems" once known have ne: "name1 \<noteq> []"
        and loop: "unwrap_loop n name1 args1 (t \<or> taint) = (name', args', True, t')"
        by (auto simp: Let_def split: if_splits)
      note ih = "2.IH" [OF once refl refl refl _ Cons ne loop, simplified, OF known]
      from unwrap_once_suffix [OF once] Cons consider
        "name1 = ''which''" "args1 = []" | "suffix (name1 # args1) args" by auto
      then show ?thesis
      proof cases
        case 1
        with loop show ?thesis
          by (auto simp: unwrap_which stand_in_def is_wrapper_def split: if_splits)
      next
        case 2
        with ih show ?thesis by (auto intro: suffix_ConsI suffix_order.trans)
      qed
    qed
  qed
qed simp

text \<open>
  What \<open>unwrapWrappers\<close> classifies is what will run: when it resolves a call, the resulting
  command is no wrapper any more (a bare \<open>env\<close> apart), and it is either one of the harmless
  stand-ins or literally the tail of the words of the call, so no command is ever made up.
\<close>

theorem unwrap_sound:
  assumes "unwrapWrappers name args = (name', args', True, tainted)"
  shows "(\<not> is_wrapper name' \<or> name' = ''env'' \<and> args' = [])
    \<and> (stand_in name' args' \<or> suffix (name' # args') (name # args))"
  using unwrap_loop_sound [OF assms [unfolded unwrapWrappers_def]] .

lemmas unwrap_eval = unwrapWrappers_def unwrap_once_def numeral_eq_Suc skipTimeoutOptions_def
  env_value_options_def env_plain_options_def timeout_value_options_def timeout_plain_options_def
  timeout_attached_options_def xargs_value_options_def Let_def

theorem unwrap_sound_witness:
  "unwrapWrappers ''env'' [''-i'', ''timeout'', ''5'', ''rm'', ''-rf'', ''x''] = (''rm'', [''-rf'', ''x''], True, False)
    \<and> \<not> is_wrapper ''rm''
    \<and> (stand_in ''rm'' [''-rf'', ''x'']
       \<or> suffix (''rm'' # [''-rf'', ''x'']) (''env'' # [''-i'', ''timeout'', ''5'', ''rm'', ''-rf'', ''x'']))"
proof -
  have u: "unwrapWrappers ''env'' [''-i'', ''timeout'', ''5'', ''rm'', ''-rf'', ''x'']
      = (''rm'', [''-rf'', ''x''], True, False)"
    by (simp add: unwrap_eval)
  from unwrap_sound [OF u] u show ?thesis by simp
qed

section \<open>Bash calls in the resolver\<close>

text \<open>The checker the tool registers, as the resolver calls it.\<close>

definition bash_tool :: "(string \<Rightarrow> node option) \<Rightarrow> ('c, bash_input) tool_checker" where
  "bash_tool parse ctx i = bash_checkPermissions parse (tc_PermissionMode ctx) (Some i)"

lemma bash_tool_decision:
  assumes "rq_Tool req = Some (bash_tool parse)"
  shows "tool_decision req =
    (let c = classify parse (Command (rq_Input req)) in
     if destructive c then DecisionDeny else if readOnly c then DecisionAllow else DecisionAsk)"
  using assms by (auto simp: tool_decision_def tool_answer_def bash_tool_def neutralContext_def
      bash_checkPermissions_def perm_result_def Let_def)

lemma resolve_mode_table:
  assumes "reaches_tool sep v cb (req :: ('c, 'i) request)"
  shows "tool_decision req = DecisionDeny \<Longrightarrow> res_Decision (fst (Resolve sep v cb req)) = DecisionDeny"
    and "auto_allows (Normalize (rq_Mode req)) (tool_decision req) \<Longrightarrow>
      res_Decision (fst (Resolve sep v cb req)) = DecisionAllow"
    and "Normalize (rq_Mode req) \<in> {ModePlan, ModeDontAsk} \<Longrightarrow> tool_decision req \<noteq> DecisionAllow \<Longrightarrow>
      res_Decision (fst (Resolve sep v cb req)) = DecisionDeny"
proof -
  show "tool_decision req = DecisionDeny \<Longrightarrow> res_Decision (fst (Resolve sep v cb req)) = DecisionDeny"
    using tool_denies [OF assms] by simp
next
  assume a: "auto_allows (Normalize (rq_Mode req)) (tool_decision req)"
  then have "tool_decision req \<noteq> DecisionDeny" by (auto simp: auto_allows_iff)
  moreover have "res_Decision (mode_result req :: 'i result) = DecisionAllow"
    using a by (simp add: auto_allows_mode_result)
  ultimately show "res_Decision (fst (Resolve sep v cb req)) = DecisionAllow"
    using mode_decides [OF assms] by simp
next
  assume m: "Normalize (rq_Mode req) \<in> {ModePlan, ModeDontAsk}" and n: "tool_decision req \<noteq> DecisionAllow"
  show "res_Decision (fst (Resolve sep v cb req)) = DecisionDeny"
  proof (cases "tool_decision req = DecisionDeny")
    case True
    then show ?thesis using tool_denies [OF assms] by simp
  next
    case False
    have "res_Decision (mode_result req :: 'i result) = DecisionDeny"
      using m n by (auto simp: applyMode_decision)
    with mode_decides [OF assms False] show ?thesis by simp
  qed
qed


text \<open>Trees for concrete commands: a list of simple commands in one file.\<close>

definition literal_call :: "string list \<Rightarrow> node" where
  "literal_call ws = Node (Stmt 0) [Node (CallExpr 0 (map (\<lambda>w. [Lit w]) ws)) []]"

definition script :: "string list list \<Rightarrow> node" where
  "script cmds = Node OtherNode (map literal_call cmds)"

definition demo_bash :: "(unit, bash_input) request" where
  "demo_bash = \<lparr>rq_Mode = ModeBypass, rq_Rules = no_rules,
     rq_Tool = Some (bash_tool (\<lambda>_. Some (script [[''rm'', ''x'']]))), rq_ToolName = ''Bash'',
     rq_Input = \<lparr>Command = ''rm x'', Description = [], TimeoutMS = 0, Env = []\<rparr>,
     rq_ToolContext = \<lparr>tc_PermissionMode = PermissionDefault\<rparr>\<rparr>"

definition no_callbacks :: "('c, 'i) callbacks" where
  "no_callbacks = \<lparr>HookDecision = None, Prompt = None, Classifier = None, Observer = False\<rparr>"

definition bash_view :: "bash_input input_view" where
  "bash_view = \<lparr>asPermissionTarget = (\<lambda>i. Some (bash_PermissionTarget i)), asPath = (\<lambda>_. None),
     asCommand = (\<lambda>_. None), asQuery = (\<lambda>_. None), marshal = (\<lambda>_. None), unmarshalFields = (\<lambda>_. None)\<rparr>"

lemmas classify_eval = classify_def script_def literal_call_def start_state_def visit_def commandName_def
  commandArgs_def ContainsAny_def isDestructiveCommand_def isNeutralCommand_def isReadOnlyCommand_def
  findWriteFlags_def hasAnyFlag_def flag_matches_def CutBefore_def unsafe_state_def

lemma demo_bash_reaches: "reaches_tool CHR ''/'' bash_view no_callbacks demo_bash"
  by (simp add: reaches_tool_def valid_request_def hook_silent_def run_hook_def no_callbacks_def
      demo_no_rule demo_bash_def)


section \<open>Commands the classifier lets through\<close>

text \<open>
  Consequences of the code for a few scripts that change files or run other programs. They
  are stated as the code behaves; the manifest lists them as findings.
\<close>

lemma xargs_stdin_reads_as_read_only:
  "readOnly (classify (\<lambda>_. Some (script [[''echo'', ''-delete''], [''xargs'', ''find'', ''dir'']])) s)"
  by (simp add: classify_eval unwrap_eval)

lemma xargs_i_hides_command:
  "readOnly (classify (\<lambda>_. Some (script [[''xargs'', ''-i'', ''rm'', ''cat'']])) s)"
  by (simp add: classify_eval unwrap_eval)

lemma env_path_echo_reads_as_read_only:
  "readOnly (classify (\<lambda>_. Some (script [[''env'', ''PATH=/tmp/x'', ''echo'']])) s)"
  by (simp add: classify_eval unwrap_eval)

lemma date_operand_reads_as_read_only:
  "readOnly (classify (\<lambda>_. Some (script [[''date'', ''010112002026'']])) s)"
  by (simp add: classify_eval unwrap_eval dateSetsClock_def short_cluster_def)

lemma env_overrides_not_checked:
  "bash_checkPermissions parse m (Some (i\<lparr>Env := e\<rparr>)) =
     (let r = bash_checkPermissions parse m (Some i) in
      r\<lparr>pr_UpdatedInput := map_option (\<lambda>j. j\<lparr>Env := e\<rparr>) (pr_UpdatedInput r)\<rparr>)"
  by (auto simp: bash_checkPermissions_def perm_result_def Let_def split: tools_mode.split)

end
