(* ===== verification/Task_Mailbox.thy ===== *)
theory Task_Mailbox
  imports Prelude
begin

text \<open>
  The mailbox of a background worker (\<open>internal/tasks/mailbox.go\<close>): a bounded first-in first-out
  queue of messages that refuses a message id it has seen before.

  The supervisor is its client, through the locale \<open>fifo\<close>: an accepted message is stamped and
  becomes the last pending one, draining hands over all pending messages, and a refused message
  changes nothing. A \<open>time.Time\<close> is an \<open>int\<close> with 0 for the zero time; \<open>time.Now\<close> is a parameter.
\<close>

section \<open>State and operations\<close>

datatype mailbox_error = ErrMailboxFull | ErrMessageTooLarge | ErrDuplicateMessageID

definition DefaultMailboxCapacity :: int where
  "DefaultMailboxCapacity = 128"

definition DefaultMailboxMessageBytes :: int where
  "DefaultMailboxMessageBytes = 64 * 1024"

record PendingMessage =
  msg_ID :: string
  FromAgent :: string
  ToAgent :: string
  Summary :: string
  Content :: string
  Timestamp :: int

text \<open>\<open>notify\<close> counts the channels made so far; \<open>notifyClosed\<close> tells whether the last one is closed.\<close>

record Mailbox =
  queue :: "PendingMessage list"
  seenIDs :: "string set"
  capacity :: int
  maxMsgBytes :: int
  notify :: nat
  notifyClosed :: bool

definition NewMailboxWithLimits :: "int \<Rightarrow> int \<Rightarrow> Mailbox" where
  "NewMailboxWithLimits cap maxBytes =
     \<lparr>queue = [], seenIDs = {},
      capacity = (if cap \<le> 0 then DefaultMailboxCapacity else cap),
      maxMsgBytes = (if maxBytes \<le> 0 then DefaultMailboxMessageBytes else maxBytes),
      notify = 0, notifyClosed = False\<rparr>"

definition NewMailbox :: Mailbox where
  "NewMailbox = NewMailboxWithLimits DefaultMailboxCapacity DefaultMailboxMessageBytes"

definition stamp :: "int \<Rightarrow> PendingMessage \<Rightarrow> PendingMessage" where
  "stamp now msg = (if Timestamp msg = 0 then msg\<lparr>Timestamp := now\<rparr> else msg)"

definition Enqueue :: "int \<Rightarrow> PendingMessage \<Rightarrow> Mailbox \<Rightarrow> mailbox_error + Mailbox" where
  "Enqueue now msg m =
     (if 0 < maxMsgBytes m \<and> maxMsgBytes m < int (length (Content msg)) then Inl ErrMessageTooLarge
      else if msg_ID msg \<noteq> [] \<and> msg_ID msg \<in> seenIDs m then Inl ErrDuplicateMessageID
      else if capacity m \<le> int (length (queue m)) then Inl ErrMailboxFull
      else
        let msg = stamp now msg;
            m = m\<lparr>queue := queue m @ [msg]\<rparr>;
            m = (if msg_ID msg \<noteq> [] then m\<lparr>seenIDs := insert (msg_ID msg) (seenIDs m)\<rparr> else m);
            m = (if \<not> notifyClosed m then m\<lparr>notifyClosed := True\<rparr> else m)
        in Inr m)"

definition Drain :: "Mailbox \<Rightarrow> PendingMessage list \<times> Mailbox" where
  "Drain m =
     (if length (queue m) = 0 then ([], m)
      else (queue m, m\<lparr>queue := [], notify := notify m + 1, notifyClosed := False\<rparr>))"

definition Len :: "Mailbox \<Rightarrow> nat" where
  "Len m = length (queue m)"

section \<open>Invariant\<close>

text \<open>
  The queue is within its capacity, the identified messages in it have distinct recorded ids,
  and the current notification channel is closed exactly while messages are pending.
\<close>

definition mailbox_inv :: "Mailbox \<Rightarrow> bool" where
  "mailbox_inv m = (0 < capacity m \<and> 0 < maxMsgBytes m
     \<and> int (length (queue m)) \<le> capacity m
     \<and> list_all (\<lambda>msg. int (length (Content msg)) \<le> maxMsgBytes m) (queue m)
     \<and> distinct (filter (\<lambda>i. i \<noteq> []) (map msg_ID (queue m)))
     \<and> list_all (\<lambda>msg. msg_ID msg \<noteq> [] \<longrightarrow> msg_ID msg \<in> seenIDs m) (queue m)
     \<and> (notifyClosed m \<longleftrightarrow> queue m \<noteq> []))"

lemma stamp_simps [simp]:
  "msg_ID (stamp now msg) = msg_ID msg" "Content (stamp now msg) = Content msg"
  by (simp_all add: stamp_def)

lemma mailbox_inv_New [inv_intros]: "mailbox_inv (NewMailboxWithLimits c b)"
  by (simp add: mailbox_inv_def NewMailboxWithLimits_def DefaultMailboxCapacity_def
      DefaultMailboxMessageBytes_def)

lemma mailbox_inv_NewMailbox [inv_intros]: "mailbox_inv NewMailbox"
  by (simp add: NewMailbox_def mailbox_inv_New)

lemma Enqueue_Inr:
  "Enqueue now msg m = Inr m' \<Longrightarrow>
     m' = m\<lparr>queue := queue m @ [stamp now msg],
            seenIDs := (if msg_ID msg \<noteq> [] then insert (msg_ID msg) (seenIDs m) else seenIDs m),
            notifyClosed := True\<rparr>
     \<and> \<not> (msg_ID msg \<noteq> [] \<and> msg_ID msg \<in> seenIDs m)
     \<and> int (length (queue m)) < capacity m
     \<and> (0 < maxMsgBytes m \<longrightarrow> int (length (Content msg)) \<le> maxMsgBytes m)"
  by (auto simp: Enqueue_def Let_def split: if_splits)

lemma Enqueue_queue: "Enqueue now msg m = Inr m' \<Longrightarrow> queue m' = queue m @ [stamp now msg]"
  by (drule Enqueue_Inr) simp

lemma Enqueue_seen:
  "Enqueue now msg m = Inr m' \<Longrightarrow>
    seenIDs m' = (if msg_ID msg \<noteq> [] then insert (msg_ID msg) (seenIDs m) else seenIDs m)
    \<and> (msg_ID msg \<noteq> [] \<longrightarrow> msg_ID msg \<notin> seenIDs m)"
  by (drule Enqueue_Inr) auto

lemma Enqueue_limits: "Enqueue now msg m = Inr m' \<Longrightarrow> capacity m' = capacity m \<and> maxMsgBytes m' = maxMsgBytes m"
  by (drule Enqueue_Inr) simp

lemma mailbox_inv_Enqueue [inv_intros]:
  "mailbox_inv m \<Longrightarrow> Enqueue now msg m = Inr m' \<Longrightarrow> mailbox_inv m'"
  by (drule Enqueue_Inr) (auto simp: mailbox_inv_def list_all_iff)

lemma mailbox_inv_Drain [inv_intros]: "mailbox_inv m \<Longrightarrow> mailbox_inv (snd (Drain m))"
  by (auto simp: mailbox_inv_def Drain_def)

lemma Drain_simps:
  "fst (Drain m) = queue m" "queue (snd (Drain m)) = []" "seenIDs (snd (Drain m)) = seenIDs m"
  "capacity (snd (Drain m)) = capacity m" "maxMsgBytes (snd (Drain m)) = maxMsgBytes m"
  by (auto simp: Drain_def)

section \<open>The queue contract\<close>

locale fifo =
  fixes put :: "'m \<Rightarrow> 'b \<Rightarrow> 'e + 'b"
    and take_all :: "'b \<Rightarrow> 'x list \<times> 'b"
    and pending :: "'b \<Rightarrow> 'x list"
    and stored :: "'m \<Rightarrow> 'x"
    and invar :: "'b \<Rightarrow> bool"
  assumes put_ok: "invar b \<Longrightarrow> put m b = Inr b' \<Longrightarrow> pending b' = pending b @ [stored m] \<and> invar b'"
    and take_ok: "invar b \<Longrightarrow> fst (take_all b) = pending b \<and> pending (snd (take_all b)) = []
      \<and> invar (snd (take_all b))"
begin

text \<open>
  A history: \<open>Some m\<close> puts a message, \<open>None\<close> drains. The result collects what was accepted and
  what was handed over.
\<close>

fun history :: "'m option list \<Rightarrow> 'b \<Rightarrow> 'x list \<times> 'x list \<times> 'b" where
  "history [] b = ([], [], b)"
| "history (Some m # es) b =
     (case put m b of
        Inl _ \<Rightarrow> history es b
      | Inr b' \<Rightarrow> (case history es b' of (acc, out, b'') \<Rightarrow> (stored m # acc, out, b'')))"
| "history (None # es) b =
     (case history es (snd (take_all b)) of (acc, out, b'') \<Rightarrow> (acc, fst (take_all b) @ out, b''))"

lemma history_conserves:
  "invar b \<Longrightarrow> history es b = (acc, out, b') \<Longrightarrow> pending b @ acc = out @ pending b' \<and> invar b'"
proof (induction es b arbitrary: acc out b' rule: history.induct)
  case (2 m es b)
  show ?case
  proof (cases "put m b")
    case (Inl e)
    with 2 show ?thesis by simp
  next
    case (Inr b1)
    note ok = put_ok [OF "2.prems"(1) Inr]
    obtain acc1 where h: "history es b1 = (acc1, out, b')" "acc = stored m # acc1"
      using "2.prems"(2) Inr by (auto split: prod.splits)
    from "2.IH"(2) [OF Inr _ h(1)] ok h(2) show ?thesis by simp
  qed
next
  case (3 es b)
  note ok = take_ok [OF "3.prems"(1)]
  obtain out1 where h: "history es (snd (take_all b)) = (acc, out1, b')" "out = fst (take_all b) @ out1"
    using "3.prems"(2) by (auto split: prod.splits)
  from "3.IH" [OF _ h(1)] ok h(2) show ?case by simp
qed simp

end

interpretation mailbox: fifo "\<lambda>(now, msg). Enqueue now msg" Drain queue "\<lambda>(now, msg). stamp now msg" mailbox_inv
  by unfold_locales
    (auto dest: Enqueue_queue intro: mailbox_inv_Enqueue mailbox_inv_Drain simp: Drain_simps)

section \<open>Delivery\<close>

definition message_ids :: "PendingMessage list \<Rightarrow> string list" where
  "message_ids msgs = filter (\<lambda>i. i \<noteq> []) (map msg_ID msgs)"

lemma history_ids:
  "mailbox.history es m = (acc, out, m') \<Longrightarrow>
    distinct (message_ids acc) \<and> set (message_ids acc) \<inter> seenIDs m = {}"
proof (induction es m arbitrary: acc out m' rule: mailbox.history.induct)
  case (2 e es m)
  obtain now msg where e: "e = (now, msg)" by (cases e)
  show ?case
  proof (cases "Enqueue now msg m")
    case (Inl err)
    with 2 e show ?thesis by simp
  next
    case (Inr m1)
    obtain acc1 where h: "mailbox.history es m1 = (acc1, out, m')" "acc = stamp now msg # acc1"
      using "2.prems" Inr e by (auto split: prod.splits)
    have ih: "distinct (message_ids acc1) \<and> set (message_ids acc1) \<inter> seenIDs m1 = {}"
      using "2.IH"(2) [of m1, OF _ h(1)] Inr e by simp
    from Enqueue_seen [OF Inr] ih h(2) show ?thesis
      by (auto simp: message_ids_def split: if_splits)
  qed
next
  case (3 es m)
  obtain out1 where h: "mailbox.history es (snd (Drain m)) = (acc, out1, m')"
    using "3.prems" by (auto split: prod.splits)
  from "3.IH" [OF h] show ?case by (simp add: Drain_simps)
qed (simp add: message_ids_def)

lemma history_limits:
  "mailbox.history es m = (acc, out, m') \<Longrightarrow> capacity m' = capacity m"
proof (induction es m arbitrary: acc out m' rule: mailbox.history.induct)
  case (2 e es m)
  obtain now msg where e: "e = (now, msg)" by (cases e)
  show ?case
  proof (cases "Enqueue now msg m")
    case (Inl err)
    with 2 e show ?thesis by simp
  next
    case (Inr m1)
    obtain acc1 where h: "mailbox.history es m1 = (acc1, out, m')"
      using "2.prems" Inr e by (auto split: prod.splits)
    have "capacity m' = capacity m1"
      using "2.IH"(2) [of m1, OF _ h] Inr e by simp
    with Enqueue_limits [OF Inr] show ?thesis by simp
  qed
next
  case (3 es m)
  obtain out1 where h: "mailbox.history es (snd (Drain m)) = (acc, out1, m')"
    using "3.prems" by (auto split: prod.splits)
  from "3.IH" [OF h] show ?case by (simp add: Drain_simps)
qed simp

text \<open>
  The mailbox is a lossless, duplicate-free queue: for any sequence of enqueues and drains on
  a new mailbox, the messages accepted are exactly the messages drained so far followed by those
  still queued, in the order they were accepted; no two accepted messages share an id; and what
  is queued never exceeds the capacity.
\<close>

theorem mailbox_lossless_in_order:
  "case mailbox.history es (NewMailboxWithLimits c b) of (accepted, drained, m) \<Rightarrow>
     accepted = drained @ queue m \<and> distinct (message_ids accepted)
     \<and> int (length (queue m)) \<le> (if c \<le> 0 then 128 else c)"
proof -
  obtain acc out m where h: "mailbox.history es (NewMailboxWithLimits c b) = (acc, out, m)"
    by (metis prod_cases3)
  have "queue (NewMailboxWithLimits c b) @ acc = out @ queue m \<and> mailbox_inv m"
    by (rule mailbox.history_conserves [OF mailbox_inv_New h])
  with history_ids [OF h] history_limits [OF h] h show ?thesis
    by (auto simp: NewMailboxWithLimits_def mailbox_inv_def DefaultMailboxCapacity_def)
qed

text \<open>
  Every answer of \<open>Enqueue\<close>, in the order the code checks: too large, then duplicate, then
  full; a mailbox never refuses for another reason, and after an accepted message the current
  notification channel is closed, so a waiting reader wakes.
\<close>

theorem Enqueue_answers:
  assumes "mailbox_inv m"
  shows "case Enqueue now msg m of
     Inl ErrMessageTooLarge \<Rightarrow> maxMsgBytes m < int (length (Content msg))
   | Inl ErrDuplicateMessageID \<Rightarrow> int (length (Content msg)) \<le> maxMsgBytes m
       \<and> msg_ID msg \<noteq> [] \<and> msg_ID msg \<in> seenIDs m
   | Inl ErrMailboxFull \<Rightarrow> int (length (Content msg)) \<le> maxMsgBytes m
       \<and> (msg_ID msg \<notin> seenIDs m \<or> msg_ID msg = []) \<and> int (length (queue m)) = capacity m
   | Inr m' \<Rightarrow> queue m' = queue m @ [stamp now msg] \<and> notifyClosed m' \<and> notify m' = notify m"
  using assms by (auto simp: Enqueue_def Let_def mailbox_inv_def)

theorem Enqueue_answers_witness:
  "case Enqueue 5 \<lparr>msg_ID = ''a'', FromAgent = [], ToAgent = [], Summary = [], Content = ''hi'', Timestamp = 0\<rparr>
      NewMailbox of
     Inl ErrMessageTooLarge \<Rightarrow> False
   | Inl ErrDuplicateMessageID \<Rightarrow> False
   | Inl ErrMailboxFull \<Rightarrow> False
   | Inr m' \<Rightarrow> notifyClosed m'"
  using Enqueue_answers [OF mailbox_inv_NewMailbox, where now = 5 and msg = "\<lparr>msg_ID = ''a'', FromAgent = [], ToAgent = [],
      Summary = [], Content = ''hi'', Timestamp = 0\<rparr>"]
  by (simp add: Enqueue_def NewMailbox_def NewMailboxWithLimits_def DefaultMailboxCapacity_def
      DefaultMailboxMessageBytes_def Let_def)

end
