(* ===== verification/Task_State.thy ===== *)
theory Task_State
  imports Task_Mailbox
begin

text \<open>
  The life of a background task (\<open>internal/tasks/state.go\<close>, \<open>internal/types/task.go\<close>): the state a
  task is in, as one of five structs that embed each other, and the summary shown to the UI.
  Go's embedding is record extension: a \<open>RunningTask\<close> is a \<open>PendingTask\<close> with more fields.
\<close>

datatype TaskKind = KindBash | KindAgent | KindMCP | KindRemote | KindDream | KindOther string

datatype TaskStatus = StatusPending | StatusRunning | StatusCompleted | StatusFailed | StatusKilled

record TaskSummary =
  sum_ID :: string
  sum_Kind :: TaskKind
  sum_Description :: string
  sum_Status :: TaskStatus
  sum_CreatedAt :: int
  sum_StartedAt :: int
  sum_FinishedAt :: int
  sum_ExitCode :: int
  sum_OutputFile :: string
  sum_Err :: string

text \<open>The metadata is shared by reference; every task has its own, so it is kept by value.\<close>

record AgentTaskMetadata =
  am_Mailbox :: "Mailbox option"
  am_MailboxFile :: string
  am_AgentName :: string

record PendingTask =
  ID :: string
  Kind :: TaskKind
  Description :: string
  CreatedAt :: int

record RunningTask = PendingTask +
  StartedAt :: int
  OutputFile :: string
  AgentMeta :: "AgentTaskMetadata option"

record CompletedTask = RunningTask +
  c_FinishedAt :: int
  c_ExitCode :: int

record FailedTask = RunningTask +
  f_FinishedAt :: int
  f_Err :: "string option"

record KilledTask = RunningTask +
  k_FinishedAt :: int

datatype TaskState =
    Pending PendingTask
  | Running RunningTask
  | Completed CompletedTask
  | Failed FailedTask
  | Killed KilledTask

section \<open>Summaries\<close>

definition Pending_ToSummary :: "'a PendingTask_scheme \<Rightarrow> TaskSummary" where
  "Pending_ToSummary s =
     \<lparr>sum_ID = ID s, sum_Kind = Kind s, sum_Description = Description s, sum_Status = StatusPending,
      sum_CreatedAt = CreatedAt s, sum_StartedAt = 0, sum_FinishedAt = 0, sum_ExitCode = 0,
      sum_OutputFile = [], sum_Err = []\<rparr>"

definition Running_ToSummary :: "'a RunningTask_scheme \<Rightarrow> TaskSummary" where
  "Running_ToSummary s =
     (Pending_ToSummary s)\<lparr>sum_Status := StatusRunning, sum_StartedAt := StartedAt s,
        sum_OutputFile := OutputFile s\<rparr>"

definition Completed_ToSummary :: "CompletedTask \<Rightarrow> TaskSummary" where
  "Completed_ToSummary s =
     (Running_ToSummary s)\<lparr>sum_Status := StatusCompleted, sum_FinishedAt := c_FinishedAt s,
        sum_ExitCode := c_ExitCode s\<rparr>"

definition Failed_ToSummary :: "FailedTask \<Rightarrow> TaskSummary" where
  "Failed_ToSummary s =
     (let out = (Running_ToSummary s)\<lparr>sum_Status := StatusFailed, sum_FinishedAt := f_FinishedAt s\<rparr> in
      case f_Err s of None \<Rightarrow> out | Some e \<Rightarrow> out\<lparr>sum_Err := e\<rparr>)"

definition Killed_ToSummary :: "KilledTask \<Rightarrow> TaskSummary" where
  "Killed_ToSummary s =
     (Running_ToSummary s)\<lparr>sum_Status := StatusKilled, sum_FinishedAt := k_FinishedAt s\<rparr>"

fun ToSummary :: "TaskState \<Rightarrow> TaskSummary" where
  "ToSummary (Pending s) = Pending_ToSummary s"
| "ToSummary (Running s) = Running_ToSummary s"
| "ToSummary (Completed s) = Completed_ToSummary s"
| "ToSummary (Failed s) = Failed_ToSummary s"
| "ToSummary (Killed s) = Killed_ToSummary s"

text \<open>\<open>status == StatusPending || status == StatusRunning\<close>, a test several operations make.\<close>

definition active_status :: "TaskStatus \<Rightarrow> bool" where
  "active_status st = (st = StatusPending \<or> st = StatusRunning)"

definition active :: "TaskState \<Rightarrow> bool" where
  "active st = active_status (sum_Status (ToSummary st))"

text \<open>How far a task has come: a step of the supervisor never goes back.\<close>

fun progress :: "TaskState \<Rightarrow> nat" where
  "progress (Pending _) = 0"
| "progress (Running _) = 1"
| "progress _ = 2"

lemmas summary_defs = Pending_ToSummary_def Running_ToSummary_def Completed_ToSummary_def
  Failed_ToSummary_def Killed_ToSummary_def

lemma inner_summary [simp]:
  "sum_Status (Pending_ToSummary p) = StatusPending" "sum_Status (Running_ToSummary r) = StatusRunning"
  "sum_Status (Completed_ToSummary c) = StatusCompleted" "sum_Status (Failed_ToSummary f) = StatusFailed"
  "sum_Status (Killed_ToSummary k) = StatusKilled"
  "sum_Kind (Pending_ToSummary p) = Kind p" "sum_Kind (Running_ToSummary r) = Kind r"
  "sum_Kind (Completed_ToSummary c) = Kind c" "sum_Kind (Failed_ToSummary f) = Kind f"
  "sum_Kind (Killed_ToSummary k) = Kind k"
  "sum_ID (Pending_ToSummary p) = ID p" "sum_ID (Running_ToSummary r) = ID r"
  "sum_ID (Completed_ToSummary c) = ID c" "sum_ID (Failed_ToSummary f) = ID f"
  "sum_ID (Killed_ToSummary k) = ID k"
  by (simp_all add: summary_defs Let_def split: option.split)

lemma active_iff: "active st \<longleftrightarrow> progress st < 2"
  by (cases st) (simp_all add: active_def active_status_def)

text \<open>The fields every state has, whichever struct it is.\<close>

fun task_kind :: "TaskState \<Rightarrow> TaskKind" where
  "task_kind (Pending s) = Kind s"
| "task_kind (Running s) = Kind s"
| "task_kind (Completed s) = Kind s"
| "task_kind (Failed s) = Kind s"
| "task_kind (Killed s) = Kind s"

fun task_ID :: "TaskState \<Rightarrow> string" where
  "task_ID (Pending s) = ID s"
| "task_ID (Running s) = ID s"
| "task_ID (Completed s) = ID s"
| "task_ID (Failed s) = ID s"
| "task_ID (Killed s) = ID s"

lemma ToSummary_fields [simp]:
  "sum_Kind (ToSummary st) = task_kind st" "sum_ID (ToSummary st) = task_ID st"
  by (cases st; simp)+

end
