(* ===== verification/Task_Supervisor.thy ===== *)
theory Task_Supervisor
  imports Task_State "HOL-Library.AList"
begin

text \<open>
  The task supervisor (\<open>internal/tasks/supervisor.go\<close>, \<open>worker_events.go\<close>, the guards of
  \<open>dream.go\<close>): starting tasks, the goroutine that runs one, stopping, messages, agent names and the
  worker events.

  Each definition is one critical section, or a method that is one critical section; theory
  \<open>Supervisor_Runs\<close> interleaves them. A Go map that is iterated is an association list with
  distinct keys (\<open>AList.update\<close>), one that is only looked up is a map. \<open>ctxCancelled\<close> is the set
  of tasks whose context is done, by their cancel function or by the parent. The worker observer's
  calls are appended to \<open>events\<close>, together with the task they are about.
\<close>

section \<open>State\<close>

record Usage =
  PromptEvalCount :: int
  EvalCount :: int
  TotalDuration :: int
  Turns :: int
  ToolCalls :: int
  DoneReason :: string

definition no_usage :: Usage where
  "no_usage = \<lparr>PromptEvalCount = 0, EvalCount = 0, TotalDuration = 0, Turns = 0, ToolCalls = 0,
     DoneReason = []\<rparr>"

record WorkerMeta =
  wm_Name :: string
  wm_Task :: string
  wm_Model :: string
  wm_Parent :: string
  wm_usage :: Usage
  wm_filesTouched :: int
  wm_finished :: bool

text \<open>A zero time shows as the empty string, which is \<open>None\<close>; the RFC 3339 text is not modelled.\<close>

record WorkerSnapshot =
  sn_TaskID :: string
  sn_Name :: string
  sn_Task :: string
  sn_Model :: string
  sn_Parent :: string
  sn_Status :: TaskStatus
  sn_StartedAt :: "int option"
  sn_FinishedAt :: "int option"
  sn_Error :: string
  sn_Usage :: Usage
  sn_FilesTouched :: int

datatype WorkerEvent =
    Started WorkerSnapshot
  | Progress WorkerSnapshot string string string
  | UsageReport WorkerSnapshot
  | Message PendingMessage
  | Finished WorkerSnapshot

record Supervisor =
  sv_tasks :: "(string \<times> TaskState) list"
  cancels :: "string set"
  ctxCancelled :: "string set"
  sessionDir :: string
  agentNameRegistry :: "string \<rightharpoonup> string"
  dreamTaskID :: string
  dreamResult :: string
  dreamCompletedAt :: int
  workerMeta :: "string \<rightharpoonup> WorkerMeta"
  observing :: bool
  app_Tasks :: "(string \<times> TaskSummary) list"
  app_WorkerCount :: int
  events :: "(string \<times> WorkerEvent) list"
  mailboxLog :: "(string \<times> PendingMessage) list"

definition NewSupervisor :: "string \<Rightarrow> Supervisor" where
  "NewSupervisor dir =
     \<lparr>sv_tasks = [], cancels = {}, ctxCancelled = {}, sessionDir = dir, agentNameRegistry = Map.empty,
      dreamTaskID = [], dreamResult = [], dreamCompletedAt = 0, workerMeta = Map.empty,
      observing = True, app_Tasks = [], app_WorkerCount = 0, events = [], mailboxLog = []\<rparr>"

abbreviation task :: "Supervisor \<Rightarrow> string \<rightharpoonup> TaskState" where
  "task s \<equiv> map_of (sv_tasks s)"

definition put_task :: "string \<Rightarrow> TaskState \<Rightarrow> Supervisor \<Rightarrow> Supervisor" where
  "put_task tid st s = s\<lparr>sv_tasks := AList.update tid st (sv_tasks s)\<rparr>"

lemma task_put [simp]: "task (put_task tid st s) = (task s)(tid \<mapsto> st)"
  by (simp add: put_task_def update_conv')

definition Get :: "string \<Rightarrow> Supervisor \<Rightarrow> TaskState option" where
  "Get tid s = task s tid"

text \<open>\<open>List\<close>: everything but dreams, oldest first.\<close>

definition List_tasks :: "Supervisor \<Rightarrow> TaskState list" where
  "List_tasks s =
     sort_key (\<lambda>st. sum_CreatedAt (ToSummary st))
       (filter (\<lambda>st. sum_Kind (ToSummary st) \<noteq> KindDream) (map snd (sv_tasks s)))"

section \<open>Worker events\<close>

definition utcTime :: "int \<Rightarrow> int option" where
  "utcTime t = (if t = 0 then None else Some t)"

definition no_meta :: WorkerMeta where
  "no_meta = \<lparr>wm_Name = [], wm_Task = [], wm_Model = [], wm_Parent = [], wm_usage = no_usage,
     wm_filesTouched = 0, wm_finished = False\<rparr>"

definition workerSnapshotLocked :: "string \<Rightarrow> TaskSummary \<Rightarrow> Supervisor \<Rightarrow> WorkerSnapshot" where
  "workerSnapshotLocked tid summ s =
     (let m = (case workerMeta s tid of Some m \<Rightarrow> m | None \<Rightarrow> no_meta) in
      \<lparr>sn_TaskID = tid, sn_Name = wm_Name m,
       sn_Task = (if wm_Task m = [] then sum_Description summ else wm_Task m),
       sn_Model = wm_Model m, sn_Parent = wm_Parent m, sn_Status = sum_Status summ,
       sn_StartedAt = utcTime (sum_StartedAt summ), sn_FinishedAt = utcTime (sum_FinishedAt summ),
       sn_Error = sum_Err summ, sn_Usage = wm_usage m, sn_FilesTouched = wm_filesTouched m\<rparr>)"

definition emit :: "string \<Rightarrow> WorkerEvent list \<Rightarrow> Supervisor \<Rightarrow> Supervisor" where
  "emit tid es s = (if observing s then s\<lparr>events := events s @ map (\<lambda>e. (tid, e)) es\<rparr> else s)"

definition set_meta :: "string \<Rightarrow> WorkerMeta \<Rightarrow> Supervisor \<Rightarrow> Supervisor" where
  "set_meta tid m s = s\<lparr>workerMeta := (workerMeta s)(tid \<mapsto> m)\<rparr>"

definition SetWorkerMeta :: "string \<Rightarrow> WorkerMeta \<Rightarrow> Supervisor \<Rightarrow> Supervisor" where
  "SetWorkerMeta tid meta s =
     (case task s tid of
        None \<Rightarrow> s
      | Some st \<Rightarrow>
          if sum_Kind (ToSummary st) \<noteq> KindAgent then s
          else
            let summ = ToSummary st;
                terminal = (\<not> active_status (sum_Status summ));
                s = set_meta tid (meta\<lparr>wm_finished := terminal\<rparr>) s;
                worker = workerSnapshotLocked tid summ s
            in emit tid (if terminal then [Started worker, Finished worker] else [Started worker]) s)"

definition WorkerSnapshots :: "Supervisor \<Rightarrow> WorkerSnapshot list" where
  "WorkerSnapshots s =
     sort_key (\<lambda>w. case sn_StartedAt w of None \<Rightarrow> 0 | Some t \<Rightarrow> t)
       (map (\<lambda>(tid, st). workerSnapshotLocked tid (ToSummary st) s)
         (filter (\<lambda>(tid, st). workerMeta s tid \<noteq> None \<and> sum_Kind (ToSummary st) = KindAgent) (sv_tasks s)))"

definition ReportWorkerProgress :: "string \<Rightarrow> string \<Rightarrow> string \<Rightarrow> string \<Rightarrow> Supervisor \<Rightarrow> Supervisor" where
  "ReportWorkerProgress tid tool target status s =
     (case (task s tid, workerMeta s tid) of
        (Some st, Some m) \<Rightarrow>
          if wm_finished m then s
          else emit tid [Progress (workerSnapshotLocked tid (ToSummary st) s) tool target status] s
      | _ \<Rightarrow> s)"

definition ReportWorkerUsage :: "string \<Rightarrow> Usage \<Rightarrow> int \<Rightarrow> Supervisor \<Rightarrow> Supervisor" where
  "ReportWorkerUsage tid usage filesTouched s =
     (case (task s tid, workerMeta s tid) of
        (Some st, Some m) \<Rightarrow>
          if wm_finished m then s
          else
            let s = set_meta tid (m\<lparr>wm_usage := usage, wm_filesTouched := filesTouched\<rparr>) s
            in emit tid [UsageReport (workerSnapshotLocked tid (ToSummary st) s)] s
      | _ \<Rightarrow> s)"

definition reportWorkerFinished :: "TaskSummary \<Rightarrow> Supervisor \<Rightarrow> Supervisor" where
  "reportWorkerFinished summ s =
     (case workerMeta s (sum_ID summ) of
        None \<Rightarrow> s
      | Some m \<Rightarrow>
          if wm_finished m then s
          else
            let s = set_meta (sum_ID summ) (m\<lparr>wm_finished := True\<rparr>) s
            in emit (sum_ID summ) [Finished (workerSnapshotLocked (sum_ID summ) summ s)] s)"

text \<open>
  \<open>sanitizeSummary\<close>: control characters become spaces, runs of space collapse to one, and the
  result is cut to 200 runes. \<open>unicode.IsControl\<close> is true of the C0 and C1 controls only.
\<close>

definition maxMessageSummaryRunes :: nat where
  "maxMessageSummaryRunes = 200"

definition is_control :: "nat \<Rightarrow> bool" where
  "is_control r = (r < 0x20 \<or> 0x7F \<le> r \<and> r < 0xA0)"

fun fields_from :: "nat list \<Rightarrow> nat list \<Rightarrow> nat list list" where
  "fields_from [] word = (if word = [] then [] else [word])"
| "fields_from (r # rs) word =
     (if is_space r then (if word = [] then fields_from rs [] else word # fields_from rs [])
      else fields_from rs (word @ [r]))"

definition sanitizeSummary :: "string \<Rightarrow> string" where
  "sanitizeSummary input =
     (let b = string_of_runes (map (\<lambda>r. if is_control r then 0x20 else r) (runes input));
          b = string_of_runes (Join (fields_from (runes b) []) 0x20)
      in if maxMessageSummaryRunes < length (runes b)
         then string_of_runes (take maxMessageSummaryRunes (runes b)) else b)"

definition reportWorkerMessage :: "string \<Rightarrow> PendingMessage \<Rightarrow> Supervisor \<Rightarrow> Supervisor" where
  "reportWorkerMessage taskID msg s =
     (case workerMeta s taskID of
        None \<Rightarrow> s
      | Some m \<Rightarrow>
          if wm_finished m then s
          else emit taskID [Message (msg\<lparr>Content := [], Summary := sanitizeSummary (Summary msg),
                 FromAgent := sanitizeSummary (FromAgent msg), ToAgent := sanitizeSummary (ToAgent msg)\<rparr>)] s)"

section \<open>Publishing\<close>

definition is_active_agent :: "TaskSummary \<Rightarrow> bool" where
  "is_active_agent ts = (sum_Kind ts = KindAgent \<and> active_status (sum_Status ts))"

definition publish :: "TaskSummary \<Rightarrow> Supervisor \<Rightarrow> Supervisor" where
  "publish summary s =
     (let s = (if sum_Kind summary = KindAgent \<and> \<not> active_status (sum_Status summary)
               then reportWorkerFinished summary s else s);
          all = AList.update (sum_ID summary) summary (app_Tasks s)
      in s\<lparr>app_Tasks := all, app_WorkerCount := int (length (filter (is_active_agent \<circ> snd) all))\<rparr>)"

definition ActiveWorkerCount :: "Supervisor \<Rightarrow> nat" where
  "ActiveWorkerCount s = length (filter (\<lambda>(_, st). is_active_agent (ToSummary st)) (sv_tasks s))"

section \<open>Starting and ending a task\<close>

text \<open>The two critical sections of \<open>Start\<close>; each is followed by \<open>publish\<close> of the new state.\<close>

definition pending_task :: "string \<Rightarrow> TaskKind \<Rightarrow> string \<Rightarrow> int \<Rightarrow> PendingTask" where
  "pending_task tid kind desc now = \<lparr>ID = tid, Kind = kind, Description = desc, CreatedAt = now\<rparr>"

definition start_pending :: "PendingTask \<Rightarrow> Supervisor \<Rightarrow> Supervisor" where
  "start_pending p s = (put_task (ID p) (Pending p) s)\<lparr>cancels := insert (ID p) (cancels s)\<rparr>"

definition running_task :: "PendingTask \<Rightarrow> int \<Rightarrow> string \<Rightarrow> RunningTask" where
  "running_task p now outputPath =
     PendingTask.extend p (RunningTask.fields now outputPath None)"

definition start_running :: "RunningTask \<Rightarrow> Supervisor \<Rightarrow> Supervisor" where
  "start_running r s = put_task (ID r) (Running r) s"

text \<open>\<open>Start\<close> without interference: what can fail is done before the task is visible.\<close>

definition output_path :: "Supervisor \<Rightarrow> string \<Rightarrow> string" where
  "output_path s tid = sessionDir s @ ''/'' @ tid @ ''.jsonl''"

definition Start :: "bool \<Rightarrow> bool \<Rightarrow> string \<Rightarrow> TaskKind \<Rightarrow> string \<Rightarrow> int \<Rightarrow> int \<Rightarrow> Supervisor \<Rightarrow>
    string option \<times> Supervisor" where
  "Start run_given output_ok tid kind desc now1 now2 s =
     (if \<not> run_given then (None, s)
      else if \<not> output_ok then (None, s)
      else
        let p = pending_task tid kind desc now1;
            s = publish (ToSummary (Pending p)) (start_pending p s);
            r = running_task p now2 (output_path s tid);
            s = publish (ToSummary (Running r)) (start_running r s)
        in (Some tid, s))"

text \<open>How \<open>run\<close> ended: it returned a code and an error, or it panicked.\<close>

datatype outcome = Returned int "string option" | Panicked string

definition completed_task :: "RunningTask \<Rightarrow> int \<Rightarrow> int \<Rightarrow> CompletedTask" where
  "completed_task r now code = RunningTask.extend r (CompletedTask.fields now code)"

definition failed_task :: "RunningTask \<Rightarrow> int \<Rightarrow> string \<Rightarrow> FailedTask" where
  "failed_task r now err = RunningTask.extend r (FailedTask.fields now (Some err))"

definition killed_task :: "RunningTask \<Rightarrow> int \<Rightarrow> KilledTask" where
  "killed_task r now = RunningTask.extend r (KilledTask.fields now)"

text \<open>The end of the goroutine: the committed state, which is then published, or \<open>None\<close>.\<close>

definition finish :: "string \<Rightarrow> outcome \<Rightarrow> int \<Rightarrow> Supervisor \<Rightarrow> TaskState option \<times> Supervisor" where
  "finish tid out finishedAt s0 =
     (let s = s0\<lparr>cancels := cancels s0 - {tid}\<rparr> in
      case task s tid of
        Some (Running r) \<Rightarrow>
          let st = (case out of
                Panicked why \<Rightarrow> Failed (failed_task r finishedAt (''task panic: '' @ why))
              | Returned code err \<Rightarrow>
                  if tid \<in> ctxCancelled s then Killed (killed_task r finishedAt)
                  else case err of
                    Some e \<Rightarrow> Failed (failed_task r finishedAt e)
                  | None \<Rightarrow> Completed (completed_task r finishedAt code))
          in (Some st, put_task tid st s)
      | _ \<Rightarrow> (None, s))"

definition Stop :: "string \<Rightarrow> Supervisor \<Rightarrow> string option \<times> Supervisor" where
  "Stop tid s =
     (if tid \<notin> cancels s then (Some (''task '' @ tid @ '' is not running''), s)
      else (None, s\<lparr>ctxCancelled := insert tid (ctxCancelled s)\<rparr>))"

section \<open>Messages\<close>

datatype queue_error = NotFound | NotRunning | MailboxError mailbox_error | WriteFailed

text \<open>
  The critical section of \<open>QueueMessage\<close>; \<open>write_ok\<close> tells whether the append to the mailbox file
  succeeds. The answer \<open>Inr True\<close> means accepted, \<open>Inr False\<close> a duplicate that is silently dropped.
  On an early return the task map is not written, but a metadata block that was there before is
  shared, so what was done to it stays.
\<close>

definition with_meta :: "RunningTask \<Rightarrow> AgentTaskMetadata \<Rightarrow> RunningTask" where
  "with_meta r am = r\<lparr>AgentMeta := Some am\<rparr>"

definition mailbox_meta :: "Supervisor \<Rightarrow> string \<Rightarrow> RunningTask \<Rightarrow> AgentTaskMetadata" where
  "mailbox_meta s taskID r =
     (let am = (case AgentMeta r of Some am \<Rightarrow> am
                | None \<Rightarrow> \<lparr>am_Mailbox = None, am_MailboxFile = [], am_AgentName = []\<rparr>);
          am = am\<lparr>am_Mailbox := Some (case am_Mailbox am of Some m \<Rightarrow> m | None \<Rightarrow> NewMailbox)\<rparr>
      in if am_MailboxFile am = []
         then am\<lparr>am_MailboxFile := sessionDir s @ ''/'' @ taskID @ ''.mailbox.jsonl''\<rparr> else am)"

definition keep_shared :: "string \<Rightarrow> RunningTask \<Rightarrow> AgentTaskMetadata \<Rightarrow> Supervisor \<Rightarrow> Supervisor" where
  "keep_shared taskID r am s =
     (if AgentMeta r = None then s else put_task taskID (Running (with_meta r am)) s)"

definition QueueMessage :: "bool \<Rightarrow> int \<Rightarrow> string \<Rightarrow> PendingMessage \<Rightarrow> Supervisor \<Rightarrow>
    (queue_error + bool) \<times> Supervisor" where
  "QueueMessage write_ok now taskID msg s =
     (case task s taskID of
        None \<Rightarrow> (Inl NotFound, s)
      | Some (Running r) \<Rightarrow>
          let am = mailbox_meta s taskID r;
              box = the (am_Mailbox am)
          in (case Enqueue now msg box of
                Inl ErrDuplicateMessageID \<Rightarrow> (Inr False, keep_shared taskID r am s)
              | Inl e \<Rightarrow> (Inl (MailboxError e), keep_shared taskID r am s)
              | Inr box' \<Rightarrow>
                  let am' = am\<lparr>am_Mailbox := Some box'\<rparr> in
                  if \<not> write_ok then (Inl WriteFailed, keep_shared taskID r am' s)
                  else (Inr True, (put_task taskID (Running (with_meta r am')) s)
                         \<lparr>mailboxLog := mailboxLog s @ [(am_MailboxFile am, msg)]\<rparr>))
      | Some _ \<Rightarrow> (Inl NotRunning, s))"

definition DrainMessages :: "string \<Rightarrow> Supervisor \<Rightarrow> (queue_error + PendingMessage list) \<times> Supervisor" where
  "DrainMessages taskID s =
     (case task s taskID of
        None \<Rightarrow> (Inl NotFound, s)
      | Some (Running r) \<Rightarrow>
          (case AgentMeta r of
             None \<Rightarrow> (Inr [], s)
           | Some am \<Rightarrow>
               (case am_Mailbox am of
                  None \<Rightarrow> (Inr [], s)
                | Some box \<Rightarrow>
                    (case Drain box of (out, box') \<Rightarrow>
                       (Inr out, put_task taskID (Running (with_meta r (am\<lparr>am_Mailbox := Some box'\<rparr>))) s))))
      | Some _ \<Rightarrow> (Inl NotRunning, s))"

section \<open>Agent names\<close>

definition name_start :: "char \<Rightarrow> bool" where
  "name_start c = (let n = of_char c :: nat in
     0x30 \<le> n \<and> n \<le> 0x39 \<or> 0x41 \<le> n \<and> n \<le> 0x5A \<or> 0x61 \<le> n \<and> n \<le> 0x7A)"

text \<open>\<open>agentNamePattern\<close>: an ASCII letter or digit, then up to 63 of letters, digits, \<open>.\<close>, \<open>_\<close>, \<open>-\<close>.\<close>

definition agentNamePattern :: "string \<Rightarrow> bool" where
  "agentNamePattern s = (case s of [] \<Rightarrow> False
     | c # cs \<Rightarrow> name_start c \<and> length cs \<le> 63 \<and>
         list_all (\<lambda>c. name_start c \<or> c \<in> set [CHR ''.'', CHR ''_'', CHR ''-'']) cs)"

datatype name_error = NameRequired | InvalidName | NameInUse

definition in_use :: "Supervisor \<Rightarrow> string \<Rightarrow> bool" where
  "in_use s existing = (case task s existing of
     None \<Rightarrow> False | Some st \<Rightarrow> active_status (sum_Status (ToSummary st)))"

definition CheckName :: "string \<Rightarrow> Supervisor \<Rightarrow> name_error option" where
  "CheckName name s =
     (let trimmed = TrimSpace name in
      if trimmed = [] then Some NameRequired
      else if \<not> agentNamePattern trimmed then Some InvalidName
      else case agentNameRegistry s trimmed of
        Some existing \<Rightarrow> if in_use s existing then Some NameInUse else None
      | None \<Rightarrow> None)"

definition RegisterName :: "string \<Rightarrow> string \<Rightarrow> Supervisor \<Rightarrow> name_error option \<times> Supervisor" where
  "RegisterName name taskID s =
     (let trimmed = TrimSpace name in
      if trimmed = [] then (Some NameRequired, s)
      else if \<not> agentNamePattern trimmed then (Some InvalidName, s)
      else if (case agentNameRegistry s trimmed of
                 Some existing \<Rightarrow> existing \<noteq> taskID \<and> in_use s existing | None \<Rightarrow> False)
        then (Some NameInUse, s)
      else
        let s = s\<lparr>agentNameRegistry := (agentNameRegistry s)(trimmed \<mapsto> taskID)\<rparr> in
        (None, case workerMeta s taskID of
           Some meta \<Rightarrow> set_meta taskID (meta\<lparr>wm_Name := trimmed\<rparr>) s
         | None \<Rightarrow> s))"

definition LookupByName :: "string \<Rightarrow> Supervisor \<Rightarrow> string option" where
  "LookupByName name s = agentNameRegistry s (TrimSpace name)"

definition UnregisterName :: "string \<Rightarrow> Supervisor \<Rightarrow> Supervisor" where
  "UnregisterName name s = s\<lparr>agentNameRegistry := (agentNameRegistry s)(TrimSpace name := None)\<rparr>"

section \<open>Dreams\<close>

text \<open>The guards of \<open>SpawnDream\<close>: no worker is active and the last dream is over.\<close>

definition may_dream :: "Supervisor \<Rightarrow> bool" where
  "may_dream s = (\<not> 0 < ActiveWorkerCount s \<and> \<not> (dreamTaskID s \<noteq> [] \<and> in_use s (dreamTaskID s)))"

definition dream_done :: "string \<Rightarrow> int \<Rightarrow> Supervisor \<Rightarrow> Supervisor" where
  "dream_done content now s = s\<lparr>dreamResult := TrimSpace content, dreamCompletedAt := now\<rparr>"

definition ConsumeDreamResult :: "int \<Rightarrow> int \<Rightarrow> Supervisor \<Rightarrow> string \<times> Supervisor" where
  "ConsumeDreamResult maxAge now s =
     (if TrimSpace (dreamResult s) = [] then ([], s)
      else
        let s' = s\<lparr>dreamResult := [], dreamCompletedAt := 0\<rparr> in
        if 0 < maxAge \<and> dreamCompletedAt s \<noteq> 0 \<and> maxAge < now - dreamCompletedAt s
        then ([], s') else (dreamResult s, s'))"

text \<open>\<open>KillDream\<close>: the only error of \<open>Stop\<close> says "not running", which it turns into success.\<close>

definition KillDream :: "Supervisor \<Rightarrow> string option \<times> Supervisor" where
  "KillDream s =
     (if dreamTaskID s = [] then (None, s)
      else case Stop (dreamTaskID s) s of
        (Some e, s') \<Rightarrow> if Contains e ''not running'' then (None, s') else (Some e, s')
      | (None, s') \<Rightarrow> (None, s'))"

end
