(* ===== verification/Supervisor_Runs.thy ===== *)
theory Supervisor_Runs
  imports Task_Supervisor
begin

text \<open>
  The supervisor at run time: the critical sections of theory \<open>Task_Supervisor\<close> interleaved in
  every order the locks allow, with the invariants that hold in every reachable state.

  \<open>phase\<close> is the program counter of one task: \<open>Start\<close> commits and publishes the pending and the
  running state one after the other, then the goroutine runs, commits the end and publishes it.
  All other operations may happen between any two of these steps, on any task. Task ids come
  from \<open>ids.New\<close>, whose random ids are taken to be fresh; a worker is announced once
  (\<open>SetWorkerMeta\<close>), which is how its callers use it.
\<close>

section \<open>Steps\<close>

datatype phase =
    Committed PendingTask
  | Announced PendingTask
  | Launched RunningTask
  | Live
  | Ending TaskSummary
  | Over

type_synonym phases = "string \<rightharpoonup> phase"

datatype op =
    OpStop string
  | OpParentCancel string
  | OpMeta string WorkerMeta
  | OpProgress string string string string
  | OpUsage string Usage int
  | OpMessage string PendingMessage
  | OpQueue bool int string PendingMessage
  | OpDrain string
  | OpRegister string string
  | OpUnregister string
  | OpDreamStarted string
  | OpDreamDone string int
  | OpConsumeDream int int

fun apply_op :: "op \<Rightarrow> Supervisor \<Rightarrow> Supervisor" where
  "apply_op (OpStop t) s = snd (Stop t s)"
| "apply_op (OpParentCancel t) s = s\<lparr>ctxCancelled := insert t (ctxCancelled s)\<rparr>"
| "apply_op (OpMeta t m) s = SetWorkerMeta t m s"
| "apply_op (OpProgress t a b c) s = ReportWorkerProgress t a b c s"
| "apply_op (OpUsage t u n) s = ReportWorkerUsage t u n s"
| "apply_op (OpMessage t m) s = reportWorkerMessage t m s"
| "apply_op (OpQueue ok now t m) s = snd (QueueMessage ok now t m s)"
| "apply_op (OpDrain t) s = snd (DrainMessages t s)"
| "apply_op (OpRegister name t) s = snd (RegisterName name t s)"
| "apply_op (OpUnregister name) s = UnregisterName name s"
| "apply_op (OpDreamStarted t) s = s\<lparr>dreamTaskID := t\<rparr>"
| "apply_op (OpDreamDone c now) s = dream_done c now s"
| "apply_op (OpConsumeDream age now) s = snd (ConsumeDreamResult age now s)"

text \<open>A worker is announced once.\<close>

fun op_allowed :: "Supervisor \<Rightarrow> op \<Rightarrow> bool" where
  "op_allowed s (OpMeta t m) = (workerMeta s t = None)"
| "op_allowed s _ = True"

inductive sv_step :: "Supervisor \<times> phases \<Rightarrow> Supervisor \<times> phases \<Rightarrow> bool" where
  spawn: "ph (ID p) = None \<Longrightarrow>
    sv_step (s, ph) (start_pending p s, ph(ID p \<mapsto> Committed p))"
| announce: "ph t = Some (Committed p) \<Longrightarrow>
    sv_step (s, ph) (publish (Pending_ToSummary p) s, ph(t \<mapsto> Announced p))"
| launch: "ph t = Some (Announced p) \<Longrightarrow> r = running_task p now path \<Longrightarrow>
    sv_step (s, ph) (start_running r s, ph(t \<mapsto> Launched r))"
| go: "ph t = Some (Launched r) \<Longrightarrow>
    sv_step (s, ph) (publish (Running_ToSummary r) s, ph(t \<mapsto> Live))"
| ending: "ph t = Some Live \<Longrightarrow> finish t out now s = (Some st, s') \<Longrightarrow>
    sv_step (s, ph) (s', ph(t \<mapsto> Ending (ToSummary st)))"
| report: "ph t = Some (Ending summ) \<Longrightarrow>
    sv_step (s, ph) (publish summ s, ph(t \<mapsto> Over))"
| client: "op_allowed s op \<Longrightarrow> sv_step (s, ph) (apply_op op s, ph)"

section \<open>The invariant\<close>

text \<open>The worker events about one task.\<close>

definition events_of :: "string \<Rightarrow> Supervisor \<Rightarrow> WorkerEvent list" where
  "events_of t s = map snd (filter (\<lambda>(i, _). i = t) (events s))"

fun mid_event :: "WorkerEvent \<Rightarrow> bool" where
  "mid_event (Progress _ _ _ _) = True"
| "mid_event (UsageReport _) = True"
| "mid_event (Message _) = True"
| "mid_event _ = False"

text \<open>Started first, then reports, and Finished last if the worker is finished.\<close>

definition lifecycle :: "bool \<Rightarrow> WorkerEvent list \<Rightarrow> bool" where
  "lifecycle fin es = (case es of
     Started _ # rest \<Rightarrow>
       if fin then rest \<noteq> [] \<and> (case last rest of Finished _ \<Rightarrow> True | _ \<Rightarrow> False)
                     \<and> list_all mid_event (butlast rest)
       else list_all mid_event rest
   | _ \<Rightarrow> False)"

definition phase_ok :: "string \<Rightarrow> phase option \<Rightarrow> TaskState option \<Rightarrow> bool \<Rightarrow> TaskSummary option \<Rightarrow> bool" where
  "phase_ok t p st c pub = (case p of
     None \<Rightarrow> st = None \<and> \<not> c \<and> pub = None
   | Some (Committed q) \<Rightarrow> st = Some (Pending q) \<and> ID q = t \<and> c \<and> pub = None
   | Some (Announced q) \<Rightarrow> st = Some (Pending q) \<and> ID q = t \<and> c \<and> pub = Some (Pending_ToSummary q)
   | Some (Launched r) \<Rightarrow> c \<and> ID r = t \<and> pub \<noteq> None
       \<and> (\<exists>r'. st = Some (Running r') \<and> Running_ToSummary r' = Running_ToSummary r)
   | Some Live \<Rightarrow> c \<and> (\<exists>r. st = Some (Running r) \<and> ID r = t \<and> pub = Some (Running_ToSummary r))
   | Some (Ending summ) \<Rightarrow> \<not> c \<and> pub \<noteq> None
       \<and> (\<exists>x. st = Some x \<and> task_ID x = t \<and> progress x = 2 \<and> summ = ToSummary x)
   | Some Over \<Rightarrow> \<not> c
       \<and> (\<exists>x. st = Some x \<and> task_ID x = t \<and> progress x = 2 \<and> pub = Some (ToSummary x)))"

definition worker_ok :: "phase option \<Rightarrow> TaskState option \<Rightarrow> WorkerMeta option \<Rightarrow> WorkerEvent list \<Rightarrow> bool" where
  "worker_ok p st m es = (case m of
     None \<Rightarrow> es = []
   | Some wm \<Rightarrow> lifecycle (wm_finished wm) es \<and> (p = Some Over \<longrightarrow> wm_finished wm)
       \<and> (\<exists>x. st = Some x \<and> task_kind x = KindAgent \<and> (wm_finished wm \<longrightarrow> progress x = 2)))"

definition task_inv :: "Supervisor \<Rightarrow> phases \<Rightarrow> string \<Rightarrow> bool" where
  "task_inv s ph t = (phase_ok t (ph t) (task s t) (t \<in> cancels s) (map_of (app_Tasks s) t)
     \<and> worker_ok (ph t) (task s t) (workerMeta s t) (events_of t s))"

definition sv_inv :: "Supervisor \<times> phases \<Rightarrow> bool" where
  "sv_inv w = (case w of (s, ph) \<Rightarrow>
     observing s \<and> distinct (map fst (sv_tasks s)) \<and> distinct (map fst (app_Tasks s))
     \<and> app_WorkerCount s = int (length (filter (is_active_agent \<circ> snd) (app_Tasks s)))
     \<and> (\<forall>t. task_inv s ph t))"

section \<open>What each critical section touches\<close>

text \<open>
  One task's part of the state, and the parts that are not per task. A step that leaves the view
  of a task alone keeps its invariant.
\<close>

definition task_view :: "Supervisor \<Rightarrow> string \<Rightarrow>
    TaskState option \<times> bool \<times> TaskSummary option \<times> WorkerMeta option \<times> WorkerEvent list" where
  "task_view s t = (task s t, t \<in> cancels s, map_of (app_Tasks s) t, workerMeta s t, events_of t s)"

lemma task_inv_view:
  "task_view s' t = task_view s t \<Longrightarrow> ph' t = ph t \<Longrightarrow> task_inv s ph t \<Longrightarrow> task_inv s' ph' t"
  by (simp add: task_inv_def task_view_def)

lemma events_of_emit [simp]:
  "observing s \<Longrightarrow> events_of t (emit i es s) = events_of t s @ (if t = i then es else [])"
  by (auto simp: events_of_def emit_def filter_empty_conv o_def)

lemma emit_simps [simp]:
  "sv_tasks (emit i es s) = sv_tasks s" "cancels (emit i es s) = cancels s"
  "app_Tasks (emit i es s) = app_Tasks s" "workerMeta (emit i es s) = workerMeta s"
  "observing (emit i es s) = observing s" "app_WorkerCount (emit i es s) = app_WorkerCount s"
  "ctxCancelled (emit i es s) = ctxCancelled s"
  by (simp_all add: emit_def)

lemma set_meta_simps [simp]:
  "sv_tasks (set_meta i m s) = sv_tasks s" "cancels (set_meta i m s) = cancels s"
  "app_Tasks (set_meta i m s) = app_Tasks s" "workerMeta (set_meta i m s) = (workerMeta s)(i \<mapsto> m)"
  "observing (set_meta i m s) = observing s" "app_WorkerCount (set_meta i m s) = app_WorkerCount s"
  "ctxCancelled (set_meta i m s) = ctxCancelled s" "events_of t (set_meta i m s) = events_of t s"
  by (simp_all add: set_meta_def events_of_def)

lemma put_task_simps [simp]:
  "events (put_task i st s) = events s"
  "cancels (put_task i st s) = cancels s" "app_Tasks (put_task i st s) = app_Tasks s"
  "workerMeta (put_task i st s) = workerMeta s" "observing (put_task i st s) = observing s"
  "app_WorkerCount (put_task i st s) = app_WorkerCount s"
  "ctxCancelled (put_task i st s) = ctxCancelled s" "events_of t (put_task i st s) = events_of t s"
  by (simp_all add: put_task_def events_of_def)

lemma distinct_put_task [simp]:
  "distinct (map fst (sv_tasks s)) \<Longrightarrow> distinct (map fst (sv_tasks (put_task i st s)))"
  by (simp add: put_task_def distinct_update)

lemma lifecycle_mid: "lifecycle False es \<Longrightarrow> mid_event e \<Longrightarrow> lifecycle False (es @ [e])"
  by (auto simp: lifecycle_def split: list.splits WorkerEvent.splits)

lemma lifecycle_finish: "lifecycle False es \<Longrightarrow> lifecycle True (es @ [Finished w])"
  by (auto simp: lifecycle_def split: list.splits WorkerEvent.splits)

lemma lifecycle_start [simp]:
  "lifecycle False [Started w]" "lifecycle True [Started w, Finished w']"
  by (simp_all add: lifecycle_def)

section \<open>The client operations keep the invariant\<close>

lemma sv_invI:
  assumes "observing s'" "distinct (map fst (sv_tasks s'))" "distinct (map fst (app_Tasks s'))"
    "app_WorkerCount s' = int (length (filter (is_active_agent \<circ> snd) (app_Tasks s')))"
    "\<And>u. task_inv s' ph' u"
  shows "sv_inv (s', ph')"
  using assms unfolding sv_inv_def prod.case by blast

lemma sv_invD:
  assumes "sv_inv (s, ph)"
  shows "observing s" "distinct (map fst (sv_tasks s))" "distinct (map fst (app_Tasks s))"
    "app_WorkerCount s = int (length (filter (is_active_agent \<circ> snd) (app_Tasks s)))"
    "task_inv s ph u"
  using assms by (simp_all add: sv_inv_def)

lemma inv_same_view:
  assumes "sv_inv (s, ph)" "\<And>u. task_view s' u = task_view s u" "observing s' = observing s"
    "sv_tasks s' = sv_tasks s" "app_Tasks s' = app_Tasks s" "app_WorkerCount s' = app_WorkerCount s"
  shows "sv_inv (s', ph)"
  using assms by (auto simp: sv_inv_def intro: task_inv_view)

lemma inv_Stop: "sv_inv (s, ph) \<Longrightarrow> sv_inv (snd (Stop t s), ph)"
  by (erule inv_same_view) (auto simp: Stop_def task_view_def events_of_def)

lemma inv_cancel: "sv_inv (s, ph) \<Longrightarrow> sv_inv (s\<lparr>ctxCancelled := x\<rparr>, ph)"
  by (erule inv_same_view) (auto simp: task_view_def events_of_def)

lemma inv_dream_fields:
  "sv_inv (s, ph) \<Longrightarrow> sv_inv (s\<lparr>dreamTaskID := x\<rparr>, ph)"
  "sv_inv (s, ph) \<Longrightarrow> sv_inv (dream_done c now s, ph)"
  "sv_inv (s, ph) \<Longrightarrow> sv_inv (snd (ConsumeDreamResult a now s), ph)"
  "sv_inv (s, ph) \<Longrightarrow> sv_inv (UnregisterName n s, ph)"
  by (erule inv_same_view; auto simp: task_view_def events_of_def dream_done_def UnregisterName_def
      ConsumeDreamResult_def Let_def)+

lemma task_inv_worker:
  assumes "task_inv s ph t" "workerMeta s t = Some m"
  shows "lifecycle (wm_finished m) (events_of t s)" "ph t = Some Over \<Longrightarrow> wm_finished m"
    "\<exists>x. task s t = Some x \<and> task_kind x = KindAgent \<and> (wm_finished m \<longrightarrow> progress x = 2)"
  using assms by (simp_all add: task_inv_def worker_ok_def)

text \<open>A report about a live worker: the metadata may change, one mid event is emitted.\<close>

lemma inv_mid_report:
  assumes inv: "sv_inv (s, ph)" and m: "workerMeta s t = Some m" "\<not> wm_finished m"
    and m': "\<not> wm_finished m'" and e: "mid_event e"
  shows "sv_inv (emit t [e] (set_meta t m' s), ph)"
proof (rule sv_invI)
  fix u
  show "task_inv (emit t [e] (set_meta t m' s)) ph u"
  proof (cases "u = t")
    case False
    then show ?thesis
      by (intro task_inv_view [OF _ refl sv_invD(5) [OF inv]])
        (simp add: task_view_def sv_invD(1) [OF inv])
  next
    case True
    have "lifecycle False (events_of t s @ [e])"
      using task_inv_worker [OF sv_invD(5) [OF inv] m(1)] m(2) e lifecycle_mid by simp
    then show ?thesis using True sv_invD(1) [OF inv] sv_invD(5) [OF inv, of t] m m'
      by (auto simp: task_inv_def worker_ok_def)
  qed
qed (use sv_invD [OF inv] in simp_all)

lemma set_meta_same: "workerMeta s t = Some m \<Longrightarrow> set_meta t m s = s"
  by (simp add: set_meta_def map_upd_triv)

lemma inv_mid_event:
  "sv_inv (s, ph) \<Longrightarrow> workerMeta s t = Some m \<Longrightarrow> \<not> wm_finished m \<Longrightarrow> mid_event e \<Longrightarrow>
    sv_inv (emit t [e] s, ph)"
  using inv_mid_report [of s ph t m m e] by (simp add: set_meta_same)

lemma inv_Progress: "sv_inv (s, ph) \<Longrightarrow> sv_inv (ReportWorkerProgress t a b c s, ph)"
  by (auto simp: ReportWorkerProgress_def split: option.split intro: inv_mid_event)

lemma inv_Usage: "sv_inv (s, ph) \<Longrightarrow> sv_inv (ReportWorkerUsage t u n s, ph)"
  by (auto simp: ReportWorkerUsage_def Let_def split: option.split intro!: inv_mid_report)

lemma inv_Message: "sv_inv (s, ph) \<Longrightarrow> sv_inv (reportWorkerMessage t msg s, ph)"
  by (auto simp: reportWorkerMessage_def split: option.split intro: inv_mid_event)

lemma active_status_progress: "active_status (sum_Status (ToSummary x)) \<longleftrightarrow> progress x < 2"
  by (cases x) (simp_all add: active_status_def)

lemma progress_le: "progress x \<le> 2"
  by (cases x) simp_all

lemma inv_SetWorkerMeta:
  assumes inv: "sv_inv (s, ph)" and new: "workerMeta s t = None"
  shows "sv_inv (SetWorkerMeta t meta s, ph)"
proof (cases "\<exists>x. task s t = Some x \<and> task_kind x = KindAgent")
  case False
  then show ?thesis using inv by (auto simp: SetWorkerMeta_def split: option.split)
next
  case True
  then obtain x where x: "task s t = Some x" "task_kind x = KindAgent" by auto
  have none: "events_of t s = []"
    using sv_invD(5) [OF inv, of t] new by (simp add: task_inv_def worker_ok_def)
  define fin where "fin = (\<not> active_status (sum_Status (ToSummary x)))"
  have fin: "fin \<longleftrightarrow> progress x = 2" using progress_le [of x] by (auto simp: fin_def active_status_progress)
  have over: "ph t = Some Over \<longrightarrow> fin"
    using sv_invD(5) [OF inv, of t] x by (auto simp: task_inv_def phase_ok_def fin)
  define s1 where "s1 = set_meta t (meta\<lparr>wm_finished := fin\<rparr>) s"
  define es where "es = (let w = workerSnapshotLocked t (ToSummary x) s1 in
     if fin then [Started w, Finished w] else [Started w])"
  have eq: "SetWorkerMeta t meta s = emit t es s1"
    using x by (simp add: SetWorkerMeta_def Let_def s1_def es_def fin_def)
  show ?thesis unfolding eq
  proof (rule sv_invI)
    fix u
    show "task_inv (emit t es s1) ph u"
    proof (cases "u = t")
      case False
      then show ?thesis
        by (intro task_inv_view [OF _ refl sv_invD(5) [OF inv]])
          (simp add: task_view_def s1_def sv_invD(1) [OF inv])
    next
      case True
      then show ?thesis using sv_invD(1) [OF inv] sv_invD(5) [OF inv, of t] x none over fin
        by (auto simp: task_inv_def worker_ok_def s1_def es_def Let_def)
    qed
  qed (use sv_invD [OF inv] in \<open>simp_all add: s1_def\<close>)
qed

lemma inv_Register: "sv_inv (s, ph) \<Longrightarrow> sv_inv (snd (RegisterName name t s), ph)"
proof -
  assume inv: "sv_inv (s, ph)"
  define s1 where "s1 = s\<lparr>agentNameRegistry := (agentNameRegistry s)(TrimSpace name \<mapsto> t)\<rparr>"
  have inv1: "sv_inv (s1, ph)"
    using inv by (rule inv_same_view) (auto simp: s1_def task_view_def events_of_def)
  have "sv_inv (set_meta t (m\<lparr>wm_Name := n\<rparr>) s1, ph)" if "workerMeta s1 t = Some m" for m n
  proof (rule sv_invI)
    fix u
    show "task_inv (set_meta t (m\<lparr>wm_Name := n\<rparr>) s1) ph u"
      using sv_invD(5) [OF inv1, of u] that
      by (cases "u = t") (auto simp: task_inv_def worker_ok_def)
  qed (use sv_invD [OF inv1] in simp_all)
  with inv inv1 show ?thesis
    by (auto simp: RegisterName_def Let_def s1_def split: option.split)
qed

text \<open>Replacing a running task by one with the same summary.\<close>

lemma inv_put_running:
  assumes inv: "sv_inv (s, ph)" and r: "task s t = Some (Running r)"
  shows "sv_inv (put_task t (Running (with_meta r am)) s, ph)"
proof (rule sv_invI)
  fix u
  have same: "Running_ToSummary (with_meta r am) = Running_ToSummary r" "Kind (with_meta r am) = Kind r"
    "ID (with_meta r am) = ID r"
    by (simp_all add: with_meta_def summary_defs)
  show "task_inv (put_task t (Running (with_meta r am)) s) ph u"
    using sv_invD(5) [OF inv, of u] r same
    by (cases "u = t") (auto simp: task_inv_def worker_ok_def phase_ok_def split: option.splits phase.splits)
qed (use sv_invD [OF inv] in simp_all)

lemma inv_mailboxLog: "sv_inv (s, ph) \<Longrightarrow> sv_inv (s\<lparr>mailboxLog := x\<rparr>, ph)"
  by (erule inv_same_view) (auto simp: task_view_def events_of_def)

lemma inv_Queue: "sv_inv (s, ph) \<Longrightarrow> sv_inv (snd (QueueMessage ok now t msg s), ph)"
  by (auto simp: QueueMessage_def Let_def keep_shared_def inv_put_running inv_mailboxLog
      split: option.split TaskState.split sum.split mailbox_error.split)

lemma inv_Drain: "sv_inv (s, ph) \<Longrightarrow> sv_inv (snd (DrainMessages t s), ph)"
  by (auto simp: DrainMessages_def inv_put_running split: option.split TaskState.split prod.split)

lemma inv_client: "sv_inv (s, ph) \<Longrightarrow> op_allowed s op \<Longrightarrow> sv_inv (apply_op op s, ph)"
  by (cases op) (auto simp: inv_Stop inv_cancel inv_dream_fields inv_Progress inv_Usage inv_Message
      inv_SetWorkerMeta inv_Register inv_Queue inv_Drain)

section \<open>The steps of a task keep the invariant\<close>

lemma inv_spawn:
  assumes inv: "sv_inv (s, ph)" and new: "ph (ID p) = None"
  shows "sv_inv (start_pending p s, ph(ID p \<mapsto> Committed p))"
proof (rule sv_invI)
  fix u
  show "task_inv (start_pending p s) (ph(ID p \<mapsto> Committed p)) u"
  proof (cases "u = ID p")
    case False
    then show ?thesis
      by (intro task_inv_view [OF _ _ sv_invD(5) [OF inv]])
        (simp_all add: task_view_def start_pending_def events_of_def)
  next
    case True
    have "workerMeta s (ID p) = None"
      using sv_invD(5) [OF inv, of "ID p"] new
      by (auto simp: task_inv_def phase_ok_def worker_ok_def split: option.splits)
    with True sv_invD(5) [OF inv, of "ID p"] new show ?thesis
      by (auto simp: task_inv_def phase_ok_def worker_ok_def start_pending_def events_of_def)
  qed
qed (use sv_invD [OF inv] in \<open>simp_all add: start_pending_def\<close>)

lemma publish_active:
  "active_status (sum_Status summ) \<Longrightarrow> publish summ s =
    (let all = AList.update (sum_ID summ) summ (app_Tasks s) in
     s\<lparr>app_Tasks := all, app_WorkerCount := int (length (filter (is_active_agent \<circ> snd) all))\<rparr>)"
  by (simp add: publish_def)

text \<open>Publishing the current summary of a task that has not ended moves only its published entry.\<close>

lemma inv_publish_active:
  assumes inv: "sv_inv (s, ph)" and act: "active_status (sum_Status summ)"
    and now: "\<And>pub. phase_ok (sum_ID summ) (Some p') (task s (sum_ID summ)) (sum_ID summ \<in> cancels s) (Some summ)"
    and p': "p' \<noteq> Over"
  shows "sv_inv (publish summ s, ph(sum_ID summ \<mapsto> p'))"
proof (rule sv_invI)
  fix u
  show "task_inv (publish summ s) (ph(sum_ID summ \<mapsto> p')) u"
  proof (cases "u = sum_ID summ")
    case False
    then show ?thesis
      by (intro task_inv_view [OF _ _ sv_invD(5) [OF inv]])
        (simp_all add: task_view_def publish_active [OF act] Let_def events_of_def update_conv')
  next
    case True
    with sv_invD(5) [OF inv, of u] now p' show ?thesis
      by (auto simp: task_inv_def worker_ok_def publish_active [OF act] Let_def events_of_def update_conv'
          split: option.splits)
  qed
qed (use sv_invD [OF inv] in \<open>simp_all add: publish_active [OF act] Let_def distinct_update\<close>)

lemma inv_announce:
  assumes inv: "sv_inv (s, ph)" and p: "ph t = Some (Committed p)"
  shows "sv_inv (publish (Pending_ToSummary p) s, ph(t \<mapsto> Announced p))"
proof -
  have ok: "task s t = Some (Pending p)" "ID p = t" "t \<in> cancels s"
    using sv_invD(5) [OF inv, of t] p by (auto simp: task_inv_def phase_ok_def)
  show ?thesis
    using inv_publish_active [OF inv, of "Pending_ToSummary p" "Announced p"] ok
    by (simp add: active_status_def phase_ok_def)
qed

lemma inv_go:
  assumes inv: "sv_inv (s, ph)" and p: "ph t = Some (Launched r)"
  shows "sv_inv (publish (Running_ToSummary r) s, ph(t \<mapsto> Live))"
proof -
  obtain r' where ok: "task s t = Some (Running r')" "ID r = t" "t \<in> cancels s"
    "Running_ToSummary r' = Running_ToSummary r"
    using sv_invD(5) [OF inv, of t] p by (auto simp: task_inv_def phase_ok_def)
  have "ID r' = t" using ok inner_summary(12) by metis
  then show ?thesis
    using inv_publish_active [OF inv, of "Running_ToSummary r" Live] ok
    by (simp add: active_status_def phase_ok_def)
qed

lemma inv_launch:
  assumes inv: "sv_inv (s, ph)" and p: "ph t = Some (Announced p)" and r: "r = running_task p now path"
  shows "sv_inv (start_running r s, ph(t \<mapsto> Launched r))"
proof (rule sv_invI)
  fix u
  have id: "ID r = ID p" "Kind r = Kind p"
    by (simp_all add: r running_task_def PendingTask.defs RunningTask.defs)
  have ok: "task s t = Some (Pending p)" "ID p = t" "t \<in> cancels s" "map_of (app_Tasks s) t \<noteq> None"
    using sv_invD(5) [OF inv, of t] p by (auto simp: task_inv_def phase_ok_def)
  show "task_inv (start_running r s) (ph(t \<mapsto> Launched r)) u"
  proof (cases "u = t")
    case False
    then show ?thesis
      by (intro task_inv_view [OF _ _ sv_invD(5) [OF inv]])
        (simp_all add: task_view_def start_running_def id ok)
  next
    case True
    with sv_invD(5) [OF inv, of t] p ok id show ?thesis
      by (auto simp: task_inv_def phase_ok_def worker_ok_def start_running_def split: option.splits)
  qed
qed (use sv_invD [OF inv] in \<open>simp_all add: start_running_def\<close>)

lemma finish_Some:
  assumes "finish t res now s = (Some st, s')"
  shows "\<exists>r. task s t = Some (Running r) \<and> s' = put_task t st (s\<lparr>cancels := cancels s - {t}\<rparr>)
    \<and> progress st = 2 \<and> task_ID st = ID r \<and> task_kind st = Kind r"
proof -
  have ext: "ID (completed_task r n c) = ID r" "Kind (completed_task r n c) = Kind r"
    "ID (failed_task r n e) = ID r" "Kind (failed_task r n e) = Kind r"
    "ID (killed_task r n) = ID r" "Kind (killed_task r n) = Kind r" for r n c e
    by (simp_all add: completed_task_def failed_task_def killed_task_def RunningTask.defs
        CompletedTask.defs FailedTask.defs KilledTask.defs)
  show ?thesis using assms
    by (auto simp: finish_def Let_def ext split: option.splits TaskState.splits outcome.splits if_splits)
qed

lemma inv_ending:
  assumes inv: "sv_inv (s, ph)" and p: "ph t = Some Live" and f: "finish t res now s = (Some st, s')"
  shows "sv_inv (s', ph(t \<mapsto> Ending (ToSummary st)))"
proof (rule sv_invI)
  obtain r where r: "task s t = Some (Running r)" "s' = put_task t st (s\<lparr>cancels := cancels s - {t}\<rparr>)"
    "progress st = 2" "task_ID st = ID r" "task_kind st = Kind r"
    using finish_Some [OF f] by blast
  fix u
  show "task_inv s' (ph(t \<mapsto> Ending (ToSummary st))) u"
  proof (cases "u = t")
    case False
    then show ?thesis
      by (intro task_inv_view [OF _ _ sv_invD(5) [OF inv]])
        (simp_all add: task_view_def r(2) events_of_def)
  next
    case True
    with sv_invD(5) [OF inv, of t] p r show ?thesis
      by (auto simp: task_inv_def phase_ok_def worker_ok_def events_of_def split: option.splits)
  qed
next
  obtain r where r: "s' = put_task t st (s\<lparr>cancels := cancels s - {t}\<rparr>)"
    using finish_Some [OF f] by blast
  show "observing s'" "distinct (map fst (sv_tasks s'))" "distinct (map fst (app_Tasks s'))"
    "app_WorkerCount s' = int (length (filter (is_active_agent \<circ> snd) (app_Tasks s')))"
    using sv_invD [OF inv] by (simp_all add: r)
qed

lemma inv_report:
  assumes inv: "sv_inv (s, ph)" and p: "ph t = Some (Ending summ)"
  shows "sv_inv (publish summ s, ph(t \<mapsto> Over))"
proof -
  obtain x where x: "task s t = Some x" "task_ID x = t" "progress x = 2" "summ = ToSummary x" "t \<notin> cancels s"
    using sv_invD(5) [OF inv, of t] p by (auto simp: task_inv_def phase_ok_def)
  have id: "sum_ID summ = t" and kind: "sum_Kind summ = task_kind x" using x by simp_all
  have ended: "\<not> active_status (sum_Status summ)"
    unfolding x(4) active_status_progress using x(3) by simp
  define s1 where "s1 = (if task_kind x = KindAgent then reportWorkerFinished summ s else s)"
  have pub: "publish summ s = (let all = AList.update t summ (app_Tasks s1) in
     s1\<lparr>app_Tasks := all, app_WorkerCount := int (length (filter (is_active_agent \<circ> snd) all))\<rparr>)"
    using ended by (simp add: publish_def kind id s1_def Let_def)
  have s1: "sv_tasks s1 = sv_tasks s" "cancels s1 = cancels s" "app_Tasks s1 = app_Tasks s" "observing s1"
    using sv_invD(1) [OF inv]
    by (auto simp: s1_def reportWorkerFinished_def Let_def split: option.split)
  have other: "u \<noteq> t \<Longrightarrow> workerMeta s1 u = workerMeta s u \<and> events_of u s1 = events_of u s" for u
    using sv_invD(1) [OF inv]
    by (auto simp: s1_def reportWorkerFinished_def id Let_def split: option.split)
  have w: "worker_ok (ph t) (task s t) (workerMeta s t) (events_of t s)"
    using sv_invD(5) [OF inv, of t] by (simp add: task_inv_def)
  have own: "worker_ok (Some Over) (task s t) (workerMeta s1 t) (events_of t s1)"
  proof (cases "workerMeta s t")
    case None
    with w show ?thesis by (auto simp: worker_ok_def s1_def reportWorkerFinished_def id)
  next
    case (Some m)
    with w x have "task_kind x = KindAgent" by (simp add: worker_ok_def)
    with Some w x sv_invD(1) [OF inv] lifecycle_finish show ?thesis
      by (auto simp: worker_ok_def s1_def reportWorkerFinished_def id Let_def)
  qed
  show ?thesis
  proof (rule sv_invI)
    fix u
    show "task_inv (publish summ s) (ph(t \<mapsto> Over)) u"
    proof (cases "u = t")
      case False
      then show ?thesis
        by (intro task_inv_view [OF _ _ sv_invD(5) [OF inv]])
          (use other [of u] in \<open>simp_all add: task_view_def pub Let_def s1 update_conv' events_of_def\<close>)
    next
      case True
      show ?thesis unfolding pub Let_def task_inv_def
        using own x True by (auto simp: phase_ok_def s1 update_conv' events_of_def)
    qed
  qed (use sv_invD [OF inv] s1 in \<open>simp_all add: pub Let_def distinct_update\<close>)
qed

lemma inv_step: "sv_step w w' \<Longrightarrow> sv_inv w \<Longrightarrow> sv_inv w'"
  by (induction rule: sv_step.induct)
    (simp_all add: inv_spawn inv_announce inv_launch inv_go inv_ending inv_report inv_client)

text \<open>The reachable states: from a new supervisor with an observer, any number of steps.\<close>

abbreviation sv_reachable :: "string \<Rightarrow> Supervisor \<Rightarrow> phases \<Rightarrow> bool" where
  "sv_reachable dir s ph \<equiv> sv_step\<^sup>*\<^sup>* (NewSupervisor dir, Map.empty) (s, ph)"

lemma inv_start: "sv_inv (NewSupervisor dir, Map.empty)"
  by (simp add: sv_inv_def NewSupervisor_def task_inv_def phase_ok_def worker_ok_def events_of_def)

lemma inv_steps: "sv_step\<^sup>*\<^sup>* w w' \<Longrightarrow> sv_inv w \<Longrightarrow> sv_inv w'"
  by (induction rule: rtranclp_induct) (auto intro: inv_step)

lemma inv_reachable: "sv_reachable dir s ph \<Longrightarrow> sv_inv (s, ph)"
  by (erule inv_steps) (rule inv_start)

section \<open>Properties\<close>

lemma reachable_task_inv: "sv_reachable dir s ph \<Longrightarrow> task_inv s ph t"
  using sv_invD(5) [OF inv_reachable] .

text \<open>
  C37. Worker events are well ordered in every interleaving: a task that was never announced has no
  events; an announced worker's events are one Started, then reports, then exactly one Finished as
  the last event if the worker is finished; and once the task's goroutine is done the Finished
  event is there, even when the task ended before it was announced.
\<close>

theorem worker_events_lifecycle:
  assumes "sv_reachable dir s ph"
  shows "case workerMeta s t of
     None \<Rightarrow> events_of t s = []
   | Some m \<Rightarrow> lifecycle (wm_finished m) (events_of t s) \<and> (ph t = Some Over \<longrightarrow> wm_finished m)"
  using reachable_task_inv [OF assms, of t]
  by (auto simp: task_inv_def worker_ok_def split: option.splits)

definition demo_agent :: PendingTask where
  "demo_agent = pending_task ''a1'' KindAgent ''review'' 7"

definition demo_sup :: Supervisor where
  "demo_sup = SetWorkerMeta ''a1'' no_meta (start_pending demo_agent (NewSupervisor ''d''))"

lemma demo_reachable: "sv_reachable ''d'' demo_sup [''a1'' \<mapsto> Committed demo_agent]"
proof -
  let ?s0 = "NewSupervisor ''d''" and ?s1 = "start_pending demo_agent (NewSupervisor ''d'')"
  let ?ph = "[''a1'' \<mapsto> Committed demo_agent]"
  have id: "ID demo_agent = ''a1''" by (simp add: demo_agent_def pending_task_def)
  have "sv_step (?s0, Map.empty) (?s1, ?ph)"
    using sv_step.spawn [of Map.empty demo_agent ?s0] by (simp add: id)
  moreover have "sv_step (?s1, ?ph) (demo_sup, ?ph)"
    using sv_step.client [of ?s1 "OpMeta ''a1'' no_meta" ?ph]
    by (simp add: demo_sup_def start_pending_def put_task_def NewSupervisor_def)
  ultimately show ?thesis by auto
qed

theorem worker_events_lifecycle_witness:
  "(case workerMeta demo_sup ''a1'' of
     None \<Rightarrow> events_of ''a1'' demo_sup = []
   | Some m \<Rightarrow> lifecycle (wm_finished m) (events_of ''a1'' demo_sup)
       \<and> ([''a1'' \<mapsto> Committed demo_agent] ''a1'' = Some Over \<longrightarrow> wm_finished m))
   \<and> workerMeta demo_sup ''a1'' \<noteq> None"
  using worker_events_lifecycle [OF demo_reachable, of "''a1''"]
  by (auto simp: demo_sup_def SetWorkerMeta_def start_pending_def put_task_def NewSupervisor_def
      demo_agent_def pending_task_def Let_def)

text \<open>
  A task can be stopped exactly while it is pending or running: \<open>Stop\<close> succeeds if and only if
  the task is known and has not ended, in every reachable state, so no cancel function outlives
  its task and no live task lacks one.
\<close>

theorem stop_iff_active:
  assumes "sv_reachable dir s ph"
  shows "fst (Stop t s) = None \<longleftrightarrow> (\<exists>st. Get t s = Some st \<and> active st)"
  using reachable_task_inv [OF assms, of t]
  by (auto simp: task_inv_def phase_ok_def Stop_def Get_def active_iff split: option.splits phase.splits)

theorem stop_iff_active_witness:
  "fst (Stop ''a1'' demo_sup) = None \<longleftrightarrow> (\<exists>st. Get ''a1'' demo_sup = Some st \<and> active st)"
  by (rule stop_iff_active [OF demo_reachable])

lemma sv_tasks_publish [simp]: "sv_tasks (publish summ s) = sv_tasks s"
  by (auto simp: publish_def reportWorkerFinished_def Let_def split: option.split)

text \<open>What an operation may do to a task: nothing, or give a running task other metadata.\<close>

definition same_task :: "TaskState \<Rightarrow> TaskState \<Rightarrow> bool" where
  "same_task st st' = (st' = st \<or> (\<exists>r am. st = Running r \<and> st' = Running (with_meta r am)))"

lemma put_with_meta:
  "task s t = Some (Running r) \<Longrightarrow> task s u = Some st \<Longrightarrow>
    \<exists>st'. task (put_task t (Running (with_meta r am)) s) u = Some st' \<and> same_task st st'"
  by (auto simp: same_task_def)

lemma same_task_refl [simp]: "same_task st st"
  by (simp add: same_task_def)

lemma QueueMessage_task:
  "task s u = Some st \<Longrightarrow> \<exists>st'. task (snd (QueueMessage ok now t msg s)) u = Some st' \<and> same_task st st'"
  using put_with_meta [of s t _ u st]
  by (auto simp: QueueMessage_def Let_def keep_shared_def simp del: task_put
      split: option.split TaskState.split sum.split mailbox_error.split)

lemma DrainMessages_task:
  "task s u = Some st \<Longrightarrow> \<exists>st'. task (snd (DrainMessages t s)) u = Some st' \<and> same_task st st'"
  using put_with_meta [of s t _ u st]
  by (auto simp: DrainMessages_def simp del: task_put split: option.split TaskState.split prod.split)

lemma apply_op_task:
  "task s u = Some st \<Longrightarrow> \<exists>st'. task (apply_op op s) u = Some st' \<and> same_task st st'"
  by (cases op)
    (auto simp: Stop_def SetWorkerMeta_def ReportWorkerProgress_def ReportWorkerUsage_def Let_def
      reportWorkerMessage_def RegisterName_def UnregisterName_def dream_done_def ConsumeDreamResult_def
      intro: QueueMessage_task DrainMessages_task split: option.split)

definition advances :: "TaskState \<Rightarrow> TaskState \<Rightarrow> bool" where
  "advances st st' = (progress st \<le> progress st' \<and> task_ID st' = task_ID st \<and> task_kind st' = task_kind st
     \<and> (progress st = 2 \<longrightarrow> st' = st))"

lemma same_task_advances: "same_task st st' \<Longrightarrow> advances st st'"
  by (auto simp: same_task_def advances_def with_meta_def)

lemma advances_trans: "advances a b \<Longrightarrow> advances b c \<Longrightarrow> advances a c"
  using progress_le [of b] progress_le [of c] by (auto simp: advances_def)

lemma step_advances:
  assumes "sv_step (s, ph) (s', ph')" "sv_inv (s, ph)" "task s t = Some st"
  shows "\<exists>st'. task s' t = Some st' \<and> advances st st'"
  using assms
proof (cases rule: sv_step.cases)
  case (spawn p)
  have "ID p \<noteq> t"
    using sv_invD(5) [OF assms(2), of "ID p"] spawn assms(3) by (auto simp: task_inv_def phase_ok_def)
  with spawn assms(3) show ?thesis by (simp add: start_pending_def same_task_advances)
next
  case (launch u p r now path)
  have "task s u = Some (Pending p)" "ID p = u"
    using sv_invD(5) [OF assms(2), of u] launch by (auto simp: task_inv_def phase_ok_def)
  with launch assms(3) show ?thesis
    by (auto simp: start_running_def running_task_def PendingTask.defs RunningTask.defs advances_def)
next
  case (ending u res now st1)
  from finish_Some [OF ending(3)] assms(3) show ?thesis
    by (cases "t = u") (auto simp: advances_def)
next
  case (client op)
  with apply_op_task [OF assms(3), of op] show ?thesis by (auto intro: same_task_advances)
qed (auto simp: same_task_advances)

lemma steps_advance:
  assumes "sv_step\<^sup>*\<^sup>* w w'" "sv_inv w" "task (fst w) t = Some st"
  shows "\<exists>st'. task (fst w') t = Some st' \<and> advances st st'"
  using assms
proof (induction rule: rtranclp_induct)
  case base
  then show ?case by (simp add: same_task_advances)
next
  case (step w1 w2)
  obtain st1 where st1: "task (fst w1) t = Some st1" "advances st st1" using step by blast
  have "sv_inv w1" using inv_steps step by blast
  with step_advances [of "fst w1" "snd w1" "fst w2" "snd w2" t st1] step.hyps(2) st1
  show ?case by (auto intro: advances_trans)
qed

text \<open>
  A task only moves forward: whatever happens from a reachable state on, a task stays known,
  keeps its id and kind, never goes back from running to pending or from an end state to an
  earlier one, and a completed, failed or killed task never changes again.
\<close>

theorem task_moves_forward:
  assumes "sv_reachable dir s ph" "sv_step\<^sup>*\<^sup>* (s, ph) (s', ph')" "Get t s = Some st"
  shows "\<exists>st'. Get t s' = Some st' \<and> advances st st'"
  using steps_advance [OF assms(2) inv_reachable [OF assms(1)], of t st] assms(3) by (simp add: Get_def)

theorem task_moves_forward_witness:
  "\<exists>st'. Get ''a1'' (snd (Stop ''a1'' demo_sup)) = Some st' \<and> advances (Pending demo_agent) st'"
proof (rule task_moves_forward [OF demo_reachable])
  show "sv_step\<^sup>*\<^sup>* (demo_sup, [''a1'' \<mapsto> Committed demo_agent])
      (snd (Stop ''a1'' demo_sup), [''a1'' \<mapsto> Committed demo_agent])"
    using sv_step.client [of demo_sup "OpStop ''a1''" "[''a1'' \<mapsto> Committed demo_agent]"] by auto
  show "Get ''a1'' demo_sup = Some (Pending demo_agent)"
    by (simp add: Get_def demo_sup_def SetWorkerMeta_def start_pending_def put_task_def NewSupervisor_def
        demo_agent_def pending_task_def Let_def)
qed

lemma count_as_card:
  assumes "distinct (map fst al)"
  shows "length (filter (P \<circ> snd) al) = card {k. \<exists>v. map_of al k = Some v \<and> P v}"
proof -
  have d: "distinct (map fst (filter (P \<circ> snd) al))" using assms by (simp add: distinct_map_filter)
  have "{k. \<exists>v. map_of al k = Some v \<and> P v} = fst ` set (filter (P \<circ> snd) al)"
    using assms by (force simp: image_iff)
  also have "card \<dots> = length (filter (P \<circ> snd) al)"
    using distinct_card [OF d] by simp
  finally show ?thesis by (simp add: o_def)
qed

text \<open>No publication is under way.\<close>

definition settled :: "phases \<Rightarrow> bool" where
  "settled ph = (\<forall>t. ph t = None \<or> ph t = Some Live \<or> ph t = Some Over)"



section \<open>Agent names\<close>

text \<open>
  A launch that passed \<open>CheckName\<close> can register: for a task that does not hold the name
  already, \<open>RegisterName\<close> accepts exactly when \<open>CheckName\<close> does, and with the same error when
  not; after an accepted registration the name, however it is padded, leads to the task; a refused
  registration changes nothing, so an active task never loses its name to another.
\<close>

theorem register_iff_check:
  assumes "LookupByName name s \<noteq> Some t"
  shows "fst (RegisterName name t s) = CheckName name s
    \<and> (CheckName name s = None \<longrightarrow> LookupByName name (snd (RegisterName name t s)) = Some t)
    \<and> (CheckName name s \<noteq> None \<longrightarrow> snd (RegisterName name t s) = s)"
  using assms
  by (auto simp: RegisterName_def CheckName_def LookupByName_def Let_def set_meta_def split: option.split)

theorem register_iff_check_witness:
  "fst (RegisterName ''worker'' ''a1'' demo_sup) = CheckName ''worker'' demo_sup
    \<and> CheckName ''worker'' demo_sup = None
    \<and> LookupByName ''worker'' (snd (RegisterName ''worker'' ''a1'' demo_sup)) = Some ''a1''"
proof -
  have n: "TrimSpace ''worker'' = ''worker''" "agentNamePattern ''worker''"
    by (simp_all add: TrimSpace_def trim_chunks_def chunks_ascii is_space_def agentNamePattern_def name_start_def)
  have "LookupByName ''worker'' demo_sup \<noteq> Some ''a1''" and "CheckName ''worker'' demo_sup = None"
    by (simp_all add: n LookupByName_def CheckName_def demo_sup_def SetWorkerMeta_def start_pending_def
        put_task_def NewSupervisor_def demo_agent_def pending_task_def Let_def set_meta_def emit_def)
  then show ?thesis using register_iff_check [of "''worker''" demo_sup "''a1''"] by simp
qed

section \<open>Messages\<close>

text \<open>What is waiting for a task.\<close>

definition waiting :: "string \<Rightarrow> Supervisor \<Rightarrow> PendingMessage list" where
  "waiting t s = (case task s t of
     Some (Running r) \<Rightarrow> (case AgentMeta r of Some am \<Rightarrow>
        (case am_Mailbox am of Some box \<Rightarrow> queue box | None \<Rightarrow> []) | None \<Rightarrow> [])
   | _ \<Rightarrow> [])"

lemma mailbox_meta_queue:
  "task s t = Some (Running r) \<Longrightarrow> queue (the (am_Mailbox (mailbox_meta s t r))) = waiting t s"
  by (auto simp: mailbox_meta_def waiting_def Let_def NewMailbox_def NewMailboxWithLimits_def split: option.split)

lemma mailbox_meta_Some [simp]: "\<exists>m. am_Mailbox (mailbox_meta s t r) = Some m"
  by (auto simp: mailbox_meta_def Let_def)

lemma waiting_put [simp]:
  "waiting t (put_task t (Running (with_meta r (am\<lparr>am_Mailbox := Some box\<rparr>))) s) = queue box"
  by (simp add: waiting_def with_meta_def)

text \<open>
  Queueing and draining a worker's messages: an accepted message (\<open>Inr True\<close>) is stamped and
  joins the end of what is waiting; a duplicate (\<open>Inr False\<close>), an unknown or ended task and a
  mailbox error leave what is waiting as it was; and for a task that is running, \<open>DrainMessages\<close>
  returns all that is waiting and leaves nothing.
\<close>

theorem messages_queue_and_drain:
  "(case QueueMessage write_ok now t msg s of
      (Inr True, s') \<Rightarrow> waiting t s' = waiting t s @ [stamp now msg]
    | (Inr False, s') \<Rightarrow> waiting t s' = waiting t s
    | (Inl WriteFailed, s') \<Rightarrow> \<not> write_ok
    | (Inl _, s') \<Rightarrow> waiting t s' = waiting t s)
   \<and> (case DrainMessages t s of
      (Inr msgs, s') \<Rightarrow> msgs = waiting t s \<and> waiting t s' = []
    | (Inl _, s') \<Rightarrow> s' = s)"
proof (cases "\<exists>r. task s t = Some (Running r)")
  case False
  then show ?thesis
    by (auto simp: QueueMessage_def DrainMessages_def split: option.split TaskState.split)
next
  case True
  then obtain r where r: "task s t = Some (Running r)" by blast
  obtain m where m: "am_Mailbox (mailbox_meta s t r) = Some m"
    using mailbox_meta_Some by blast
  have q: "queue m = waiting t s" using mailbox_meta_queue [OF r] m by simp
  have same: "waiting t (put_task t (Running (with_meta r (mailbox_meta s t r))) s) = waiting t s"
    using m q by (simp add: waiting_def with_meta_def)
  have upd: "waiting t (s\<lparr>mailboxLog := x\<rparr>) = waiting t s" for x s
    by (simp add: waiting_def)
  have queued: "case QueueMessage write_ok now t msg s of
      (Inr True, s') \<Rightarrow> waiting t s' = waiting t s @ [stamp now msg]
    | (Inr False, s') \<Rightarrow> waiting t s' = waiting t s
    | (Inl WriteFailed, s') \<Rightarrow> \<not> write_ok
    | (Inl _, s') \<Rightarrow> waiting t s' = waiting t s"
    using Enqueue_queue [of now msg m]
    by (auto simp: QueueMessage_def r m q same upd keep_shared_def Let_def
        split: sum.split mailbox_error.split)
  moreover have "case DrainMessages t s of
      (Inr msgs, s') \<Rightarrow> msgs = waiting t s \<and> waiting t s' = [] | (Inl _, s') \<Rightarrow> s' = s"
  proof (cases "AgentMeta r = None \<or> am_Mailbox (the (AgentMeta r)) = None")
    case True
    then show ?thesis by (auto simp: DrainMessages_def r waiting_def split: option.split)
  next
    case False
    then obtain am box where b: "AgentMeta r = Some am" "am_Mailbox am = Some box" by auto
    then have w: "waiting t s = queue box" by (simp add: waiting_def r)
    obtain out box' where d: "Drain box = (out, box')" by (cases "Drain box")
    then have "out = queue box" "queue box' = []" using Drain_simps [of box] by simp_all
    with w show ?thesis by (simp add: DrainMessages_def r b d)
  qed
  ultimately show ?thesis by blast
qed

text \<open>
  What a failed write leaves behind, in the code as it is: with a mailbox already there the message
  stays queued though an error was returned, and repeating the call reports success without ever
  writing the message to the file.
\<close>

lemma failed_write_stays_queued:
  assumes "task s t = Some (Running r)" "AgentMeta r = Some am" "am_Mailbox am = Some box"
    "Enqueue now msg box = Inr box'" "msg_ID msg \<noteq> []" "mailbox_inv box"
    and q: "QueueMessage False now t msg s = (res, s')"
  shows "res = Inl WriteFailed \<and> waiting t s' = waiting t s @ [stamp now msg] \<and> mailboxLog s' = mailboxLog s
    \<and> fst (QueueMessage True later t msg s') = Inr False"
proof -
  define am0 where "am0 = mailbox_meta s t r"
  have m: "am_Mailbox am0 = Some box" using assms(2,3) by (simp add: am0_def mailbox_meta_def Let_def)
  have s': "res = Inl WriteFailed" "s' = put_task t (Running (with_meta r (am0\<lparr>am_Mailbox := Some box'\<rparr>))) s"
    using q assms(1,2,4) m by (auto simp: QueueMessage_def Let_def am0_def [symmetric] keep_shared_def)
  have w: "waiting t s = queue box" using assms(1-3) by (simp add: waiting_def)
  have seen: "msg_ID msg \<in> seenIDs box'" "maxMsgBytes box' = maxMsgBytes box"
    using Enqueue_seen [OF assms(4)] Enqueue_limits [OF assms(4)] assms(5) by auto
  have size: "int (length (Content msg)) \<le> maxMsgBytes box"
    using Enqueue_Inr [OF assms(4)] assms(6) by (simp add: mailbox_inv_def)
  have log: "mailboxLog s' = mailboxLog s" by (simp add: s'(2) put_task_def)
  define r' where "r' = with_meta r (am0\<lparr>am_Mailbox := Some box'\<rparr>)"
  have "am_Mailbox (mailbox_meta s' t r') = Some box'"
    by (simp add: mailbox_meta_def r'_def with_meta_def Let_def)
  moreover have "Enqueue later msg box' = Inl ErrDuplicateMessageID"
    using seen size assms(5) by (simp add: Enqueue_def)
  ultimately have "fst (QueueMessage True later t msg s') = Inr False"
    by (simp add: QueueMessage_def s'(2) r'_def [symmetric] Let_def)
  with s' w log Enqueue_queue [OF assms(4)] show ?thesis by simp
qed

end
