(* ===== verification/Task_Output.thy ===== *)
theory Task_Output
  imports Prelude
begin

text \<open>
  Reading a task's output file (\<open>internal/tasks/output.go\<close>, \<open>replay.go\<close>): the last lines for the UI,
  and the conversation messages for resuming a worker.

  A file is the list of its lines. \<open>bufio.Scanner\<close> fails at the first line that does not fit its
  default buffer of 64 KiB, so a scan is the lines before it and whether it failed. The JSON
  decoders are parameters, \<open>None\<close> for a decoding error.
\<close>

record OutputLine =
  Ts :: int
  Stream :: string
  Text :: string
  ol_Kind :: string
  Code :: int

definition MaxScanTokenSize :: nat where
  "MaxScanTokenSize = 64 * 1024"

text \<open>A line and its newline must fit in the buffer.\<close>

fun scan :: "string list \<Rightarrow> string list \<times> bool" where
  "scan [] = ([], True)"
| "scan (l # ls) =
     (if MaxScanTokenSize \<le> length l then ([], False)
      else case scan ls of (rest, ok) \<Rightarrow> (l # rest, ok))"

definition tail_add :: "nat \<Rightarrow> 'a \<Rightarrow> 'a list \<Rightarrow> 'a list" where
  "tail_add n line all =
     (let all = all @ [line] in if n < length all then tl all else all)"

fun tail_loop :: "(string \<Rightarrow> OutputLine option) \<Rightarrow> nat \<Rightarrow> string list \<Rightarrow> OutputLine list \<Rightarrow> OutputLine list" where
  "tail_loop unmarshal n [] all = all"
| "tail_loop unmarshal n (l # ls) all =
     (case unmarshal l of
        None \<Rightarrow> tail_loop unmarshal n ls all
      | Some line \<Rightarrow> tail_loop unmarshal n ls (tail_add n line all))"

text \<open>\<open>TailLines\<close> on a file that exists: the lines, and whether the scanner finished.\<close>

definition TailLines :: "(string \<Rightarrow> OutputLine option) \<Rightarrow> string list \<Rightarrow> int \<Rightarrow> OutputLine list \<times> bool" where
  "TailLines unmarshal file n0 =
     (let n = (if n0 \<le> 0 then 20 else nat n0) in
      case scan file of (ls, ok) \<Rightarrow> (tail_loop unmarshal n ls [], ok))"

record 'm replayRecord =
  rr_Kind :: string
  rr_Role :: string
  rr_Message :: 'm

fun replay_loop :: "(string \<Rightarrow> OutputLine option) \<Rightarrow> (string \<Rightarrow> 'm replayRecord option) \<Rightarrow> string list \<Rightarrow> 'm list" where
  "replay_loop unmarshal decode [] = []"
| "replay_loop unmarshal decode (l # ls) =
     (case unmarshal l of
        None \<Rightarrow> replay_loop unmarshal decode ls
      | Some line \<Rightarrow>
          let raw = TrimSpace (Text line) in
          if raw = [] then replay_loop unmarshal decode ls
          else case decode raw of
            None \<Rightarrow> replay_loop unmarshal decode ls
          | Some rec \<Rightarrow>
              if rr_Kind rec \<noteq> ''message'' \<or> rr_Role rec = [] then replay_loop unmarshal decode ls
              else rr_Message rec # replay_loop unmarshal decode ls)"

datatype replay_error = PathRequired | OpenFailed | ScanFailed

definition ReplayMessagesFromOutput ::
    "(string \<Rightarrow> OutputLine option) \<Rightarrow> (string \<Rightarrow> 'm replayRecord option) \<Rightarrow> (string \<Rightarrow> string list option) \<Rightarrow>
     string \<Rightarrow> int \<Rightarrow> replay_error + 'm list" where
  "ReplayMessagesFromOutput unmarshal decode open_file path max_n =
     (if TrimSpace path = [] then Inl PathRequired
      else case open_file path of
        None \<Rightarrow> Inl OpenFailed
      | Some file \<Rightarrow>
          (case scan file of (ls, ok) \<Rightarrow>
             let msgs = replay_loop unmarshal decode ls in
             if \<not> ok then Inl ScanFailed
             else if 0 < max_n \<and> max_n < int (length msgs)
               then Inr (drop (length msgs - nat max_n) msgs) else Inr msgs))"

section \<open>The tail is a window\<close>

interpretation tail: window "tail_add n" "\<lambda>w. w" "\<lambda>_. n" "\<lambda>w. 0 < n \<and> length w \<le> n" "\<lambda>_ _. True" for n
  by unfold_locales (auto simp: tail_add_def Let_def)

lemma tail_loop_fold:
  "tail_loop unmarshal n ls all = fold (tail_add n) (List.map_filter unmarshal ls) all"
  by (induction ls arbitrary: all) (auto simp: List.map_filter_def split: option.split)

lemma tail_entered: "tail.entered n xs w = xs"
  by (induction xs arbitrary: w) auto

text \<open>
  \<open>TailLines\<close> returns exactly the last lines that decode, 20 of them for a non-positive request,
  among those before the first line too long for the scanner.
\<close>

theorem TailLines_last:
  "fst (TailLines unmarshal file n) =
     last_n (if n \<le> 0 then 20 else nat n) (List.map_filter unmarshal (fst (scan file)))"
proof -
  define k where "k = (if n \<le> 0 then 20 else nat n)"
  have "0 < k" by (simp add: k_def)
  with tail.items_after [of k "[]" "List.map_filter unmarshal (fst (scan file))"] show ?thesis
    by (simp add: TailLines_def Let_def k_def [symmetric] tail_loop_fold tail_entered case_prod_unfold)
qed

text \<open>Resuming a worker fails altogether on a long line: an error, not the messages before it.\<close>

lemma long_line_fails_replay:
  "TrimSpace path \<noteq> [] \<Longrightarrow> open_file path = Some (before @ l # after) \<Longrightarrow> MaxScanTokenSize \<le> length l \<Longrightarrow>
    ReplayMessagesFromOutput unmarshal decode open_file path n = Inl ScanFailed"
proof -
  assume "TrimSpace path \<noteq> []" "open_file path = Some (before @ l # after)" and l: "MaxScanTokenSize \<le> length l"
  moreover have "\<not> snd (scan (before @ l # after))"
    using l by (induction before) (auto split: prod.split)
  ultimately show ?thesis by (auto simp: ReplayMessagesFromOutput_def Let_def split: prod.splits)
qed

end
