(* ===== verification/Server_Limits.thy ===== *)
theory Server_Limits
  imports Prelude
begin

text \<open>
  The bounded structures of the browser server: the event ring buffer (\<open>internal/server/ringbuffer.go\<close>),
  the recently seen message ids (\<open>recentids.go\<close>) and the rate limiter (\<open>ratelimit.go\<close>). The first two
  provide the interface \<open>window\<close> of the prelude.
\<close>

section \<open>RingBuffer\<close>

record 'a RingBuffer =
  rb_cap :: int
  rb_data :: "'a list"

definition NewRingBuffer :: "int \<Rightarrow> 'a RingBuffer" where
  "NewRingBuffer capacity = \<lparr>rb_cap = (if capacity < 1 then 1 else capacity), rb_data = []\<rparr>"

text \<open>\<open>copy(r.data, r.data[1:])\<close> shifts left by one, then the last element is overwritten.\<close>

definition rb_Append :: "'a \<Rightarrow> 'a RingBuffer \<Rightarrow> 'a RingBuffer" where
  "rb_Append v r =
     (if int (length (rb_data r)) = rb_cap r
      then r\<lparr>rb_data := (tl (rb_data r) @ [last (rb_data r)])[length (rb_data r) - 1 := v]\<rparr>
      else r\<lparr>rb_data := rb_data r @ [v]\<rparr>)"

definition Snapshot :: "'a RingBuffer \<Rightarrow> 'a list" where
  "Snapshot r = rb_data r"

definition rb_inv :: "'a RingBuffer \<Rightarrow> bool" where
  "rb_inv r = (0 < rb_cap r \<and> int (length (rb_data r)) \<le> rb_cap r)"

lemma rb_inv_New [inv_intros]: "rb_inv (NewRingBuffer c)"
  by (simp add: rb_inv_def NewRingBuffer_def)

lemma shift_overwrite: "xs \<noteq> [] \<Longrightarrow> (tl xs @ [y])[length xs - 1 := v] = tl xs @ [v]"
  by (cases xs) (simp_all add: list_update_append)

lemma rb_data_Append:
  "rb_inv r \<Longrightarrow> rb_data (rb_Append v r) =
    (if int (length (rb_data r)) = rb_cap r then tl (rb_data r) @ [v] else rb_data r @ [v])"
proof -
  assume "rb_inv r"
  then have "int (length (rb_data r)) = rb_cap r \<Longrightarrow> rb_data r \<noteq> []" by (auto simp: rb_inv_def)
  then show ?thesis
    using shift_overwrite [of "rb_data r" "last (rb_data r)" v] by (auto simp: rb_Append_def)
qed

lemma rb_cap_Append [simp]: "rb_cap (rb_Append v r) = rb_cap r"
  by (simp add: rb_Append_def)

lemma rb_inv_Append [inv_intros]: "rb_inv r \<Longrightarrow> rb_inv (rb_Append v r)"
  using rb_data_Append [of r v] by (auto simp: rb_inv_def)

interpretation ring: window rb_Append Snapshot "\<lambda>r. nat (rb_cap r)" rb_inv "\<lambda>_ _. True"
proof unfold_locales
  show "rb_inv w \<Longrightarrow> Snapshot (rb_Append x w) =
      (if length (Snapshot w) = nat (rb_cap w) then tl (Snapshot w) @ [x] else Snapshot w @ [x])"
    for w :: "'a RingBuffer" and x
    by (auto simp: Snapshot_def rb_data_Append rb_inv_def)
qed (simp_all add: rb_inv_Append, auto simp: rb_inv_def Snapshot_def)

lemma ring_entered [simp]: "ring.entered xs w = xs"
  by (induction xs arbitrary: w) auto

text \<open>
  The ring buffer keeps exactly the newest events: after any number of appends to a new buffer a
  snapshot is the last \<open>capacity\<close> values appended (at least one), oldest first.
\<close>

theorem ring_keeps_newest:
  "Snapshot (fold rb_Append vs (NewRingBuffer capacity)) = last_n (nat (max 1 capacity)) vs"
  using ring.items_after [OF rb_inv_New, of vs capacity]
  by (simp add: Snapshot_def NewRingBuffer_def max_def)

section \<open>RecentIDs\<close>

record RecentIDs =
  ri_cap :: int
  ri_order :: "string list"
  ri_set :: "string set"

definition NewRecentIDs :: "int \<Rightarrow> RecentIDs" where
  "NewRecentIDs capacity = \<lparr>ri_cap = (if capacity < 1 then 1 else capacity), ri_order = [], ri_set = {}\<rparr>"

definition SeenOrAdd :: "string \<Rightarrow> RecentIDs \<Rightarrow> bool \<times> RecentIDs" where
  "SeenOrAdd ident r =
     (if ident = [] then (False, r)
      else if ident \<in> ri_set r then (True, r)
      else
        let r = (if int (length (ri_order r)) = ri_cap r
                 then (let old = ri_order r ! 0 in
                       r\<lparr>ri_order := drop 1 (ri_order r), ri_set := ri_set r - {old}\<rparr>)
                 else r)
        in (False, r\<lparr>ri_order := ri_order r @ [ident], ri_set := insert ident (ri_set r)\<rparr>))"

definition ri_inv :: "RecentIDs \<Rightarrow> bool" where
  "ri_inv r = (0 < ri_cap r \<and> int (length (ri_order r)) \<le> ri_cap r \<and> distinct (ri_order r)
     \<and> [] \<notin> set (ri_order r) \<and> ri_set r = set (ri_order r))"

definition ri_add :: "string \<Rightarrow> RecentIDs \<Rightarrow> RecentIDs" where
  "ri_add ident r = snd (SeenOrAdd ident r)"

definition ri_fresh :: "string \<Rightarrow> RecentIDs \<Rightarrow> bool" where
  "ri_fresh ident r = (ident \<noteq> [] \<and> ident \<notin> set (ri_order r))"

lemma ri_inv_New [inv_intros]: "ri_inv (NewRecentIDs c)"
  by (simp add: ri_inv_def NewRecentIDs_def)

lemma ri_order_add:
  "ri_inv r \<Longrightarrow> ri_order (ri_add i r) =
    (if \<not> ri_fresh i r then ri_order r
     else if int (length (ri_order r)) = ri_cap r then tl (ri_order r) @ [i] else ri_order r @ [i])"
  by (auto simp: ri_add_def SeenOrAdd_def ri_fresh_def ri_inv_def Let_def drop_Suc)

lemma ri_set_add:
  assumes "ri_inv r"
  shows "ri_set (ri_add i r) = set (ri_order (ri_add i r))"
proof -
  have s: "ri_set r = set (ri_order r)" "distinct (ri_order r)"
    and c: "int (length (ri_order r)) = ri_cap r \<Longrightarrow> ri_order r \<noteq> []"
    using assms by (auto simp: ri_inv_def)
  show ?thesis
  proof (cases "ri_order r")
    case Nil
    with s c show ?thesis by (simp add: ri_add_def SeenOrAdd_def Let_def)
  next
    case (Cons x xs)
    with s show ?thesis by (simp add: ri_add_def SeenOrAdd_def Let_def)
  qed
qed

lemma ri_inv_add [inv_intros]: "ri_inv r \<Longrightarrow> ri_inv (ri_add i r)"
proof -
  assume inv: "ri_inv r"
  have cap: "ri_cap (ri_add i r) = ri_cap r" by (simp add: ri_add_def SeenOrAdd_def Let_def)
  have tl: "distinct (tl (ri_order r))" "set (tl (ri_order r)) \<subseteq> set (ri_order r)"
    using inv by (cases "ri_order r"; auto simp: ri_inv_def)+
  have old: "0 < ri_cap r" "int (length (ri_order r)) \<le> ri_cap r" "distinct (ri_order r)"
    "[] \<notin> set (ri_order r)" using inv by (simp_all add: ri_inv_def)
  note new = ri_order_add [OF inv, of i]
  have "distinct (ri_order (ri_add i r))" using new tl old by (auto simp: ri_fresh_def)
  moreover have "[] \<notin> set (ri_order (ri_add i r))" using new tl old by (auto simp: ri_fresh_def)
  moreover have "int (length (ri_order (ri_add i r))) \<le> ri_cap r" using new old by simp
  ultimately show ?thesis
    unfolding ri_inv_def cap using old(1) ri_set_add [OF inv, of i] by blast
qed

lemma ri_cap_add [simp]: "ri_cap (ri_add i r) = ri_cap r"
  by (simp add: ri_add_def SeenOrAdd_def Let_def)

interpretation recent: window ri_add ri_order "\<lambda>r. nat (ri_cap r)" ri_inv ri_fresh
proof unfold_locales
  show "ri_inv w \<Longrightarrow> ri_fresh x w \<Longrightarrow> ri_order (ri_add x w) =
      (if length (ri_order w) = nat (ri_cap w) then tl (ri_order w) @ [x] else ri_order w @ [x])" for w x
    by (auto simp: ri_order_add ri_inv_def)
qed (simp_all add: ri_inv_add ri_order_add, auto simp: ri_inv_def)

text \<open>
  Duplicate detection is exact within its window: after any sequence of ids, \<open>SeenOrAdd\<close> answers
  that a non-empty id was seen if and only if it is among the last \<open>capacity\<close> distinct entries, so
  repeating an id at once is always caught and an empty id never is.
\<close>

theorem recent_ids_window:
  "let r = fold ri_add ids (NewRecentIDs capacity) in
    (fst (SeenOrAdd ident r) \<longleftrightarrow>
      ident \<in> set (last_n (nat (max 1 capacity)) (recent.entered ids (NewRecentIDs capacity))))
    \<and> (ident \<noteq> [] \<longrightarrow> fst (SeenOrAdd ident (snd (SeenOrAdd ident r))))"
proof -
  define r where "r = fold ri_add ids (NewRecentIDs capacity)"
  have inv: "ri_inv r" unfolding r_def by (induction ids rule: rev_induct) (auto intro: inv_intros)
  have items: "ri_order r = last_n (nat (max 1 capacity)) (recent.entered ids (NewRecentIDs capacity))"
    using recent.items_after [OF ri_inv_New, of ids capacity]
    by (simp add: r_def NewRecentIDs_def max_def)
  have "fst (SeenOrAdd ident r) \<longleftrightarrow> ident \<in> set (ri_order r)"
    using inv by (auto simp: SeenOrAdd_def ri_inv_def Let_def)
  moreover have "ident \<noteq> [] \<Longrightarrow> fst (SeenOrAdd ident (snd (SeenOrAdd ident r)))"
    by (auto simp: SeenOrAdd_def Let_def)
  ultimately show ?thesis unfolding Let_def r_def [symmetric] items by blast
qed

theorem recent_ids_window_witness:
  "fst (SeenOrAdd ''m1'' (snd (SeenOrAdd ''m1'' (fold ri_add [''m0''] (NewRecentIDs 2)))))"
  using recent_ids_window [of "[''m0'']" 2 "''m1''"] by (simp add: Let_def)

section \<open>RateLimiter\<close>

record ipCounter =
  ip_start :: int
  ip_count :: int

record RateLimiter =
  perIP :: "string \<rightharpoonup> ipCounter"
  maxReq :: int
  rl_window :: int
  rl_sessions :: int
  maxS :: int

definition time_Minute :: int where
  "time_Minute = 60 * 1000000000"

definition NewRateLimiter :: "int \<Rightarrow> int \<Rightarrow> RateLimiter" where
  "NewRateLimiter maxReqPerMin maxSessions =
     \<lparr>perIP = Map.empty, maxReq = maxReqPerMin, rl_window = time_Minute, rl_sessions = 0, maxS = maxSessions\<rparr>"

text \<open>\<open>host\<close> is what \<open>net.SplitHostPort\<close> gives of the remote address, or the whole address.\<close>

definition AllowRequest :: "string \<Rightarrow> int \<Rightarrow> RateLimiter \<Rightarrow> bool \<times> RateLimiter" where
  "AllowRequest host now r =
     (if maxReq r \<le> 0 then (True, r)
      else case perIP r host of
        None \<Rightarrow> (True, r\<lparr>perIP := (perIP r)(host \<mapsto> \<lparr>ip_start = now, ip_count = 1\<rparr>)\<rparr>)
      | Some c \<Rightarrow>
          if rl_window r \<le> now - ip_start c
          then (True, r\<lparr>perIP := (perIP r)(host \<mapsto> \<lparr>ip_start = now, ip_count = 1\<rparr>)\<rparr>)
          else if maxReq r \<le> ip_count c then (False, r)
          else (True, r\<lparr>perIP := (perIP r)(host \<mapsto> c\<lparr>ip_count := ip_count c + 1\<rparr>)\<rparr>))"

definition AcquireSession :: "RateLimiter \<Rightarrow> bool \<times> RateLimiter" where
  "AcquireSession r =
     (if 0 < maxS r \<and> maxS r \<le> rl_sessions r then (False, r)
      else (True, r\<lparr>rl_sessions := rl_sessions r + 1\<rparr>))"

definition ReleaseSession :: "RateLimiter \<Rightarrow> RateLimiter" where
  "ReleaseSession r =
     (if 0 < rl_sessions r then r\<lparr>rl_sessions := rl_sessions r - 1\<rparr> else r)"

text \<open>The requests of one host at the given times, and how many of them were allowed.\<close>

fun allowed_count :: "string \<Rightarrow> int list \<Rightarrow> RateLimiter \<Rightarrow> nat" where
  "allowed_count host [] r = 0"
| "allowed_count host (now # ts) r =
     (case AllowRequest host now r of (ok, r') \<Rightarrow> (if ok then 1 else 0) + allowed_count host ts r')"

lemma allowed_in_window:
  assumes "perIP r host = Some c" "0 < maxReq r" "ip_count c \<le> maxReq r"
    "\<forall>t \<in> set ts. t - ip_start c < rl_window r"
  shows "int (allowed_count host ts r) \<le> maxReq r - ip_count c"
  using assms
proof (induction ts arbitrary: r c)
  case (Cons now ts)
  show ?case
  proof (cases "maxReq r \<le> ip_count c")
    case True
    with Cons.prems have "AllowRequest host now r = (False, r)" by (simp add: AllowRequest_def)
    with Cons.IH [OF Cons.prems(1-3)] Cons.prems(4) show ?thesis by simp
  next
    case False
    define r' where "r' = r\<lparr>perIP := (perIP r)(host \<mapsto> c\<lparr>ip_count := ip_count c + 1\<rparr>)\<rparr>"
    have "AllowRequest host now r = (True, r')"
      using Cons.prems False by (simp add: AllowRequest_def r'_def)
    moreover have "int (allowed_count host ts r') \<le> maxReq r' - ip_count (c\<lparr>ip_count := ip_count c + 1\<rparr>)"
      using Cons.prems False by (intro Cons.IH) (auto simp: r'_def)
    ultimately show ?thesis by (simp add: r'_def)
  qed
qed simp

text \<open>
  The request limit holds: from the request that opens a host's window on, at most the
  configured number of that host's requests are let through before the window has passed.
\<close>

theorem rate_limit_holds:
  assumes "0 < maxReq r" "perIP r host = None \<or> rl_window r \<le> now - ip_start (the (perIP r host))"
    "\<forall>t \<in> set later. t - now < rl_window r"
  shows "int (allowed_count host (now # later) r) \<le> maxReq r"
proof -
  define r' where "r' = r\<lparr>perIP := (perIP r)(host \<mapsto> \<lparr>ip_start = now, ip_count = 1\<rparr>)\<rparr>"
  have "AllowRequest host now r = (True, r')"
    using assms(1,2) by (auto simp: AllowRequest_def r'_def split: option.split)
  moreover have "int (allowed_count host later r') \<le> maxReq r' - ip_count \<lparr>ip_start = now, ip_count = 1\<rparr>"
    using assms by (intro allowed_in_window) (auto simp: r'_def)
  ultimately show ?thesis by (simp add: r'_def)
qed

theorem rate_limit_holds_witness:
  "int (allowed_count ''h'' (5 # [6, 7, 8]) (NewRateLimiter 2 0)) \<le> maxReq (NewRateLimiter 2 0)"
  by (rule rate_limit_holds) (simp_all add: NewRateLimiter_def time_Minute_def)

end
