(* ===== verification/Server_Slots.thy ===== *)
theory Server_Slots
  imports Server_Limits "HOL-Library.Multiset"
begin

text \<open>
  Session slots of the browser server: the registry (\<open>internal/server/session.go\<close>), creating,
  deleting, sweeping and evicting sessions (\<open>handler.go\<close>, \<open>handler_sessions_list.go\<close>,
  \<open>session_evict.go\<close>, \<open>sweepIdle\<close> of \<open>server.go\<close>), all of which share the limiter's counter.

  The requests that run concurrently are a multiset of program counters \<open>pc\<close>; a step advances one
  of them by one critical section of the code. What users do to a session in between (subscribe,
  run, finish) is the step \<open>session_changes\<close>, which may set its fields to anything.
\<close>

section \<open>Sessions as the slot logic sees them\<close>

datatype SessionState = SessionStateReady | SessionStateRunning | SessionStateClosing

record slot_session =
  ss_id :: string
  ss_createdAt :: int
  ss_lastActive :: int
  ss_state :: SessionState
  ss_running :: bool
  ss_subscribers :: nat

type_synonym registry = "string \<rightharpoonup> slot_session"

definition registry_set :: "slot_session \<Rightarrow> registry \<Rightarrow> registry" where
  "registry_set s r = r(ss_id s \<mapsto> s)"

definition registry_remove :: "string \<Rightarrow> registry \<Rightarrow> bool \<times> registry" where
  "registry_remove i r = (if r i = None then (False, r) else (True, r(i := None)))"

definition evictable :: "slot_session \<Rightarrow> bool" where
  "evictable c = (\<not> ss_running c \<and> ss_state c = SessionStateReady \<and> ss_subscribers c = 0)"

text \<open>The loop of \<open>oldestEvictable\<close> over the sessions in the map's (arbitrary) iteration order.\<close>

definition older :: "slot_session \<Rightarrow> slot_session \<Rightarrow> bool" where
  "older c oldest = (ss_lastActive c < ss_lastActive oldest
     \<or> ss_lastActive c = ss_lastActive oldest \<and> ss_id c < ss_id oldest)"

definition oldestEvictable :: "slot_session list \<Rightarrow> slot_session option" where
  "oldestEvictable cs =
     foldl (\<lambda>best c. if evictable c \<and> (case best of None \<Rightarrow> True | Some b \<Rightarrow> older c b)
                     then Some c else best) None cs"

text \<open>\<open>stop\<close>: the context is cancelled, in-flight writes are forgotten, the state is closing.\<close>

definition stop_session :: "slot_session \<Rightarrow> slot_session" where
  "stop_session s = s\<lparr>ss_state := SessionStateClosing\<rparr>"

section \<open>Concurrent requests\<close>

record server =
  limiter :: RateLimiter
  sessions :: registry

text \<open>
  \<open>CreateStart\<close>: before \<open>acquireSessionSlot\<close>. \<open>EvictLook n\<close>: at attempt \<open>n\<close>, about to look for a victim;
  \<open>EvictMark n i\<close>: victim chosen; \<open>EvictRemove n i\<close>: marked closing and stopped; \<open>EvictRelease n\<close>: removed by
  this request, slot not released yet; \<open>EvictRetry n\<close>: about to acquire again. \<open>Holding\<close>: a slot is
  reserved and the session is being built; \<open>Undo\<close>: building failed. \<open>CloseFound i\<close>: DELETE or the idle
  sweep holds the session; \<open>CloseRemove i\<close>: stopped; \<open>CloseRelease\<close>: removed, slot not released yet.
\<close>

datatype pc =
    CreateStart
  | EvictLook nat
  | EvictMark nat string
  | EvictRemove nat string
  | EvictRelease nat
  | EvictRetry nat
  | Holding
  | Undo
  | CloseFound string
  | CloseRemove string
  | CloseRelease
  | Answered

definition evict_attempts :: nat where
  "evict_attempts = 3"

inductive slot_step :: "server \<times> pc multiset \<Rightarrow> server \<times> pc multiset \<Rightarrow> bool" where
  arrive_create: "slot_step (s, P) (s, add_mset CreateStart P)"
| acquire: "AcquireSession (limiter s) = (ok, l) \<Longrightarrow>
    slot_step (s, add_mset CreateStart P)
      (s\<lparr>limiter := l\<rparr>, add_mset (if ok then Holding else EvictLook 0) P)"
| look: "oldestEvictable cs = v \<Longrightarrow> set cs = ran (sessions s) \<Longrightarrow>
    slot_step (s, add_mset (EvictLook n) P)
      (s, add_mset (if evict_attempts \<le> n then Answered else
                    case v of None \<Rightarrow> Answered | Some c \<Rightarrow> EvictMark n (ss_id c)) P)"
| mark: "sessions s i = Some c \<Longrightarrow>
    slot_step (s, add_mset (EvictMark n i) P)
      (if evictable c
       then (s\<lparr>sessions := (sessions s)(i \<mapsto> stop_session c)\<rparr>, add_mset (EvictRemove n i) P)
       else (s, add_mset (EvictLook (Suc n)) P))"
| mark_gone: "sessions s i = None \<Longrightarrow>
    slot_step (s, add_mset (EvictMark n i) P) (s, add_mset (if b then EvictRemove n i else EvictLook (Suc n)) P)"
| evict_remove: "registry_remove i (sessions s) = (removed, r) \<Longrightarrow>
    slot_step (s, add_mset (EvictRemove n i) P)
      (s\<lparr>sessions := r\<rparr>, add_mset (if removed then EvictRelease n else EvictRetry n) P)"
| evict_release:
    "slot_step (s, add_mset (EvictRelease n) P)
      (s\<lparr>limiter := ReleaseSession (limiter s)\<rparr>, add_mset (EvictRetry n) P)"
| evict_retry: "AcquireSession (limiter s) = (ok, l) \<Longrightarrow>
    slot_step (s, add_mset (EvictRetry n) P)
      (s\<lparr>limiter := l\<rparr>, add_mset (if ok then Holding else EvictLook (Suc n)) P)"
| build_fails: "slot_step (s, add_mset Holding P) (s, add_mset Undo P)"
| undo: "slot_step (s, add_mset Undo P) (s\<lparr>limiter := ReleaseSession (limiter s)\<rparr>, add_mset Answered P)"
| register: "sessions s (ss_id c) = None \<Longrightarrow>
    slot_step (s, add_mset Holding P) (s\<lparr>sessions := registry_set c (sessions s)\<rparr>, add_mset Answered P)"
| arrive_close: "sessions s i \<noteq> None \<Longrightarrow> slot_step (s, P) (s, add_mset (CloseFound i) P)"
| close_stop:
    "slot_step (s, add_mset (CloseFound i) P)
      (s\<lparr>sessions := (case sessions s i of None \<Rightarrow> sessions s
                      | Some c \<Rightarrow> (sessions s)(i \<mapsto> stop_session c))\<rparr>, add_mset (CloseRemove i) P)"
| close_remove: "registry_remove i (sessions s) = (removed, r) \<Longrightarrow>
    slot_step (s, add_mset (CloseRemove i) P)
      (s\<lparr>sessions := r\<rparr>, add_mset (if removed then CloseRelease else Answered) P)"
| close_release:
    "slot_step (s, add_mset CloseRelease P)
      (s\<lparr>limiter := ReleaseSession (limiter s)\<rparr>, add_mset Answered P)"
| session_changes: "sessions s i = Some c \<Longrightarrow> ss_id c' = i \<Longrightarrow>
    slot_step (s, P) (s\<lparr>sessions := (sessions s)(i \<mapsto> c')\<rparr>, P)"

section \<open>Slots are neither lost nor released twice\<close>

text \<open>A request that owns a slot which is not (or no longer) a registered session's.\<close>

fun owns_slot :: "pc \<Rightarrow> bool" where
  "owns_slot Holding = True"
| "owns_slot Undo = True"
| "owns_slot (EvictRelease _) = True"
| "owns_slot CloseRelease = True"
| "owns_slot _ = False"

definition owned :: "pc multiset \<Rightarrow> nat" where
  "owned P = size (filter_mset owns_slot P)"

definition slot_inv :: "server \<times> pc multiset \<Rightarrow> bool" where
  "slot_inv w = (case w of (s, P) \<Rightarrow>
     finite (dom (sessions s))
     \<and> rl_sessions (limiter s) = int (card (dom (sessions s)) + owned P)
     \<and> (0 < maxS (limiter s) \<longrightarrow> rl_sessions (limiter s) \<le> maxS (limiter s)))"

lemma owned_add [simp]: "owned (add_mset p P) = (if owns_slot p then Suc (owned P) else owned P)"
  by (simp add: owned_def)

lemma AcquireSession_simps:
  "AcquireSession r = (ok, r') \<Longrightarrow>
    maxS r' = maxS r \<and> rl_sessions r' = (if ok then rl_sessions r + 1 else rl_sessions r)
    \<and> (ok \<longrightarrow> 0 < maxS r \<longrightarrow> rl_sessions r < maxS r)"
  by (auto simp: AcquireSession_def split: if_splits)

lemma ReleaseSession_simps:
  "maxS (ReleaseSession r) = maxS r"
  "0 < rl_sessions r \<Longrightarrow> rl_sessions (ReleaseSession r) = rl_sessions r - 1"
  by (auto simp: ReleaseSession_def)

lemma dom_update_same: "m i = Some c \<Longrightarrow> dom (m(i \<mapsto> c')) = dom m"
  by auto

lemma remove_dom:
  "registry_remove i r = (removed, r') \<Longrightarrow>
    dom r' = dom r - {i} \<and> (removed \<longleftrightarrow> i \<in> dom r)"
  by (auto simp: registry_remove_def split: if_splits)

lemma card_remove:
  "finite (dom r) \<Longrightarrow> registry_remove i r = (removed, r') \<Longrightarrow>
    card (dom r) = card (dom r') + (if removed then 1 else 0) \<and> finite (dom r')"
  using remove_dom [of i r removed r'] card_Suc_Diff1 [of "dom r" i] by auto

lemma slot_inv_step:
  assumes "slot_step w w'" "slot_inv w"
  shows "slot_inv w'"
  using assms
proof (induction rule: slot_step.induct)
  case (acquire s ok l P)
  then show ?case using AcquireSession_simps [of "limiter s" ok l]
    by (auto simp: slot_inv_def)
next
  case (look cs v s n P)
  then show ?case by (auto simp: slot_inv_def split: option.split)
next
  case (mark s i c n P)
  then show ?case by (auto simp: slot_inv_def dom_update_same simp del: fun_upd_apply dom_fun_upd)
next
  case (evict_remove i s removed r n P)
  then show ?case using card_remove [of "sessions s" i removed r] by (auto simp: slot_inv_def)
next
  case (evict_release s n P)
  then show ?case by (auto simp: slot_inv_def ReleaseSession_simps)
next
  case (evict_retry s ok l n P)
  then show ?case using AcquireSession_simps [of "limiter s" ok l]
    by (auto simp: slot_inv_def)
next
  case (undo s P)
  then show ?case by (auto simp: slot_inv_def ReleaseSession_simps)
next
  case (register s c P)
  then have "ss_id c \<notin> dom (sessions s)" by auto
  with register show ?case by (auto simp: slot_inv_def registry_set_def)
next
  case (close_stop s i P)
  then show ?case
    by (auto simp: slot_inv_def dom_update_same simp del: fun_upd_apply dom_fun_upd split: option.split)
next
  case (close_remove i s removed r P)
  then show ?case using card_remove [of "sessions s" i removed r] by (auto simp: slot_inv_def)
next
  case (close_release s P)
  then show ?case by (auto simp: slot_inv_def ReleaseSession_simps)
next
  case (session_changes s i c c' P)
  then show ?case by (auto simp: slot_inv_def dom_update_same simp del: fun_upd_apply dom_fun_upd)
qed (auto simp: slot_inv_def)

definition new_server :: "int \<Rightarrow> int \<Rightarrow> server" where
  "new_server maxReqPerMin maxSessions =
     \<lparr>limiter = NewRateLimiter maxReqPerMin maxSessions, sessions = Map.empty\<rparr>"

lemma slot_inv_start: "slot_inv (new_server a b, {#})"
  by (simp add: slot_inv_def new_server_def NewRateLimiter_def owned_def)

lemma slot_inv_steps: "slot_step\<^sup>*\<^sup>* w w' \<Longrightarrow> slot_inv w \<Longrightarrow> slot_inv w'"
  by (induction rule: rtranclp_induct) (auto intro: slot_inv_step)

text \<open>
  C35. However creates, deletes, the idle sweep and evictions interleave, the limiter counts exactly
  the registered sessions plus the slots some request holds at that moment: no slot leaks, none is
  released twice, and with a session limit configured the sessions never exceed it.
\<close>

theorem slots_exact:
  assumes "slot_step\<^sup>*\<^sup>* (new_server maxReqPerMin maxSessions, {#}) (s, P)"
  shows "rl_sessions (limiter s) = int (card (dom (sessions s)) + owned P)
    \<and> (0 < maxS (limiter s) \<longrightarrow> int (card (dom (sessions s))) \<le> maxS (limiter s))"
  using slot_inv_steps [OF assms slot_inv_start] by (auto simp: slot_inv_def)

definition demo_session :: slot_session where
  "demo_session = \<lparr>ss_id = ''s1'', ss_createdAt = 1, ss_lastActive = 1, ss_state = SessionStateReady,
     ss_running = False, ss_subscribers = 0\<rparr>"

theorem slots_exact_witness:
  "\<exists>s P. slot_step\<^sup>*\<^sup>* (new_server 0 1, {#}) (s, P) \<and> sessions s = [''s1'' \<mapsto> demo_session]
    \<and> rl_sessions (limiter s) = int (card (dom (sessions s)) + owned P)
    \<and> (0 < maxS (limiter s) \<longrightarrow> int (card (dom (sessions s))) \<le> maxS (limiter s))"
proof -
  let ?s0 = "new_server 0 1"
  let ?s1 = "?s0\<lparr>limiter := (limiter ?s0)\<lparr>rl_sessions := 1\<rparr>\<rparr>"
  let ?s2 = "?s1\<lparr>sessions := registry_set demo_session Map.empty\<rparr>"
  have "AcquireSession (limiter ?s0) = (True, (limiter ?s0)\<lparr>rl_sessions := 1\<rparr>)"
    by (simp add: AcquireSession_def new_server_def NewRateLimiter_def)
  then have a: "slot_step (?s0, add_mset CreateStart {#}) (?s1, add_mset Holding {#})"
    using slot_step.acquire [of ?s0 True _ "{#}"] by simp
  have e: "sessions ?s1 = Map.empty" by (simp add: new_server_def)
  have b: "slot_step (?s1, add_mset Holding {#}) (?s2, add_mset Answered {#})"
    using slot_step.register [of ?s1 demo_session "{#}"] unfolding e by simp
  have run: "slot_step\<^sup>*\<^sup>* (?s0, {#}) (?s2, {#Answered#})"
    using slot_step.arrive_create [of ?s0 "{#}"] a b
    by (meson converse_rtranclp_into_rtranclp r_into_rtranclp)
  from slots_exact [OF run] run show ?thesis
    by (intro exI [of _ ?s2] exI [of _ "{#Answered#}"]) (simp add: registry_set_def demo_session_def)
qed

section \<open>Which session is evicted\<close>

lemma older_trans: "older a b \<Longrightarrow> older b c \<Longrightarrow> older a c"
  by (auto simp: older_def)

lemma older_total: "older a b \<or> older b a \<or> ss_lastActive a = ss_lastActive b \<and> ss_id a = ss_id b"
  by (auto simp: older_def)

lemma older_irrefl [simp]: "\<not> older a a"
  by (simp add: older_def)

lemma oldestEvictable_snoc:
  "oldestEvictable (cs @ [c]) =
    (if evictable c \<and> (case oldestEvictable cs of None \<Rightarrow> True | Some b \<Rightarrow> older c b)
     then Some c else oldestEvictable cs)"
  by (simp add: oldestEvictable_def)

lemma oldestEvictable_spec:
  "case oldestEvictable cs of
     None \<Rightarrow> \<forall>c \<in> set cs. \<not> evictable c
   | Some v \<Rightarrow> v \<in> set cs \<and> evictable v \<and> (\<forall>c \<in> set cs. evictable c \<longrightarrow> \<not> older c v)"
proof (induction cs rule: rev_induct)
  case Nil
  then show ?case by (simp add: oldestEvictable_def)
next
  case (snoc c cs)
  then show ?case
    by (auto simp: oldestEvictable_snoc split: option.splits dest: older_trans)
qed

text \<open>
  The eviction victim does not depend on the map's iteration order: over the same registered
  sessions, with distinct ids, every order picks the same one, which is idle and unwatched and the
  least recently active of those, the smaller id deciding a tie; none is picked only if every
  session is busy or watched.
\<close>

theorem eviction_order_independent:
  assumes "set cs = set cs'" "inj_on ss_id (set cs)"
  shows "oldestEvictable cs = oldestEvictable cs'
    \<and> (case oldestEvictable cs of
         None \<Rightarrow> list_all (\<lambda>c. \<not> evictable c) cs
       | Some v \<Rightarrow> v \<in> set cs \<and> evictable v \<and> list_all (\<lambda>c. evictable c \<longrightarrow> \<not> older c v) cs)"
proof -
  note spec = oldestEvictable_spec [of cs] oldestEvictable_spec [of cs']
  have "oldestEvictable cs = oldestEvictable cs'"
  proof (cases "oldestEvictable cs"; cases "oldestEvictable cs'")
    fix v v' assume v: "oldestEvictable cs = Some v" "oldestEvictable cs' = Some v'"
    with spec assms(1) have "\<not> older v v'" "\<not> older v' v" "v \<in> set cs" "v' \<in> set cs" by auto
    with older_total [of v v'] inj_onD [OF assms(2)] v show ?thesis by auto
  qed (use spec assms(1) in auto)
  with spec(1) show ?thesis by (auto simp: list_all_iff split: option.splits)
qed

theorem eviction_order_independent_witness:
  "oldestEvictable [demo_session, demo_session\<lparr>ss_id := ''s0'', ss_lastActive := 0\<rparr>]
     = oldestEvictable [demo_session\<lparr>ss_id := ''s0'', ss_lastActive := 0\<rparr>, demo_session]
   \<and> (case oldestEvictable [demo_session, demo_session\<lparr>ss_id := ''s0'', ss_lastActive := 0\<rparr>] of
        None \<Rightarrow> False | Some v \<Rightarrow> ss_id v = ''s0'')"
  using eviction_order_independent [of "[demo_session, demo_session\<lparr>ss_id := ''s0'', ss_lastActive := 0\<rparr>]"
      "[demo_session\<lparr>ss_id := ''s0'', ss_lastActive := 0\<rparr>, demo_session]"]
  by (auto simp: demo_session_def oldestEvictable_def evictable_def older_def)

end
