(* ===== verification/Run_Control.thy ===== *)
theory Run_Control
  imports Prelude
begin

text \<open>
  Control of an agent run (\<open>internal/runctl/runctl.go\<close>): at most one active run, which can be
  cancelled, asked to compact its context and finished; and the end-of-run update of the
  conversation (\<open>ApplyTerminal\<close> of \<open>terminal.go\<close>).

  A run's context is named by the run's id; \<open>ctxDone\<close> is the set of cancelled ones. The compact
  channel of capacity one is \<open>None\<close> for nil, else whether it holds a signal. Ids are natural
  numbers: the code's \<open>uint64\<close> counter is taken not to wrap.
\<close>

section \<open>Controller\<close>

datatype Kind = KindUnset | KindMain | KindSide | KindOther string

datatype CompactRequestResult = CompactNoRun | CompactRequested | CompactPending

record Controller =
  nextID :: nat
  activeID :: nat
  active :: bool
  ctl_kind :: Kind
  ctl_cancel :: "nat option"
  compactCh :: "bool option"
  ctxDone :: "nat set"

definition New :: Controller where
  "New = \<lparr>nextID = 0, activeID = 0, active = False, ctl_kind = KindUnset, ctl_cancel = None,
     compactCh = None, ctxDone = {}\<rparr>"

text \<open>A run is its id; \<open>None\<close> is \<open>ErrRunActive\<close>. A parent that is done cancels the new context at once.\<close>

definition BeginKind :: "bool \<Rightarrow> Kind \<Rightarrow> Controller \<Rightarrow> nat option \<times> Controller" where
  "BeginKind parent_done kind c =
     (let kind = (if kind = KindUnset then KindMain else kind) in
      if active c then (None, c)
      else
        let i = nextID c + 1 in
        (Some i, c\<lparr>nextID := i, activeID := i, active := True, ctl_kind := kind, ctl_cancel := Some i,
                   compactCh := Some False,
                   ctxDone := (if parent_done then insert i (ctxDone c) else ctxDone c)\<rparr>))"

definition Begin :: "bool \<Rightarrow> Controller \<Rightarrow> nat option \<times> Controller" where
  "Begin parent_done c = BeginKind parent_done KindMain c"

definition Cancel :: "Controller \<Rightarrow> bool \<times> Controller" where
  "Cancel c =
     (if \<not> active c then (False, c)
      else case ctl_cancel c of
        None \<Rightarrow> (False, c)
      | Some i \<Rightarrow> (True, c\<lparr>ctxDone := insert i (ctxDone c)\<rparr>))"

definition RequestCompact :: "Controller \<Rightarrow> CompactRequestResult \<times> Controller" where
  "RequestCompact c =
     (if \<not> active c then (CompactNoRun, c)
      else case compactCh c of
        Some False \<Rightarrow> (CompactRequested, c\<lparr>compactCh := Some True\<rparr>)
      | _ \<Rightarrow> (CompactPending, c))"

text \<open>The agent's side of the channel: it takes the signal, if there is one.\<close>

definition TakeCompact :: "Controller \<Rightarrow> Controller" where
  "TakeCompact c = (if compactCh c = Some True then c\<lparr>compactCh := Some False\<rparr> else c)"

definition Active :: "Controller \<Rightarrow> bool" where
  "Active c = active c"

definition Finish :: "nat \<Rightarrow> Controller \<Rightarrow> Controller" where
  "Finish r c =
     (if \<not> active c \<or> activeID c \<noteq> r then c
      else
        let cancel = ctl_cancel c;
            c = c\<lparr>active := False, ctl_cancel := None, compactCh := None\<rparr>
        in case cancel of None \<Rightarrow> c | Some i \<Rightarrow> c\<lparr>ctxDone := insert i (ctxDone c)\<rparr>)"

section \<open>Any sequence of calls\<close>

datatype call =
    CBegin bool Kind
  | CCancel
  | CCompact
  | CTake
  | CFinish nat

fun do_call :: "Controller \<Rightarrow> call \<Rightarrow> Controller" where
  "do_call c (CBegin pd k) = snd (BeginKind pd k c)"
| "do_call c CCancel = snd (Cancel c)"
| "do_call c CCompact = snd (RequestCompact c)"
| "do_call c CTake = TakeCompact c"
| "do_call c (CFinish r) = Finish r c"

text \<open>
  While a run is active its cancel function and channel are there and it is the last one begun;
  otherwise they are gone. The context of every other run ever begun is cancelled, so none leaks.
\<close>

definition issued :: "Controller \<Rightarrow> nat set" where
  "issued c = {1..nextID c}"

definition current :: "Controller \<Rightarrow> nat set" where
  "current c = (if active c then {activeID c} else {})"

definition ctl_inv :: "Controller \<Rightarrow> bool" where
  "ctl_inv c = ((if active c then activeID c = nextID c \<and> 0 < activeID c
        \<and> ctl_cancel c = Some (activeID c) \<and> compactCh c \<noteq> None
      else ctl_cancel c = None \<and> compactCh c = None)
     \<and> issued c \<subseteq> ctxDone c \<union> current c \<and> ctxDone c \<subseteq> issued c)"

lemma issued_Suc: "{1..Suc n} = insert (Suc n) {1..n}"
  by (simp add: atLeastAtMostSuc_conv)

lemma ctl_inv_New [inv_intros]: "ctl_inv New"
  by (simp add: ctl_inv_def New_def issued_def)

lemma ctl_inv_Begin [inv_intros]:
  assumes "ctl_inv c"
  shows "ctl_inv (snd (BeginKind pd k c))"
proof (cases "active c")
  case True
  with assms show ?thesis by (simp add: BeginKind_def)
next
  case False
  with assms have "issued c \<subseteq> ctxDone c" "ctxDone c \<subseteq> issued c" by (auto simp: ctl_inv_def current_def)
  with False show ?thesis
    unfolding BeginKind_def Let_def ctl_inv_def issued_def current_def
    by (simp add: issued_Suc [unfolded One_nat_def]) blast
qed

lemma issued_simps [simp]:
  "issued (c\<lparr>ctxDone := x\<rparr>) = issued c" "issued (c\<lparr>compactCh := y\<rparr>) = issued c"
  "current (c\<lparr>ctxDone := x\<rparr>) = current c" "current (c\<lparr>compactCh := y\<rparr>) = current c"
  by (simp_all add: issued_def current_def)

lemma ctl_inv_done:
  assumes "ctl_inv c" "i \<in> issued c"
  shows "ctl_inv (c\<lparr>ctxDone := insert i (ctxDone c)\<rparr>)"
proof -
  have "issued c \<subseteq> insert i (ctxDone c) \<union> current c" "insert i (ctxDone c) \<subseteq> issued c"
    using assms by (auto simp: ctl_inv_def)
  then show ?thesis using assms(1) unfolding ctl_inv_def by (cases "active c") simp_all
qed

lemma ctl_inv_active:
  "ctl_inv c \<Longrightarrow> active c \<Longrightarrow> ctl_cancel c = Some (activeID c) \<and> activeID c \<in> issued c"
  by (simp add: ctl_inv_def issued_def)

lemma ctl_inv_Cancel [inv_intros]: "ctl_inv c \<Longrightarrow> ctl_inv (snd (Cancel c))"
  using ctl_inv_active [of c] ctl_inv_done [of c "activeID c"] by (auto simp: Cancel_def)

lemma ctl_inv_channel:
  assumes "ctl_inv c" "compactCh c = Some b"
  shows "ctl_inv (c\<lparr>compactCh := Some b'\<rparr>)"
proof -
  have "active c" using assms by (auto simp: ctl_inv_def split: if_splits)
  with assms show ?thesis unfolding ctl_inv_def by simp
qed

lemma ctl_inv_Compact [inv_intros]: "ctl_inv c \<Longrightarrow> ctl_inv (snd (RequestCompact c))"
  by (auto simp: RequestCompact_def intro: ctl_inv_channel split: option.split bool.split)

lemma ctl_inv_Take [inv_intros]: "ctl_inv c \<Longrightarrow> ctl_inv (TakeCompact c)"
  by (auto simp: TakeCompact_def intro: ctl_inv_channel)

lemma ctl_inv_Finish [inv_intros]:
  assumes "ctl_inv c"
  shows "ctl_inv (Finish r c)"
proof (cases "active c \<and> activeID c = r")
  case False
  with assms show ?thesis by (simp add: Finish_def)
next
  case True
  note a = ctl_inv_active [OF assms conjunct1 [OF True]]
  have "issued c \<subseteq> insert r (ctxDone c)" "ctxDone c \<subseteq> issued c" "r \<in> issued c"
    using assms True a by (auto simp: ctl_inv_def current_def)
  with True a show ?thesis
    by (simp add: Finish_def Let_def ctl_inv_def issued_def current_def)
qed

lemma ctl_inv_call [inv_intros]: "ctl_inv c \<Longrightarrow> ctl_inv (do_call c call)"
  by (cases call) (simp_all add: inv_intros)

interpretation ctl: machine do_call ctl_inv
  by unfold_locales (rule ctl_inv_call)

text \<open>
  Whatever is called in whatever order on a new controller, at most one run is active and it is
  the one begun last; every earlier run's context has been cancelled, so no run leaks; and a
  second \<open>Begin\<close> fails exactly while a run is active.
\<close>

theorem one_active_run_no_leak:
  "let c = foldl do_call New calls in
    (active c \<longrightarrow> activeID c = nextID c)
    \<and> list_all (\<lambda>i. i \<in> ctxDone c \<or> active c \<and> i = activeID c) [1..<Suc (nextID c)]
    \<and> (fst (Begin pd c) = None \<longleftrightarrow> Active c)"
proof -
  define c where "c = foldl do_call New calls"
  have inv: "ctl_inv c" unfolding c_def by (rule ctl.run_invar [OF ctl_inv_New])
  have "i \<in> ctxDone c \<or> active c \<and> i = activeID c" if "i \<in> set [1..<Suc (nextID c)]" for i
  proof -
    have "i \<in> issued c" using that by (simp add: issued_def del: upt_Suc)
    with inv show ?thesis by (auto simp: ctl_inv_def current_def split: if_splits)
  qed
  moreover have "active c \<longrightarrow> activeID c = nextID c" using inv by (auto simp: ctl_inv_def)
  moreover have "fst (Begin pd c) = None \<longleftrightarrow> Active c"
    by (simp add: Begin_def BeginKind_def Active_def)
  ultimately show ?thesis unfolding Let_def c_def [symmetric] list_all_iff by blast
qed

theorem one_active_run_no_leak_witness:
  "let c = foldl do_call New [CBegin False KindMain, CFinish 1, CBegin False KindSide] in
    (active c \<longrightarrow> activeID c = nextID c)
    \<and> list_all (\<lambda>i. i \<in> ctxDone c \<or> active c \<and> i = activeID c) [1..<Suc (nextID c)]
    \<and> (fst (Begin False c) = None \<longleftrightarrow> Active c)"
  by (rule one_active_run_no_leak)

text \<open>
  A run can only be ended by its own handle: finishing a stale run changes nothing, finishing
  the active one cancels its context and makes room for the next, and cancelling or asking for a
  compaction never ends a run; a compaction request is delivered once, later ones wait.
\<close>

theorem only_own_finish_ends:
  assumes "ctl_inv c" "active c"
  shows "(r \<noteq> activeID c \<longrightarrow> Finish r c = c)
    \<and> \<not> active (Finish (activeID c) c) \<and> activeID c \<in> ctxDone (Finish (activeID c) c)
    \<and> active (snd (Cancel c)) \<and> fst (Cancel c) \<and> activeID c \<in> ctxDone (snd (Cancel c))
    \<and> active (snd (RequestCompact c))
    \<and> fst (RequestCompact (snd (RequestCompact c))) = CompactPending"
proof -
  have c: "ctl_cancel c = Some (activeID c)" "compactCh c \<noteq> None" using assms by (auto simp: ctl_inv_def)
  then show ?thesis using assms(2)
    by (simp add: Finish_def Cancel_def RequestCompact_def Let_def split: option.split bool.split)
qed

theorem only_own_finish_ends_witness:
  "\<not> active (Finish 1 (snd (Begin False New))) \<and> Finish 2 (snd (Begin False New)) = snd (Begin False New)"
proof -
  have inv: "ctl_inv (snd (Begin False New))" unfolding Begin_def by (intro inv_intros)
  have a: "active (snd (Begin False New))" "activeID (snd (Begin False New)) = 1"
    by (simp_all add: Begin_def BeginKind_def New_def)
  from only_own_finish_ends [OF inv a(1), of 2] a(2) show ?thesis by simp
qed

section \<open>The end of a run\<close>

datatype TerminalReason =
    TerminalCompleted
  | TerminalAborted
  | TerminalMaxTurns
  | TerminalContextOverflow
  | TerminalStopHook
  | TerminalUnrecoverable
  | TerminalOther string

datatype Role = RoleSystem | RoleUser | RoleAssistant | RoleTool

text \<open>\<open>llm.Message\<close>: the role and content; the remaining fields are carried along in \<open>'m\<close>.\<close>

record 'm Message =
  m_Role :: Role
  m_Content :: string
  m_rest :: "'m option"

record ('m, 'u) Terminal =
  t_Reason :: TerminalReason
  t_Detail :: string
  t_Usage :: 'u
  t_Conversation :: "'m Message list"

record ('m, 'u) App =
  ActiveRun :: bool
  app_TerminalReason :: TerminalReason
  app_TerminalDetail :: string
  app_Usage :: 'u
  Messages :: "'m Message list"

record TerminalOptions =
  Side :: bool
  UserPrompt :: string

definition ApplyTerminal ::
    "('m, 'u, 'z) App_scheme \<Rightarrow> ('m, 'u) Terminal \<Rightarrow> TerminalOptions \<Rightarrow> ('m, 'u, 'z) App_scheme" where
  "ApplyTerminal app t opts =
     (let app = app\<lparr>ActiveRun := False, app_TerminalReason := t_Reason t,
                    app_TerminalDetail := t_Detail t, app_Usage := t_Usage t\<rparr> in
      if Side opts then app
      else
        let add = length (t_Conversation t) + (if UserPrompt opts \<noteq> [] then 1 else 0) in
        if add = 0 then app
        else
          let msgs = Messages app;
              msgs = (if UserPrompt opts \<noteq> []
                      then msgs @ [\<lparr>m_Role = RoleUser, m_Content = UserPrompt opts, m_rest = None\<rparr>] else msgs);
              msgs = msgs @ t_Conversation t
          in app\<lparr>Messages := msgs\<rparr>)"

text \<open>
  Ending a run only appends to the history: the old messages stay a prefix, then come the
  user's prompt if one was given and the messages of the run; a side question leaves the history
  alone; and the run is recorded as over with the terminal's reason, detail and usage.
\<close>

theorem ApplyTerminal_appends:
  "let app' = ApplyTerminal app t opts in
    Messages app' = Messages app @
      (if Side opts then []
       else (if UserPrompt opts \<noteq> [] then [\<lparr>m_Role = RoleUser, m_Content = UserPrompt opts, m_rest = None\<rparr>] else [])
            @ t_Conversation t)
    \<and> \<not> ActiveRun app' \<and> app_TerminalReason app' = t_Reason t \<and> app_TerminalDetail app' = t_Detail t
    \<and> app_Usage app' = t_Usage t"
  by (auto simp: ApplyTerminal_def Let_def)

definition synthesisStage :: "('m, 'u) Terminal \<Rightarrow> bool \<Rightarrow> string" where
  "synthesisStage t pending =
     (if pending then ''synthesis_pending''
      else if t_Reason t = TerminalCompleted then ''completed'' else ''interrupted'')"

end
