(* ===== verification/Server_Session.thy ===== *)
theory Server_Session
  imports Server_Slots Run_Control Permission_Resolver
begin

text \<open>
  One session of the browser server (\<open>internal/server/session.go\<close>, parts of \<open>handler.go\<close>,
  \<open>handler_sessions_list.go\<close> and \<open>file_write_tracking.go\<close>): its event stream, its runs, its
  permission rules and whether it may be reused.

  An event carries its payload as a value of type \<open>'d\<close>. A subscriber is a channel number with the
  events buffered in it (capacity 64). The run goroutine itself is the agent's; here it starts,
  reports its terminal event and ends.
\<close>

section \<open>State\<close>

record 'd SessionEvent =
  ev_ID :: string
  ev_Type :: string
  ev_Time :: int
  ev_SessionID :: string
  ev_Data :: "'d option"

record ('d, 'm, 'u) Session =
  se_id :: string
  se_createdAt :: int
  se_lastActive :: int
  se_state :: SessionState
  se_running :: bool
  se_conversation :: "'m Message list"
  se_events :: "'d SessionEvent RingBuffer"
  se_subscribers :: "(nat \<times> 'd SessionEvent list) list"
  se_eventCounter :: nat
  se_recentMessage :: RecentIDs
  se_permRules :: rules
  se_permMode :: mode
  se_activeWrites :: "string \<rightharpoonup> string"
  se_lastTerminal :: "(TerminalReason \<times> string \<times> 'u) option"
  se_runPrompt :: string
  se_ctl :: Controller
  se_cancelled :: bool
  se_titlePrompt :: string
  se_titlePending :: bool
  se_titleDone :: bool

section \<open>Events\<close>

definition sub_capacity :: nat where
  "sub_capacity = 64"

text \<open>A non-blocking send to a buffered channel.\<close>

definition try_send :: "'d SessionEvent \<Rightarrow> 'd SessionEvent list \<Rightarrow> 'd SessionEvent list" where
  "try_send evt buf = (if length buf < sub_capacity then buf @ [evt] else buf)"

text \<open>\<open>Emit\<close>: the counter is a \<open>uint64\<close>, so it wraps at \<open>2 ^ 64\<close>.\<close>

definition Emit :: "int \<Rightarrow> string \<Rightarrow> 'd option \<Rightarrow> ('d, 'm, 'u) Session \<Rightarrow> ('d, 'm, 'u) Session" where
  "Emit now eventType data s =
     (let i = (se_eventCounter s + 1) mod 2 ^ 64;
          evt = \<lparr>ev_ID = FormatUint i, ev_Type = eventType, ev_Time = now, ev_SessionID = se_id s, ev_Data = data\<rparr>
      in s\<lparr>se_eventCounter := i,
           se_events := rb_Append evt (se_events s),
           se_subscribers := map (\<lambda>(ch, buf). (ch, try_send evt buf)) (se_subscribers s),
           se_lastActive := now\<rparr>)"

definition Subscribe :: "nat \<Rightarrow> ('d, 'm, 'u) Session \<Rightarrow> ('d, 'm, 'u) Session" where
  "Subscribe ch s = s\<lparr>se_subscribers := (ch, []) # filter (\<lambda>(c, _). c \<noteq> ch) (se_subscribers s)\<rparr>"

definition Unsubscribe :: "nat \<Rightarrow> ('d, 'm, 'u) Session \<Rightarrow> ('d, 'm, 'u) Session" where
  "Unsubscribe ch s = s\<lparr>se_subscribers := filter (\<lambda>(c, _). c \<noteq> ch) (se_subscribers s)\<rparr>"

text \<open>The loop of \<open>Replay\<close> finds the first event with the id, then what follows it.\<close>

fun after_id :: "string \<Rightarrow> 'd SessionEvent list \<Rightarrow> 'd SessionEvent list" where
  "after_id lastID [] = []"
| "after_id lastID (e # es) = (if ev_ID e = lastID then es else after_id lastID es)"

definition Replay :: "string \<Rightarrow> ('d, 'm, 'u) Session \<Rightarrow> 'd SessionEvent list" where
  "Replay lastID s =
     (let items = Snapshot (se_events s) in
      if lastID = [] then items else after_id lastID items)"

section \<open>Creating a session\<close>

definition newSession :: "string \<Rightarrow> int \<Rightarrow> rules \<Rightarrow> mode \<Rightarrow> ('d, 'm, 'u) Session" where
  "newSession i now rs m =
     Emit now ''session_ready'' None
       \<lparr>se_id = i, se_createdAt = now, se_lastActive = now, se_state = SessionStateReady, se_running = False,
        se_conversation = [], se_events = NewRingBuffer 200, se_subscribers = [], se_eventCounter = 0,
        se_recentMessage = NewRecentIDs 128, se_permRules = rs, se_permMode = m,
        se_activeWrites = Map.empty, se_lastTerminal = None, se_runPrompt = [], se_ctl = New,
        se_cancelled = False, se_titlePrompt = [], se_titlePending = False, se_titleDone = False\<rparr>"

section \<open>Runs\<close>

datatype run_error = RunAlreadyActive

text \<open>\<open>StartRun\<close>: what the run goroutine is started with is the run id, the mode and the rules.\<close>

definition StartRun :: "string \<Rightarrow> ('d, 'm, 'u) Session \<Rightarrow>
    (run_error + nat \<times> mode \<times> rules \<times> 'm Message list) \<times> ('d, 'm, 'u) Session" where
  "StartRun prompt s =
     (if se_running s \<or> se_state s = SessionStateClosing then (Inl RunAlreadyActive, s)
      else case Begin (se_cancelled s) (se_ctl s) of
        (None, c) \<Rightarrow> (Inl RunAlreadyActive, s\<lparr>se_ctl := c\<rparr>)
      | (Some run, c) \<Rightarrow>
          let s = s\<lparr>se_ctl := c, se_running := True, se_state := SessionStateRunning\<rparr>;
              s = (if se_titlePending s \<and> \<not> se_titleDone s
                   then s\<lparr>se_titlePending := False, se_titlePrompt := []\<rparr> else s);
              s = s\<lparr>se_runPrompt := prompt\<rparr>
          in (Inr (run, se_permMode s, se_permRules s, se_conversation s), s))"

text \<open>The deferred end of \<open>runAgent\<close>, in its two steps.\<close>

definition finish_ctl :: "nat \<Rightarrow> ('d, 'm, 'u) Session \<Rightarrow> ('d, 'm, 'u) Session" where
  "finish_ctl run s = s\<lparr>se_ctl := Finish run (se_ctl s)\<rparr>"

definition clearFileWrites :: "('d, 'm, 'u) Session \<Rightarrow> ('d, 'm, 'u) Session" where
  "clearFileWrites s = s\<lparr>se_activeWrites := Map.empty\<rparr>"

definition run_ended :: "('d, 'm, 'u) Session \<Rightarrow> ('d, 'm, 'u) Session" where
  "run_ended s = (clearFileWrites s)\<lparr>se_running := False, se_state := SessionStateReady\<rparr>"

text \<open>The terminal event of \<open>handleAgentEvent\<close>: titles, history, then the event.\<close>

definition handle_terminal :: "int \<Rightarrow> 'd option \<Rightarrow> ('m, 'u) Terminal \<Rightarrow> ('d, 'm, 'u) Session \<Rightarrow> ('d, 'm, 'u) Session" where
  "handle_terminal now data t s =
     (let s = clearFileWrites s;
          s = (if \<not> se_titleDone s \<and> \<not> se_titlePending s \<and> se_runPrompt s \<noteq> []
               then s\<lparr>se_titlePrompt := se_runPrompt s, se_titlePending := True\<rparr> else s);
          turn = ApplyTerminal \<lparr>ActiveRun = False, app_TerminalReason = TerminalOther [],
                   app_TerminalDetail = [], app_Usage = t_Usage t, Messages = se_conversation s\<rparr> t
                   \<lparr>Side = False, UserPrompt = se_runPrompt s\<rparr>;
          s = s\<lparr>se_conversation := Messages turn,
                se_lastTerminal := Some (t_Reason t, t_Detail t, t_Usage t)\<rparr>
      in Emit now ''terminal'' data s)"

definition cancelRun :: "('d, 'm, 'u) Session \<Rightarrow> bool \<times> ('d, 'm, 'u) Session" where
  "cancelRun s = (case Cancel (se_ctl s) of (ok, c) \<Rightarrow> (ok, s\<lparr>se_ctl := c\<rparr>))"

definition stop :: "('d, 'm, 'u) Session \<Rightarrow> ('d, 'm, 'u) Session" where
  "stop s = (clearFileWrites (s\<lparr>se_cancelled := True\<rparr>))\<lparr>se_state := SessionStateClosing\<rparr>"

section \<open>Messages, permissions, writes\<close>

definition allowMessageID :: "string \<Rightarrow> ('d, 'm, 'u) Session \<Rightarrow> bool \<times> ('d, 'm, 'u) Session" where
  "allowMessageID messageID s =
     (case SeenOrAdd (TrimSpace messageID) (se_recentMessage s) of
        (seen, r) \<Rightarrow> (\<not> seen, s\<lparr>se_recentMessage := r\<rparr>))"

text \<open>\<open>handlePostMessage\<close> without the model runtime: 400, 202 duplicate, 409 or 202 queued.\<close>

datatype post_answer = PromptRequired | Duplicate | RunActive | Queued

definition handlePostMessage :: "string \<Rightarrow> string \<Rightarrow> ('d, 'm, 'u) Session \<Rightarrow> post_answer \<times> ('d, 'm, 'u) Session" where
  "handlePostMessage prompt0 messageID s =
     (let prompt = TrimSpace prompt0 in
      if prompt = [] then (PromptRequired, s)
      else
        let (fresh, s) = (if TrimSpace messageID \<noteq> [] then allowMessageID messageID s else (True, s)) in
        if \<not> fresh then (Duplicate, s)
        else case StartRun prompt s of
          (Inl _, s) \<Rightarrow> (RunActive, s)
        | (Inr _, s) \<Rightarrow> (Queued, s))"

definition AllowSession :: "char \<Rightarrow> string \<Rightarrow> string \<Rightarrow> ('d, 'm, 'u) Session \<Rightarrow> ('d, 'm, 'u) Session" where
  "AllowSession sep toolName target s =
     (case SessionAllowRule sep toolName target of
        None \<Rightarrow> s
      | Some rule \<Rightarrow>
          s\<lparr>se_permRules := (se_permRules s)\<lparr>AlwaysAllow := AlwaysAllow (se_permRules s) @ [rule]\<rparr>\<rparr>)"

definition is_write_tool :: "string \<Rightarrow> bool" where
  "is_write_tool name = (name = ''FileWrite'' \<or> name = ''FileEdit'' \<or> name = ''Write'' \<or> name = ''Edit'')"

text \<open>\<open>resolved\<close> is what \<open>tools.ResolvePath\<close> makes of the call's target, \<open>None\<close> for an error.\<close>

definition trackFileWriteStart :: "string \<Rightarrow> string \<Rightarrow> string option \<Rightarrow> ('d, 'm, 'u) Session \<Rightarrow> ('d, 'm, 'u) Session" where
  "trackFileWriteStart name callID resolved s =
     (if \<not> is_write_tool name then s
      else case resolved of
        None \<Rightarrow> s
      | Some path \<Rightarrow> s\<lparr>se_activeWrites := (se_activeWrites s)(callID \<mapsto> path)\<rparr>)"

definition trackFileWriteResult :: "string \<Rightarrow> ('d, 'm, 'u) Session \<Rightarrow> ('d, 'm, 'u) Session" where
  "trackFileWriteResult callID s = s\<lparr>se_activeWrites := (se_activeWrites s)(callID := None)\<rparr>"

definition validateNonLoopback :: "string \<Rightarrow> string \<Rightarrow> bool" where
  "validateNonLoopback bindAddr token =
     (if TrimSpace token \<noteq> [] then True
      else bindAddr = ''127.0.0.1'' \<or> bindAddr = ''localhost'' \<or> bindAddr = ''::1'')"

section \<open>Reusing a blank session\<close>

definition blankOrphanLocked :: "('d, 'm, 'u) Session \<Rightarrow> bool" where
  "blankOrphanLocked s = (se_state s = SessionStateReady \<and> \<not> se_running s
     \<and> length (se_subscribers s) = 0 \<and> length (se_conversation s) = 0
     \<and> se_runPrompt s = [] \<and> se_eventCounter s \<le> 1)"

definition blankOrphan :: "('d, 'm, 'u) Session list \<Rightarrow> ('d, 'm, 'u) Session option" where
  "blankOrphan all =
     foldl (\<lambda>best sess. if \<not> blankOrphanLocked sess then best
                        else case best of None \<Rightarrow> Some sess
                          | Some b \<Rightarrow> if se_createdAt b < se_createdAt sess then Some sess else best)
       None all"

section \<open>The event stream\<close>

definition emit_all :: "(int \<times> string \<times> 'd option) list \<Rightarrow> ('d, 'm, 'u) Session \<Rightarrow> ('d, 'm, 'u) Session" where
  "emit_all es s = foldl (\<lambda>s (now, eventType, data). Emit now eventType data s) s es"

text \<open>The buffer holds the last events of a stream whose ids count up from 1.\<close>

definition stream_inv :: "nat \<Rightarrow> ('d, 'm, 'u) Session \<Rightarrow> bool" where
  "stream_inv n s = (se_eventCounter s = n \<and> rb_inv (se_events s) \<and> rb_cap (se_events s) = 200
     \<and> (\<exists>all. Snapshot (se_events s) = last_n 200 all \<and> map ev_ID all = map FormatUint [1..<Suc n]))"

lemma stream_inv_Emit:
  assumes "stream_inv n s" "Suc n < 2 ^ 64"
  shows "stream_inv (Suc n) (Emit now t d s)"
proof -
  define evt where "evt = \<lparr>ev_ID = FormatUint (Suc n), ev_Type = t, ev_Time = now, ev_SessionID = se_id s, ev_Data = d\<rparr>"
  obtain all where all: "Snapshot (se_events s) = last_n 200 all" "map ev_ID all = map FormatUint [1..<Suc n]"
    and c: "se_eventCounter s = n" "rb_inv (se_events s)" "rb_cap (se_events s) = 200"
    using assms(1) by (auto simp: stream_inv_def)
  have ev: "se_events (Emit now t d s) = rb_Append evt (se_events s)" "se_eventCounter (Emit now t d s) = Suc n"
    using assms(2) c(1) by (simp_all add: Emit_def Let_def evt_def)
  have "Snapshot (rb_Append evt (se_events s)) = last_n 200 (all @ [evt])"
    using ring.items_add_last_n [OF c(2), of all evt] all(1) c(3) by simp
  moreover have "map ev_ID (all @ [evt]) = map FormatUint [1..<Suc (Suc n)]"
    using all(2) by (simp add: evt_def)
  ultimately show ?thesis
    unfolding stream_inv_def ev using c rb_inv_Append by (metis rb_cap_Append)
qed

lemma stream_inv_new: "stream_inv 1 (newSession i now rs m)"
proof -
  define s0 :: "('a, 'b, 'c) Session" where "s0 = \<lparr>se_id = i, se_createdAt = now, se_lastActive = now,
    se_state = SessionStateReady, se_running = False, se_conversation = [], se_events = NewRingBuffer 200,
    se_subscribers = [], se_eventCounter = 0, se_recentMessage = NewRecentIDs 128, se_permRules = rs,
    se_permMode = m, se_activeWrites = Map.empty, se_lastTerminal = None, se_runPrompt = [], se_ctl = New,
    se_cancelled = False, se_titlePrompt = [], se_titlePending = False, se_titleDone = False\<rparr>"
  have "stream_inv 0 s0"
    unfolding stream_inv_def s0_def
    by (simp add: rb_inv_New) (simp add: NewRingBuffer_def Snapshot_def)
  from stream_inv_Emit [OF this] show ?thesis by (simp add: newSession_def s0_def)
qed

lemma stream_inv_emit_all:
  "stream_inv n s \<Longrightarrow> n + length es < 2 ^ 64 \<Longrightarrow> stream_inv (n + length es) (emit_all es s)"
proof (induction es arbitrary: n s)
  case (Cons e es)
  obtain now t d where e: "e = (now, t, d)" by (cases e)
  have "stream_inv (Suc n) (Emit now t d s)" using Cons.prems by (intro stream_inv_Emit) auto
  from Cons.IH [OF this] Cons.prems(2) show ?case by (simp add: emit_all_def e)
qed (simp add: emit_all_def)

lemma after_id_none: "i \<notin> set (map ev_ID es) \<Longrightarrow> after_id i es = []"
  by (induction es) auto

lemma after_id_ids:
  "distinct (map ev_ID es) \<Longrightarrow> k < length es \<Longrightarrow> after_id (ev_ID (es ! k)) es = drop (Suc k) es"
proof (induction es arbitrary: k)
  case (Cons e es)
  show ?case
  proof (cases k)
    case (Suc j)
    with Cons.prems have "ev_ID (es ! j) \<noteq> ev_ID e" by (auto simp: image_iff) (metis nth_mem)
    with Suc Cons show ?thesis by simp
  qed simp
qed simp

lemma map_last_n: "map f (last_n n xs) = last_n n (map f xs)"
  by (simp add: last_n_def drop_map)

lemma last_n_upt: "last_n k [1..<Suc n] = [Suc (n - k)..<Suc n]"
  by (simp add: last_n_def drop_upt del: upt_Suc)

lemma replay_ids:
  assumes "stream_inv n s" "1 \<le> k" "k \<le> n"
  shows "map ev_ID (Replay (FormatUint k) s) =
    (if n < k + 200 then map FormatUint [Suc k..<Suc n] else [])"
proof -
  obtain all where all: "Snapshot (se_events s) = last_n 200 all" "map ev_ID all = map FormatUint [1..<Suc n]"
    using assms(1) by (auto simp: stream_inv_def)
  define xs where "xs = last_n 200 all"
  have ids: "map ev_ID xs = map FormatUint [Suc (n - 200)..<Suc n]"
    unfolding xs_def map_last_n all(2) map_last_n [symmetric] last_n_upt ..
  have len: "length xs = n - (n - 200)" using arg_cong [OF ids, of length] by (simp del: upt_Suc)
  have dist: "distinct (map ev_ID xs)" unfolding ids by (simp add: distinct_map inj_on_def del: upt_Suc)
  have rep: "Replay (FormatUint k) s = after_id (FormatUint k) xs"
    by (simp add: Replay_def Let_def all(1) xs_def)
  show ?thesis
  proof (cases "n < k + 200")
    case False
    then have "FormatUint k \<notin> set (map ev_ID xs)" unfolding ids by (auto simp del: upt_Suc)
    then show ?thesis using False by (simp add: rep after_id_none)
  next
    case True
    define j where "j = k - Suc (n - 200)"
    have j: "j < length xs" "Suc (n - 200) + j = k" using True assms(2,3) len by (auto simp: j_def)
    have "ev_ID (xs ! j) = map ev_ID xs ! j" using j(1) by simp
    also have "\<dots> = FormatUint k" unfolding ids using j len assms(3) by (simp del: upt_Suc)
    finally have "after_id (FormatUint k) xs = drop (Suc j) xs"
      using after_id_ids [OF dist j(1)] by simp
    then have "map ev_ID (Replay (FormatUint k) s) = drop (Suc j) (map FormatUint [Suc (n - 200)..<Suc n])"
      unfolding rep ids [symmetric] by (simp only: drop_map)
    also have "\<dots> = map FormatUint [Suc k..<Suc n]"
      using j(2) by (simp add: drop_map drop_upt del: upt_Suc)
    finally show ?thesis using True by simp
  qed
qed

text \<open>
  Reconnecting to the event stream: event ids count up from 1 without gaps, and a client that
  names the last id it saw gets every later event, in order, if that id is still among the last
  200; once it has been evicted it gets nothing.
\<close>

theorem replay_after_id:
  assumes "length es + 1 < 2 ^ 64" "1 \<le> k" "k \<le> length es + 1"
  shows "map ev_ID (Replay (FormatUint k) (emit_all es (newSession i now rs m))) =
    (if length es + 1 < k + 200 then map FormatUint [k + 1..<length es + 2] else [])"
proof -
  have "stream_inv (length es + 1) (emit_all es (newSession i now rs m))"
    using stream_inv_emit_all [OF stream_inv_new, of es i now rs m] assms(1) by simp
  moreover have "Suc (length es + 1) = length es + 2" "Suc k = k + 1" by simp_all
  ultimately show ?thesis using replay_ids [OF _ assms(2,3)] by metis
qed

theorem replay_after_id_witness:
  "map ev_ID (Replay ''1'' (emit_all [(5, ''run_started'', None), (6, ''terminal'', None)]
     (newSession ''s'' 1 no_rules ModeDefault))) = [''2'', ''3'']"
proof -
  have f: "FormatUint 1 = ''1''" "FormatUint 2 = ''2''" "FormatUint 3 = ''3''"
    by (simp_all add: FormatUint.simps digit_char_def char_of_def bit_0)
  have "[1 + 1..<length [(5 :: int, ''run_started'', None :: unit option), (6, ''terminal'', None)] + 2] = [2, 3]"
    by (simp add: upt_rec)
  with replay_after_id [of "[(5, ''run_started'', None), (6, ''terminal'', None)]" 1 "''s''" 1 no_rules ModeDefault] f
  show ?thesis by (simp del: upt_Suc)
qed

section \<open>Run goroutines\<close>

text \<open>
  The goroutines a session has started, with what each is about to do: \<open>GRun run\<close> runs the agent,
  \<open>GCtl\<close> has released the controller and still has to reset the session.
\<close>

datatype goroutine = GRun nat | GCtl

text \<open>Operations that may happen at any time and leave the run bookkeeping alone.\<close>

datatype 'd session_op =
    OEmit int string "'d option"
  | OSubscribe nat
  | OUnsubscribe nat
  | OCancel
  | OStop
  | OAllow char string string
  | OMessageID string
  | OWriteStart string string "string option"
  | OWriteResult string

fun do_session_op :: "'d session_op \<Rightarrow> ('d, 'm, 'u) Session \<Rightarrow> ('d, 'm, 'u) Session" where
  "do_session_op (OEmit now t d) s = Emit now t d s"
| "do_session_op (OSubscribe c) s = Subscribe c s"
| "do_session_op (OUnsubscribe c) s = Unsubscribe c s"
| "do_session_op OCancel s = snd (cancelRun s)"
| "do_session_op OStop s = stop s"
| "do_session_op (OAllow sep tool target) s = AllowSession sep tool target s"
| "do_session_op (OMessageID i) s = snd (allowMessageID i s)"
| "do_session_op (OWriteStart n i p) s = trackFileWriteStart n i p s"
| "do_session_op (OWriteResult i) s = trackFileWriteResult i s"

inductive session_step ::
    "('d, 'm, 'u) Session \<times> goroutine multiset \<Rightarrow> ('d, 'm, 'u) Session \<times> goroutine multiset \<Rightarrow> bool" where
  started: "StartRun prompt s = (Inr (run, rest), s') \<Longrightarrow> session_step (s, G) (s', add_mset (GRun run) G)"
| refused: "StartRun prompt s = (Inl e, s') \<Longrightarrow> session_step (s, G) (s', G)"
| terminal: "session_step (s, add_mset (GRun run) G) (handle_terminal now d t s, add_mset (GRun run) G)"
| ctl_finished: "session_step (s, add_mset (GRun run) G) (finish_ctl run s, add_mset GCtl G)"
| ended: "session_step (s, add_mset GCtl G) (run_ended s, G)"
| other: "session_step (s, G) (do_session_op op s, G)"

definition run_inv :: "('d, 'm, 'u) Session \<times> goroutine multiset \<Rightarrow> bool" where
  "run_inv w = (case w of (s, G) \<Rightarrow>
     (G = {#} \<and> \<not> se_running s \<and> \<not> active (se_ctl s))
     \<or> (G = {#GRun (activeID (se_ctl s))#} \<and> se_running s \<and> active (se_ctl s))
     \<or> (G = {#GCtl#} \<and> se_running s \<and> \<not> active (se_ctl s)))"

definition bookkeeping :: "('d, 'm, 'u) Session \<Rightarrow> bool \<times> bool \<times> nat" where
  "bookkeeping s = (se_running s, active (se_ctl s), activeID (se_ctl s))"

lemma session_op_bookkeeping: "bookkeeping (do_session_op op s) = bookkeeping s"
  by (cases op) (auto simp: bookkeeping_def Emit_def Let_def Subscribe_def Unsubscribe_def cancelRun_def
      Cancel_def stop_def clearFileWrites_def AllowSession_def allowMessageID_def trackFileWriteStart_def
      trackFileWriteResult_def split: option.split prod.split)

lemma handle_terminal_bookkeeping: "bookkeeping (handle_terminal now d t s) = bookkeeping s"
  by (auto simp: bookkeeping_def handle_terminal_def Emit_def Let_def clearFileWrites_def)

lemma run_inv_same: "bookkeeping s' = bookkeeping s \<Longrightarrow> run_inv (s, G) \<Longrightarrow> run_inv (s', G)"
  by (auto simp: run_inv_def bookkeeping_def)

lemma StartRun_Inr:
  "StartRun prompt s = (Inr (run, rest), s') \<Longrightarrow>
    \<not> se_running s \<and> se_state s \<noteq> SessionStateClosing \<and> bookkeeping s' = (True, True, run)"
  by (auto simp: StartRun_def Begin_def BeginKind_def Let_def bookkeeping_def split: if_splits)

lemma StartRun_Inl:
  "StartRun prompt s = (Inl e, s') \<Longrightarrow> bookkeeping s' = bookkeeping s
    \<and> (se_running s \<or> se_state s = SessionStateClosing \<or> active (se_ctl s))"
  by (auto simp: StartRun_def Begin_def BeginKind_def Let_def bookkeeping_def split: if_splits)

lemma run_inv_step: "session_step w w' \<Longrightarrow> run_inv w \<Longrightarrow> run_inv w'"
proof (induction rule: session_step.induct)
  case (started prompt s run rest s' G)
  from StartRun_Inr [OF started(1)] started(2) show ?case
    by (auto simp: run_inv_def bookkeeping_def)
next
  case (refused prompt s e s' G)
  with StartRun_Inl [OF refused(1)] run_inv_same show ?case by blast
next
  case (terminal s run G now d t)
  with run_inv_same [OF handle_terminal_bookkeeping] show ?case by blast
next
  case (ctl_finished s run G)
  then show ?case by (auto simp: run_inv_def finish_ctl_def Finish_def Let_def split: option.split)
next
  case (ended s G)
  then show ?case by (auto simp: run_inv_def run_ended_def clearFileWrites_def)
next
  case (other s G op)
  with run_inv_same [OF session_op_bookkeeping] show ?case by blast
qed

lemma run_inv_start: "run_inv (newSession i now rs m, {#})"
  by (simp add: run_inv_def newSession_def Emit_def Let_def New_def)

lemma run_inv_steps: "session_step\<^sup>*\<^sup>* w w' \<Longrightarrow> run_inv w \<Longrightarrow> run_inv w'"
  by (induction rule: rtranclp_induct) (auto intro: run_inv_step)

text \<open>
  C38. A session never has two agent goroutines: in every interleaving of run starts, terminal events,
  run ends, stops, cancels and the other operations there is at most one, the session says it is
  running exactly while there is one, and a message starts a run if and only if there is none and
  the session is not closing.
\<close>

theorem one_agent_goroutine:
  assumes "session_step\<^sup>*\<^sup>* (newSession i now rs m, {#}) (s, G)"
  shows "size G \<le> 1 \<and> (se_running s \<longleftrightarrow> G \<noteq> {#})
    \<and> ((\<exists>run. fst (StartRun prompt s) = Inr run) \<longleftrightarrow> G = {#} \<and> se_state s \<noteq> SessionStateClosing)"
proof -
  have inv: "run_inv (s, G)" using run_inv_steps [OF assms run_inv_start] .
  have "(\<exists>run. fst (StartRun prompt s) = Inr run) \<longleftrightarrow>
      \<not> se_running s \<and> \<not> active (se_ctl s) \<and> se_state s \<noteq> SessionStateClosing"
    by (auto simp: StartRun_def Begin_def BeginKind_def Let_def)
  with inv show ?thesis by (auto simp: run_inv_def)
qed

theorem one_agent_goroutine_witness:
  "size {#GRun 1#} \<le> 1
    \<and> (se_running (snd (StartRun ''hi'' (newSession ''s'' 1 no_rules ModeDefault :: (unit, unit, unit) Session)))
        \<longleftrightarrow> {#GRun 1#} \<noteq> {#})"
proof -
  let ?s0 = "newSession ''s'' 1 no_rules ModeDefault :: (unit, unit, unit) Session"
  obtain rest where r: "StartRun ''hi'' ?s0 = (Inr (1, rest), snd (StartRun ''hi'' ?s0))"
    by (simp add: StartRun_def newSession_def Emit_def Begin_def BeginKind_def New_def Let_def)
  have "session_step\<^sup>*\<^sup>* (?s0, {#}) (snd (StartRun ''hi'' ?s0), add_mset (GRun 1) {#})"
    using session_step.started [OF r, of "{#}"] by blast
  from one_agent_goroutine [OF this, of "''x''"] show ?thesis by simp
qed

section \<open>Permissions\<close>

text \<open>
  "Always allow" for a call, then deciding later calls by the session's rules: a call that a
  rule already decided keeps its decision, so deny and ask rules still win; of the others exactly
  the approved call, same tool and same target, becomes allowed.
\<close>

theorem allow_session_exact:
  assumes "SessionAllowRule sep tool target = Some r"
  shows "map_option snd (FirstMatchingRule sep (se_permRules (AllowSession sep tool target s)) tool' target') =
    (case map_option snd (FirstMatchingRule sep (se_permRules s) tool' target') of
       Some d \<Rightarrow> Some d
     | None \<Rightarrow> if tool' = TrimSpace tool \<and> same_target sep target' (TrimSpace target)
               then Some DecisionAllow else None)"
  using perm.allow_session [of sep "(tool, target)" r "(tool', target')" "se_permRules s"] assms
  by (simp add: AllowSession_def FirstMatchingRule_def map_snd_first_match split: option.split)

theorem allow_session_exact_witness:
  "map_option snd (FirstMatchingRule CHR ''/'' (se_permRules (AllowSession CHR ''/'' ''Bash'' ''rm x''
      (newSession ''s'' 1 no_rules ModeDefault :: (unit, unit, unit) Session))) ''Bash'' ''rm x'') = Some DecisionAllow"
proof -
  have h: "SessionAllowRule CHR ''/'' ''Bash'' ''rm x''
      = Some \<lparr>Pattern = ''Bash(rm x)'', rule_Source = SourceSession\<rparr>"
    by (simp add: SessionAllowRule_def Let_def TrimSpace_def trim_chunks_def chunks_ascii is_space_def
        ContainsAny_def escapeGlob_def normalizePathSeparators_def runes_ascii
        encode_rune_def encode_valid_def valid_rune_def char_of_def bit_0)
  have n: "FirstMatchingRule CHR ''/'' (se_permRules (newSession ''s'' 1 no_rules ModeDefault
      :: (unit, unit, unit) Session)) ''Bash'' ''rm x'' = None"
    by (simp add: newSession_def Emit_def Let_def FirstMatchingRule_def first_match_def no_rules_def)
  have t: "TrimSpace ''Bash'' = ''Bash''" "TrimSpace ''rm x'' = ''rm x''"
    by (simp_all add: TrimSpace_def trim_chunks_def chunks_ascii is_space_def)
  show ?thesis
    using allow_session_exact [OF h, of "newSession ''s'' 1 no_rules ModeDefault :: (unit, unit, unit) Session"
        "''Bash''" "''rm x''"]
    by (simp add: n t same_target_def)
qed

section \<open>Duplicate messages and reuse\<close>

lemma StartRun_recent: "se_recentMessage (snd (StartRun p s)) = se_recentMessage s"
  by (auto simp: StartRun_def Let_def split: prod.split option.split)

lemma handlePostMessage_recent:
  "TrimSpace messageID \<noteq> [] \<Longrightarrow> TrimSpace prompt \<noteq> [] \<Longrightarrow>
    se_recentMessage (snd (handlePostMessage prompt messageID s)) =
      snd (SeenOrAdd (TrimSpace messageID) (se_recentMessage s))"
proof -
  assume ne: "TrimSpace messageID \<noteq> []" "TrimSpace prompt \<noteq> []"
  obtain seen r where r: "SeenOrAdd (TrimSpace messageID) (se_recentMessage s) = (seen, r)" by fastforce
  show ?thesis
  proof (cases "StartRun (TrimSpace prompt) (s\<lparr>se_recentMessage := r\<rparr>)")
    case (Pair a s')
    then have "se_recentMessage s' = r"
      using StartRun_recent [of "TrimSpace prompt" "s\<lparr>se_recentMessage := r\<rparr>"] by simp
    with Pair ne r show ?thesis
      by (cases a) (auto simp: handlePostMessage_def allowMessageID_def)
  qed
qed

lemma seen_is_duplicate:
  "fst (SeenOrAdd (TrimSpace messageID) (se_recentMessage s)) \<Longrightarrow> TrimSpace messageID \<noteq> [] \<Longrightarrow>
    TrimSpace prompt \<noteq> [] \<Longrightarrow>
    fst (handlePostMessage prompt messageID s) = Duplicate
    \<and> bookkeeping (snd (handlePostMessage prompt messageID s)) = bookkeeping s"
  by (cases "SeenOrAdd (TrimSpace messageID) (se_recentMessage s)")
    (simp add: handlePostMessage_def allowMessageID_def bookkeeping_def)

text \<open>
  A message with an id is accepted at most once: posting it again right away answers that it is a
  duplicate and leaves runs and conversation alone, whatever the first answer was.
\<close>

theorem message_id_once:
  assumes "TrimSpace messageID \<noteq> []" "TrimSpace prompt \<noteq> []"
  shows "fst (handlePostMessage prompt messageID (snd (handlePostMessage prompt messageID s))) = Duplicate
    \<and> bookkeeping (snd (handlePostMessage prompt messageID (snd (handlePostMessage prompt messageID s))))
        = bookkeeping (snd (handlePostMessage prompt messageID s))"
proof -
  have "fst (SeenOrAdd (TrimSpace messageID) (snd (SeenOrAdd (TrimSpace messageID) r)))" for r
    using assms(1) by (auto simp: SeenOrAdd_def Let_def)
  then have "fst (SeenOrAdd (TrimSpace messageID)
      (se_recentMessage (snd (handlePostMessage prompt messageID s))))"
    by (simp add: handlePostMessage_recent [OF assms])
  from seen_is_duplicate [OF this assms] show ?thesis .
qed

definition fresh_session :: "(unit, unit, unit) Session" where
  "fresh_session = newSession ''s'' 1 no_rules ModeDefault"

lemma ascii_trim: "TrimSpace ''m1'' = ''m1''" "TrimSpace ''hi'' = ''hi''"
  by (simp_all add: TrimSpace_def trim_chunks_def chunks_ascii is_space_def)

theorem message_id_once_witness:
  "fst (handlePostMessage ''hi'' ''m1'' (snd (handlePostMessage ''hi'' ''m1'' fresh_session))) = Duplicate"
  using message_id_once [of "''m1''" "''hi''" fresh_session] by (simp add: ascii_trim)

text \<open>
  The id is recorded before the run is known to start: a message refused because a run was active is
  answered as an accepted duplicate when the client retries it later, though it never ran.
\<close>

lemma refused_message_is_lost:
  assumes "TrimSpace messageID \<noteq> []" "TrimSpace prompt \<noteq> []"
    "fst (handlePostMessage prompt messageID s) = RunActive"
  shows "fst (handlePostMessage prompt messageID
     (run_ended (finish_ctl run (snd (handlePostMessage prompt messageID s))))) = Duplicate"
proof -
  have "fst (SeenOrAdd (TrimSpace messageID) (snd (SeenOrAdd (TrimSpace messageID) r)))" for r
    using assms(1) by (auto simp: SeenOrAdd_def Let_def)
  then have "fst (SeenOrAdd (TrimSpace messageID)
      (se_recentMessage (run_ended (finish_ctl run (snd (handlePostMessage prompt messageID s))))))"
    by (simp add: run_ended_def finish_ctl_def clearFileWrites_def handlePostMessage_recent [OF assms(1,2)])
  from seen_is_duplicate [OF this assms(1,2)] show ?thesis by simp
qed

text \<open>The end of a run forgets that the session was closed meanwhile.\<close>

lemma closing_forgotten: "se_state (run_ended (finish_ctl run (stop s))) = SessionStateReady"
  by (simp add: run_ended_def)

text \<open>
  Between the replay and the subscription of \<open>handleEvents\<close> an event is lost to the client: it is
  neither in the replayed list nor in the new subscriber's buffer.
\<close>

lemma event_between_replay_and_subscribe:
  assumes "stream_inv n s" "Suc n < 2 ^ 64"
  shows "let missed = FormatUint (Suc n); s' = Subscribe ch (Emit now t d s) in
     missed \<notin> set (map ev_ID (Replay [] s)) \<and> (\<forall>(c, buf) \<in> set (se_subscribers s'). c = ch \<longrightarrow> buf = [])"
proof -
  obtain all where all: "Snapshot (se_events s) = last_n 200 all" "map ev_ID all = map FormatUint [1..<Suc n]"
    using assms(1) by (auto simp: stream_inv_def)
  have "set (map ev_ID (last_n 200 all)) \<subseteq> set (map ev_ID all)"
    by (auto simp: last_n_def dest: in_set_dropD)
  then have "FormatUint (Suc n) \<notin> set (map ev_ID (last_n 200 all))"
    unfolding all(2) by (auto simp del: upt_Suc)
  then show ?thesis by (auto simp: Replay_def Let_def all(1) Subscribe_def)
qed

lemma blankOrphan_snoc:
  "blankOrphan (all @ [x]) =
    (if \<not> blankOrphanLocked x then blankOrphan all
     else case blankOrphan all of None \<Rightarrow> Some x
       | Some b \<Rightarrow> if se_createdAt b < se_createdAt x then Some x else Some b)"
  by (simp add: blankOrphan_def split: option.split)

text \<open>
  A session that is handed out again is blank and unattended: it is ready, nothing runs in it,
  nobody is subscribed, it has no conversation, no prompt and no event but its first; it is the
  newest of those; and a new session is created only if there is none.
\<close>

theorem reuse_only_blank:
  "case blankOrphan all of
     None \<Rightarrow> list_all (\<lambda>x. \<not> blankOrphanLocked x) all
   | Some b \<Rightarrow> b \<in> set all \<and> blankOrphanLocked b
       \<and> list_all (\<lambda>x. se_createdAt x \<le> se_createdAt b \<or> \<not> blankOrphanLocked x) all"
proof (induction all rule: rev_induct)
  case Nil
  then show ?case by (simp add: blankOrphan_def)
next
  case (snoc x all)
  then show ?case
    by (auto simp: blankOrphan_snoc list_all_iff split: option.splits)
qed

end
