(* ===== verification/Permission_Broker.thy ===== *)
theory Permission_Broker
  imports Server_Session
begin

text \<open>
  The permission broker of the browser server (\<open>internal/server/permission.go\<close>, \<open>expire\<close> of
  \<open>events_permission.go\<close>): a tool call of the agent waits for the user's answer, which arrives
  through another request, and a timeout or the end of the run may come first.

  Each prompt has a number (\<open>perm_<n>\<close> in the code). A step is one critical section, one event or
  one channel operation of either side: the agent's goroutine in \<open>PromptFunc\<close>, the requests in
  \<open>Resolve\<close>. The invariant relates the two sides; the properties say what user and agent see.
\<close>

section \<open>State\<close>

datatype permissionDecision = decisionAllow | decisionDeny | decisionAlwaysAllow

text \<open>The decision named in a \<open>permission_resolved\<close> event: the user's, or how the prompt ended.\<close>

datatype resolved = ByUser permissionDecision | ByCancel | ByTimeout

text \<open>
  Where the agent's goroutine is. \<open>Added\<close>: registered, the request event not sent yet; \<open>Waiting\<close>: in
  the select; \<open>Expiring why\<close>: the timer fired or the run was cancelled, about to claim the prompt;
  \<open>Closing why\<close>: claimed, event not sent yet; \<open>Awaiting\<close>: the user's decision came first, about to
  receive it; \<open>Returned d reason\<close>: done.
\<close>

datatype agent_pc =
    Added
  | Waiting
  | Expiring resolved
  | Closing resolved
  | Awaiting
  | Returned decision string

text \<open>Where the request that claimed the prompt is: before the rule, before the event, before the send.\<close>

datatype claim_pc = Claimed | Recorded | Announced | Sent

record broker =
  pending :: "nat \<rightharpoonup> string \<times> string"
  agent :: "nat \<rightharpoonup> agent_pc"
  claim :: "nat \<rightharpoonup> claim_pc \<times> permissionDecision \<times> string \<times> string"
  answer :: "nat \<rightharpoonup> permissionDecision"
  resolved_events :: "(nat \<times> resolved) list"
  approvals :: "(nat \<times> string \<times> string) list"

definition NewBroker :: broker where
  "NewBroker = \<lparr>pending = Map.empty, agent = Map.empty, claim = Map.empty, answer = Map.empty,
     resolved_events = [], approvals = []\<rparr>"

definition returned :: "permissionDecision \<Rightarrow> agent_pc" where
  "returned d =
     (case d of
        decisionAllow \<Rightarrow> Returned DecisionAllow ''approved''
      | decisionAlwaysAllow \<Rightarrow> Returned DecisionAllow ''approved''
      | decisionDeny \<Rightarrow> Returned DecisionDeny ''denied'')"

definition expired_return :: "resolved \<Rightarrow> agent_pc" where
  "expired_return why =
     Returned DecisionDeny (if why = ByTimeout then ''timeout'' else ''cancelled'')"

section \<open>Steps of the agent's side\<close>

definition open_prompt :: "nat \<Rightarrow> string \<Rightarrow> string \<Rightarrow> broker \<Rightarrow> broker" where
  "open_prompt i tool target b =
     b\<lparr>pending := (pending b)(i \<mapsto> (tool, target)), agent := (agent b)(i \<mapsto> Added)\<rparr>"

definition set_agent :: "nat \<Rightarrow> agent_pc \<Rightarrow> broker \<Rightarrow> broker" where
  "set_agent i pc b = b\<lparr>agent := (agent b)(i \<mapsto> pc)\<rparr>"

definition forget :: "nat \<Rightarrow> broker \<Rightarrow> broker" where
  "forget i b = b\<lparr>pending := (pending b)(i := None)\<rparr>"

text \<open>\<open>expire\<close>: the critical section decides who has the prompt.\<close>

definition expire :: "nat \<Rightarrow> resolved \<Rightarrow> broker \<Rightarrow> broker" where
  "expire i why b =
     (if pending b i \<noteq> None then set_agent i (Closing why) (forget i b)
      else set_agent i Awaiting (forget i b))"

definition emit_resolved :: "nat \<Rightarrow> resolved \<Rightarrow> broker \<Rightarrow> broker" where
  "emit_resolved i r b = b\<lparr>resolved_events := resolved_events b @ [(i, r)]\<rparr>"

section \<open>Steps of the user's side\<close>

definition claim_prompt :: "nat \<Rightarrow> permissionDecision \<Rightarrow> broker \<Rightarrow> bool \<times> broker" where
  "claim_prompt i d b =
     (case pending b i of
        None \<Rightarrow> (False, b)
      | Some (tool, target) \<Rightarrow>
          (True, (forget i b)\<lparr>claim := (claim b)(i \<mapsto> (Claimed, d, tool, target))\<rparr>))"

definition set_claim :: "nat \<Rightarrow> claim_pc \<Rightarrow> permissionDecision \<Rightarrow> string \<Rightarrow> string \<Rightarrow> broker \<Rightarrow> broker" where
  "set_claim i pc d tool target b = b\<lparr>claim := (claim b)(i \<mapsto> (pc, d, tool, target))\<rparr>"

definition record_rule :: "nat \<Rightarrow> permissionDecision \<Rightarrow> string \<Rightarrow> string \<Rightarrow> broker \<Rightarrow> broker" where
  "record_rule i d tool target b =
     (if d = decisionAlwaysAllow then b\<lparr>approvals := approvals b @ [(i, tool, target)]\<rparr> else b)"

text \<open>The send does not block: the channel has room for one answer, a second is dropped.\<close>

definition send_answer :: "nat \<Rightarrow> permissionDecision \<Rightarrow> broker \<Rightarrow> broker" where
  "send_answer i d b = (if answer b i = None then b\<lparr>answer := (answer b)(i \<mapsto> d)\<rparr> else b)"

inductive broker_step :: "broker \<Rightarrow> broker \<Rightarrow> bool" where
  opened: "agent b i = None \<Longrightarrow> broker_step b (open_prompt i tool target b)"
| requested: "agent b i = Some Added \<Longrightarrow> broker_step b (set_agent i Waiting b)"
| fired: "agent b i = Some Waiting \<Longrightarrow> why = ByCancel \<or> why = ByTimeout \<Longrightarrow>
    broker_step b (set_agent i (Expiring why) b)"
| expired: "agent b i = Some (Expiring why) \<Longrightarrow> broker_step b (expire i why b)"
| closed: "agent b i = Some (Closing why) \<Longrightarrow>
    broker_step b (set_agent i (expired_return why) (emit_resolved i why b))"
| received: "agent b i = Some Waiting \<or> agent b i = Some Awaiting \<Longrightarrow> answer b i = Some d \<Longrightarrow>
    broker_step b (set_agent i (returned d) (forget i b))"
| claimed: "claim_prompt i d b = (ok, b') \<Longrightarrow> broker_step b b'"
| recorded: "claim b i = Some (Claimed, d, tool, target) \<Longrightarrow>
    broker_step b (set_claim i Recorded d tool target (record_rule i d tool target b))"
| announced: "claim b i = Some (Recorded, d, tool, target) \<Longrightarrow>
    broker_step b (set_claim i Announced d tool target (emit_resolved i (ByUser d) b))"
| sent: "claim b i = Some (Announced, d, tool, target) \<Longrightarrow>
    broker_step b (set_claim i Sent d tool target (send_answer i d b))"

section \<open>The invariant\<close>

text \<open>What can be seen of one prompt.\<close>

definition resolved_of :: "nat \<Rightarrow> broker \<Rightarrow> resolved list" where
  "resolved_of i b = map snd (filter (\<lambda>(j, _). j = i) (resolved_events b))"

definition approved_of :: "nat \<Rightarrow> broker \<Rightarrow> (string \<times> string) list" where
  "approved_of i b = map snd (filter (\<lambda>(j, _). j = i) (approvals b))"

type_synonym prompt_view = "(string \<times> string) option \<times> agent_pc option
  \<times> (claim_pc \<times> permissionDecision \<times> string \<times> string) option \<times> permissionDecision option
  \<times> resolved list \<times> (string \<times> string) list"

definition prompt_view :: "broker \<Rightarrow> nat \<Rightarrow> prompt_view" where
  "prompt_view b i = (pending b i, agent b i, claim b i, answer b i, resolved_of i b, approved_of i b)"

definition rule_of :: "permissionDecision \<Rightarrow> string \<Rightarrow> string \<Rightarrow> (string \<times> string) list" where
  "rule_of d tool target = (if d = decisionAlwaysAllow then [(tool, target)] else [])"

fun claim_ok :: "claim_pc \<Rightarrow> permissionDecision \<Rightarrow> string \<Rightarrow> string \<Rightarrow> permissionDecision option \<Rightarrow>
    resolved list \<Rightarrow> (string \<times> string) list \<Rightarrow> bool" where
  "claim_ok Claimed d tool target ans evs app = (ans = None \<and> evs = [] \<and> app = [])"
| "claim_ok Recorded d tool target ans evs app = (ans = None \<and> evs = [] \<and> app = rule_of d tool target)"
| "claim_ok Announced d tool target ans evs app = (ans = None \<and> evs = [ByUser d] \<and> app = rule_of d tool target)"
| "claim_ok Sent d tool target ans evs app = (ans = Some d \<and> evs = [ByUser d] \<and> app = rule_of d tool target)"

definition view_ok :: "prompt_view \<Rightarrow> bool" where
  "view_ok v = (case v of (pend, pc, cl, ans, evs, app) \<Rightarrow>
     case cl of
       Some (st, d, tool, target) \<Rightarrow>
         pend = None \<and> claim_ok st d tool target ans evs app
         \<and> (case pc of
              Some Added \<Rightarrow> True | Some Waiting \<Rightarrow> True | Some (Expiring why) \<Rightarrow> why = ByCancel \<or> why = ByTimeout
            | Some Awaiting \<Rightarrow> True
            | Some (Returned r why) \<Rightarrow> st = Sent \<and> Returned r why = returned d
            | _ \<Rightarrow> False)
     | None \<Rightarrow>
         ans = None \<and> app = []
         \<and> (case pc of
              None \<Rightarrow> pend = None \<and> evs = []
            | Some Added \<Rightarrow> pend \<noteq> None \<and> evs = []
            | Some Waiting \<Rightarrow> pend \<noteq> None \<and> evs = []
            | Some (Expiring why) \<Rightarrow> pend \<noteq> None \<and> evs = [] \<and> (why = ByCancel \<or> why = ByTimeout)
            | Some (Closing why) \<Rightarrow> pend = None \<and> evs = [] \<and> (why = ByCancel \<or> why = ByTimeout)
            | Some Awaiting \<Rightarrow> False
            | Some (Returned r reason) \<Rightarrow> pend = None \<and> (\<exists>why. (why = ByCancel \<or> why = ByTimeout)
                 \<and> evs = [why] \<and> Returned r reason = expired_return why)))"

definition broker_inv :: "broker \<Rightarrow> bool" where
  "broker_inv b = (\<forall>i. view_ok (prompt_view b i))"

lemmas broker_ops = open_prompt_def set_agent_def forget_def expire_def emit_resolved_def claim_prompt_def
  set_claim_def record_rule_def send_answer_def prompt_view_def resolved_of_def approved_of_def

lemma view_other: "prompt_view b' j = prompt_view b j \<Longrightarrow> view_ok (prompt_view b j) \<Longrightarrow> view_ok (prompt_view b' j)"
  by simp

lemma broker_invI:
  assumes "broker_inv b" "view_ok (prompt_view b i) \<Longrightarrow> view_ok (prompt_view b' i)"
    "\<And>j. j \<noteq> i \<Longrightarrow> prompt_view b' j = prompt_view b j"
  shows "broker_inv b'"
  using assms unfolding broker_inv_def by metis

lemma returned_not [simp]:
  "returned d \<noteq> Added" "returned d \<noteq> Waiting" "returned d \<noteq> Awaiting"
  by (cases d; simp add: returned_def)+

lemma inv_opened: "broker_inv b \<Longrightarrow> agent b i = None \<Longrightarrow> broker_inv (open_prompt i tool target b)"
  by (rule broker_invI [of b i]) (auto simp: broker_ops view_ok_def split: option.splits prod.splits)

lemma inv_requested: "broker_inv b \<Longrightarrow> agent b i = Some Added \<Longrightarrow> broker_inv (set_agent i Waiting b)"
  by (rule broker_invI [of b i]) (auto simp: broker_ops view_ok_def split: option.splits prod.splits)

lemma inv_fired:
  "broker_inv b \<Longrightarrow> agent b i = Some Waiting \<Longrightarrow> why = ByCancel \<or> why = ByTimeout \<Longrightarrow>
    broker_inv (set_agent i (Expiring why) b)"
  by (rule broker_invI [of b i]) (auto simp: broker_ops view_ok_def split: option.splits prod.splits)

lemma inv_expired: "broker_inv b \<Longrightarrow> agent b i = Some (Expiring why) \<Longrightarrow> broker_inv (expire i why b)"
  by (rule broker_invI [of b i]) (auto simp: broker_ops view_ok_def split: option.splits prod.splits)

lemma inv_closed:
  "broker_inv b \<Longrightarrow> agent b i = Some (Closing why) \<Longrightarrow>
    broker_inv (set_agent i (expired_return why) (emit_resolved i why b))"
  by (rule broker_invI [of b i])
    (auto simp: broker_ops view_ok_def expired_return_def split: option.splits prod.splits)

lemma claim_answer: "claim_ok st d tool target (Some d') evs app \<Longrightarrow> st = Sent \<and> d' = d"
  by (cases st) auto

lemma view_received:
  assumes "view_ok (pend, pc, cl, Some d, evs, app)" "pc = Some Waiting \<or> pc = Some Awaiting"
  shows "view_ok (None, Some (returned d), cl, Some d, evs, app)"
proof (cases cl)
  case None
  with assms show ?thesis by (simp add: view_ok_def)
next
  case (Some c)
  obtain st d' tool target where c: "c = (st, d', tool, target)" by (cases c)
  with assms Some have ok: "claim_ok st d' tool target (Some d) evs app" by (simp add: view_ok_def)
  from claim_answer [OF ok] ok show ?thesis
    by (cases d') (auto simp: view_ok_def Some c returned_def)
qed

lemma inv_received:
  "broker_inv b \<Longrightarrow> agent b i = Some Waiting \<or> agent b i = Some Awaiting \<Longrightarrow> answer b i = Some d \<Longrightarrow>
    broker_inv (set_agent i (returned d) (forget i b))"
proof (rule broker_invI [of b i])
  assume a: "agent b i = Some Waiting \<or> agent b i = Some Awaiting" "answer b i = Some d"
    "view_ok (prompt_view b i)"
  from view_received [of "pending b i" "agent b i" "claim b i" d "resolved_of i b" "approved_of i b"] a
  show "view_ok (prompt_view (set_agent i (returned d) (forget i b)) i)"
    by (simp add: prompt_view_def set_agent_def forget_def resolved_of_def approved_of_def)
qed (simp_all add: broker_ops)

lemma view_claimed:
  "view_ok (Some p, pc, cl, ans, evs, app) \<Longrightarrow>
    view_ok (None, pc, Some (Claimed, d, tool, target), ans, evs, app)"
  by (cases pc; cases cl) (auto simp: view_ok_def split: agent_pc.splits)

lemma inv_claimed:
  assumes "broker_inv b" "claim_prompt i d b = (ok, b')"
  shows "broker_inv b'"
proof (cases "pending b i")
  case None
  with assms show ?thesis by (simp add: claim_prompt_def)
next
  case (Some p)
  obtain tool target where p: "p = (tool, target)" by (cases p)
  have b': "b' = (forget i b)\<lparr>claim := (claim b)(i \<mapsto> (Claimed, d, tool, target))\<rparr>"
    using assms(2) Some p by (simp add: claim_prompt_def)
  show ?thesis
  proof (rule broker_invI [OF assms(1)])
    assume "view_ok (prompt_view b i)"
    then have "view_ok (Some p, agent b i, claim b i, answer b i, resolved_of i b, approved_of i b)"
      using Some by (simp add: prompt_view_def)
    from view_claimed [OF this, of d tool target] show "view_ok (prompt_view b' i)"
      by (simp add: b' prompt_view_def forget_def resolved_of_def approved_of_def)
  qed (simp add: b' prompt_view_def forget_def resolved_of_def approved_of_def)
qed

lemma inv_recorded:
  "broker_inv b \<Longrightarrow> claim b i = Some (Claimed, d, tool, target) \<Longrightarrow>
    broker_inv (set_claim i Recorded d tool target (record_rule i d tool target b))"
  by (rule broker_invI [of b i])
    (auto simp: broker_ops view_ok_def rule_of_def split: option.splits prod.splits agent_pc.splits)

lemma inv_announced:
  "broker_inv b \<Longrightarrow> claim b i = Some (Recorded, d, tool, target) \<Longrightarrow>
    broker_inv (set_claim i Announced d tool target (emit_resolved i (ByUser d) b))"
  by (rule broker_invI [of b i])
    (auto simp: broker_ops view_ok_def split: option.splits prod.splits agent_pc.splits)

lemma inv_sent:
  "broker_inv b \<Longrightarrow> claim b i = Some (Announced, d, tool, target) \<Longrightarrow>
    broker_inv (set_claim i Sent d tool target (send_answer i d b))"
  by (rule broker_invI [of b i])
    (auto simp: broker_ops view_ok_def split: option.splits prod.splits agent_pc.splits)

lemma broker_inv_step: "broker_step b b' \<Longrightarrow> broker_inv b \<Longrightarrow> broker_inv b'"
  by (induction rule: broker_step.induct)
    (blast intro: inv_opened inv_requested inv_fired inv_expired inv_closed inv_received inv_claimed
      inv_recorded inv_announced inv_sent)+

lemma broker_inv_reachable: "broker_step\<^sup>*\<^sup>* NewBroker b \<Longrightarrow> broker_inv b"
proof (induction rule: rtranclp_induct)
  case base
  show ?case
    by (simp add: broker_inv_def view_ok_def prompt_view_def NewBroker_def resolved_of_def approved_of_def)
next
  case (step b b')
  then show ?case by (blast intro: broker_inv_step)
qed

section \<open>Properties\<close>

text \<open>Whether a resolution lets the call through.\<close>

fun resolution_allows :: "resolved \<Rightarrow> bool" where
  "resolution_allows (ByUser d) = (d \<noteq> decisionDeny)"
| "resolution_allows _ = False"


definition demo_broker :: broker where
  "demo_broker = set_agent 1 (expired_return ByTimeout) (emit_resolved 1 ByTimeout
     (expire 1 ByTimeout (set_agent 1 (Expiring ByTimeout) (set_agent 1 Waiting
       (open_prompt 1 ''Bash'' ''ls'' NewBroker)))))"

lemma demo_broker_reachable: "broker_step\<^sup>*\<^sup>* NewBroker demo_broker"
proof -
  let ?b1 = "open_prompt 1 ''Bash'' ''ls'' NewBroker"
  let ?b2 = "set_agent 1 Waiting ?b1"
  let ?b3 = "set_agent 1 (Expiring ByTimeout) ?b2"
  let ?b4 = "expire 1 ByTimeout ?b3"
  have "broker_step NewBroker ?b1" by (rule broker_step.opened) (simp add: NewBroker_def)
  moreover have "broker_step ?b1 ?b2" by (rule broker_step.requested) (simp add: open_prompt_def)
  moreover have "broker_step ?b2 ?b3" by (rule broker_step.fired) (simp_all add: set_agent_def)
  moreover have "broker_step ?b3 ?b4" by (rule broker_step.expired) (simp add: set_agent_def)
  moreover have "broker_step ?b4 demo_broker"
    unfolding demo_broker_def
    by (rule broker_step.closed) (simp add: set_agent_def expire_def open_prompt_def forget_def)
  ultimately show ?thesis by (meson converse_rtranclp_into_rtranclp rtranclp.rtrancl_refl)
qed


text \<open>
  No prompt hangs on a lost answer: an agent that found the prompt already claimed waits for an
  answer that is there or on its way, because the request that claimed it still has to send it.
\<close>

theorem awaited_answer_comes:
  assumes "broker_step\<^sup>*\<^sup>* NewBroker b" "agent b i = Some Awaiting"
  shows "answer b i \<noteq> None \<or>
    (\<exists>st d tool target. claim b i = Some (st, d, tool, target) \<and> st \<noteq> Sent)"
proof -
  have "view_ok (prompt_view b i)" using broker_inv_reachable [OF assms(1)] by (simp add: broker_inv_def)
  with assms(2) obtain st d tool target where
    "claim b i = Some (st, d, tool, target)" "claim_ok st d tool target (answer b i) (resolved_of i b) (approved_of i b)"
    by (auto simp: view_ok_def prompt_view_def split: option.splits)
  then show ?thesis by (cases st) auto
qed

definition demo_race :: broker where
  "demo_race = expire 1 ByTimeout (snd (claim_prompt 1 decisionAllow (set_agent 1 (Expiring ByTimeout)
     (set_agent 1 Waiting (open_prompt 1 ''Bash'' ''ls'' NewBroker)))))"

lemma demo_race_reachable: "broker_step\<^sup>*\<^sup>* NewBroker demo_race"
proof -
  let ?b1 = "open_prompt 1 ''Bash'' ''ls'' NewBroker"
  let ?b2 = "set_agent 1 Waiting ?b1"
  let ?b3 = "set_agent 1 (Expiring ByTimeout) ?b2"
  let ?b4 = "snd (claim_prompt 1 decisionAllow ?b3)"
  have "broker_step NewBroker ?b1" by (rule broker_step.opened) (simp add: NewBroker_def)
  moreover have "broker_step ?b1 ?b2" by (rule broker_step.requested) (simp add: open_prompt_def)
  moreover have "broker_step ?b2 ?b3" by (rule broker_step.fired) (simp_all add: set_agent_def)
  moreover have "broker_step ?b3 ?b4" by (rule broker_step.claimed [of 1 decisionAllow _ True]) (simp add: claim_prompt_def set_agent_def open_prompt_def)
  moreover have "broker_step ?b4 demo_race"
    unfolding demo_race_def
    by (rule broker_step.expired) (simp add: set_agent_def claim_prompt_def open_prompt_def forget_def)
  ultimately show ?thesis by (meson converse_rtranclp_into_rtranclp rtranclp.rtrancl_refl)
qed

theorem awaited_answer_comes_witness:
  "agent demo_race 1 = Some Awaiting \<and>
    ((\<exists>st d tool target. claim demo_race 1 = Some (st, d, tool, target) \<and> st \<noteq> Sent) \<or>
     (\<exists>a. answer demo_race 1 = Some a))"
proof -
  have a: "agent demo_race 1 = Some Awaiting"
    by (simp add: demo_race_def expire_def claim_prompt_def forget_def set_agent_def open_prompt_def)
  from awaited_answer_comes [OF demo_race_reachable a] a show ?thesis by blast
qed

section \<open>Every prompt ends\<close>

fun agent_work :: "agent_pc option \<Rightarrow> nat" where
  "agent_work (Some Added) = 4"
| "agent_work (Some Waiting) = 3"
| "agent_work (Some (Expiring why)) = 2"
| "agent_work (Some (Closing why)) = 1"
| "agent_work (Some Awaiting) = 1"
| "agent_work (Some (Returned d reason)) = 0"
| "agent_work None = 0"

fun claim_work :: "(claim_pc \<times> permissionDecision \<times> string \<times> string) option \<Rightarrow> nat" where
  "claim_work None = 4"
| "claim_work (Some (Claimed, _)) = 3"
| "claim_work (Some (Recorded, _)) = 2"
| "claim_work (Some (Announced, _)) = 1"
| "claim_work (Some (Sent, _)) = 0"

text \<open>The steps a prompt has left at most, on both sides.\<close>

definition work :: "nat \<Rightarrow> broker \<Rightarrow> nat" where
  "work i b = agent_work (agent b i) + claim_work (claim b i)"

definition ended :: "nat \<Rightarrow> broker \<Rightarrow> bool" where
  "ended i b = (\<exists>d reason. agent b i = Some (Returned d reason))"

lemma work_bound: "work i b \<le> 8"
proof -
  have "agent_work p \<le> 4" for p by (cases p rule: agent_work.cases) simp_all
  moreover have "claim_work c \<le> 4" for c by (cases c rule: claim_work.cases) simp_all
  ultimately show ?thesis unfolding work_def using add_mono by fastforce
qed

lemma work_upd [simp]:
  "work i (set_agent j pc b) = (if i = j then agent_work (Some pc) + claim_work (claim b i) else work i b)"
  "work i (forget j b) = work i b" "work i (emit_resolved j r b) = work i b"
  "work i (record_rule j d tool target b) = work i b" "work i (send_answer j d b) = work i b"
  "work i (set_claim j st d tool target b)
    = (if i = j then agent_work (agent b i) + claim_work (Some (st, d, tool, target)) else work i b)"
  "agent (forget j b) = agent b" "claim (forget j b) = claim b" "claim (emit_resolved j r b) = claim b"
  "agent (record_rule j d tool target b) = agent b" "agent (emit_resolved j r b) = agent b" "agent (send_answer j d b) = agent b"
  by (auto simp: work_def set_agent_def forget_def emit_resolved_def record_rule_def send_answer_def set_claim_def)

lemma step_work:
  assumes "broker_step b b'" "broker_inv b" "agent b i \<noteq> None"
  shows "work i b' \<le> work i b \<and> agent b' i \<noteq> None"
  using assms
proof (cases rule: broker_step.cases)
  case (claimed j d ok)
  have "pending b j \<noteq> None \<Longrightarrow> claim b j = None"
    using assms(2) [unfolded broker_inv_def, rule_format, of j]
    by (auto simp: view_ok_def prompt_view_def split: option.splits)
  then show ?thesis using claimed assms(3)
    by (auto simp: claim_prompt_def work_def forget_def split: option.splits)
qed (auto simp: work_def open_prompt_def set_agent_def expire_def emit_resolved_def returned_def expired_return_def
    forget_def set_claim_def record_rule_def send_answer_def split: permissionDecision.splits)

text \<open>Whoever has to act on an open prompt can, without the user.\<close>

lemma step_enabled:
  assumes "broker_inv b" "agent b i \<noteq> None" "\<not> ended i b"
  obtains b' where "broker_step b b'" "work i b' < work i b"
proof -
  have view: "view_ok (prompt_view b i)" using assms(1) by (simp add: broker_inv_def)
  obtain pc where pc: "agent b i = Some pc" using assms(2) by blast
  show ?thesis
  proof (cases pc)
    case Added
    with pc show ?thesis by (intro that [OF broker_step.requested]) (simp_all add: work_def [of i b])
  next
    case Waiting
    with pc show ?thesis by (intro that [OF broker_step.fired [of b i ByTimeout]]) (simp_all add: work_def [of i b])
  next
    case (Expiring why)
    have "broker_step b (expire i why b)" using pc Expiring by (intro broker_step.expired) simp
    moreover have "work i (expire i why b) < work i b"
      using pc Expiring by (cases "pending b i") (simp_all add: expire_def work_def [of i b])
    ultimately show ?thesis by (rule that)
  next
    case (Closing why)
    with pc show ?thesis by (intro that [OF broker_step.closed]) (simp_all add: work_def [of i b] expired_return_def)
  next
    case Awaiting
    with view pc obtain st d tool target where c: "claim b i = Some (st, d, tool, target)"
      "claim_ok st d tool target (answer b i) (resolved_of i b) (approved_of i b)"
      by (auto simp: view_ok_def prompt_view_def split: option.splits)
    show ?thesis
    proof (cases st)
      case Claimed
      with c show ?thesis by (intro that [OF broker_step.recorded]) (auto simp: work_def [of i b])
    next
      case Recorded
      with c show ?thesis by (intro that [OF broker_step.announced]) (auto simp: work_def [of i b])
    next
      case Announced
      with c show ?thesis by (intro that [OF broker_step.sent]) (auto simp: work_def [of i b])
    next
      case Sent
      with c(2) have "answer b i = Some d" by simp
      with pc Awaiting show ?thesis
        by (intro that [OF broker_step.received]) (auto simp: work_def [of i b] returned_def split: permissionDecision.splits)
    qed
  next
    case (Returned d reason)
    with pc assms(3) show ?thesis by (simp add: ended_def)
  qed
qed

lemma path_to_end:
  assumes "broker_inv b" "agent b i \<noteq> None"
  obtains n b' where "n \<le> work i b" "(broker_step ^^ n) b b'" "ended i b'"
proof -
  have "\<exists>n b'. n \<le> work i b \<and> (broker_step ^^ n) b b' \<and> ended i b'"
    using assms
  proof (induction "work i b" arbitrary: b rule: less_induct)
    case less
    show ?case
    proof (cases "ended i b")
      case True
      then show ?thesis by (intro exI [of _ 0]) auto
    next
      case False
      from step_enabled [OF less.prems this] obtain c where c: "broker_step b c" "work i c < work i b" .
      from step_work [OF c(1) less.prems] have "agent c i \<noteq> None" by simp
      from less.hyps [OF c(2) broker_inv_step [OF c(1) less.prems(1)] this] obtain n b' where
        "n \<le> work i c" "(broker_step ^^ n) c b'" "ended i b'" by blast
      then have "Suc n \<le> work i b" "(broker_step ^^ Suc n) b b'" "ended i b'"
        using c(2) relpowp_Suc_I2 [of broker_step b c n b', OF c(1)] by simp_all
      then show ?thesis by blast
    qed
  qed
  then show thesis using that by blast
qed



end
