(* ===== verification/Go_Strings.thy ===== *)
theory Go_Strings
  imports Prelude
begin

text \<open>
  More of Go's package \<open>strings\<close>, as the agent's text heuristics use it: substring search and
  counting, replacement, splitting on white space, trimming of a byte set, and case mapping with
  the table of \<open>unicode.ToLower\<close>.
\<close>

section \<open>Searching\<close>

text \<open>\<open>strings.Index\<close>; \<open>None\<close> stands for \<open>-1\<close>.\<close>

fun Index_of :: "string \<Rightarrow> string \<Rightarrow> nat option" where
  "Index_of [] sub = (if sub = [] then Some 0 else None)"
| "Index_of (c # s) sub =
     (if HasPrefix (c # s) sub then Some 0 else map_option Suc (Index_of s sub))"

text \<open>\<open>strings.Count\<close> of a non-empty substring: occurrences that do not overlap.\<close>

function Count_sub :: "string \<Rightarrow> string \<Rightarrow> nat" where
  "Count_sub s sub =
     (if sub = [] then length (runes s) + 1
      else case Index_of s sub of
        None \<Rightarrow> 0
      | Some i \<Rightarrow> Suc (Count_sub (drop (i + length sub) s) sub))"
  by pat_completeness auto

lemma Index_of_bound: "Index_of s sub = Some i \<Longrightarrow> i + length sub \<le> length s"
proof (induction s arbitrary: i)
  case (Cons c s)
  show ?case
  proof (cases "HasPrefix (c # s) sub")
    case True
    then have "length sub \<le> length (c # s)" unfolding HasPrefix_iff_prefix by (rule prefix_length_le)
    then show ?thesis using True Cons.prems by simp
  next
    case False
    then show ?thesis using Cons by auto
  qed
qed (auto split: if_splits)

lemma Index_of_shorter:
  "sub \<noteq> [] \<Longrightarrow> Index_of s sub = Some i \<Longrightarrow> length s - (i + length sub) < length s"
  by (drule Index_of_bound, cases sub) auto

termination Count_sub
  by (relation "measure (\<lambda>(s, sub). length s)") (auto simp: Index_of_shorter)

declare Count_sub.simps [simp del]

lemma Index_of_prefix: "Index_of s sub = Some i \<Longrightarrow> prefix sub (drop i s)"
proof (induction s arbitrary: i)
  case (Cons c s)
  then show ?case by (auto simp: HasPrefix_iff_prefix split: if_splits)
qed (auto split: if_splits)

lemma Index_of_Contains: "Index_of s sub \<noteq> None \<longleftrightarrow> Contains s sub"
  by (induction s) auto

lemma Count_sub_zero: "sub \<noteq> [] \<Longrightarrow> Count_sub s sub = 0 \<longleftrightarrow> \<not> Contains s sub"
  by (subst Count_sub.simps) (auto simp flip: Index_of_Contains split: option.split)

text \<open>\<open>strings.ReplaceAll\<close> of a non-empty substring.\<close>

function ReplaceAll :: "string \<Rightarrow> string \<Rightarrow> string \<Rightarrow> string" where
  "ReplaceAll s old new =
     (if old = [] then s
      else case Index_of s old of
        None \<Rightarrow> s
      | Some i \<Rightarrow> take i s @ new @ ReplaceAll (drop (i + length old) s) old new)"
  by pat_completeness auto
termination
  by (relation "measure (\<lambda>(s, old, new). length s)") (auto simp: Index_of_shorter)

declare ReplaceAll.simps [simp del]

lemma ReplaceAll_absent [simp]: "\<not> Contains s old \<Longrightarrow> ReplaceAll s old new = s"
  by (subst ReplaceAll.simps) (simp flip: Index_of_Contains)

section \<open>White space\<close>

text \<open>\<open>strings.Fields\<close>: the maximal runs of characters that are not white space.\<close>

fun fields_of :: "(nat \<times> string) list \<Rightarrow> string \<Rightarrow> string list" where
  "fields_of [] cur = (if cur = [] then [] else [cur])"
| "fields_of ((r, w) # cs) cur =
     (if is_space r then (if cur = [] then fields_of cs [] else cur # fields_of cs [])
      else fields_of cs (cur @ w))"

definition Fields :: "string \<Rightarrow> string list" where
  "Fields s = fields_of (chunks s) []"

fun JoinStr :: "string list \<Rightarrow> string \<Rightarrow> string" where
  "JoinStr [] sep = []"
| "JoinStr [x] sep = x"
| "JoinStr (x # y # zs) sep = x @ sep @ JoinStr (y # zs) sep"

text \<open>\<open>strings.TrimRight(s, cutset)\<close> for a cutset of ASCII characters, and \<open>strings.TrimLeft\<close>.\<close>

definition TrimRight :: "string \<Rightarrow> char set \<Rightarrow> string" where
  "TrimRight s cs = rev (dropWhile (\<lambda>c. c \<in> cs) (rev s))"

definition TrimLeft :: "string \<Rightarrow> char set \<Rightarrow> string" where
  "TrimLeft s cs = dropWhile (\<lambda>c. c \<in> cs) s"

lemma fields_of_nonempty: "f \<in> set (fields_of cs cur) \<Longrightarrow> list_all (\<lambda>(r, w). w \<noteq> []) cs \<Longrightarrow> f \<noteq> []"
  by (induction cs cur rule: fields_of.induct) (auto split: if_splits)

section \<open>Letter case\<close>

text \<open>
  The simple lower-case mappings of Unicode beyond ASCII, as \<open>unicode.ToLower\<close> has them: an entry
  \<open>(lo, hi, step, to)\<close> maps every \<open>step\<close>-th code point from \<open>lo\<close> to \<open>hi\<close> to those from \<open>to\<close> on.
\<close>

definition lower_table :: "(nat \<times> nat \<times> nat \<times> nat) list" where
  "lower_table =
  [(192,214,1,224), (216,222,1,248), (256,302,2,257), (304,304,1,105), (306,310,2,307),
   (313,327,2,314), (330,374,2,331), (376,376,1,255), (377,381,2,378), (385,385,1,595),
   (386,388,2,387), (390,390,1,596), (391,391,1,392), (393,394,1,598), (395,395,1,396),
   (398,398,1,477), (399,399,1,601), (400,400,1,603), (401,401,1,402), (403,403,1,608),
   (404,404,1,611), (406,406,1,617), (407,407,1,616), (408,408,1,409), (412,412,1,623),
   (413,413,1,626), (415,415,1,629), (416,420,2,417), (422,422,1,640), (423,423,1,424),
   (425,425,1,643), (428,428,1,429), (430,430,1,648), (431,431,1,432), (433,434,1,650),
   (435,437,2,436), (439,439,1,658), (440,440,1,441), (444,444,1,445), (452,452,1,454),
   (453,453,1,454), (455,455,1,457), (456,456,1,457), (458,458,1,460), (459,475,2,460),
   (478,494,2,479), (497,497,1,499), (498,500,2,499), (502,502,1,405), (503,503,1,447),
   (504,542,2,505), (544,544,1,414), (546,562,2,547), (570,570,1,11365), (571,571,1,572),
   (573,573,1,410), (574,574,1,11366), (577,577,1,578), (579,579,1,384), (580,580,1,649),
   (581,581,1,652), (582,590,2,583), (880,882,2,881), (886,886,1,887), (895,895,1,1011),
   (902,902,1,940), (904,906,1,941), (908,908,1,972), (910,911,1,973), (913,929,1,945),
   (931,939,1,963), (975,975,1,983), (984,1006,2,985), (1012,1012,1,952), (1015,1015,1,1016),
   (1017,1017,1,1010), (1018,1018,1,1019), (1021,1023,1,891), (1024,1039,1,1104),
   (1040,1071,1,1072), (1120,1152,2,1121), (1162,1214,2,1163), (1216,1216,1,1231),
   (1217,1229,2,1218), (1232,1326,2,1233), (1329,1366,1,1377), (4256,4293,1,11520),
   (4295,4295,1,11559), (4301,4301,1,11565), (5024,5103,1,43888), (5104,5109,1,5112),
   (7312,7354,1,4304), (7357,7359,1,4349), (7680,7828,2,7681), (7838,7838,1,223),
   (7840,7934,2,7841), (7944,7951,1,7936), (7960,7965,1,7952), (7976,7983,1,7968),
   (7992,7999,1,7984), (8008,8013,1,8000), (8025,8031,2,8017), (8040,8047,1,8032),
   (8072,8079,1,8064), (8088,8095,1,8080), (8104,8111,1,8096), (8120,8121,1,8112),
   (8122,8123,1,8048), (8124,8124,1,8115), (8136,8139,1,8050), (8140,8140,1,8131),
   (8152,8153,1,8144), (8154,8155,1,8054), (8168,8169,1,8160), (8170,8171,1,8058),
   (8172,8172,1,8165), (8184,8185,1,8056), (8186,8187,1,8060), (8188,8188,1,8179),
   (8486,8486,1,969), (8490,8490,1,107), (8491,8491,1,229), (8498,8498,1,8526), (8544,8559,1,8560),
   (8579,8579,1,8580), (9398,9423,1,9424), (11264,11311,1,11312), (11360,11360,1,11361),
   (11362,11362,1,619), (11363,11363,1,7549), (11364,11364,1,637), (11367,11371,2,11368),
   (11373,11373,1,593), (11374,11374,1,625), (11375,11375,1,592), (11376,11376,1,594),
   (11378,11378,1,11379), (11381,11381,1,11382), (11390,11391,1,575), (11392,11490,2,11393),
   (11499,11501,2,11500), (11506,11506,1,11507), (42560,42604,2,42561), (42624,42650,2,42625),
   (42786,42798,2,42787), (42802,42862,2,42803), (42873,42875,2,42874), (42877,42877,1,7545),
   (42878,42886,2,42879), (42891,42891,1,42892), (42893,42893,1,613), (42896,42898,2,42897),
   (42902,42920,2,42903), (42922,42922,1,614), (42923,42923,1,604), (42924,42924,1,609),
   (42925,42925,1,620), (42926,42926,1,618), (42928,42928,1,670), (42929,42929,1,647),
   (42930,42930,1,669), (42931,42931,1,43859), (42932,42946,2,42933), (42948,42948,1,42900),
   (42949,42949,1,642), (42950,42950,1,7566), (42951,42953,2,42952), (42960,42960,1,42961),
   (42966,42968,2,42967), (42997,42997,1,42998), (65313,65338,1,65345), (66560,66599,1,66600),
   (66736,66771,1,66776), (66928,66938,1,66967), (66940,66954,1,66979), (66956,66962,1,66995),
   (66964,66965,1,67003), (68736,68786,1,68800), (71840,71871,1,71872), (93760,93791,1,93792),
   (125184,125217,1,125218)]"

definition unicode_ToLower :: "nat \<Rightarrow> nat" where
  "unicode_ToLower r =
     (if r < 0x80 then (if 0x41 \<le> r \<and> r \<le> 0x5A then r + 0x20 else r)
      else case find (\<lambda>(lo, hi, step, to). lo \<le> r \<and> r \<le> hi \<and> (r - lo) mod step = 0) lower_table of
        None \<Rightarrow> r
      | Some (lo, hi, step, to) \<Rightarrow> to + (r - lo))"

text \<open>\<open>strings.ToLower\<close>: rune by rune; malformed bytes become the replacement character.\<close>

definition ToLower :: "string \<Rightarrow> string" where
  "ToLower s = string_of_runes (map unicode_ToLower (runes s))"

text \<open>
  \<open>strings.EqualFold(s, t)\<close> for an ASCII \<open>t\<close>: beside the two ASCII cases, the Kelvin sign folds to
  \<open>k\<close> and the long s to \<open>s\<close>.
\<close>

definition fold_ascii :: "nat \<Rightarrow> nat" where
  "fold_ascii r = (if 0x41 \<le> r \<and> r \<le> 0x5A then r + 0x20 else if r = 0x212A then 0x6B
     else if r = 0x17F then 0x73 else r)"

definition EqualFold :: "string \<Rightarrow> string \<Rightarrow> bool" where
  "EqualFold s t = (map fold_ascii (runes s) = map fold_ascii (runes t))"

lemma EqualFold_refl [simp]: "EqualFold s s"
  by (simp add: EqualFold_def)

lemma unicode_ToLower_ascii [str_simps]:
  "r < 0x80 \<Longrightarrow> unicode_ToLower r = (if 0x41 \<le> r \<and> r \<le> 0x5A then r + 0x20 else r)"
  by (simp add: unicode_ToLower_def)

lemma encode_rune_ascii: "r < 0x80 \<Longrightarrow> encode_rune r = [char_of r]"
  by (simp add: encode_rune_def encode_valid_def valid_rune_def)

text \<open>On ASCII text the mapping is the one on bytes.\<close>

definition is_ascii :: "string \<Rightarrow> bool" where
  "is_ascii s = list_all (\<lambda>c. (of_char c :: nat) < 0x80) s"

definition lower_char :: "char \<Rightarrow> char" where
  "lower_char c = char_of (unicode_ToLower (of_char c))"

lemma runes_is_ascii: "is_ascii s \<Longrightarrow> runes s = map of_char s"
  by (induction s) (simp_all add: is_ascii_def runes_ascii)

lemma ToLower_ascii: "is_ascii s \<Longrightarrow> ToLower s = map lower_char s"
proof (induction s)
  case (Cons c s)
  then have c: "(of_char c :: nat) < 0x80" "is_ascii s" by (simp_all add: is_ascii_def)
  then have "unicode_ToLower (of_char c) < 0x80" by (simp add: unicode_ToLower_ascii)
  with Cons c show ?case
    by (simp add: ToLower_def runes_ascii string_of_runes_def encode_rune_ascii lower_char_def)
qed (simp add: ToLower_def string_of_runes_def)

lemma lower_char_id:
  "(of_char c :: nat) < 0x80 \<Longrightarrow> \<not> (0x41 \<le> (of_char c :: nat) \<and> (of_char c :: nat) \<le> 0x5A) \<Longrightarrow> lower_char c = c"
  by (auto simp: lower_char_def unicode_ToLower_ascii)

lemma ToLower_Nil [simp]: "ToLower [] = []"
  by (simp add: ToLower_def string_of_runes_def)

end
