(* ===== verification/Agent_Messages.thy ===== *)
theory Agent_Messages
  imports Go_Strings
begin

text \<open>
  The conversation as the model sees it (\<open>internal/llm/types.go\<close>), and the token estimate the agent
  budgets with (\<open>internal/agent/context_policy.go\<close>). The arguments of a tool call, a
  \<open>map[string]any\<close> in the code, are a type parameter.
\<close>

section \<open>Roles and messages\<close>

type_synonym Role = string

definition RoleSystem :: Role where "RoleSystem = ''system''"
definition RoleUser :: Role where "RoleUser = ''user''"
definition RoleAssistant :: Role where "RoleAssistant = ''assistant''"
definition RoleTool :: Role where "RoleTool = ''tool''"

lemma roles_distinct [simp]:
  "RoleSystem \<noteq> RoleUser" "RoleSystem \<noteq> RoleAssistant" "RoleSystem \<noteq> RoleTool"
  "RoleUser \<noteq> RoleSystem" "RoleUser \<noteq> RoleAssistant" "RoleUser \<noteq> RoleTool"
  "RoleAssistant \<noteq> RoleSystem" "RoleAssistant \<noteq> RoleUser" "RoleAssistant \<noteq> RoleTool"
  "RoleTool \<noteq> RoleSystem" "RoleTool \<noteq> RoleUser" "RoleTool \<noteq> RoleAssistant"
  by (simp_all add: RoleSystem_def RoleUser_def RoleAssistant_def RoleTool_def)

record 'a ToolCall =
  call_Name :: string
  call_Arguments :: 'a

record 'a llm_Message =
  msg_Role :: Role
  msg_Content :: string
  msg_Thinking :: string
  msg_ToolCalls :: "'a ToolCall list"
  msg_ToolName :: string
  msg_Images :: "string list"

text \<open>A message literal with the other fields left at their zero values.\<close>

definition text_message :: "Role \<Rightarrow> string \<Rightarrow> 'a llm_Message" where
  "text_message role content = \<lparr>msg_Role = role, msg_Content = content, msg_Thinking = [],
     msg_ToolCalls = [], msg_ToolName = [], msg_Images = []\<rparr>"

definition tool_message :: "string \<Rightarrow> string \<Rightarrow> 'a llm_Message" where
  "tool_message name content = \<lparr>msg_Role = RoleTool, msg_Content = content, msg_Thinking = [],
     msg_ToolCalls = [], msg_ToolName = name, msg_Images = []\<rparr>"

lemma message_roles [simp]:
  "msg_Role (text_message r c) = r" "msg_Role (tool_message n c) = RoleTool"
  "msg_ToolCalls (text_message r c) = []" "msg_ToolName (tool_message n c) = n"
  "msg_Content (text_message r c) = c" "msg_Content (tool_message n c) = c"
  by (simp_all add: text_message_def tool_message_def)

section \<open>Conversations whose tool results belong to a call\<close>

text \<open>
  What a chat API requires of a conversation: a tool result directly follows an assistant message
  with tool calls, or another such result. \<open>open_call\<close> tells whether a result may come next.
\<close>

fun paired :: "bool \<Rightarrow> 'a llm_Message list \<Rightarrow> bool" where
  "paired open_call [] = True"
| "paired open_call (m # ms) =
     (if msg_Role m = RoleTool then open_call \<and> paired open_call ms
      else paired (msg_Role m = RoleAssistant \<and> msg_ToolCalls m \<noteq> []) ms)"

abbreviation well_paired :: "'a llm_Message list \<Rightarrow> bool" where
  "well_paired \<equiv> paired False"

definition is_call :: "'a llm_Message \<Rightarrow> bool" where
  "is_call m = (msg_Role m = RoleAssistant \<and> msg_ToolCalls m \<noteq> [])"

abbreviation is_result :: "'a llm_Message \<Rightarrow> bool" where
  "is_result m \<equiv> msg_Role m = RoleTool"

lemma paired_mono: "paired False ms \<Longrightarrow> paired oc ms"
  by (cases ms) auto

lemma paired_results: "list_all is_result ms \<Longrightarrow> paired True ms"
  by (induction ms) auto

lemma paired_append_closed:
  "paired oc xs \<Longrightarrow> paired False ys \<Longrightarrow> paired oc (xs @ ys)"
  by (induction oc xs rule: paired.induct) (auto intro: paired_mono split: if_splits)

lemma paired_drop_user:
  "paired oc ms \<Longrightarrow> k < length ms \<Longrightarrow> msg_Role (ms ! k) \<noteq> RoleTool \<Longrightarrow> paired False (drop k ms)"
proof (induction ms arbitrary: oc k)
  case (Cons m ms)
  then show ?case by (cases k) (auto split: if_splits)
qed simp

section \<open>Token estimates\<close>

definition message_chars :: "'a llm_Message \<Rightarrow> int" where
  "message_chars m = int (length (msg_Content m)) + int (length (msg_Thinking m)) + 32
     + int (length (msg_ToolCalls m)) * 120"

definition estimatePromptTokens :: "'a llm_Message list \<Rightarrow> int" where
  "estimatePromptTokens history =
     (let totalChars = foldl (\<lambda>total m. total + message_chars m) 0 history in
      if totalChars \<le> 0 then 0
      else let tokens = totalChars div 4 in if tokens < 1 then 1 else tokens)"

lemma message_chars_ge: "32 \<le> message_chars m"
  by (simp add: message_chars_def)

lemma foldl_chars: "foldl (\<lambda>total m. total + message_chars m) a ms = a + sum_list (map message_chars ms)"
  by (induction ms arbitrary: a) simp_all

lemma estimate_single: "estimatePromptTokens [m] = message_chars m div 4"
  using message_chars_ge [of m] by (simp add: estimatePromptTokens_def Let_def)

lemma estimate_single_ge [simp]: "8 \<le> estimatePromptTokens [m]"
  using message_chars_ge [of m] by (simp add: estimate_single)

lemma estimate_nonneg [simp]: "0 \<le> estimatePromptTokens ms"
  by (simp add: estimatePromptTokens_def Let_def)

lemma estimate_sum: "estimatePromptTokens ms = sum_list (map message_chars ms) div 4"
proof (cases ms)
  case (Cons m ms')
  have "0 \<le> sum_list (map message_chars ms')"
    by (rule sum_list_nonneg) (auto simp: message_chars_def)
  with Cons message_chars_ge [of m] show ?thesis
    by (simp add: estimatePromptTokens_def foldl_chars Let_def)
qed (simp add: estimatePromptTokens_def)

end
