(* ===== verification/Prompt_Packer.thy ===== *)
theory Prompt_Packer
  imports Agent_Messages
begin

text \<open>
  Fitting a conversation into the input budget (\<open>internal/agent/prompt_packer.go\<close>). An assistant
  message with tool calls and the tool results after it form a unit that is kept or dropped as a
  whole; the first system message and the newest unit are always kept, and the rest is filled from
  the newest unit to the oldest.
\<close>

section \<open>Units\<close>

text \<open>\<open>packUnit\<close>: a half-open range of the history. The loop starts at index \<open>i\<close>.\<close>

type_synonym packUnit = "nat \<times> nat"

function toolPairUnits_from :: "nat \<Rightarrow> 'a llm_Message list \<Rightarrow> packUnit list" where
  "toolPairUnits_from i history =
     (if length history \<le> i then []
      else
        let stop = (if msg_Role (history ! i) = RoleAssistant \<and> 0 < length (msg_ToolCalls (history ! i))
                    then i + 1 + length (takeWhile is_result (drop (i + 1) history))
                    else i + 1)
        in (i, stop) # toolPairUnits_from stop history)"
  by pat_completeness auto
termination
  by (relation "measure (\<lambda>(i, history). length history - i)") auto

declare toolPairUnits_from.simps [simp del]

definition toolPairUnits :: "'a llm_Message list \<Rightarrow> packUnit list" where
  "toolPairUnits history = toolPairUnits_from 0 history"

section \<open>Packing\<close>

definition mentionBlockCount :: "string \<Rightarrow> int" where
  "mentionBlockCount content =
     (if content = [] then 0
      else int (Count_sub content ''<file '') + int (Count_sub content ''<directory ''))"

record PromptPackReport =
  InputBudgetTokens :: int
  EstimatedIncluded :: int
  EstimatedSkipped :: int
  IncludedMessages :: int
  SkippedMessages :: int
  ForcedIncludeLast :: bool
  DroppedRoles :: "Role \<rightharpoonup> int"
  DroppedBytes :: int
  DroppedMentionBlocks :: int
  IncludedMentionBlocks :: int
  LastUserMessageIncluded :: bool
  SystemMessageIncluded :: bool
  pp_HistoryPolicy :: string
  pp_Intent :: string
  pp_AttachmentPolicy :: string
  pp_MemoryPolicy :: string
  pp_RetryPolicy :: string
  pp_IncludedFileBodies :: int
  pp_DirectoryTreeAttached :: bool

record 'a packResult =
  Messages :: "'a llm_Message list"
  Report :: PromptPackReport

definition empty_report :: "int \<Rightarrow> PromptPackReport" where
  "empty_report budget = \<lparr>InputBudgetTokens = budget, EstimatedIncluded = 0, EstimatedSkipped = 0,
     IncludedMessages = 0, SkippedMessages = 0, ForcedIncludeLast = False, DroppedRoles = Map.empty,
     DroppedBytes = 0, DroppedMentionBlocks = 0, IncludedMentionBlocks = 0,
     LastUserMessageIncluded = False, SystemMessageIncluded = False,
     pp_HistoryPolicy = [], pp_Intent = [], pp_AttachmentPolicy = [], pp_MemoryPolicy = [], pp_RetryPolicy = [],
     pp_IncludedFileBodies = 0, pp_DirectoryTreeAttached = False\<rparr>"

text \<open>The set \<open>included\<close> and the counter \<open>used\<close>, and what the two closures do with them.\<close>

type_synonym pack_state = "nat set \<times> int"

definition unitTokens :: "(nat \<Rightarrow> int) \<Rightarrow> packUnit \<Rightarrow> int" where
  "unitTokens est u = foldl (\<lambda>n i. n + est i) 0 [fst u..<snd u]"

definition includeUnit :: "(nat \<Rightarrow> int) \<Rightarrow> packUnit \<Rightarrow> pack_state \<Rightarrow> pack_state" where
  "includeUnit est u st =
     foldl (\<lambda>(inc, used) i. if i \<in> inc then (inc, used) else (insert i inc, used + est i))
       st [fst u..<snd u]"

definition fill_step :: "(nat \<Rightarrow> int) \<Rightarrow> int \<Rightarrow> pack_state \<Rightarrow> packUnit \<Rightarrow> pack_state" where
  "fill_step est budget st u =
     (if fst u \<in> fst st then st
      else if budget < snd st + unitTokens est u then st
      else includeUnit est u st)"

definition lastUserIdx :: "'a llm_Message list \<Rightarrow> nat option" where
  "lastUserIdx history = find (\<lambda>i. msg_Role (history ! i) = RoleUser) (rev [0..<length history])"

text \<open>One round of the loop that builds the packed history and its report.\<close>

definition collect_step :: "'a llm_Message list \<Rightarrow> (nat \<Rightarrow> int) \<Rightarrow> nat set \<Rightarrow>
    'a llm_Message list \<times> PromptPackReport \<Rightarrow> nat \<Rightarrow> 'a llm_Message list \<times> PromptPackReport" where
  "collect_step history est inc acc i =
     (case acc of (packed, r) \<Rightarrow>
        let m = history ! i in
        if i \<in> inc then
          (packed @ [m],
           r\<lparr>EstimatedIncluded := EstimatedIncluded r + est i,
             IncludedMentionBlocks := IncludedMentionBlocks r + mentionBlockCount (msg_Content m),
             LastUserMessageIncluded := (if Some i = lastUserIdx history then True else LastUserMessageIncluded r),
             SystemMessageIncluded := (if i = 0 \<and> msg_Role m = RoleSystem then True else SystemMessageIncluded r)\<rparr>)
        else
          (packed,
           r\<lparr>EstimatedSkipped := EstimatedSkipped r + est i,
             DroppedBytes := DroppedBytes r + int (length (msg_Content m)),
             DroppedRoles := (DroppedRoles r)(msg_Role m \<mapsto>
               (case DroppedRoles r (msg_Role m) of None \<Rightarrow> 0 | Some n \<Rightarrow> n) + 1),
             DroppedMentionBlocks := DroppedMentionBlocks r + mentionBlockCount (msg_Content m)\<rparr>))"

text \<open>What the loops decide to keep, and whether the newest unit had to be forced in.\<close>

definition pack_included :: "'a llm_Message list \<Rightarrow> int \<Rightarrow> pack_state \<times> bool" where
  "pack_included history budget =
     (let est = (\<lambda>i. estimatePromptTokens [history ! i]);
          units = toolPairUnits history;
          st = (if msg_Role (history ! 0) = RoleSystem then ({0}, 0 + est 0) else ({}, 0));
          st = foldl (fill_step est budget) st (rev units)
      in if length history - 1 \<notin> fst st then (includeUnit est (last units) st, True) else (st, False))"

definition packPromptHistory :: "'a llm_Message list \<Rightarrow> int \<Rightarrow> 'a packResult" where
  "packPromptHistory history inputBudgetTokens0 =
     (if length history = 0 then \<lparr>Messages = [], Report = empty_report inputBudgetTokens0\<rparr>
      else
        let budget = (if inputBudgetTokens0 \<le> 0 then 1 else inputBudgetTokens0);
            est = (\<lambda>i. estimatePromptTokens [history ! i]);
            total = foldl (\<lambda>t i. t + est i) 0 [0..<length history]
        in
        if total \<le> budget then
          \<lparr>Messages = history,
           Report = (empty_report budget)\<lparr>EstimatedIncluded := total,
             IncludedMessages := int (length history),
             IncludedMentionBlocks := foldl (\<lambda>n m. n + mentionBlockCount (msg_Content m)) 0 history,
             LastUserMessageIncluded := True,
             SystemMessageIncluded := (msg_Role (history ! 0) = RoleSystem)\<rparr>\<rparr>
        else
          let (st, forced) = pack_included history budget;
              (packed, r) = foldl (collect_step history est (fst st)) ([], empty_report budget) [0..<length history]
          in \<lparr>Messages = packed,
              Report = r\<lparr>IncludedMessages := int (length packed),
                SkippedMessages := int (length history) - int (length packed),
                ForcedIncludeLast := forced\<rparr>\<rparr>)"

section \<open>Units cover the history\<close>

fun chain :: "nat \<Rightarrow> packUnit list \<Rightarrow> nat \<Rightarrow> bool" where
  "chain i [] n = (i = n)"
| "chain i (u # us) n = (fst u = i \<and> i < snd u \<and> snd u \<le> n \<and> chain (snd u) us n)"

definition unit_messages :: "'a llm_Message list \<Rightarrow> packUnit \<Rightarrow> 'a llm_Message list" where
  "unit_messages history u = map (nth history) [fst u..<snd u]"

lemma chain_le: "chain i us n \<Longrightarrow> i \<le> n"
  by (induction us arbitrary: i) auto

lemma chain_in: "chain i us n \<Longrightarrow> u \<in> set us \<Longrightarrow> i \<le> fst u \<and> fst u < snd u \<and> snd u \<le> n"
  by (induction us arbitrary: i) fastforce+

lemma chain_last: "chain i us n \<Longrightarrow> i < n \<Longrightarrow> us \<noteq> [] \<and> snd (last us) = n"
proof (induction us arbitrary: i)
  case (Cons u us)
  then show ?case
  proof (cases us)
    case (Cons v vs)
    with Cons.prems have "snd u < n" using chain_in [of "snd u" us n v] by auto
    with Cons.IH [of "snd u"] Cons.prems Cons show ?thesis by simp
  qed simp
qed simp

lemma unit_stop_le:
  "i < length h \<Longrightarrow> i + 1 + length (takeWhile P (drop (i + 1) h)) \<le> length h"
  using length_takeWhile_le [of P "drop (i + 1) h"] by simp

lemma chain_units: "i \<le> length h \<Longrightarrow> chain i (toolPairUnits_from i h) (length h)"
proof (induction i h rule: toolPairUnits_from.induct)
  case (1 i h)
  show ?case
  proof (cases "length h \<le> i")
    case False
    with unit_stop_le [of i h is_result] "1.IH" [OF False refl] show ?thesis
      by (subst toolPairUnits_from.simps) (auto simp: Let_def)
  qed (use "1.prems" in \<open>simp add: toolPairUnits_from.simps [of i h]\<close>)
qed

text \<open>In a well-paired history no unit starts with a tool result.\<close>

lemma paired_dropWhile: "paired True ms \<Longrightarrow> paired False (dropWhile is_result ms)"
  by (induction ms) auto

lemma drop_takeWhile: "drop (length (takeWhile P xs)) xs = dropWhile P xs"
  by (induction xs) auto

lemma map_nth_range: "j \<le> length h \<Longrightarrow> map (nth h) [i..<j] = take (j - i) (drop i h)"
  by (rule nth_equalityI) auto

lemma unit_messages_call:
  assumes "i < length h"
  shows "unit_messages h (i, i + 1 + length (takeWhile P (drop (i + 1) h))) = h ! i # takeWhile P (drop (i + 1) h)"
proof -
  let ?k = "length (takeWhile P (drop (i + 1) h))"
  have "unit_messages h (i, i + 1 + ?k) = take (Suc ?k) (drop i h)"
    unfolding unit_messages_def using map_nth_range [OF unit_stop_le [OF assms, of P], of i] by simp
  also have "\<dots> = h ! i # take ?k (drop (i + 1) h)"
    using assms by (simp flip: Cons_nth_drop_Suc)
  finally show ?thesis by (simp flip: takeWhile_eq_take)
qed

lemma unit_messages_single: "unit_messages h (i, i + 1) = [h ! i]"
  by (simp add: unit_messages_def)

lemma units_paired:
  "paired False (drop i h) \<Longrightarrow> u \<in> set (toolPairUnits_from i h) \<Longrightarrow> paired False (unit_messages h u)"
proof (induction i h rule: toolPairUnits_from.induct)
  case (1 i h)
  show ?case
  proof (cases "length h \<le> i")
    case True
    with "1.prems" show ?thesis by (simp add: toolPairUnits_from.simps [of i h])
  next
    case False
    then have d: "drop i h = h ! i # drop (i + 1) h" by (simp add: Cons_nth_drop_Suc)
    with "1.prems"(1) have nr: "msg_Role (h ! i) \<noteq> RoleTool"
      and rest: "paired (is_call (h ! i)) (drop (i + 1) h)"
      by (auto simp: is_call_def split: if_splits)
    let ?k = "i + 1 + length (takeWhile is_result (drop (i + 1) h))"
    show ?thesis
    proof (cases "is_call (h ! i)")
      case True
      with rest have "paired False (drop ?k h)"
        using paired_dropWhile [of "drop (i + 1) h"]
        by (simp add: drop_takeWhile [symmetric] add.commute)
      moreover have "paired False (h ! i # takeWhile is_result (drop (i + 1) h))"
        using True nr by (simp add: is_call_def paired_results list_all_iff) (metis paired_results list_all_iff set_takeWhileD)
      ultimately show ?thesis
        using "1.prems"(2) "1.IH" [OF False refl] False True unit_messages_call [of i h is_result]
        by (subst (asm) toolPairUnits_from.simps) (auto simp: Let_def is_call_def)
    next
      case nc: False
      then show ?thesis
        using "1.prems"(2) "1.IH" [OF False refl] False rest nr
        by (subst (asm) toolPairUnits_from.simps)
          (auto simp: Let_def is_call_def unit_messages_single [simplified])
    qed
  qed
qed

section \<open>What is kept\<close>

text \<open>A set of indices that contains every unit as a whole or not at all.\<close>

definition whole :: "packUnit list \<Rightarrow> nat set \<Rightarrow> bool" where
  "whole us S = list_all (\<lambda>u. {fst u..<snd u} \<subseteq> S \<or> {fst u..<snd u} \<inter> S = {}) us"

lemma chain_disjoint:
  "chain i us n \<Longrightarrow> u \<in> set us \<Longrightarrow> v \<in> set us \<Longrightarrow> u = v \<or> {fst u..<snd u} \<inter> {fst v..<snd v} = {}"
proof (induction us arbitrary: i)
  case (Cons w us)
  have "{fst w..<snd w} \<inter> {fst x..<snd x} = {}" if "x \<in> set us" for x
    using Cons.prems(1) chain_in [of "snd w" us n x] that by auto
  with Cons show ?case by auto
qed simp

lemma whole_add_unit:
  "chain i us n \<Longrightarrow> u \<in> set us \<Longrightarrow> whole us S \<Longrightarrow> whole us (S \<union> {fst u..<snd u})"
  unfolding whole_def list_all_iff using chain_disjoint [of i us n u] by blast

lemma unitTokens_sum: "unitTokens est u = (\<Sum>i\<in>{fst u..<snd u}. est i)"
proof -
  have "foldl (\<lambda>n i. n + est i) a xs = a + sum_list (map est xs)" for a :: int and xs
    by (induction xs arbitrary: a) simp_all
  then show ?thesis by (simp add: unitTokens_def interv_sum_list_conv_sum_set_nat)
qed

lemma includeUnit_fold:
  fixes est :: "nat \<Rightarrow> int"
  shows "finite inc \<Longrightarrow> used = sum est inc \<Longrightarrow>
    foldl (\<lambda>(inc, used) i. if i \<in> inc then (inc, used) else (insert i inc, used + est i)) (inc, used) xs
      = (inc \<union> set xs, sum est (inc \<union> set xs))"
proof (induction xs arbitrary: inc used)
  case (Cons x xs)
  have "used + est x = sum est (insert x inc)" if "x \<notin> inc"
    using Cons.prems that by simp
  with Cons.IH [of inc used] Cons.IH [of "insert x inc" "used + est x"] Cons.prems show ?case
    by (auto simp: insert_absorb add.commute)
qed simp

lemma includeUnit_eq:
  "finite inc \<Longrightarrow> includeUnit est u (inc, sum est inc)
    = (inc \<union> {fst u..<snd u}, sum est (inc \<union> {fst u..<snd u}))"
  by (simp add: includeUnit_def includeUnit_fold)

definition pack_ok :: "packUnit list \<Rightarrow> nat \<Rightarrow> (nat \<Rightarrow> int) \<Rightarrow> nat set \<Rightarrow> int \<Rightarrow> pack_state \<Rightarrow> bool" where
  "pack_ok us n est base limit st = (case st of (inc, used) \<Rightarrow>
     inc \<subseteq> {..<n} \<and> whole us inc \<and> used = sum est inc \<and> base \<subseteq> inc \<and> used \<le> limit)"

lemma pack_ok_fill:
  assumes "chain 0 us n" "pack_ok us n est base limit st" "u \<in> set us" "budget \<le> limit"
  shows "pack_ok us n est base limit (fill_step est budget st u)"
proof -
  obtain inc used where st: "st = (inc, used)" by (cases st)
  with assms(2) have ok: "inc \<subseteq> {..<n}" "whole us inc" "used = sum est inc" "base \<subseteq> inc" "used \<le> limit"
    by (auto simp: pack_ok_def)
  have fin: "finite inc" using ok(1) finite_subset by blast
  show ?thesis
  proof (cases "fst u \<in> inc \<or> budget < used + unitTokens est u")
    case False
    have b: "snd u \<le> n" "fst u < snd u" using chain_in [OF assms(1,3)] by auto
    then have "fst u \<in> {fst u..<snd u}" by simp
    with False ok(2) assms(3) have "{fst u..<snd u} \<inter> inc = {}"
      unfolding whole_def list_all_iff by blast
    then have "sum est (inc \<union> {fst u..<snd u}) = used + unitTokens est u"
      using fin ok(3) by (simp add: sum.union_disjoint unitTokens_sum Int_commute)
    with False st ok b fin whole_add_unit [OF assms(1,3) ok(2)] assms(4) show ?thesis
      by (auto simp: fill_step_def pack_ok_def includeUnit_eq)
  qed (use st assms(2) in \<open>auto simp: fill_step_def\<close>)
qed

lemma pack_ok_fold:
  assumes "chain 0 us n" "budget \<le> limit"
  shows "set vs \<subseteq> set us \<Longrightarrow> pack_ok us n est base limit st \<Longrightarrow>
    pack_ok us n est base limit (foldl (fill_step est budget) st vs)"
  using pack_ok_fill [OF assms(1)] assms(2) by (induction vs arbitrary: st) auto

abbreviation message_tokens :: "'a llm_Message list \<Rightarrow> nat \<Rightarrow> int" where
  "message_tokens h i \<equiv> estimatePromptTokens [h ! i]"

text \<open>The first system message, if there is one, and what it costs.\<close>

definition anchor :: "'a llm_Message list \<Rightarrow> nat set" where
  "anchor h = (if msg_Role (h ! 0) = RoleSystem then {0} else {})"

lemma chain_history: "chain 0 (toolPairUnits h) (length h)"
  unfolding toolPairUnits_def by (rule chain_units) simp

lemma first_unit_system:
  "h \<noteq> [] \<Longrightarrow> msg_Role (h ! 0) = RoleSystem \<Longrightarrow> \<exists>us. toolPairUnits h = (0, 1) # us"
  unfolding toolPairUnits_def by (subst toolPairUnits_from.simps) (simp add: Let_def)

lemma whole_anchor: "h \<noteq> [] \<Longrightarrow> whole (toolPairUnits h) (anchor h)"
proof (cases "msg_Role (h ! 0) = RoleSystem")
  case True
  assume "h \<noteq> []"
  with True first_unit_system obtain us where us: "toolPairUnits h = (0, 1) # us" by blast
  with chain_history [of h] have "chain 1 us (length h)" by simp
  then have "\<forall>u\<in>set us. 0 \<notin> {fst u..<snd u}" using chain_in by fastforce
  with True us show ?thesis by (auto simp: whole_def anchor_def list_all_iff)
qed (simp add: whole_def anchor_def list_all_iff)

theorem pack_included_ok:
  assumes "h \<noteq> []" "pack_included h budget = ((inc, used), forced)"
  shows "inc \<subseteq> {..<length h} \<and> whole (toolPairUnits h) inc \<and> anchor h \<subseteq> inc \<and> length h - 1 \<in> inc
    \<and> used = sum (message_tokens h) inc
    \<and> used \<le> max budget (sum (message_tokens h) (anchor h))
        + (if forced then unitTokens (message_tokens h) (last (toolPairUnits h)) else 0)"
proof -
  let ?us = "toolPairUnits h" and ?n = "length h" and ?est = "message_tokens h"
  let ?limit = "max budget (sum ?est (anchor h))"
  define st0 where "st0 = (if msg_Role (h ! 0) = RoleSystem then ({0::nat}, 0 + ?est 0) else ({}, 0))"
  define st where "st = foldl (fill_step ?est budget) st0 (rev ?us)"
  have "pack_ok ?us ?n ?est (anchor h) ?limit st0"
    using whole_anchor [OF assms(1)] assms(1) by (auto simp: pack_ok_def st0_def anchor_def)
  then have ok: "pack_ok ?us ?n ?est (anchor h) ?limit st"
    unfolding st_def by (rule pack_ok_fold [OF chain_history, rotated -1]) auto
  obtain S u where st: "st = (S, u)" by (cases st)
  with ok have S: "S \<subseteq> {..<?n}" "whole ?us S" "u = sum ?est S" "anchor h \<subseteq> S" "u \<le> ?limit"
    by (auto simp: pack_ok_def)
  have fin: "finite S" using S(1) finite_subset by blast
  have inc: "pack_included h budget =
      (if ?n - 1 \<notin> S then (includeUnit ?est (last ?us) (S, u), True) else ((S, u), False))"
    using st by (simp add: pack_included_def Let_def st_def st0_def)
  show ?thesis
  proof (cases "?n - 1 \<in> S")
    case False
    let ?u = "last ?us"
    have us: "?us \<noteq> []" "snd ?u = ?n" using chain_last [OF chain_history] assms(1) by auto
    then have u: "?u \<in> set ?us" by simp
    then have b: "fst ?u < ?n" using chain_in [OF chain_history u] us(2) by simp
    have e: "inc = S \<union> {fst ?u..<?n}" "used = sum ?est (S \<union> {fst ?u..<?n})" "forced"
      using inc False assms(2) us(2) S(3) fin by (auto simp: includeUnit_eq)
    have "?n - 1 \<in> {fst ?u..<snd ?u}" using us(2) b assms(1) by auto
    with False S(2) u have dis: "{fst ?u..<snd ?u} \<inter> S = {}"
      unfolding whole_def list_all_iff by blast
    then have "used = sum ?est S + unitTokens ?est ?u"
      using e(2) fin us(2) by (simp add: sum.union_disjoint Int_commute unitTokens_sum)
    with e S b whole_add_unit [OF chain_history u S(2)] us(2) assms(1) show ?thesis by auto
  qed (use inc assms(2) S in auto)
qed

text \<open>The packed history is what the chosen units hold, in order.\<close>

lemma filter_units:
  "chain i us n \<Longrightarrow> whole us S \<Longrightarrow>
    filter (\<lambda>k. k \<in> S) [i..<n] = concat (map (\<lambda>u. [fst u..<snd u]) (filter (\<lambda>u. fst u \<in> S) us))"
proof (induction us arbitrary: i)
  case (Cons u us)
  then have b: "fst u = i" "i < snd u" "snd u \<le> n" "chain (snd u) us n" by auto
  then have split: "[i..<n] = [i..<snd u] @ [snd u..<n]" by (metis le_add_diff_inverse less_imp_le upt_add_eq_append)
  have "filter (\<lambda>k. k \<in> S) [i..<snd u] = (if i \<in> S then [i..<snd u] else [])"
  proof (cases "{i..<snd u} \<subseteq> S")
    case True
    then have "i \<in> S" using b(2) by auto
    with True show ?thesis by (auto simp: filter_id_conv)
  next
    case False
    with Cons.prems(2) b(1) have "{i..<snd u} \<inter> S = {}" by (auto simp: whole_def)
    moreover from this have "i \<notin> S" using b(2) by auto
    ultimately show ?thesis by (auto simp: filter_empty_conv)
  qed
  with split b Cons.IH [OF b(4)] Cons.prems(2) show ?case by (simp add: whole_def)
qed simp

lemma collect_messages:
  "fst (foldl (collect_step h est inc) (acc, r) is) = acc @ map (nth h) (filter (\<lambda>i. i \<in> inc) is)"
  by (induction "is" arbitrary: acc r) (simp_all add: collect_step_def Let_def)

lemma collect_included:
  "EstimatedIncluded (snd (foldl (collect_step h est inc) (acc, r) is))
      = EstimatedIncluded r + sum_list (map est (filter (\<lambda>i. i \<in> inc) is))
    \<and> EstimatedSkipped (snd (foldl (collect_step h est inc) (acc, r) is))
      = EstimatedSkipped r + sum_list (map est (filter (\<lambda>i. i \<notin> inc) is))"
  by (induction "is" arbitrary: acc r) (simp_all add: collect_step_def Let_def)

lemma sum_list_split:
  "sum_list (map f (filter P xs)) + sum_list (map f (filter (\<lambda>x. \<not> P x) xs)) = (sum_list (map f xs) :: int)"
  by (induction xs) auto

lemma foldl_est: "foldl (\<lambda>t i. t + (est i :: int)) a xs = a + sum_list (map est xs)"
  by (induction xs arbitrary: a) simp_all

lemma map_index: "map (\<lambda>i. f (h ! i)) [0..<length h] = map f h"
  by (rule nth_equalityI) simp_all

lemma filter_all_units: "filter (\<lambda>u. True) us = us" by simp

text \<open>All units together are the history.\<close>

lemma units_all: "concat (map (unit_messages h) (toolPairUnits h)) = h"
proof -
  have "whole (toolPairUnits h) UNIV" by (simp add: whole_def list_all_iff)
  from filter_units [OF chain_history this]
  have "[0..<length h] = concat (map (\<lambda>u. [fst u..<snd u]) (toolPairUnits h))" by simp
  then have "map (nth h) [0..<length h] = concat (map (unit_messages h) (toolPairUnits h))"
    by (simp add: map_concat unit_messages_def [abs_def] comp_def)
  then show ?thesis by (simp add: map_nth)
qed

lemma paired_concat_units:
  "(\<And>u. u \<in> set us \<Longrightarrow> paired False (f u)) \<Longrightarrow> paired False (concat (map f us))"
  by (induction us) (simp_all add: paired_append_closed)

lemma pack_messages:
  assumes "h \<noteq> []"
  obtains sel where "Messages (packPromptHistory h b) = concat (map (unit_messages h) (filter sel (toolPairUnits h)))"
    and "sel (last (toolPairUnits h))"
    and "msg_Role (h ! 0) = RoleSystem \<Longrightarrow> sel (0, 1)"
proof -
  let ?b = "if b \<le> 0 then 1 else b" and ?est = "message_tokens h"
  show ?thesis
  proof (cases "foldl (\<lambda>t i. t + ?est i) 0 [0..<length h] \<le> ?b")
    case True
    then have "Messages (packPromptHistory h b) = h"
      using assms by (simp add: packPromptHistory_def Let_def)
    then show ?thesis using that [of "\<lambda>_. True"] units_all [of h] by simp
  next
    case False
    obtain inc used forced where p: "pack_included h ?b = ((inc, used), forced)"
      by (metis prod.exhaust)
    note ok = pack_included_ok [OF assms p]
    then have w: "whole (toolPairUnits h) inc" and last: "length h - 1 \<in> inc" and anc: "anchor h \<subseteq> inc" by auto
    have "Messages (packPromptHistory h b) = map (nth h) (filter (\<lambda>i. i \<in> inc) [0..<length h])"
      using False assms p collect_messages [of h ?est inc "[]" "empty_report ?b" "[0..<length h]"]
      by (simp add: packPromptHistory_def Let_def split_beta)
    also have "\<dots> = concat (map (unit_messages h) (filter (\<lambda>u. fst u \<in> inc) (toolPairUnits h)))"
      unfolding filter_units [OF chain_history w] by (simp add: map_concat unit_messages_def [abs_def] comp_def)
    finally have m: "Messages (packPromptHistory h b)
      = concat (map (unit_messages h) (filter (\<lambda>u. fst u \<in> inc) (toolPairUnits h)))" .
    have us: "toolPairUnits h \<noteq> []" "snd (last (toolPairUnits h)) = length h"
      using chain_last [OF chain_history] assms by auto
    then have lu: "last (toolPairUnits h) \<in> set (toolPairUnits h)" by simp
    have "length h - 1 \<in> {fst (last (toolPairUnits h))..<snd (last (toolPairUnits h))}"
      using chain_in [OF chain_history lu] us(2) by auto
    then have "fst (last (toolPairUnits h)) \<in> inc"
      using w lu last chain_in [OF chain_history lu] unfolding whole_def list_all_iff by fastforce
    with m anc show ?thesis by (intro that [of "\<lambda>u. fst u \<in> inc"]) (auto simp: anchor_def)
  qed
qed

lemma packed_paired: "well_paired h \<Longrightarrow> well_paired (Messages (packPromptHistory h b))"
proof (cases "h = []")
  case False
  assume h: "well_paired h"
  obtain sel where s: "Messages (packPromptHistory h b) = concat (map (unit_messages h) (filter sel (toolPairUnits h)))"
    using pack_messages [OF False] by blast
  show ?thesis
    unfolding s by (rule paired_concat_units) (use units_paired [of 0 h] h in \<open>auto simp: toolPairUnits_def\<close>)
qed (simp add: packPromptHistory_def)

text \<open>
  C23. Packing keeps conversations valid: if every tool result of the history belongs to a tool call,
  so does every tool result that is sent; and in any case what is sent is a selection of whole
  units in their order, with the newest unit and a leading system message always in it. So a tool
  call never goes out without its results, nor a result without its call.
\<close>

theorem packed_conversation_valid:
  assumes "h \<noteq> []"
  shows "(well_paired h \<longrightarrow> well_paired (Messages (packPromptHistory h b))) \<and>
    (\<exists>sel. Messages (packPromptHistory h b) = concat (map (unit_messages h) (filter sel (toolPairUnits h)))
      \<and> sel (last (toolPairUnits h)) \<and> (msg_Role (h ! 0) = RoleSystem \<longrightarrow> sel (0, 1)))"
proof -
  obtain sel where "Messages (packPromptHistory h b) = concat (map (unit_messages h) (filter sel (toolPairUnits h)))"
    "sel (last (toolPairUnits h))" "msg_Role (h ! 0) = RoleSystem \<Longrightarrow> sel (0, 1)"
    using pack_messages [OF assms] by blast
  with packed_paired [of h b] show ?thesis by blast
qed

theorem packed_conversation_valid_witness:
  "paired False (Messages (packPromptHistory [text_message RoleUser ''hi'' :: nat llm_Message] 1)) \<and>
    Messages (packPromptHistory [text_message RoleUser ''hi'' :: nat llm_Message] 1) = [text_message RoleUser ''hi'']"
proof -
  let ?h = "[text_message RoleUser ''hi'' :: nat llm_Message]"
  have h: "?h \<noteq> []" "well_paired ?h" by simp_all
  have u: "toolPairUnits ?h = [(0, 1)]"
    by (simp add: toolPairUnits_def toolPairUnits_from.simps)
  from packed_conversation_valid [OF h(1), of 1] h(2) u show ?thesis
    by (auto simp: unit_messages_def)
qed

definition history_tokens :: "'a llm_Message list \<Rightarrow> int" where
  "history_tokens h = sum_list (map (\<lambda>m. estimatePromptTokens [m]) h)"

lemma history_tokens_index: "sum_list (map (message_tokens h) [0..<length h]) = history_tokens h"
  using map_index [of "\<lambda>m. estimatePromptTokens [m]" h] by (simp add: history_tokens_def)

text \<open>
  What is sent fits: the tokens reported as included are those of the messages that are sent,
  included and skipped add up to the history, in tokens and in messages, and unless the newest unit
  had to be forced in the included ones are within the budget, or no more than the leading system
  message if that alone is above it.
\<close>

theorem packed_within_budget:
  assumes "h \<noteq> []"
  shows "let p = packPromptHistory h b; r = Report p in
    EstimatedIncluded r = history_tokens (Messages p)
    \<and> EstimatedIncluded r + EstimatedSkipped r = history_tokens h
    \<and> IncludedMessages r = int (length (Messages p))
    \<and> IncludedMessages r + SkippedMessages r = int (length h)
    \<and> (ForcedIncludeLast r \<or>
       EstimatedIncluded r \<le> max (max 1 b)
         (if msg_Role (h ! 0) = RoleSystem then estimatePromptTokens [h ! 0] else 0))"
proof -
  let ?b = "if b \<le> 0 then 1 else b" and ?est = "message_tokens h"
  have total: "foldl (\<lambda>t i. t + ?est i) 0 [0..<length h] = history_tokens h"
    by (simp add: foldl_est history_tokens_index)
  show ?thesis
  proof (cases "history_tokens h \<le> ?b")
    case True
    then show ?thesis using assms total
      by (auto simp: packPromptHistory_def empty_report_def Let_def max_def split: if_splits)
  next
    case False
    obtain inc used forced where p: "pack_included h ?b = ((inc, used), forced)"
      by (metis prod.exhaust)
    note ok = pack_included_ok [OF assms p]
    obtain packed r where c: "foldl (collect_step h ?est inc) ([], empty_report ?b) [0..<length h] = (packed, r)"
      by (cases "foldl (collect_step h ?est inc) ([], empty_report ?b) [0..<length h]")
    let ?in = "filter (\<lambda>i. i \<in> inc) [0..<length h]"
    have packed: "packed = map (nth h) ?in"
      using collect_messages [of h ?est inc "[]" "empty_report ?b" "[0..<length h]"] c by simp
    have r: "EstimatedIncluded r = sum_list (map ?est ?in)"
      "EstimatedSkipped r = sum_list (map ?est (filter (\<lambda>i. i \<notin> inc) [0..<length h]))"
      using collect_included [of h ?est inc "[]" "empty_report ?b" "[0..<length h]"] c
      by (auto simp: empty_report_def)
    have "set ?in = inc" "distinct ?in" using ok by auto
    then have "sum_list (map ?est ?in) = sum ?est inc"
      using sum_list_distinct_conv_sum_set [of ?in ?est] by simp
    then have bound: "forced \<or> EstimatedIncluded r \<le> max ?b (sum ?est (anchor h))" using ok r by (cases forced) simp_all
    have "Messages (packPromptHistory h b) = packed"
      "Report (packPromptHistory h b) = r\<lparr>IncludedMessages := int (length packed),
         SkippedMessages := int (length h) - int (length packed), ForcedIncludeLast := forced\<rparr>"
      using assms False total p c by (simp_all add: packPromptHistory_def Let_def)
    moreover have "history_tokens packed = sum_list (map ?est ?in)"
      by (simp add: packed history_tokens_def comp_def)
    moreover have "EstimatedIncluded r + EstimatedSkipped r = history_tokens h"
      unfolding r sum_list_split by (rule history_tokens_index)
    ultimately show ?thesis using r bound
      by (auto simp: Let_def anchor_def max_def split: if_splits)
  qed
qed

theorem packed_within_budget_witness:
  "let p = packPromptHistory [text_message RoleUser ''hi'' :: nat llm_Message] 5; r = Report p in
    EstimatedIncluded r = history_tokens (Messages p)
    \<and> EstimatedIncluded r + EstimatedSkipped r = history_tokens [text_message RoleUser ''hi'' :: nat llm_Message]
    \<and> IncludedMessages r = int (length (Messages p))
    \<and> IncludedMessages r + SkippedMessages r = int (length [text_message RoleUser ''hi'' :: nat llm_Message])
    \<and> (ForcedIncludeLast r \<or>
       EstimatedIncluded r \<le> max (max 1 5)
         (if msg_Role ([text_message RoleUser ''hi'' :: nat llm_Message] ! 0) = RoleSystem
          then estimatePromptTokens [[text_message RoleUser ''hi'' :: nat llm_Message] ! 0] else 0))"
  by (rule packed_within_budget) simp

end
