(* ===== verification/Compaction.thy ===== *)
theory Compaction
  imports Agent_Messages
begin

text \<open>
  Compaction of a long conversation (\<open>internal/agent/compact.go\<close>): the older turns are replaced by a
  summary the model writes, or cut away when there is no summary.

  The summary comes from the model, so \<open>chat\<close> is an argument: given the request and the state of the
  world it returns the new world and either an error or the stream of events, each with what
  \<open>ctx.Done\<close> shows when the loop looks at it. The thresholds of \<open>CompactionConfig\<close> that only the
  agent loop reads are modelled there.
\<close>

section \<open>Configuration and result\<close>

record CompactionConfig =
  cc_Threshold :: "int \<Rightarrow> int \<Rightarrow> bool"
  cc_MinTurns :: int
  cc_SummaryModel :: string
  cc_SummaryPrompt :: string
  cc_MaxSummaryLen :: int
  cc_MaxContextTokens :: int
  cc_Disabled :: bool

record 'a CompactionResult =
  Before :: nat
  After :: nat
  Summary :: string
  Layer :: nat
  Skipped :: bool
  ErrorText :: string
  cr_Messages :: "'a llm_Message list option"

section \<open>Turns\<close>

text \<open>\<open>countTurns\<close>: the index of the first message from \<open>j\<close> on that is no tool result.\<close>

definition skip_tools :: "'a llm_Message list \<Rightarrow> nat \<Rightarrow> nat" where
  "skip_tools ms j = j + length (takeWhile is_result (drop j ms))"

function countTurns_from :: "'a llm_Message list \<Rightarrow> nat \<Rightarrow> int" where
  "countTurns_from ms i =
     (if length ms \<le> i then 0
      else if msg_Role (ms ! i) = RoleSystem then countTurns_from ms (i + 1)
      else if msg_Role (ms ! i) = RoleUser
        \<and> skip_tools ms (i + 1) < length ms \<and> msg_Role (ms ! skip_tools ms (i + 1)) = RoleAssistant
      then 1 + countTurns_from ms (skip_tools ms (i + 1) + 1)
      else countTurns_from ms (i + 1))"
  by pat_completeness auto
termination
  by (relation "measure (\<lambda>(ms, i). length ms - i)") (auto simp: skip_tools_def)

declare countTurns_from.simps [simp del]

definition countTurns :: "'a llm_Message list \<Rightarrow> int" where
  "countTurns ms = countTurns_from ms 0"

text \<open>
  The backward search of \<open>findSplitIndex\<close> and \<open>emergencyTruncate\<close>: up to \<open>minTurns\<close> pairs of a user
  and an assistant message, from the end. The Go index \<open>i\<close> is \<open>Suc i\<close> here, so that \<open>0\<close> is \<open>-1\<close>.
\<close>

fun skip_tools_back :: "'a llm_Message list \<Rightarrow> nat \<Rightarrow> nat" where
  "skip_tools_back ms 0 = 0"
| "skip_tools_back ms (Suc j) = (if msg_Role (ms ! j) = RoleTool then skip_tools_back ms j else Suc j)"

lemma skip_tools_back_le: "skip_tools_back ms j \<le> j"
  by (induction j) auto

lemma skip_tools_back_less: "skip_tools_back ms i = Suc j \<Longrightarrow> j < i"
  using skip_tools_back_le [of ms i] by simp

function last_pairs :: "'a llm_Message list \<Rightarrow> int \<Rightarrow> nat \<Rightarrow> (nat \<times> nat) list \<Rightarrow> (nat \<times> nat) list" where
  "last_pairs ms minTurns 0 pairs = pairs"
| "last_pairs ms minTurns (Suc i) pairs =
     (if minTurns \<le> int (length pairs) then pairs
      else if msg_Role (ms ! i) = RoleAssistant then
        (case skip_tools_back ms i of
           Suc j \<Rightarrow> if msg_Role (ms ! j) = RoleUser then last_pairs ms minTurns j ((j, i) # pairs)
                    else last_pairs ms minTurns i pairs
         | 0 \<Rightarrow> last_pairs ms minTurns i pairs)
      else last_pairs ms minTurns i pairs)"
  by pat_completeness auto
termination
  by (relation "measure (\<lambda>(ms, n, i, ps). i)") (auto dest: skip_tools_back_less)

definition findSplitIndex :: "'a llm_Message list \<Rightarrow> int \<Rightarrow> nat" where
  "findSplitIndex ms minTurns =
     (case last_pairs ms minTurns (length ms) [] of [] \<Rightarrow> 0 | p # _ \<Rightarrow> fst p)"

definition emergencyTruncate :: "'a llm_Message list \<Rightarrow> int \<Rightarrow> 'a llm_Message list" where
  "emergencyTruncate messages minTurns =
     (let sysMsgs = takeWhile (\<lambda>m. msg_Role m = RoleSystem) messages;
          rest = drop (length sysMsgs) messages
      in case last_pairs rest minTurns (length rest) [] of
           [] \<Rightarrow> sysMsgs @ rest
         | p # _ \<Rightarrow> sysMsgs @ drop (fst p) rest)"

section \<open>Shrinking messages\<close>

definition collapse_one :: "'a llm_Message \<Rightarrow> 'a llm_Message" where
  "collapse_one m =
     (if msg_Role m = RoleTool \<and> 500 < length (msg_Content m)
      then m\<lparr>msg_Content := ''[Tool result: '' @ (if msg_ToolName m = [] then ''unknown'' else msg_ToolName m)
             @ '', '' @ FormatUint (length (msg_Content m)) @ '' chars, truncated for compaction]''\<rparr>
      else m)"

definition collapseToolResults :: "'a llm_Message list \<Rightarrow> 'a llm_Message list" where
  "collapseToolResults messages = map collapse_one messages"

text \<open>
  \<open>thinkingRe.ReplaceAllString(s, "")\<close> for \<open>(?s)<thinking>.*?</thinking>\<close>: the leftmost opening tag up
  to the next closing tag is removed, and so on; an opening tag without a closing one stays.
\<close>

function strip_thinking :: "string \<Rightarrow> string" where
  "strip_thinking s =
     (case Index_of s ''<thinking>'' of
        None \<Rightarrow> s
      | Some i \<Rightarrow>
          let body = drop (i + length ''<thinking>'') s in
          case Index_of body ''</thinking>'' of
            None \<Rightarrow> s
          | Some j \<Rightarrow> take i s @ strip_thinking (drop (j + length ''</thinking>'') body))"
  by pat_completeness auto
termination
proof (relation "measure length", goal_cases)
  case (2 s i j body)
  with Index_of_bound [of s "''<thinking>''" i] show ?case by simp
qed simp

declare strip_thinking.simps [simp del]

definition stripThinkingBlocks :: "'a llm_Message list \<Rightarrow> 'a llm_Message list" where
  "stripThinkingBlocks messages =
     (let assistantIndices = filter (\<lambda>i. msg_Role (messages ! i) = RoleAssistant) [0..<length messages];
          preserveFrom = (if 2 < length assistantIndices
                          then assistantIndices ! (length assistantIndices - 2) else 0)
      in map (\<lambda>(i, m). if preserveFrom \<le> i then m
             else m\<lparr>msg_Thinking := [],
                    msg_Content := (if Contains (msg_Content m) ''<thinking>''
                                    then strip_thinking (msg_Content m) else msg_Content m)\<rparr>)
           (List.enumerate 0 messages))"

section \<open>The summary\<close>

record 'a StreamEvent =
  ev_Message :: "'a llm_Message"
  ev_Done :: bool
  ev_DoneReason :: string
  ev_PromptEvalCount :: int
  ev_EvalCount :: int
  ev_TotalDuration :: int

record 'a ChatRequest =
  rq_Model :: string
  rq_Messages :: "'a llm_Message list"
  rq_ToolNames :: "string list"
  rq_Stream :: bool
  rq_Think :: bool
  rq_KeepAlive :: string
  rq_num_predict :: int
  rq_num_ctx :: "int option"

text \<open>An error, as far as \<open>errors.Is\<close> tells errors apart here.\<close>

datatype go_error = Canceled | DeadlineExceeded | OtherError string

fun error_text :: "go_error \<Rightarrow> string" where
  "error_text Canceled = ''context canceled''"
| "error_text DeadlineExceeded = ''context deadline exceeded''"
| "error_text (OtherError e) = e"

type_synonym ('a, 'w) chat =
  "'a ChatRequest \<Rightarrow> 'w \<Rightarrow> (go_error + ('a StreamEvent \<times> go_error option) list) \<times> 'w"

definition defaultSummaryPromptPrefix :: string where
  "defaultSummaryPromptPrefix = ''Summarize the following conversation concisely in 3-5 sentences, preserving key decisions, file paths, and current task status:'' @ [CHR 10, CHR 10]"

definition buildSummaryPrompt :: "CompactionConfig \<Rightarrow> 'a llm_Message list \<Rightarrow> string" where
  "buildSummaryPrompt cfg messages =
     (let prefix = (if cc_SummaryPrompt cfg = [] then defaultSummaryPromptPrefix else cc_SummaryPrompt cfg)
      in foldl (\<lambda>b m. b @ ''['' @ msg_Role m @ '']: '' @ msg_Content m @ [CHR 10]) prefix messages)"

fun read_summary :: "('a StreamEvent \<times> go_error option) list \<Rightarrow> string \<Rightarrow> string + string" where
  "read_summary [] buf = Inr buf"
| "read_summary ((evt, ctx_err) # evs) buf =
     (case ctx_err of
        Some e \<Rightarrow> Inl (error_text e)
      | None \<Rightarrow> read_summary evs (buf @ msg_Content (ev_Message evt)))"

definition summarizeMessages :: "('a, 'w) chat \<Rightarrow> CompactionConfig \<Rightarrow> string \<Rightarrow> 'a llm_Message list \<Rightarrow> 'w \<Rightarrow>
    (string + string) \<times> 'w" where
  "summarizeMessages chat cfg model messages w =
     (let req = \<lparr>rq_Model = (if cc_SummaryModel cfg = [] then model else cc_SummaryModel cfg),
                 rq_Messages = [text_message RoleUser (buildSummaryPrompt cfg messages)],
                 rq_ToolNames = [], rq_Stream = False, rq_Think = False, rq_KeepAlive = [],
                 rq_num_predict = (if cc_MaxSummaryLen cfg \<le> 0 then 2000 else cc_MaxSummaryLen cfg),
                 rq_num_ctx = None\<rparr>
      in case chat req w of
           (Inl e, w) \<Rightarrow> (Inl (''LLM summary request failed: '' @ error_text e), w)
         | (Inr stream, w) \<Rightarrow> (read_summary stream [], w))"

section \<open>Compact\<close>

definition skipped_result :: "nat \<Rightarrow> 'a llm_Message list option \<Rightarrow> 'a CompactionResult" where
  "skipped_result n ms = \<lparr>Before = n, After = n, Summary = [], Layer = 0, Skipped = True,
     ErrorText = [], cr_Messages = ms\<rparr>"

definition Compact :: "('a, 'w) chat \<Rightarrow> CompactionConfig \<Rightarrow> string \<Rightarrow> 'a llm_Message list \<Rightarrow> 'w \<Rightarrow>
    'a CompactionResult \<times> 'w" where
  "Compact chat cfg model messages w =
     (let before = length messages in
      if countTurns messages < cc_MinTurns cfg then (skipped_result before None, w)
      else
        let processed = collapseToolResults (stripThinkingBlocks messages);
            splitIdx = findSplitIndex processed (cc_MinTurns cfg);
            toSummarize = take splitIdx processed;
            toKeep = drop splitIdx processed;
            sysMsgs = takeWhile (\<lambda>m. msg_Role m = RoleSystem) toSummarize;
            conversation = drop (length sysMsgs) toSummarize
        in
        if length conversation = 0 then (skipped_result before (Some messages), w)
        else
          let (summary, w) = summarizeMessages chat cfg model conversation w;
              truncated = emergencyTruncate messages (cc_MinTurns cfg);
              cut = (\<lambda>msg. \<lparr>Before = before, After = length truncated, Summary = [], Layer = 4,
                       Skipped = False, ErrorText = msg, cr_Messages = Some truncated\<rparr>)
          in case summary of
               Inl e \<Rightarrow> (cut (''LLM summarization failed ('' @ e @ ''); truncated oldest turns''), w)
             | Inr text \<Rightarrow>
                 if text \<noteq> [] then
                   let compacted = sysMsgs @ [text_message RoleSystem
                         (''[Summary of earlier conversation]'' @ [CHR 10, CHR 10] @ text)] @ toKeep
                   in (\<lparr>Before = before, After = length compacted, Summary = text, Layer = 1,
                        Skipped = False, ErrorText = [], cr_Messages = Some compacted\<rparr>, w)
                 else (cut ''LLM summarization failed; truncated oldest turns'', w))"

section \<open>Both searches find the same turns\<close>

definition turn_at :: "'a llm_Message list \<Rightarrow> nat \<times> nat \<Rightarrow> bool" where
  "turn_at ms p = (case p of (j, k) \<Rightarrow> j < k \<and> k < length ms \<and> msg_Role (ms ! j) = RoleUser
     \<and> msg_Role (ms ! k) = RoleAssistant \<and> (\<forall>i. j < i \<and> i < k \<longrightarrow> msg_Role (ms ! i) = RoleTool))"

definition turns :: "'a llm_Message list \<Rightarrow> nat \<Rightarrow> nat \<Rightarrow> (nat \<times> nat) set" where
  "turns ms lo hi = {p. turn_at ms p \<and> lo \<le> fst p \<and> snd p < hi}"

lemma finite_turns [simp]: "finite (turns ms lo hi)"
  by (rule finite_subset [of _ "{..<hi} \<times> {..<hi}"]) (auto simp: turns_def turn_at_def)

lemma skip_tools_between: "j \<le> i \<Longrightarrow> i < skip_tools ms j \<Longrightarrow> msg_Role (ms ! i) = RoleTool"
proof -
  assume "j \<le> i" "i < skip_tools ms j"
  then have "i - j < length (takeWhile is_result (drop j ms))" by (auto simp: skip_tools_def)
  from nth_mem [OF this] have "is_result (takeWhile is_result (drop j ms) ! (i - j))"
    by (auto dest: set_takeWhileD)
  moreover have "takeWhile is_result (drop j ms) ! (i - j) = drop j ms ! (i - j)"
    using \<open>i - j < _\<close> by (rule takeWhile_nth)
  moreover have "j \<le> length ms" using \<open>i - j < _\<close> by (cases "length ms \<le> j") auto
  ultimately show ?thesis using \<open>j \<le> i\<close> by simp
qed

lemma skip_tools_stop: "skip_tools ms j < length ms \<Longrightarrow> msg_Role (ms ! skip_tools ms j) \<noteq> RoleTool"
  using nth_length_takeWhile [of is_result "drop j ms"] by (auto simp: skip_tools_def)

lemma skip_tools_ge: "j \<le> skip_tools ms j"
  by (simp add: skip_tools_def)

lemma turn_skip: "turn_at ms (i, k) \<Longrightarrow> k = skip_tools ms (i + 1)"
proof (rule ccontr)
  assume t: "turn_at ms (i, k)" and ne: "k \<noteq> skip_tools ms (i + 1)"
  let ?s = "skip_tools ms (i + 1)"
  have tool: "\<forall>x. i < x \<and> x < k \<longrightarrow> msg_Role (ms ! x) = RoleTool"
    and k: "i < k" "k < length ms" "msg_Role (ms ! k) = RoleAssistant" using t by (auto simp: turn_at_def)
  consider "k < ?s" | "?s < k" using ne by linarith
  then show False
  proof cases
    case 1
    then show False using skip_tools_between [of "i + 1" k ms] k by simp
  next
    case 2
    then show False using tool skip_tools_stop [of ms "i + 1"] skip_tools_ge [of "i + 1" ms] k(2) by simp
  qed
qed

lemma countTurns_from_card: "countTurns_from ms i = int (card (turns ms i (length ms)))"
proof (induction ms i rule: countTurns_from.induct)
  case (1 ms i)
  let ?n = "length ms" and ?k = "skip_tools ms (i + 1)"
  have later: "turns ms i ?n = turns ms (i + 1) ?n" if "\<And>k. \<not> turn_at ms (i, k)"
    using that by (fastforce simp: turns_def le_eq_less_or_eq)
  show ?case
  proof (cases "length ms \<le> i")
    case True
    then have "turns ms i ?n = {}" by (auto simp: turns_def turn_at_def)
    with True show ?thesis by (simp add: countTurns_from.simps [of ms i])
  next
    case inside: False
    show ?thesis
    proof (cases "msg_Role (ms ! i) = RoleUser \<and> ?k < ?n \<and> msg_Role (ms ! ?k) = RoleAssistant")
      case True
      then have t: "turn_at ms (i, ?k)" using skip_tools_between [of "i + 1" _ ms] skip_tools_ge [of "i + 1" ms]
        by (auto simp: turn_at_def)
      have "turns ms i ?n = insert (i, ?k) (turns ms (?k + 1) ?n)"
      proof (intro equalityI subsetI)
        fix p assume p: "p \<in> turns ms i ?n"
        obtain j k where pj: "p = (j, k)" by (cases p)
        with p have tj: "turn_at ms (j, k)" "i \<le> j" by (auto simp: turns_def)
        show "p \<in> insert (i, ?k) (turns ms (?k + 1) ?n)"
        proof (cases "j = i")
          case True then show ?thesis using turn_skip tj pj by blast
        next
          case False
          have "\<not> j < ?k" using skip_tools_between [of "i + 1" j ms] tj False by (auto simp: turn_at_def)
          moreover have "j \<noteq> ?k" using True tj by (auto simp: turn_at_def)
          ultimately show ?thesis using tj pj by (auto simp: turns_def turn_at_def)
        qed
      qed (use t skip_tools_ge [of "i + 1" ms] in \<open>auto simp: turns_def turn_at_def\<close>)
      moreover have "(i, ?k) \<notin> turns ms (?k + 1) ?n" using skip_tools_ge [of "i + 1" ms] by (auto simp: turns_def)
      ultimately show ?thesis using True inside "1.IH"(2)
        by (simp add: countTurns_from.simps [of ms i])
    next
      case False
      then have "\<not> turn_at ms (i, k)" for k using turn_skip [of ms i k] by (auto simp: turn_at_def)
      with later inside False "1.IH"(1,3) show ?thesis
        by (cases "msg_Role (ms ! i) = RoleSystem") (auto simp: countTurns_from.simps [of ms i])
    qed
  qed
qed

lemma skip_tools_back_between: "skip_tools_back ms i \<le> x \<Longrightarrow> x < i \<Longrightarrow> msg_Role (ms ! x) = RoleTool"
  by (induction i) (auto simp: less_Suc_eq split: if_splits)

lemma skip_tools_back_stop: "skip_tools_back ms i = Suc j \<Longrightarrow> msg_Role (ms ! j) \<noteq> RoleTool"
  by (induction i) (auto split: if_splits)

lemma turn_back:
  assumes "turn_at ms (j, i)"
  shows "skip_tools_back ms i = Suc j"
proof -
  have j: "j < i" "msg_Role (ms ! j) = RoleUser" "\<And>x. j < x \<Longrightarrow> x < i \<Longrightarrow> msg_Role (ms ! x) = RoleTool"
    using assms by (auto simp: turn_at_def)
  have "\<not> skip_tools_back ms i \<le> j" using skip_tools_back_between [of ms i j] j(1,2) by auto
  then obtain j' where j': "skip_tools_back ms i = Suc j'" "j \<le> j'" by (cases "skip_tools_back ms i") auto
  moreover have "j' < i" using skip_tools_back_less [OF j'(1)] .
  ultimately show ?thesis using skip_tools_back_stop [OF j'(1)] j(3) [of j'] by (cases "j = j'") auto
qed

text \<open>The search has collected every turn that ends at \<open>i\<close> or later.\<close>

definition collected :: "'a llm_Message list \<Rightarrow> nat \<Rightarrow> (nat \<times> nat) list \<Rightarrow> bool" where
  "collected ms i ps = (set ps = {p. turn_at ms p \<and> i \<le> snd p} \<and> distinct ps
     \<and> list_all (\<lambda>p. i \<le> fst p) ps \<and> (case ps of [] \<Rightarrow> True | q # _ \<Rightarrow> list_all (\<lambda>p. fst q \<le> fst p) ps))"

lemma collected_skip: "collected ms (Suc i) ps \<Longrightarrow> (\<And>j. \<not> turn_at ms (j, i)) \<Longrightarrow> collected ms i ps"
  unfolding collected_def by (fastforce simp: list_all_iff le_eq_less_or_eq split: list.splits)

lemma collected_take:
  assumes "collected ms (Suc i) ps" "turn_at ms (j, i)"
  shows "collected ms j ((j, i) # ps)"
proof -
  have ps: "set ps = {p. turn_at ms p \<and> Suc i \<le> snd p}" "distinct ps" "\<forall>p\<in>set ps. Suc i \<le> fst p"
    using assms(1) by (auto simp: collected_def list_all_iff)
  have ji: "j < i" "\<And>x. j < x \<Longrightarrow> x < i \<Longrightarrow> msg_Role (ms ! x) = RoleTool" "msg_Role (ms ! j) = RoleUser"
    using assms(2) by (auto simp: turn_at_def)
  have "p = (j, i) \<or> Suc i \<le> snd p" if p: "turn_at ms p" "j \<le> snd p" for p
  proof (cases p)
    case (Pair a b)
    with p have ab: "turn_at ms (a, b)" "j \<le> b" by auto
    then have "msg_Role (ms ! b) = RoleAssistant" by (auto simp: turn_at_def)
    with ji ab(2) have "b = i \<or> Suc i \<le> b" by (cases "b = j"; cases "b < i") auto
    moreover have "a = j" if "b = i" using turn_back [OF ab(1)] turn_back [OF assms(2)] that by simp
    ultimately show ?thesis using Pair by auto
  qed
  then have "insert (j, i) (set ps) = {p. turn_at ms p \<and> j \<le> snd p}" using ps(1) ji(1) assms(2) by auto
  moreover have "list_all (\<lambda>p. j \<le> fst p) ((j, i) # ps)" "distinct ((j, i) # ps)"
    using ps(2,3) ji(1) by (auto simp: list_all_iff)
  ultimately show ?thesis by (simp add: collected_def)
qed

lemma last_pairs_collected:
  "collected ms i ps \<Longrightarrow> i \<le> length ms \<Longrightarrow> int (length ps) \<le> max 0 n \<Longrightarrow>
    \<exists>i'. collected ms i' (last_pairs ms n i ps) \<and> int (length (last_pairs ms n i ps)) \<le> max 0 n
      \<and> (i' = 0 \<or> n \<le> int (length (last_pairs ms n i ps)))"
proof (induction ms n i ps rule: last_pairs.induct)
  case (2 ms n i ps)
  show ?case
  proof (cases "n \<le> int (length ps)")
    case False
    show ?thesis
    proof (cases "\<exists>j. turn_at ms (j, i)")
      case True
      then obtain j where t: "turn_at ms (j, i)" ..
      then have e: "msg_Role (ms ! i) = RoleAssistant" "msg_Role (ms ! j) = RoleUser" "skip_tools_back ms i = Suc j"
        "j < i" using turn_back [OF t] by (auto simp: turn_at_def)
      with "2.IH"(2) [OF False e(1,3,2) collected_take [OF "2.prems"(1) t]] False "2.prems"
      show ?thesis by simp
    next
      case no: False
      have c: "collected ms i ps" by (rule collected_skip [OF "2.prems"(1)]) (use no in blast)
      have step: "last_pairs ms n (Suc i) ps = last_pairs ms n i ps"
      proof (cases "msg_Role (ms ! i) = RoleAssistant")
        case True
        have "msg_Role (ms ! j) \<noteq> RoleUser" if "skip_tools_back ms i = Suc j" for j
          using no that True skip_tools_back_less [OF that] skip_tools_back_between [of ms i] "2.prems"(2)
          by (auto simp: turn_at_def)
        with True False show ?thesis by (auto split: nat.split)
      qed (use False in simp)
      have "\<exists>i'. collected ms i' (last_pairs ms n i ps) \<and> int (length (last_pairs ms n i ps)) \<le> max 0 n
          \<and> (i' = 0 \<or> n \<le> int (length (last_pairs ms n i ps)))"
      proof (cases "msg_Role (ms ! i) = RoleAssistant")
        case True
        show ?thesis
        proof (cases "skip_tools_back ms i")
          case 0
          with "2.IH"(1) [OF False True 0 c] "2.prems" show ?thesis by simp
        next
          case (Suc j)
          have "msg_Role (ms ! j) \<noteq> RoleUser"
            using no Suc True skip_tools_back_less [OF Suc] skip_tools_back_between [of ms i] "2.prems"(2)
            by (auto simp: turn_at_def)
          with "2.IH"(3) [OF False True Suc this c] "2.prems" show ?thesis by simp
        qed
      qed (use "2.IH"(4) [OF False _ c] "2.prems" in simp)
      then show ?thesis unfolding step .
    qed
  qed (use "2.prems" in auto)
qed auto

lemma collected_start: "collected ms (length ms) []"
  by (auto simp: collected_def turn_at_def)

lemma turns_from_head:
  assumes "collected ms i (q # ps)"
  shows "turns ms (fst q) (length ms) = set (q # ps)"
proof -
  have c: "set (q # ps) = {p. turn_at ms p \<and> i \<le> snd p}" "i \<le> fst q"
    using assms by (auto simp: collected_def)
  have "list_all (\<lambda>p. fst q \<le> fst p) (q # ps)" using assms by (simp add: collected_def)
  then have low: "\<forall>p\<in>set (q # ps). fst q \<le> fst p" unfolding list_all_iff .
  have "i \<le> snd p" if "turn_at ms p" "fst q \<le> fst p" for p
    using that c(2) by (auto simp: turn_at_def split: prod.splits)
  moreover have "snd p < length ms" if "turn_at ms p" for p using that by (auto simp: turn_at_def)
  ultimately show ?thesis using c low unfolding turns_def by blast
qed

text \<open>So the split point is where the last \<open>minTurns\<close> turns begin.\<close>

lemma last_pairs_exact:
  assumes "0 < n" "n \<le> countTurns ms"
  obtains j k ps where "last_pairs ms n (length ms) [] = (j, k) # ps" "turn_at ms (j, k)"
    "countTurns_from ms j = n"
proof -
  let ?R = "last_pairs ms n (length ms) []"
  obtain i where i: "collected ms i ?R" "int (length ?R) \<le> max 0 n" "i = 0 \<or> n \<le> int (length ?R)"
    using last_pairs_collected [OF collected_start, of ms n] by auto
  have "n \<le> int (length ?R)"
  proof (cases "i = 0")
    case True
    then have "set ?R = turns ms 0 (length ms)" "distinct ?R"
      using i(1) by (auto simp: collected_def turns_def turn_at_def)
    then have "length ?R = card (turns ms 0 (length ms))" by (metis distinct_card)
    with assms(2) show ?thesis by (simp add: countTurns_def countTurns_from_card)
  qed (use i in simp)
  with i(2) assms(1) have len: "int (length ?R) = n" by simp
  with assms(1) obtain q ps where R: "?R = q # ps" by (cases ?R) auto
  then have "turns ms (fst q) (length ms) = set ?R" using turns_from_head i(1) by metis
  then have "countTurns_from ms (fst q) = n"
    using len i(1) distinct_card [of ?R] by (simp add: countTurns_from_card collected_def)
  moreover have "turn_at ms q" using i(1) R by (auto simp: collected_def)
  ultimately show ?thesis using R that by (cases q) auto
qed

section \<open>What compaction keeps\<close>

abbreviation is_system :: "'a llm_Message \<Rightarrow> bool" where
  "is_system m \<equiv> msg_Role m = RoleSystem"

text \<open>Shrinking messages changes neither roles nor tool calls.\<close>

definition shape :: "'a llm_Message \<Rightarrow> Role \<times> 'a ToolCall list" where
  "shape m = (msg_Role m, msg_ToolCalls m)"

definition shrunk :: "'a llm_Message list \<Rightarrow> 'a llm_Message list" where
  "shrunk ms = collapseToolResults (stripThinkingBlocks ms)"

lemma shrunk_shape [simp]: "map shape (shrunk ms) = map shape ms"
proof -
  have e: "map shape (map (\<lambda>(i, m). if p \<le> i then m else m\<lparr>msg_Thinking := [], msg_Content := f m\<rparr>)
      (List.enumerate k ms)) = map shape ms" for p f k
    by (induction ms arbitrary: k) (simp_all add: shape_def)
  have c: "map shape (map collapse_one xs) = map shape xs" for xs
    by (induction xs) (simp_all add: shape_def collapse_one_def)
  show ?thesis unfolding shrunk_def collapseToolResults_def stripThinkingBlocks_def Let_def c by (rule e)
qed

lemma shrunk_length [simp]: "length (shrunk ms) = length ms"
  using shrunk_shape [of ms] by (metis length_map)

lemma paired_shape: "map shape xs = map shape ys \<Longrightarrow> paired b xs = paired b ys"
proof (induction xs arbitrary: ys b)
  case (Cons x xs)
  then show ?case by (cases ys) (auto simp: shape_def)
qed simp

lemma turn_at_shape:
  assumes "map shape xs = map shape ys"
  shows "turn_at xs p = turn_at ys p"
proof -
  have len: "length xs = length ys" using assms by (metis length_map)
  have "msg_Role (xs ! i) = msg_Role (ys ! i)" if "i < length xs" for i
    using assms that len by (metis fst_conv nth_map shape_def)
  with len show ?thesis by (auto simp: turn_at_def split: prod.splits)
qed

lemma countTurns_shape: "map shape xs = map shape ys \<Longrightarrow> countTurns_from xs i = countTurns_from ys i"
  using turn_at_shape [of xs ys] map_eq_imp_length_eq [of shape xs shape ys]
  by (simp add: countTurns_from_card turns_def)

lemma countTurns_drop: "countTurns_from (drop s ms) i = countTurns_from ms (s + i)"
proof (induction "drop s ms" i rule: countTurns_from.induct)
  case (1 i)
  have sk: "s + skip_tools (drop s ms) j = skip_tools ms (s + j)" for j
    by (simp add: skip_tools_def add.commute)
  show ?case
  proof (cases "length ms \<le> s + i")
    case True
    then have "length (drop s ms) \<le> i" by simp
    with True show ?thesis
      by (simp add: countTurns_from.simps [of "drop s ms" i] countTurns_from.simps [of ms "s + i"])
  next
    case False
    then have b: "\<not> length (drop s ms) \<le> i" by simp
    let ?k = "skip_tools (drop s ms) (i + 1)"
    have k: "s + ?k = skip_tools ms (s + i + 1)" using sk [of "i + 1"] by (simp add: add.assoc)
    have here: "drop s ms ! i = ms ! (s + i)" using False by simp
    have kin: "?k < length (drop s ms) \<longleftrightarrow> skip_tools ms (s + i + 1) < length ms"
      unfolding k [symmetric] by auto
    have there: "?k < length (drop s ms) \<Longrightarrow> drop s ms ! ?k = ms ! skip_tools ms (s + i + 1)"
      unfolding k [symmetric] by simp
    have e: "countTurns_from (drop s ms) (i + 1) = countTurns_from ms (s + i + 1)"
      if "msg_Role (drop s ms ! i) = RoleSystem \<or>
        \<not> (msg_Role (drop s ms ! i) = RoleUser \<and> ?k < length (drop s ms) \<and> msg_Role (drop s ms ! ?k) = RoleAssistant)"
      using that "1.hyps"(1) [OF b] "1.hyps"(3) [OF b] by (simp only: add.assoc) blast
    have e2: "countTurns_from (drop s ms) (?k + 1) = countTurns_from ms (skip_tools ms (s + i + 1) + 1)"
      if "msg_Role (drop s ms ! i) \<noteq> RoleSystem"
        "msg_Role (drop s ms ! i) = RoleUser \<and> ?k < length (drop s ms) \<and> msg_Role (drop s ms ! ?k) = RoleAssistant"
      using "1.hyps"(2) [OF b that] k by (simp only: add.assoc [symmetric])
    show ?thesis
      unfolding countTurns_from.simps [of "drop s ms" i] countTurns_from.simps [of ms "s + i"]
      using False b e e2 kin there unfolding here by (simp split del: if_split cong: if_cong) auto
  qed
qed

lemma paired_systems: "list_all is_system sys \<Longrightarrow> paired False ys \<Longrightarrow> paired False (sys @ ys)"
  by (induction sys) auto

lemma system_takeWhile: "list_all is_system (takeWhile is_system ms)"
  by (auto simp: list_all_iff dest: set_takeWhileD)

lemma takeWhile_take_shorter: "length (takeWhile P (take n xs)) < min n (length xs) \<Longrightarrow> takeWhile P (take n xs) = takeWhile P xs"
  by (induction xs arbitrary: n) (auto simp: take_Cons' split: if_splits)

text \<open>The part from the start of the last turns on.\<close>

lemma recent_part:
  assumes "0 < n" "n \<le> countTurns ms"
  obtains s where "findSplitIndex ms n = s" "s < length ms" "msg_Role (ms ! s) = RoleUser"
    "countTurns (drop s ms) = n"
proof -
  from last_pairs_exact [OF assms] obtain j k ps where
    "last_pairs ms n (length ms) [] = (j, k) # ps" "turn_at ms (j, k)" "countTurns_from ms j = n" .
  then show ?thesis using that [of j] countTurns_drop [of j ms 0]
    by (auto simp: findSplitIndex_def turn_at_def countTurns_def)
qed

lemma countTurns_no_systems:
  "countTurns (drop (length (takeWhile is_system ms)) ms) = countTurns ms"
proof -
  have "countTurns_from ms i = countTurns_from ms (length (takeWhile is_system ms))"
    if "i \<le> length (takeWhile is_system ms)" for i
    using that
  proof (induction "length (takeWhile is_system ms) - i" arbitrary: i)
    case (Suc d)
    then have i: "i < length (takeWhile is_system ms)" by simp
    then have "is_system (ms ! i)" "i < length ms"
      using takeWhile_nth [OF i] nth_mem [OF i] set_takeWhileD length_takeWhile_le [of is_system ms]
      by (metis, linarith)
    then have "countTurns_from ms i = countTurns_from ms (i + 1)" by (simp add: countTurns_from.simps [of ms i])
    with Suc.hyps(1) [of "i + 1"] Suc.hyps(2) i show ?case by simp
  qed simp
  from this [of 0] show ?thesis
    using countTurns_drop [of "length (takeWhile is_system ms)" ms 0] by (simp add: countTurns_def)
qed

text \<open>The turns that survive, taken from the shrunk history when there is a summary.\<close>

definition source_of :: "'a CompactionResult \<Rightarrow> 'a llm_Message list \<Rightarrow> 'a llm_Message list" where
  "source_of r ms = (if Layer r = 1 then shrunk ms else ms)"

definition summary_of :: "'a CompactionResult \<Rightarrow> 'a llm_Message list" where
  "summary_of r = (if Layer r = 1
     then [text_message RoleSystem (''[Summary of earlier conversation]'' @ [CHR 10, CHR 10] @ Summary r)] else [])"

theorem emergency_keeps:
  assumes "0 < n" "n \<le> countTurns ms"
  obtains s where "emergencyTruncate ms n = takeWhile is_system ms @ drop s ms"
    "length (takeWhile is_system ms) \<le> s" "s < length ms"
    "msg_Role (ms ! s) = RoleUser" "countTurns (drop s ms) = n"
proof -
  let ?sys = "takeWhile is_system ms" and ?rest = "drop (length (takeWhile is_system ms)) ms"
  from assms countTurns_no_systems [of ms] have "n \<le> countTurns ?rest" by simp
  from last_pairs_exact [OF assms(1) this] obtain j k ps where
    j: "last_pairs ?rest n (length ?rest) [] = (j, k) # ps" "turn_at ?rest (j, k)" "countTurns_from ?rest j = n" .
  then have "emergencyTruncate ms n = ?sys @ drop (length ?sys + j) ms"
    by (simp add: emergencyTruncate_def Let_def add.commute)
  moreover have "length ?sys + j < length ms" "msg_Role (ms ! (length ?sys + j)) = RoleUser"
    using j(2) length_takeWhile_le [of is_system ms] by (auto simp: turn_at_def)
  moreover have "countTurns (drop (length ?sys + j) ms) = n"
    using j(3) countTurns_drop [of "length ?sys" ms j] countTurns_drop [of "length ?sys + j" ms 0]
    by (simp add: countTurns_def)
  ultimately show ?thesis using that [of "length ?sys + j"] by simp
qed

lemma Compact_cases:
  assumes "Compact chat cfg model ms w = (r, w')" "\<not> Skipped r"
  obtains (summary) sys s body where "0 < cc_MinTurns cfg" "cc_MinTurns cfg \<le> countTurns ms"
      "s = findSplitIndex (shrunk ms) (cc_MinTurns cfg)" "sys = takeWhile is_system (take s (shrunk ms))"
      "length sys < s" "Layer r = 1" "Summary r = body" "Before r = length ms"
      "cr_Messages r = Some (sys @ summary_of r @ drop s (shrunk ms))"
      "After r = length sys + 1 + (length ms - s)"
  | (cut) "0 < cc_MinTurns cfg" "cc_MinTurns cfg \<le> countTurns ms" "Layer r = 4" "Before r = length ms"
      "cr_Messages r = Some (emergencyTruncate ms (cc_MinTurns cfg))"
      "After r = length (emergencyTruncate ms (cc_MinTurns cfg))"
proof -
  let ?n = "cc_MinTurns cfg" and ?s = "findSplitIndex (shrunk ms) (cc_MinTurns cfg)"
  let ?sys = "takeWhile is_system (take ?s (shrunk ms))"
  have long: "?n \<le> countTurns ms"
    using assms by (auto simp: Compact_def skipped_result_def Let_def split: if_splits)
  have conv: "length ?sys < length (take ?s (shrunk ms))"
    using assms long by (auto simp: Compact_def skipped_result_def Let_def shrunk_def split: if_splits)
  then have "0 < ?s" by (cases ?s) auto
  from conv have nz: "length (drop (length ?sys) (take ?s (shrunk ms))) \<noteq> 0"
    unfolding length_drop by linarith
  have pos: "0 < ?n"
  proof (rule ccontr)
    assume "\<not> 0 < ?n"
    then have "last_pairs xs ?n m [] = []" for xs :: "'a llm_Message list" and m by (cases m) simp_all
    with \<open>0 < ?s\<close> show False by (simp add: findSplitIndex_def)
  qed
  obtain res w1 where sm: "summarizeMessages chat cfg model (drop (length ?sys) (take ?s (shrunk ms))) w = (res, w1)"
    by (metis prod.exhaust)
  from conv have s: "length ?sys < ?s" by simp
  show ?thesis
  proof (cases "\<exists>body. res = Inr body \<and> body \<noteq> []")
    case True
    then obtain body where t: "res = Inr body" "body \<noteq> []" by auto
    have "r = \<lparr>Before = length ms, After = length ?sys + 1 + (length ms - ?s), Summary = body, Layer = 1,
        Skipped = False, ErrorText = [], cr_Messages = Some (?sys @ [text_message RoleSystem
          (''[Summary of earlier conversation]'' @ [CHR 10, CHR 10] @ body)] @ drop ?s (shrunk ms))\<rparr>"
      using assms(1) long t unfolding Compact_def Let_def shrunk_def [symmetric] sm if_not_P [OF nz] by simp
    with pos long s show ?thesis by (intro summary [of ?s ?sys body]) (simp_all add: summary_of_def)
  next
    case False
    then have "Layer r = 4 \<and> Before r = length ms \<and> cr_Messages r = Some (emergencyTruncate ms ?n)
        \<and> After r = length (emergencyTruncate ms ?n)"
      using assms(1) long unfolding Compact_def Let_def shrunk_def [symmetric] sm if_not_P [OF nz]
      by (cases res) auto
    with pos long show ?thesis by (intro cut) simp_all
  qed
qed

lemma Compact_result:
  assumes "Compact chat cfg model ms w = (r, w')" "\<not> Skipped r"
  shows "\<exists>s. cr_Messages r =
      Some (takeWhile is_system (source_of r ms) @ summary_of r @ drop s (source_of r ms))
    \<and> countTurns (drop s (source_of r ms)) = cc_MinTurns cfg \<and> 0 < cc_MinTurns cfg
    \<and> After r = length (the (cr_Messages r)) \<and> After r \<le> Before r
    \<and> (well_paired ms \<longrightarrow> well_paired (the (cr_Messages r)))"
  using assms
proof (cases rule: Compact_cases)
  case (summary sys s body)
  have n: "cc_MinTurns cfg \<le> countTurns (shrunk ms)"
    using summary(2) countTurns_shape [of "shrunk ms" ms 0] by (simp add: countTurns_def)
  obtain s' where "findSplitIndex (shrunk ms) (cc_MinTurns cfg) = s'" "s' < length (shrunk ms)"
    "msg_Role (shrunk ms ! s') = RoleUser" "countTurns (drop s' (shrunk ms)) = cc_MinTurns cfg"
    by (rule recent_part [OF summary(1) n])
  with summary(3) have s: "s < length ms" "msg_Role (shrunk ms ! s) = RoleUser"
    "countTurns (drop s (shrunk ms)) = cc_MinTurns cfg" by auto
  have sys: "sys = takeWhile is_system (shrunk ms)"
    unfolding summary(4) by (rule takeWhile_take_shorter) (use summary(4,5) s in simp)
  have "well_paired (sys @ summary_of r @ drop s (shrunk ms))" if "well_paired ms"
  proof -
    from that have "well_paired (shrunk ms)" using paired_shape [of "shrunk ms" ms] by simp
    then have "well_paired (drop s (shrunk ms))" using paired_drop_user [of False "shrunk ms" s] s by simp
    then show ?thesis unfolding sys using system_takeWhile [of "shrunk ms"] summary(6)
      by (intro paired_systems) (simp_all add: summary_of_def)
  qed
  with summary s show ?thesis
    by (intro exI [of _ s]) (simp add: source_of_def summary_of_def sys)
next
  case cut
  obtain s where s: "emergencyTruncate ms (cc_MinTurns cfg) = takeWhile is_system ms @ drop s ms"
    "length (takeWhile is_system ms) \<le> s" "s < length ms" "msg_Role (ms ! s) = RoleUser"
    "countTurns (drop s ms) = cc_MinTurns cfg"
    by (rule emergency_keeps [OF cut(1,2)])
  have "well_paired (takeWhile is_system ms @ drop s ms)" if "well_paired ms"
    using paired_drop_user [OF that, of s] s system_takeWhile [of ms] by (intro paired_systems) simp_all
  with cut s show ?thesis
    by (intro exI [of _ s]) (simp add: source_of_def summary_of_def)
qed


definition demo_chat :: "(unit, unit) chat" where
  "demo_chat req w = (Inr [(\<lparr>ev_Message = text_message RoleAssistant ''so far'', ev_Done = True,
     ev_DoneReason = ''stop'', ev_PromptEvalCount = 0, ev_EvalCount = 0, ev_TotalDuration = 0\<rparr>, None)], w)"

definition demo_compaction :: CompactionConfig where
  "demo_compaction = \<lparr>cc_Threshold = (\<lambda>_ _. False), cc_MinTurns = 1, cc_SummaryModel = [],
     cc_SummaryPrompt = [], cc_MaxSummaryLen = 0, cc_MaxContextTokens = 0, cc_Disabled = False\<rparr>"

definition demo_history :: "unit llm_Message list" where
  "demo_history = [text_message RoleUser ''a'', text_message RoleAssistant ''b'',
     text_message RoleUser ''c'', text_message RoleAssistant ''d'']"

lemma demo_compact:
  "\<not> Skipped (fst (Compact demo_chat demo_compaction ''m'' demo_history ()))"
  "Layer (fst (Compact demo_chat demo_compaction ''m'' demo_history ())) = 1"
  by code_simp+


end
