(* ===== verification/Context_Window.thy ===== *)
theory Context_Window
  imports Compaction
begin

text \<open>
  How large a context window a run asks for and how it is divided
  (\<open>internal/agent/context_policy.go\<close>, \<open>internal/agent/input.go\<close>), with the table of model capabilities
  (\<open>internal/llm/capabilities.go\<close>). Token counts and sizes are unbounded integers: they are estimates
  and configuration values far below the range of Go's \<open>int\<close>.
\<close>

section \<open>Model capabilities\<close>

record Capabilities =
  SupportsTools :: bool
  SupportsThinking :: bool
  SupportsImages :: bool
  RecommendedNumCtx :: int

definition normalizeModelName :: "string \<Rightarrow> string" where
  "normalizeModelName name0 =
     (let name = ToLower name0;
          name = ReplaceAll name '':7b'' [];
          name = ReplaceAll name '':13b'' [];
          name = ReplaceAll name '':70b'' [];
          name = ReplaceAll name '':latest'' []
      in case Index_of name '':'' of None \<Rightarrow> name | Some idx \<Rightarrow> take idx name)"

definition model_table :: "(string \<times> Capabilities) list" where
  "model_table =
    [(''qwen3.6'', \<lparr>SupportsTools = True, SupportsThinking = True, SupportsImages = True, RecommendedNumCtx = 65536\<rparr>),
     (''qwen3'', \<lparr>SupportsTools = True, SupportsThinking = False, SupportsImages = False, RecommendedNumCtx = 32768\<rparr>),
     (''qwen3-thinking'', \<lparr>SupportsTools = True, SupportsThinking = True, SupportsImages = False, RecommendedNumCtx = 32768\<rparr>),
     (''llama3.1'', \<lparr>SupportsTools = True, SupportsThinking = False, SupportsImages = False, RecommendedNumCtx = 8192\<rparr>),
     (''llama3.2'', \<lparr>SupportsTools = True, SupportsThinking = False, SupportsImages = False, RecommendedNumCtx = 8192\<rparr>),
     (''mistral'', \<lparr>SupportsTools = True, SupportsThinking = False, SupportsImages = False, RecommendedNumCtx = 8192\<rparr>),
     (''gpt-oss'', \<lparr>SupportsTools = True, SupportsThinking = True, SupportsImages = True, RecommendedNumCtx = 32768\<rparr>),
     (''gemma3'', \<lparr>SupportsTools = False, SupportsThinking = False, SupportsImages = False, RecommendedNumCtx = 8192\<rparr>)]"

definition ModelCapabilities :: "string \<Rightarrow> Capabilities" where
  "ModelCapabilities modelName =
     (case map_of model_table (normalizeModelName modelName) of
        Some c \<Rightarrow> c
      | None \<Rightarrow> \<lparr>SupportsTools = False, SupportsThinking = False, SupportsImages = False,
                 RecommendedNumCtx = 4096\<rparr>)"

section \<open>Configuration\<close>

text \<open>\<open>Config\<close> without its observers and watchdogs, and the fields of \<open>Input\<close> the budget reads.\<close>

record Config =
  MaxTurns :: int
  MaxOutputTokens :: int
  LengthRetryTokens :: int
  ChatKeepAlive :: string
  NumCtx :: int
  MaxConcurrentTools :: int
  Compaction :: CompactionConfig
  ContextMode :: string
  ContextMinNumCtx :: int
  ContextMaxNumCtx :: int
  ContextReserve :: int

record BudgetInput =
  in_Model :: string
  in_SystemPrompt :: string
  in_ContextMode :: string
  in_ToolMode :: string
  in_MaxOutputTokens :: int

definition default_MaxOutputTokens :: int where "default_MaxOutputTokens = 8192"
definition default_ContextReserve :: int where "default_ContextReserve = 4096"

definition DefaultConfig :: "CompactionConfig \<Rightarrow> Config" where
  "DefaultConfig compaction = \<lparr>MaxTurns = 200, MaxOutputTokens = default_MaxOutputTokens,
     LengthRetryTokens = 65536, ChatKeepAlive = [], NumCtx = 32768, MaxConcurrentTools = 10,
     Compaction = compaction, ContextMode = ''auto'', ContextMinNumCtx = 8192, ContextMaxNumCtx = 0,
     ContextReserve = default_ContextReserve\<rparr>"

section \<open>The window\<close>

definition modelContextLimit :: "Config \<Rightarrow> string \<Rightarrow> int" where
  "modelContextLimit cfg model =
     (if 0 < ContextMaxNumCtx cfg then ContextMaxNumCtx cfg
      else
        let cap = ModelCapabilities model in
        if 0 < NumCtx cfg \<and> 0 < RecommendedNumCtx cap then
          (if RecommendedNumCtx cap < NumCtx cfg then NumCtx cfg else RecommendedNumCtx cap)
        else if 0 < NumCtx cfg then NumCtx cfg
        else if 0 < RecommendedNumCtx cap then RecommendedNumCtx cap
        else 32768)"

definition clampNumCtx :: "int \<Rightarrow> Config \<Rightarrow> int \<Rightarrow> int" where
  "clampNumCtx v cfg modelLimit =
     (let v = (if v \<le> 0 then modelLimit else v);
          minCtx = (if ContextMinNumCtx cfg \<le> 0 then 8192 else ContextMinNumCtx cfg);
          v = (if v < minCtx then minCtx else v);
          v = (if 0 < modelLimit \<and> modelLimit < v then modelLimit else v)
      in if v \<le> 0 then minCtx else v)"

definition nextContextTier :: "int \<Rightarrow> int" where
  "nextContextTier needed =
     (case find (\<lambda>t. needed \<le> t) [8192, 16384, 32768, 65536, 131072] of Some t \<Rightarrow> t | None \<Rightarrow> needed)"

definition context_mode :: "Config \<Rightarrow> ('z) BudgetInput_scheme \<Rightarrow> string" where
  "context_mode cfg i =
     (let mode = ToLower (TrimSpace (in_ContextMode i));
          mode = (if mode = [] then ToLower (TrimSpace (ContextMode cfg)) else mode)
      in if mode = [] then ''auto'' else mode)"

definition effectiveNumCtx :: "Config \<Rightarrow> ('z) BudgetInput_scheme \<Rightarrow> string \<Rightarrow> 'a llm_Message list \<Rightarrow> int \<Rightarrow> int" where
  "effectiveNumCtx cfg i model history outputTokenBudget =
     (let mode = context_mode cfg i; modelLimit = modelContextLimit cfg model in
      if mode = ''small'' then clampNumCtx 8192 cfg modelLimit
      else if mode = ''large'' then clampNumCtx 32768 cfg modelLimit
      else if mode = ''max'' then clampNumCtx modelLimit cfg modelLimit
      else
        let estimated = estimatePromptTokens history;
            needed = estimated + outputTokenBudget + ContextReserve cfg
        in clampNumCtx (nextContextTier needed) cfg modelLimit)"

section \<open>The assembly budget\<close>

record AssemblyBudget =
  EffectiveNumCtx :: int
  OutputReserveTokens :: int
  ContextReserveTokens :: int
  EstimatedSystemTokens :: int
  EstimatedToolSchemaTokens :: int
  EstimatedHistoryTokens :: int
  AvailableEvidenceTokens :: int

record AssemblyEstimate =
  SystemTokens :: int
  ToolSchemaTokens :: int

definition DefaultModel :: string where "DefaultModel = ''qwen3.6:35b''"

definition BuildAssemblyBudget :: "Config \<Rightarrow> ('z) BudgetInput_scheme \<Rightarrow> 'a llm_Message list \<Rightarrow>
    AssemblyEstimate \<Rightarrow> AssemblyBudget" where
  "BuildAssemblyBudget cfg i history est =
     (let out = (if 0 < in_MaxOutputTokens i then in_MaxOutputTokens i else MaxOutputTokens cfg);
          out = (if out \<le> 0 then default_MaxOutputTokens else out);
          model = TrimSpace (in_Model i);
          model = (if model = [] then DefaultModel else model);
          effective = effectiveNumCtx cfg i model history out;
          sys = (if SystemTokens est \<le> 0 then 256 else SystemTokens est);
          sys = (if TrimSpace (in_SystemPrompt i) \<noteq> [] then
                   (let s = estimatePromptTokens [text_message RoleSystem (in_SystemPrompt i) :: 'a llm_Message]
                    in if s < 256 then 256 else s)
                 else sys);
          schema = (if ToolSchemaTokens est \<le> 0
                    then (if EqualFold (TrimSpace (in_ToolMode i)) ''none'' then 0 else 1024)
                    else ToolSchemaTokens est);
          hist = estimatePromptTokens history;
          reserve = (if ContextReserve cfg \<le> 0 then default_ContextReserve else ContextReserve cfg);
          available = effective - out - reserve - sys - schema - hist
      in \<lparr>EffectiveNumCtx = effective, OutputReserveTokens = out, ContextReserveTokens = reserve,
          EstimatedSystemTokens = sys, EstimatedToolSchemaTokens = schema,
          EstimatedHistoryTokens = hist,
          AvailableEvidenceTokens = (if available < 0 then 0 else available)\<rparr>)"

section \<open>Bounds\<close>

definition min_ctx :: "Config \<Rightarrow> int" where
  "min_ctx cfg = (if ContextMinNumCtx cfg \<le> 0 then 8192 else ContextMinNumCtx cfg)"

lemma min_ctx_pos [simp]: "0 < min_ctx cfg"
  by (simp add: min_ctx_def)

lemma RecommendedNumCtx_pos [simp]: "0 < RecommendedNumCtx (ModelCapabilities m)"
proof -
  have "\<forall>(n, c)\<in>set model_table. 0 < RecommendedNumCtx c" by (simp add: model_table_def)
  then show ?thesis by (auto simp: ModelCapabilities_def split: option.split dest!: map_of_SomeD)
qed

lemma modelContextLimit_pos [simp]: "0 < modelContextLimit cfg m"
  using RecommendedNumCtx_pos [of m] by (simp add: modelContextLimit_def Let_def del: RecommendedNumCtx_pos)

lemma clampNumCtx_eq:
  "0 < limit \<Longrightarrow> clampNumCtx v cfg limit = min limit (max (min_ctx cfg) (if v \<le> 0 then limit else v))"
  by (auto simp: clampNumCtx_def Let_def min_ctx_def)

lemma nextContextTier_ge: "needed \<le> nextContextTier needed"
  by (simp add: nextContextTier_def)

lemma window_bounds:
  "let limit = modelContextLimit cfg model; n = effectiveNumCtx cfg i model history out in
    0 < n \<and> n \<le> limit \<and> min limit (min_ctx cfg) \<le> n
    \<and> (n = limit \<or> context_mode cfg i \<in> {''small'', ''large''}
       \<or> estimatePromptTokens history + out + ContextReserve cfg \<le> n)"
proof -
  let ?needed = "estimatePromptTokens history + out + ContextReserve cfg"
  have pos: "0 < min limit (max (min_ctx cfg) v)" if "0 < limit" for limit v :: int
    using that min_ctx_pos [of cfg] by linarith
  show ?thesis
    using nextContextTier_ge [of ?needed] pos [OF modelContextLimit_pos [of cfg model]]
    by (auto simp: effectiveNumCtx_def Let_def clampNumCtx_eq)
qed

text \<open>
  The window a run asks for is positive, never above the limit of the model, and not below the
  configured minimum unless the limit is; and in the automatic mode it holds the estimated prompt,
  the output budget and the reserve whenever the limit allows it.
\<close>

theorem window_within_limits:
  "let limit = modelContextLimit cfg model; n = effectiveNumCtx cfg i model history out in
    0 < n \<and> n \<le> limit \<and> min limit (min_ctx cfg) \<le> n
    \<and> (n = limit \<or> context_mode cfg i \<in> {''small'', ''large''}
       \<or> estimatePromptTokens history + out + ContextReserve cfg \<le> n)"
  by (rule window_bounds)

text \<open>
  The budget adds up: the parts and the tokens left for evidence fill the window exactly, unless
  the parts alone are larger, in which case nothing is left; and nothing in it is negative.
\<close>

theorem budget_adds_up:
  "let b = BuildAssemblyBudget cfg i (history :: 'a llm_Message list) est;
       parts = OutputReserveTokens b + ContextReserveTokens b + EstimatedSystemTokens b
         + EstimatedToolSchemaTokens b + EstimatedHistoryTokens b in
    AvailableEvidenceTokens b = max 0 (EffectiveNumCtx b - parts)
    \<and> 0 < EffectiveNumCtx b \<and> 0 < OutputReserveTokens b \<and> 0 < ContextReserveTokens b
    \<and> 0 < EstimatedSystemTokens b
    \<and> 0 \<le> EstimatedToolSchemaTokens b \<and> 0 \<le> EstimatedHistoryTokens b"
  using window_bounds [of cfg]
  by (auto simp: BuildAssemblyBudget_def Let_def default_MaxOutputTokens_def default_ContextReserve_def)

text \<open>A size tag in the middle of a model name is cut out, and what follows it sticks to the name.\<close>

lemma quantized_model_unknown:
  "normalizeModelName ''qwen3:7b'' = ''qwen3''"
  "normalizeModelName ''qwen3:7b-q4'' = ''qwen3-q4''"
  "RecommendedNumCtx (ModelCapabilities ''qwen3:7b'') = 32768"
  "RecommendedNumCtx (ModelCapabilities ''qwen3:7b-q4'') = 4096"
proof -
  have asc: "is_ascii ''qwen3:7b''" "is_ascii ''qwen3:7b-q4''" by (simp_all add: is_ascii_def)
  have low: "ToLower ''qwen3:7b'' = ''qwen3:7b''" "ToLower ''qwen3:7b-q4'' = ''qwen3:7b-q4''"
    by (simp_all add: ToLower_ascii asc lower_char_id)
  show "normalizeModelName ''qwen3:7b'' = ''qwen3''" and "normalizeModelName ''qwen3:7b-q4'' = ''qwen3-q4''"
    by (simp_all add: normalizeModelName_def low ReplaceAll.simps)
  then show "RecommendedNumCtx (ModelCapabilities ''qwen3:7b'') = 32768"
    "RecommendedNumCtx (ModelCapabilities ''qwen3:7b-q4'') = 4096"
    by (simp_all add: ModelCapabilities_def model_table_def)
qed

end
