(* ===== verification/Call_Partition.thy ===== *)
theory Call_Partition
  imports Prelude
begin

text \<open>
  Grouping a model's tool calls into batches (\<open>internal/agent/partition.go\<close>): neighbouring calls
  that are safe to run concurrently share a batch, every other call is a batch of its own.
\<close>

section \<open>Calls and batches\<close>

record 'i tool =
  IsConcurrencySafe :: "'i \<Rightarrow> bool"
  IsDestructive :: "'i \<Rightarrow> bool"

record ('c, 'i, 'z) indexedCall =
  Index :: nat
  ToolID :: string
  Call :: 'c
  Tool :: "('i, 'z) tool_scheme"
  Input :: 'i

record ('c, 'i, 'z) Batch =
  Calls :: "('c, 'i, 'z) indexedCall list"
  Safe :: bool

definition isSafe :: "('i, 'z) tool_scheme \<Rightarrow> 'i \<Rightarrow> bool" where
  "isSafe tool input = (IsConcurrencySafe tool input \<and> \<not> IsDestructive tool input)"

section \<open>Partition\<close>

text \<open>The loop, with the batches built so far and the accumulator.\<close>

fun Partition_loop :: "('c, 'i, 'z) indexedCall list \<Rightarrow> ('c, 'i, 'z) Batch list \<Rightarrow> ('c, 'i, 'z) indexedCall list \<Rightarrow>
    ('c, 'i, 'z) Batch list" where
  "Partition_loop [] batches accumulator =
     (if 0 < length accumulator then batches @ [\<lparr>Calls = accumulator, Safe = True\<rparr>] else batches)"
| "Partition_loop (ic # indexed) batches accumulator =
     (if isSafe (Tool ic) (Input ic) then Partition_loop indexed batches (accumulator @ [ic])
      else
        let batches = (if 0 < length accumulator
                       then batches @ [\<lparr>Calls = accumulator, Safe = True\<rparr>] else batches)
        in Partition_loop indexed (batches @ [\<lparr>Calls = [ic], Safe = False\<rparr>]) [])"

definition Partition :: "('c, 'i, 'z) indexedCall list \<Rightarrow> ('c, 'i, 'z) Batch list" where
  "Partition indexed = (if length indexed = 0 then [] else Partition_loop indexed [] [])"

section \<open>The batches are determined by their properties\<close>

abbreviation safe_call :: "('c, 'i, 'z) indexedCall \<Rightarrow> bool" where
  "safe_call ic \<equiv> isSafe (Tool ic) (Input ic)"

definition flush :: "('c, 'i, 'z) indexedCall list \<Rightarrow> ('c, 'i, 'z) Batch list" where
  "flush acc = (if acc = [] then [] else [\<lparr>Calls = acc, Safe = True\<rparr>])"

definition good_batch :: "('c, 'i, 'z) Batch \<Rightarrow> bool" where
  "good_batch b = (if Safe b then Calls b \<noteq> [] \<and> list_all safe_call (Calls b)
     else (case Calls b of [ic] \<Rightarrow> \<not> safe_call ic | _ \<Rightarrow> False))"

fun no_two_safe :: "('c, 'i, 'z) Batch list \<Rightarrow> bool" where
  "no_two_safe (b # c # bs) = (\<not> (Safe b \<and> Safe c) \<and> no_two_safe (c # bs))"
| "no_two_safe _ = True"

lemma Partition_loop_prefix: "Partition_loop xs bs acc = bs @ Partition_loop xs [] acc"
proof (induction xs arbitrary: bs acc)
  case (Cons x xs)
  have "Partition_loop xs ((bs @ flush acc) @ [b]) [] = bs @ Partition_loop xs (flush acc @ [b]) []" for b
    using Cons.IH [of "(bs @ flush acc) @ [b]" "[]"] Cons.IH [of "flush acc @ [b]" "[]"] by simp
  then show ?case using Cons.IH [of bs "acc @ [x]"] by (auto simp: flush_def Let_def)
qed simp

lemma Partition_loop_flush:
  "xs = [] \<or> \<not> safe_call (hd xs) \<Longrightarrow> Partition_loop xs [] acc = flush acc @ Partition_loop xs [] []"
proof (cases xs)
  case (Cons x ys)
  assume "xs = [] \<or> \<not> safe_call (hd xs)"
  with Cons show ?thesis
    by (auto simp: flush_def Let_def Partition_loop_prefix [of ys "[_]"] Partition_loop_prefix [of ys "[_, _]"])
qed (auto simp: flush_def)

lemma Partition_loop_unsafe:
  "\<not> safe_call x \<Longrightarrow>
    Partition_loop (x # xs) [] [] = \<lparr>Calls = [x], Safe = False\<rparr> # Partition_loop xs [] []"
  by (simp add: Let_def Partition_loop_prefix [of xs "[_]"])

lemma Partition_loop_safe:
  "list_all safe_call ys \<Longrightarrow> Partition_loop (ys @ xs) [] acc = Partition_loop xs [] (acc @ ys)"
  by (induction ys arbitrary: acc) auto

lemma Partition_loop_calls: "concat (map Calls (Partition_loop xs [] acc)) = acc @ xs"
proof (induction xs arbitrary: acc)
  case (Cons x xs)
  show ?case
  proof (cases "safe_call x")
    case False
    then show ?thesis
      by (subst Partition_loop_flush) (use Cons.IH [of "[]"] in
        \<open>auto simp: flush_def Partition_loop_unsafe simp del: Partition_loop.simps\<close>)
  qed (simp add: Cons.IH)
qed simp

lemma good_batch_simps [simp]:
  "good_batch \<lparr>Calls = ics, Safe = True\<rparr> \<longleftrightarrow> ics \<noteq> [] \<and> list_all safe_call ics"
  "good_batch \<lparr>Calls = [ic], Safe = False\<rparr> \<longleftrightarrow> \<not> safe_call ic"
  by (simp_all add: good_batch_def)

lemma Partition_loop_good:
  "list_all safe_call acc \<Longrightarrow> list_all good_batch (Partition_loop xs [] acc)"
proof (induction xs arbitrary: acc)
  case (Cons x xs)
  show ?case
  proof (cases "safe_call x")
    case False
    then show ?thesis
      by (subst Partition_loop_flush) (use Cons.IH [of "[]"] Cons.prems in
        \<open>auto simp: flush_def Partition_loop_unsafe simp del: Partition_loop.simps\<close>)
  qed (simp add: Cons)
qed (auto simp: good_batch_def)

lemma Partition_loop_alternates: "no_two_safe (Partition_loop xs [] acc)"
proof (induction xs arbitrary: acc)
  case (Cons x xs)
  have front: "no_two_safe bs \<Longrightarrow> \<not> Safe b \<Longrightarrow> no_two_safe (b # bs)" for b :: "('a, 'b, 'c) Batch" and bs
    by (cases bs) auto
  show ?case
  proof (cases "safe_call x")
    case False
    then show ?thesis
      by (subst Partition_loop_flush) (use Cons.IH [of "[]"] front in
        \<open>auto simp: flush_def Partition_loop_unsafe simp del: Partition_loop.simps\<close>)
  qed (simp add: Cons)
qed simp

lemma Partition_eq_loop: "Partition xs = Partition_loop xs [] []"
  by (simp add: Partition_def)

lemma good_batches_rebuild:
  "list_all good_batch bs \<Longrightarrow> no_two_safe bs \<Longrightarrow> Partition_loop (concat (map Calls bs)) [] [] = bs"
proof (induction bs)
  case (Cons b bs)
  have tail: "no_two_safe bs" using Cons.prems(2) by (cases bs) auto
  note ih = Cons.IH [OF _ tail]
  show ?case
  proof (cases "Safe b")
    case False
    with Cons.prems obtain ic where b: "Calls b = [ic]" "\<not> safe_call ic"
      by (auto simp: good_batch_def split: list.splits)
    with False have "b = \<lparr>Calls = [ic], Safe = False\<rparr>" by simp
    with b ih Cons.prems show ?thesis
      by (simp add: Partition_loop_unsafe del: Partition_loop.simps)
  next
    case True
    with Cons.prems have safe: "Calls b \<noteq> []" "list_all safe_call (Calls b)" by (auto simp: good_batch_def)
    have "concat (map Calls bs) = [] \<or> \<not> safe_call (hd (concat (map Calls bs)))"
    proof (cases bs)
      case (Cons c cs)
      with True Cons.prems have "\<not> Safe c" "good_batch c" by auto
      with Cons show ?thesis by (auto simp: good_batch_def split: list.splits)
    qed simp
    from Partition_loop_flush [OF this, of "Calls b"] Partition_loop_safe [OF safe(2), of "concat (map Calls bs)" "[]"]
      ih Cons.prems safe(1) True show ?thesis by (simp add: flush_def)
  qed
qed simp

text \<open>
  \<open>Partition\<close> is correct and complete: a list of batches is the one it returns if and only if
  the batches hold exactly the given calls in their order, every concurrent batch is a non-empty
  run of safe calls, every other batch is one unsafe call, and no two concurrent batches are
  neighbours, so that safe runs are as long as possible.
\<close>

theorem Partition_characterized:
  "Partition indexed = batches \<longleftrightarrow>
    concat (map Calls batches) = indexed \<and> list_all good_batch batches \<and> no_two_safe batches"
  using Partition_loop_calls [of indexed "[]"] Partition_loop_good [of "[]" indexed]
    Partition_loop_alternates [of indexed "[]"] good_batches_rebuild [of batches]
  by (auto simp: Partition_eq_loop)

end
