(* ===== verification/Agent_Events.thy ===== *)
theory Agent_Events
  imports Prompt_Packer Context_Window Permission_Resolver Call_Partition
begin

text \<open>
  What an agent run shows to the outside: its events (\<open>internal/agent/events.go\<close>,
  \<open>internal/agent/usage.go\<close>), and beside them the calls of tools and hooks and
  the requests to the model. A run's trace is the list
  of these in the order they happen. Durations and latencies are left out, and so are the warnings
  that depend on a timer alone. \<open>sendEvent\<close> may drop an event when the run is cancelled and nobody
  reads; the trace has the event where it is sent.
\<close>

record Usage =
  u_PromptEvalCount :: int
  u_EvalCount :: int
  u_TotalDuration :: int
  u_Turns :: int
  u_ToolCalls :: int
  u_DoneReason :: string

datatype TerminalReason = TerminalCompleted | TerminalAborted | TerminalMaxTurns
  | TerminalContextOverflow | TerminalStopHook | TerminalUnrecoverable

text \<open>A tool's result: \<open>Data\<close> is any value, or nil.\<close>

record 'd tool_Result =
  Display :: string
  Data :: "'d option"

text \<open>The input of a \<open>ToolUseStart\<close> is the raw arguments when they could not be parsed.\<close>

datatype ('a, 'i, 'd, 'p) Event =
    AssistantTurnStarted int
  | TurnUsage Usage
  | AssistantTextDelta string
  | AssistantThinkingDelta string
  | ToolUseStart string string "'a + 'i"
  | ToolUseProgress string 'p
  | ToolUseResult string "'d tool_Result option" "string option"
  | RetryNotice int string string string int int
  | HookNotice string
  | LLMRequestStarted
  | LLMStreamOpened
  | FirstTokenReceived
  | CompactionStarted int int
  | CompactionCompleted "'a CompactionResult"
  | PackReport PromptPackReport
  | StageTiming string
  | Terminal TerminalReason string Usage "'a llm_Message list"

text \<open>What a hook is told about a call.\<close>

record ('i, 'd) ToolHookEvent =
  he_ToolName :: string
  he_Input :: 'i
  he_Target :: string
  he_Result :: "'d tool_Result option"
  he_Err :: "string option"
  he_PermissionMode :: mode

datatype ('a, 'i, 'd, 'p) action =
    Send "('a, 'i, 'd, 'p) Event"
  | Ran string "'i"
  | PostToolUse "('i, 'd) ToolHookEvent"
  | PermissionDenied "('i, 'd) ToolHookEvent"
  | BatchDone nat bool
  | Asked "'a ChatRequest"

definition sent :: "('a, 'i, 'd, 'p) action list \<Rightarrow> ('a, 'i, 'd, 'p) Event list" where
  "sent acts = List.map_filter (\<lambda>a. case a of Send e \<Rightarrow> Some e | _ \<Rightarrow> None) acts"

lemma sent_simps [simp]:
  "sent [] = []"
  "sent (Send e # acts) = e # sent acts"
  "sent (Ran i x # acts) = sent acts"
  "sent (PostToolUse h # acts) = sent acts"
  "sent (PermissionDenied h # acts) = sent acts"
  "sent (BatchDone n b # acts) = sent acts"
  "sent (Asked q # acts) = sent acts"
  by (simp_all add: sent_def List.map_filter_def)

lemma sent_append [simp]: "sent (xs @ ys) = sent xs @ sent ys"
  by (simp add: sent_def List.map_filter_def)

text \<open>The part of a trace that is about one tool call.\<close>

fun about :: "string \<Rightarrow> ('a, 'i, 'd, 'p) action \<Rightarrow> bool" where
  "about i (Send (ToolUseStart j n x)) = (i = j)"
| "about i (Send (ToolUseProgress j p)) = (i = j)"
| "about i (Send (ToolUseResult j r e)) = (i = j)"
| "about i (Ran j x) = (i = j)"
| "about i _ = False"

definition trace_of :: "string \<Rightarrow> ('a, 'i, 'd, 'p) action list \<Rightarrow> ('a, 'i, 'd, 'p) action list" where
  "trace_of i acts = filter (about i) acts"

lemma trace_of_simps [simp]:
  "trace_of i [] = []"
  "trace_of i (a # acts) = (if about i a then a # trace_of i acts else trace_of i acts)"
  "trace_of i (xs @ ys) = trace_of i xs @ trace_of i ys"
  by (simp_all add: trace_of_def)

text \<open>
  A call's trace as it should be: a start, then either an error result, or the call itself, its
  progress and its result.
\<close>

definition failed_trace :: "string \<Rightarrow> string \<Rightarrow> ('a, 'i, 'd, 'p) action list \<Rightarrow> bool" where
  "failed_trace i name acts =
     (\<exists>x e. acts = [Send (ToolUseStart i name x), Send (ToolUseResult i None (Some e))])"

definition run_trace :: "string \<Rightarrow> string \<Rightarrow> 'i \<Rightarrow> ('a, 'i, 'd, 'p) action list \<Rightarrow> bool" where
  "run_trace i name x acts =
     (\<exists>ps r e. acts = [Send (ToolUseStart i name (Inr x)), Ran i x] @ map (\<lambda>p. Send (ToolUseProgress i p)) ps
        @ [Send (ToolUseResult i (Some r) e)])"

end
