(* ===== verification/Tool_Execution.thy ===== *)
theory Tool_Execution
  imports Agent_Events
begin

text \<open>
  Carrying out the tool calls of a model turn (\<open>executeToolCallsConcurrent\<close> of
  \<open>internal/agent/agent.go\<close>, \<open>internal/agent/speculative.go\<close>, \<open>internal/agent/tools.go\<close>): the calls are
  looked up and parsed, checked against the permissions, grouped into batches and run, and every
  call is answered by one message in its place.

  Tools belong to the caller: \<open>CallFunc\<close> gives, from the state of the world, the progress a call
  reports, its result and error, and the new world. Which goroutine moves next is the scheduler's
  choice; \<open>choices\<close>, a list of numbers read from the world, stands for it, and every interleaving the
  limit allows is one of its values. A call that runs beside others is given its world when the
  batch starts.
\<close>

section \<open>Tools and the environment of a round\<close>

record ('c, 'i, 'd, 'p, 'w) agent_tool = "'i tool" +
  UnmarshalInput :: "string \<Rightarrow> string + 'i"
  CheckPermissions :: "('c, 'i) tool_checker"
  CallFunc :: "'i \<Rightarrow> 'w \<Rightarrow> ('p list \<times> 'd tool_Result \<times> string option) \<times> 'w"

type_synonym ('a, 'c, 'i, 'd, 'p, 'w) agent_call =
  "('a ToolCall, 'i, ('c, 'i, 'd, 'p, 'w, unit) agent_tool_ext) indexedCall"

type_synonym ('a, 'c, 'i, 'd, 'p, 'w) agent_batch =
  "('a ToolCall, 'i, ('c, 'i, 'd, 'p, 'w, unit) agent_tool_ext) Batch"

text \<open>
  What a round depends on beside its calls: the registry (a nil registry finds nothing), the
  encoders of package \<open>json\<close>, the permission policy of the run, the hooks, and the limits.
\<close>

record ('a, 'c, 'i, 'd, 'p, 'w) tool_env =
  te_Lookup :: "string \<Rightarrow> ('c, 'i, 'd, 'p, 'w) agent_tool option"
  te_marshal :: "'a \<Rightarrow> string + string"
  te_marshalIndent :: "'d \<Rightarrow> string option"
  te_sep :: char
  te_view :: "'i input_view"
  te_callbacks :: "('c, 'i) callbacks"
  te_Mode :: mode
  te_Rules :: rules
  te_ToolContext :: "'c tool_context_scheme"
  te_hasPostToolUse :: bool
  te_hasPermissionDenied :: bool
  te_hasBatchObserver :: bool
  te_MaxConcurrentTools :: int
  te_MaxResultChars :: int
  te_choices :: "'w \<Rightarrow> nat list"

section \<open>Formatting\<close>

definition TruncateDisplay :: "string \<Rightarrow> int \<Rightarrow> string \<times> bool" where
  "TruncateDisplay s limit0 =
     (let limit = (if limit0 \<le> 0 then 30000 else limit0);
          suffix = [CHR 10, CHR 10] @ ''<truncated>'' in
      if int (length s) \<le> limit then (s, False)
      else if limit \<le> int (length suffix) then (take (nat limit) s, True)
      else (take (nat (limit - int (length suffix))) s @ suffix, True))"

definition formatToolResult :: "('d \<Rightarrow> string option) \<Rightarrow> int \<Rightarrow> 'd tool_Result \<Rightarrow> string option \<Rightarrow> string" where
  "formatToolResult marshalIndent maxChars result err =
     (case err of
        Some e \<Rightarrow> ''Error: '' @ e
      | None \<Rightarrow>
          if Display result \<noteq> [] then fst (TruncateDisplay (Display result) maxChars)
          else case Data result of
            None \<Rightarrow> ''Tool completed successfully''
          | Some d \<Rightarrow> (case marshalIndent d of
                Some json \<Rightarrow> fst (TruncateDisplay json maxChars)
              | None \<Rightarrow> ''Tool completed successfully''))"

section \<open>Looking up and parsing the calls\<close>

text \<open>\<open>nextToolID\<close>, with the agent's 64-bit counter.\<close>

definition nextToolID :: "nat \<Rightarrow> string \<times> nat" where
  "nextToolID n = (''tool-'' @ FormatUint n, (n + 1) mod 2 ^ 64)"

text \<open>A call that fails before it is run: its two events and the message in its slot.\<close>

definition fail_call :: "string \<Rightarrow> string \<Rightarrow> 'a + 'i \<Rightarrow> string \<Rightarrow> ('a, 'i, 'd, 'p) action list" where
  "fail_call toolID name input err =
     [Send (ToolUseStart toolID name input), Send (ToolUseResult toolID None (Some err))]"

type_synonym 'a slots = "'a llm_Message option list"

fun index_calls :: "('a, 'c, 'i, 'd, 'p, 'w) tool_env \<Rightarrow> nat \<Rightarrow> nat \<Rightarrow> 'a ToolCall list \<Rightarrow> 'a slots \<Rightarrow>
    ('a, 'c, 'i, 'd, 'p, 'w) agent_call list \<times> 'a slots \<times> ('a, 'i, 'd, 'p) action list \<times> nat" where
  "index_calls env i counter [] slots = ([], slots, [], counter)"
| "index_calls env i counter (call # calls) slots =
     (let (toolID, counter) = nextToolID counter;
          name = call_Name call;
          fail = (\<lambda>err content.
            let (ics, slots, acts, counter) =
              index_calls env (i + 1) counter calls (slots[i := Some (tool_message name content)])
            in (ics, slots, fail_call toolID name (Inl (call_Arguments call)) err @ acts, counter))
      in case te_Lookup env name of
           None \<Rightarrow> fail (''unknown tool: '' @ name) (''Error: unknown tool '' @ [CHR 39] @ name @ [CHR 39])
         | Some tool \<Rightarrow>
             (case te_marshal env (call_Arguments call) of
                Inl e \<Rightarrow> fail (''failed to marshal tool arguments: '' @ e) (''Error: failed to marshal arguments: '' @ e)
              | Inr json \<Rightarrow>
                  (case UnmarshalInput tool json of
                     Inl e \<Rightarrow> fail (''failed to parse tool input: '' @ e) (''Error: invalid input format: '' @ e)
                   | Inr input \<Rightarrow>
                       let (ics, slots, acts, counter) = index_calls env (i + 1) counter calls slots
                       in (\<lparr>Index = i, ToolID = toolID, Call = call, Tool = tool, Input = input\<rparr> # ics,
                           slots, acts, counter))))"

section \<open>Permissions\<close>

definition call_request :: "('a, 'c, 'i, 'd, 'p, 'w) tool_env \<Rightarrow> ('a, 'c, 'i, 'd, 'p, 'w) agent_call \<Rightarrow>
    ('c, 'i) request" where
  "call_request env ic = \<lparr>rq_Mode = te_Mode env, rq_Rules = te_Rules env,
     rq_Tool = Some (CheckPermissions (Tool ic)), rq_ToolName = call_Name (Call ic), rq_Input = Input ic,
     rq_ToolContext = te_ToolContext env\<rparr>"

definition call_decision :: "('a, 'c, 'i, 'd, 'p, 'w) tool_env \<Rightarrow> ('a, 'c, 'i, 'd, 'p, 'w) agent_call \<Rightarrow> 'i result" where
  "call_decision env ic =
     fst (Resolve (te_sep env) (te_view env) ((te_callbacks env)\<lparr>Classifier := None\<rparr>) (call_request env ic))"

definition with_update :: "('a, 'c, 'i, 'd, 'p, 'w) tool_env \<Rightarrow> ('a, 'c, 'i, 'd, 'p, 'w) agent_call \<Rightarrow>
    ('a, 'c, 'i, 'd, 'p, 'w) agent_call" where
  "with_update env ic =
     (case res_UpdatedInput (call_decision env ic) of None \<Rightarrow> ic | Some x \<Rightarrow> ic\<lparr>Input := x\<rparr>)"

definition denial_reason :: "'i result \<Rightarrow> string" where
  "denial_reason res =
     (if res_Reason res \<noteq> [] then res_Reason res
      else if res_Decision res = DecisionDeny then ''tool execution denied by policy''
      else ''tool requires interactive permission'')"

fun check_calls :: "('a, 'c, 'i, 'd, 'p, 'w) tool_env \<Rightarrow> ('a, 'c, 'i, 'd, 'p, 'w) agent_call list \<Rightarrow> 'a slots \<Rightarrow>
    ('a, 'c, 'i, 'd, 'p, 'w) agent_call list \<times> 'a slots \<times> ('a, 'i, 'd, 'p) action list" where
  "check_calls env [] slots = ([], slots, [])"
| "check_calls env (ic0 # ics) slots =
     (let res = call_decision env ic0;
          ic = with_update env ic0;
          name = call_Name (Call ic) in
      if res_Decision res \<noteq> DecisionAllow then
        let reason = denial_reason res;
            err = ''permission denied: '' @ reason;
            hook = (if te_hasPermissionDenied env
              then [PermissionDenied \<lparr>he_ToolName = name, he_Input = Input ic,
                      he_Target = ExtractTarget (te_view env) (Input ic), he_Result = None,
                      he_Err = Some err, he_PermissionMode = te_Mode env\<rparr>] else []);
            (permitted, slots, acts) =
              check_calls env ics (slots[Index ic := Some (tool_message name (''Permission denied: '' @ reason))])
        in (permitted, slots, fail_call (ToolID ic) name (Inr (Input ic)) err @ hook @ acts)
      else
        let (permitted, slots, acts) = check_calls env ics slots
        in (ic # permitted, slots, acts))"

section \<open>Running batches\<close>

definition post_hook :: "('a, 'c, 'i, 'd, 'p, 'w) tool_env \<Rightarrow> ('a, 'c, 'i, 'd, 'p, 'w) agent_call \<Rightarrow>
    'd tool_Result \<Rightarrow> string option \<Rightarrow> ('a, 'i, 'd, 'p) action list" where
  "post_hook env ic r err =
     (if te_hasPostToolUse env
      then [PostToolUse \<lparr>he_ToolName = call_Name (Call ic), he_Input = Input ic,
              he_Target = ExtractTarget (te_view env) (Input ic), he_Result = Some r, he_Err = err,
              he_PermissionMode = FromToolsMode (tc_PermissionMode (te_ToolContext env))\<rparr>]
      else [])"

definition start_event :: "('a, 'c, 'i, 'd, 'p, 'w) agent_call \<Rightarrow> ('a, 'i, 'd, 'p) action" where
  "start_event ic = Send (ToolUseStart (ToolID ic) (call_Name (Call ic)) (Inr (Input ic)))"

definition result_message :: "('a, 'c, 'i, 'd, 'p, 'w) tool_env \<Rightarrow> ('a, 'c, 'i, 'd, 'p, 'w) agent_call \<Rightarrow>
    'd tool_Result \<Rightarrow> string option \<Rightarrow> 'a llm_Message" where
  "result_message env ic r err =
     tool_message (call_Name (Call ic)) (formatToolResult (te_marshalIndent env) (te_MaxResultChars env) r err)"

definition executeSingleCall :: "('a, 'c, 'i, 'd, 'p, 'w) tool_env \<Rightarrow> ('a, 'c, 'i, 'd, 'p, 'w) agent_call \<Rightarrow> 'w \<Rightarrow>
    'a llm_Message \<times> ('a, 'i, 'd, 'p) action list \<times> 'w" where
  "executeSingleCall env ic w =
     (let ((ps, r, err), w) = CallFunc (Tool ic) (Input ic) w
      in (result_message env ic r err,
          [start_event ic, Ran (ToolID ic) (Input ic)]
            @ map (\<lambda>p. Send (ToolUseProgress (ToolID ic) p)) ps
            @ [Send (ToolUseResult (ToolID ic) (Some r) err)] @ post_hook env ic r err, w))"

text \<open>
  The goroutines of a concurrent batch. \<open>waiting\<close>: calls not yet started, with what they will report;
  \<open>running\<close>: started calls with the progress still to come. A choice picks one of the running
  goroutines, which reports its next progress or ends, or starts the next call if the limit of the
  \<open>errgroup\<close> allows it.
\<close>

definition pick :: "nat list \<Rightarrow> nat \<Rightarrow> nat" where
  "pick choices n = (case choices of [] \<Rightarrow> 0 | c # _ \<Rightarrow> c mod n)"

lemma pick_less [simp]: "0 < n \<Longrightarrow> pick choices n < n"
  by (simp add: pick_def split: list.split)

type_synonym ('i, 'p) goroutine = "string \<times> 'i \<times> 'p list"

definition load :: "('i, 'p) goroutine list \<Rightarrow> nat" where
  "load gs = sum_list (map (\<lambda>(_, _, ps). Suc (length ps)) gs)"

definition can_start :: "nat \<Rightarrow> ('i, 'p) goroutine list \<Rightarrow> ('i, 'p) goroutine list \<Rightarrow> nat" where
  "can_start limit waiting running = (if waiting \<noteq> [] \<and> length running < limit then 1 else 0)"

lemma load_simps [simp]:
  "load [] = 0" "load ((i, x, ps) # gs) = Suc (length ps) + load gs"
  "load (gs @ hs) = load gs + load hs"
  by (simp_all add: load_def)

lemma load_split: "k < length gs \<Longrightarrow> gs ! k = (i, x, ps) \<Longrightarrow>
    load gs = load (take k gs) + Suc (length ps) + load (drop (Suc k) gs)"
  by (metis add.assoc append_take_drop_id Cons_nth_drop_Suc load_simps(2,3))

lemma load_update: "k < length gs \<Longrightarrow> (i, x, p # ps) = gs ! k \<Longrightarrow> load (gs[k := (i, x, ps)]) < load gs"
  using load_split [of k gs i x "p # ps"] by (simp add: upd_conv_take_nth_drop)

lemma load_remove:
  "k < length gs \<Longrightarrow> (i, x, ps) = gs ! k \<Longrightarrow> load (take k gs) + load (drop (Suc k) gs) < load gs"
  using load_split [of k gs i x ps] by simp

function run_goroutines :: "nat \<Rightarrow> nat list \<Rightarrow> ('i, 'p) goroutine list \<Rightarrow> ('i, 'p) goroutine list \<Rightarrow>
    ('a, 'i, 'd, 'p) action list" where
  "run_goroutines limit choices waiting running =
     (let n = length running + can_start limit waiting running; k = pick choices n; rest = tl choices in
      if n = 0 then []
      else if k < length running then
        (case running ! k of
           (i, x, []) \<Rightarrow> run_goroutines limit rest waiting (take k running @ drop (Suc k) running)
         | (i, x, p # ps) \<Rightarrow> Send (ToolUseProgress i p) #
             run_goroutines limit rest waiting (running[k := (i, x, ps)]))
      else
        (case waiting of
           [] \<Rightarrow> []
         | (i, x, ps) # waiting \<Rightarrow> Ran i x # run_goroutines limit rest waiting (running @ [(i, x, ps)])))"
  by pat_completeness auto
termination
proof (relation "measure (\<lambda>(limit, choices, waiting, running). 2 * load waiting + load running)", goal_cases)
  case 1
  show ?case by simp
next
  case (2 limit choices waiting running)
  then show ?case by (auto dest: load_remove)
next
  case (3 limit choices waiting running)
  then show ?case by (auto dest: load_update)
next
  case (4 limit choices waiting running)
  then show ?case by auto
qed

declare run_goroutines.simps [simp del]

fun call_all :: "('a, 'c, 'i, 'd, 'p, 'w) agent_call list \<Rightarrow> 'w \<Rightarrow>
    ('p list \<times> 'd tool_Result \<times> string option) list \<times> 'w" where
  "call_all [] w = ([], w)"
| "call_all (ic # ics) w =
     (let (out, w) = CallFunc (Tool ic) (Input ic) w; (outs, w) = call_all ics w in (out # outs, w))"

definition executeConcurrentBatch :: "('a, 'c, 'i, 'd, 'p, 'w) tool_env \<Rightarrow> nat \<Rightarrow>
    ('a, 'c, 'i, 'd, 'p, 'w) agent_call list \<Rightarrow> 'w \<Rightarrow>
    'a llm_Message list \<times> ('a, 'i, 'd, 'p) action list \<times> 'w" where
  "executeConcurrentBatch env limit calls w =
     (let choices = te_choices env w;
          (outs, w) = call_all calls w;
          gos = map (\<lambda>(ic, ps, _). (ToolID ic, Input ic, ps)) (zip calls outs)
      in (map (\<lambda>(ic, _, r, err). result_message env ic r err) (zip calls outs),
          map start_event calls @ run_goroutines limit choices gos []
            @ concat (map (\<lambda>(ic, _, r, err).
                Send (ToolUseResult (ToolID ic) (Some r) err) # post_hook env ic r err) (zip calls outs)), w))"

fun execute_serial :: "('a, 'c, 'i, 'd, 'p, 'w) tool_env \<Rightarrow> ('a, 'c, 'i, 'd, 'p, 'w) agent_call list \<Rightarrow> 'w \<Rightarrow>
    'a llm_Message list \<times> ('a, 'i, 'd, 'p) action list \<times> 'w" where
  "execute_serial env [] w = ([], [], w)"
| "execute_serial env (ic # ics) w =
     (let (m, acts, w) = executeSingleCall env ic w; (ms, acts', w) = execute_serial env ics w
      in (m # ms, acts @ acts', w))"

fun ExecuteBatches :: "('a, 'c, 'i, 'd, 'p, 'w) tool_env \<Rightarrow> nat \<Rightarrow> ('a, 'c, 'i, 'd, 'p, 'w) agent_batch list \<Rightarrow> 'w \<Rightarrow>
    'a llm_Message list \<times> ('a, 'i, 'd, 'p) action list \<times> 'w" where
  "ExecuteBatches env limit [] w = ([], [], w)"
| "ExecuteBatches env limit (b # bs) w =
     (let (ms, acts, w) = (if Safe b \<and> 1 < length (Calls b) then executeConcurrentBatch env limit (Calls b) w
                           else execute_serial env (Calls b) w);
          observed = (if te_hasBatchObserver env then [BatchDone (length (Calls b)) (Safe b)] else []);
          (ms', acts', w) = ExecuteBatches env limit bs w
      in (ms @ ms', acts @ observed @ acts', w))"

section \<open>The round\<close>

fun set_slots :: "'a slots \<Rightarrow> ('a, 'c, 'i, 'd, 'p, 'w) agent_call list \<Rightarrow> 'a llm_Message list \<Rightarrow> 'a slots" where
  "set_slots slots (ic # ics) (m # ms) = set_slots (slots[Index ic := Some m]) ics ms"
| "set_slots slots _ _ = slots"

definition collect :: "'a slots \<Rightarrow> 'a llm_Message list" where
  "collect slots = List.map_filter (\<lambda>s. s) slots"

definition tool_limit :: "('a, 'c, 'i, 'd, 'p, 'w) tool_env \<Rightarrow> nat" where
  "tool_limit env = (if te_MaxConcurrentTools env \<le> 0 then 10 else nat (te_MaxConcurrentTools env))"

definition executeToolCallsConcurrent :: "('a, 'c, 'i, 'd, 'p, 'w) tool_env \<Rightarrow> nat \<Rightarrow> 'a ToolCall list \<Rightarrow> 'w \<Rightarrow>
    ('a llm_Message list \<times> nat) \<times> ('a, 'i, 'd, 'p) action list \<times> nat \<times> 'w" where
  "executeToolCallsConcurrent env counter toolCalls w =
     (let slots = replicate (length toolCalls) None;
          (indexed, slots, acts1, counter) = index_calls env 0 counter toolCalls slots;
          toolCallCount = length toolCalls in
      if length indexed = 0 then ((collect slots, toolCallCount), acts1, counter, w)
      else
        let (permitted, slots, acts2) = check_calls env indexed slots in
        if length permitted = 0 then ((collect slots, toolCallCount), acts1 @ acts2, counter, w)
        else
          let (ms, acts3, w) = ExecuteBatches env (tool_limit env) (Partition permitted) w
          in ((collect (set_slots slots permitted ms), toolCallCount), acts1 @ acts2 @ acts3, counter, w))"

section \<open>Every call is answered in its place\<close>

text \<open>How far a call gets before it is checked: an error text with the answer, or tool and input.\<close>

definition parse_call :: "('a, 'c, 'i, 'd, 'p, 'w) tool_env \<Rightarrow> 'a ToolCall \<Rightarrow>
    (string \<times> string) + (('c, 'i, 'd, 'p, 'w) agent_tool \<times> 'i)" where
  "parse_call env call =
     (case te_Lookup env (call_Name call) of
        None \<Rightarrow> Inl (''unknown tool: '' @ call_Name call, ''Error: unknown tool '' @ [CHR 39] @ call_Name call @ [CHR 39])
      | Some tool \<Rightarrow>
          (case te_marshal env (call_Arguments call) of
             Inl e \<Rightarrow> Inl (''failed to marshal tool arguments: '' @ e, ''Error: failed to marshal arguments: '' @ e)
           | Inr json \<Rightarrow>
               (case UnmarshalInput tool json of
                  Inl e \<Rightarrow> Inl (''failed to parse tool input: '' @ e, ''Error: invalid input format: '' @ e)
                | Inr input \<Rightarrow> Inr (tool, input))))"

lemma index_calls_Cons:
  "index_calls env i counter (call # calls) slots =
     (case parse_call env call of
        Inl (err, content) \<Rightarrow>
          (case index_calls env (i + 1) (snd (nextToolID counter)) calls
             (slots[i := Some (tool_message (call_Name call) content)]) of
           (ics, slots, acts, c) \<Rightarrow> (ics, slots,
              fail_call (fst (nextToolID counter)) (call_Name call) (Inl (call_Arguments call)) err @ acts, c))
      | Inr (tool, input) \<Rightarrow>
          (case index_calls env (i + 1) (snd (nextToolID counter)) calls slots of
           (ics, slots, acts, c) \<Rightarrow>
             (\<lparr>Index = i, ToolID = fst (nextToolID counter), Call = call, Tool = tool, Input = input\<rparr> # ics,
              slots, acts, c)))"
  by (simp add: parse_call_def nextToolID_def Let_def split: option.split sum.split prod.split)

declare index_calls.simps(2) [simp del]

text \<open>The identifier of the \<open>j\<close>-th call of a round that starts with the given counter.\<close>

definition call_id :: "nat \<Rightarrow> nat \<Rightarrow> string" where
  "call_id counter j = ''tool-'' @ FormatUint ((counter + j) mod 2 ^ 64)"

definition the_call :: "nat \<Rightarrow> nat \<Rightarrow> nat \<Rightarrow> 'a ToolCall \<Rightarrow> ('c, 'i, 'd, 'p, 'w) agent_tool \<Rightarrow> 'i \<Rightarrow>
    ('a, 'c, 'i, 'd, 'p, 'w) agent_call" where
  "the_call i counter j call tool input =
     \<lparr>Index = i + j, ToolID = call_id counter j, Call = call, Tool = tool, Input = input\<rparr>"

lemma nextToolID_id:
  "counter < 2 ^ 64 \<Longrightarrow> fst (nextToolID counter) = call_id counter 0"
  "call_id (snd (nextToolID counter)) j = call_id counter (Suc j)"
  "snd (nextToolID counter) < 2 ^ 64"
  by (simp_all add: nextToolID_def call_id_def mod_Suc_eq mod_add_left_eq)

lemma call_id_inject:
  assumes "call_id c j = call_id c k" "j < n" "k < n" "n \<le> 2 ^ 64"
  shows "j = k"
proof -
  have m: "(c + j) mod 2 ^ 64 = (c + k) mod 2 ^ 64" using assms(1) by (simp add: call_id_def)
  have "j = k" if "j \<le> k" "k < 2 ^ 64" "(c + j) mod 2 ^ 64 = (c + k) mod 2 ^ 64" for j k :: nat
  proof -
    from that(1,3) have "2 ^ 64 dvd k - j"
      using mod_eq_dvd_iff_nat [of "c + j" "c + k" "2 ^ 64"] by simp
    with that(2) show ?thesis by (metis diff_is_0_eq dvd_imp_le le_less_trans less_imp_diff_less linorder_not_le not_gr0 order_antisym that(1))
  qed
  from this [of j k] this [of k j] m assms(2-4) show ?thesis by (cases "j \<le> k") auto
qed

lemma call_id_neq:
  "j < n \<Longrightarrow> k < n \<Longrightarrow> n \<le> 2 ^ 64 \<Longrightarrow> j \<noteq> k \<Longrightarrow> call_id c j \<noteq> call_id c k"
  using call_id_inject by blast

text \<open>What \<open>index_calls\<close> does, call by call.\<close>

definition slot_answer :: "'a ToolCall \<Rightarrow> 'a llm_Message option \<Rightarrow> bool" where
  "slot_answer call s = (\<exists>content. s = Some (tool_message (call_Name call) content))"

definition indexed_slot :: "('a, 'c, 'i, 'd, 'p, 'w) tool_env \<Rightarrow> 'a ToolCall \<Rightarrow> 'a llm_Message option \<Rightarrow>
    'a llm_Message option \<Rightarrow> bool" where
  "indexed_slot env call old new =
     (case parse_call env call of Inl _ \<Rightarrow> slot_answer call new | Inr _ \<Rightarrow> new = old)"

definition index_trace :: "('a, 'c, 'i, 'd, 'p, 'w) tool_env \<Rightarrow> string \<Rightarrow> 'a ToolCall \<Rightarrow> ('a, 'i, 'd, 'p) action list" where
  "index_trace env i call =
     (case parse_call env call of
        Inl (err, _) \<Rightarrow> fail_call i (call_Name call) (Inl (call_Arguments call)) err | Inr _ \<Rightarrow> [])"

lemma trace_fail [simp]:
  "trace_of i (fail_call j name x err) = (if i = j then fail_call j name x err else [])"
  by (simp add: fail_call_def)

lemma less_Suc_cases: "(\<forall>j < Suc n. P j) \<longleftrightarrow> P 0 \<and> (\<forall>j < n. P (Suc j))"
  by (auto simp: less_Suc_eq_0_disj)

lemma ex_less_Suc: "(\<exists>j < Suc n. P j) \<longleftrightarrow> P 0 \<or> (\<exists>j < n. P (Suc j))"
  by (auto simp: less_Suc_eq_0_disj)

lemma the_call_shift:
  "counter < 2 ^ 64 \<Longrightarrow>
    \<lparr>Index = i, ToolID = fst (nextToolID counter), Call = call, Tool = tool, Input = input\<rparr> = the_call i counter 0 call tool input"
  "the_call (Suc i) (snd (nextToolID counter)) j call tool input = the_call i counter (Suc j) call tool input"
  by (simp_all add: the_call_def nextToolID_id)

lemma index_calls_members:
  "index_calls env i c calls slots = (ics, slots', acts, c') \<Longrightarrow> c < 2 ^ 64 \<Longrightarrow>
    (ic \<in> set ics \<longleftrightarrow> (\<exists>j < length calls. \<exists>t x. parse_call env (calls ! j) = Inr (t, x) \<and> ic = the_call i c j (calls ! j) t x))
    \<and> distinct (map Index ics) \<and> list_all (\<lambda>ic. i \<le> Index ic) ics"
proof (induction calls arbitrary: i c slots ics slots' acts c' ic)
  case (Cons call calls)
  show ?case
  proof (cases "parse_call env call")
    case (Inl ec)
    with Cons.prems(1) obtain slots1 acts1 where
      "index_calls env (Suc i) (snd (nextToolID c)) calls slots1 = (ics, slots', acts1, c')"
      by (auto simp: index_calls_Cons split: prod.splits)
    from Cons.IH [OF this nextToolID_id(3), of ic] Inl show ?thesis
      by (auto simp: ex_less_Suc the_call_shift list_all_iff)
  next
    case (Inr tx)
    with Cons.prems obtain ics1 where
      r: "index_calls env (Suc i) (snd (nextToolID c)) calls slots = (ics1, slots', acts, c')"
      "ics = the_call i c 0 call (fst tx) (snd tx) # ics1"
      by (auto simp: index_calls_Cons the_call_shift split: prod.splits)
    note ih = Cons.IH [OF r(1) nextToolID_id(3), of ic]
    have idx: "Index (the_call i c 0 call (fst tx) (snd tx)) = i" by (simp add: the_call_def)
    have "i \<notin> Index ` set ics1" using ih by (auto simp: list_all_iff)
    moreover have "ic \<in> set ics \<longleftrightarrow> ic = the_call i c 0 call (fst tx) (snd tx) \<or> ic \<in> set ics1" by (simp add: r(2))
    ultimately show ?thesis using ih unfolding r(2)
      by (simp add: ex_less_Suc the_call_shift Inr idx list_all_iff) (cases tx, auto intro: Suc_leD)
  qed
qed simp

lemma index_calls_slots:
  "index_calls env i c calls slots = (ics, slots', acts, c') \<Longrightarrow> i + length calls \<le> length slots \<Longrightarrow>
    length slots' = length slots
    \<and> (\<forall>k < length slots. k < i \<longrightarrow> slots' ! k = slots ! k)
    \<and> (\<forall>j < length calls. indexed_slot env (calls ! j) (slots ! (i + j)) (slots' ! (i + j)))"
proof (induction calls arbitrary: i c slots ics slots' acts c')
  case (Cons call calls)
  show ?case
  proof (cases "parse_call env call")
    case (Inl ec)
    obtain err content where ec: "ec = (err, content)" by (cases ec)
    with Inl Cons.prems(1) obtain acts1 where
      "index_calls env (Suc i) (snd (nextToolID c)) calls (slots[i := Some (tool_message (call_Name call) content)])
        = (ics, slots', acts1, c')"
      by (auto simp: index_calls_Cons split: prod.splits)
    note ih = Cons.IH [OF this]
    then have "indexed_slot env call (slots ! i) (slots' ! i)"
      using Inl Cons.prems(2) by (auto simp: indexed_slot_def slot_answer_def)
    with ih Cons.prems(2) show ?thesis by (simp add: less_Suc_cases)
  next
    case (Inr tx)
    with Cons.prems obtain ics1 where
      "index_calls env (Suc i) (snd (nextToolID c)) calls slots = (ics1, slots', acts, c')"
      by (auto simp: index_calls_Cons split: prod.splits)
    note ih = Cons.IH [OF this]
    then have "indexed_slot env call (slots ! i) (slots' ! i)"
      using Inr Cons.prems(2) by (simp add: indexed_slot_def)
    with ih Cons.prems(2) show ?thesis by (simp add: less_Suc_cases)
  qed
qed simp

lemma index_calls_counter:
  "index_calls env i c calls slots = (ics, slots', acts, c') \<Longrightarrow> c < 2 ^ 64 \<Longrightarrow> c' = (c + length calls) mod 2 ^ 64"
proof (induction calls arbitrary: i c slots ics slots' acts c')
  case (Cons call calls)
  have "(snd (nextToolID c) + length calls) mod 2 ^ 64 = (c + Suc (length calls)) mod 2 ^ 64"
    by (simp add: nextToolID_def mod_Suc_eq mod_add_left_eq)
  with Cons.prems show ?case
    by (auto simp: index_calls_Cons split: prod.splits sum.splits dest!: Cons.IH [OF _ nextToolID_id(3)])
qed simp

lemma index_calls_trace:
  "index_calls env i c calls slots = (ics, slots', acts, c') \<Longrightarrow> c < 2 ^ 64 \<Longrightarrow> length calls \<le> 2 ^ 64 \<Longrightarrow>
    (\<forall>j < length calls. trace_of (call_id c j) acts = index_trace env (call_id c j) (calls ! j))
    \<and> (\<forall>i. (\<forall>j < length calls. i \<noteq> call_id c j) \<longrightarrow> trace_of i acts = [])"
proof (induction calls arbitrary: i c slots ics slots' acts c')
  case (Cons call calls)
  have new: "call_id c (Suc j) \<noteq> call_id c 0" if "j < length calls" for j
    using call_id_neq [of "Suc j" "Suc (length calls)" 0 c] that Cons.prems(3) by simp
  show ?case
  proof (cases "parse_call env call")
    case (Inl ec)
    obtain err content where ec: "ec = (err, content)" by (cases ec)
    with Inl Cons.prems obtain acts1 slots1 where
      r: "index_calls env (Suc i) (snd (nextToolID c)) calls slots1 = (ics, slots', acts1, c')"
      "acts = fail_call (call_id c 0) (call_Name call) (Inl (call_Arguments call)) err @ acts1"
      by (auto simp: index_calls_Cons nextToolID_id split: prod.splits)
    have ih: "\<forall>j < length calls. trace_of (call_id c (Suc j)) acts1 = index_trace env (call_id c (Suc j)) (calls ! j)" "\<forall>i. (\<forall>j < length calls. i \<noteq> call_id c (Suc j)) \<longrightarrow> trace_of i acts1 = []"
      using Cons.IH [OF r(1) nextToolID_id(3)] Cons.prems(3) by (simp_all add: nextToolID_id)
    have "trace_of (call_id c 0) acts1 = []" using ih(2) new by metis
    moreover have "index_trace env (call_id c 0) call
        = fail_call (call_id c 0) (call_Name call) (Inl (call_Arguments call)) err"
      by (simp add: index_trace_def Inl ec)
    ultimately show ?thesis using ih r(2) new by (auto simp: less_Suc_cases)
  next
    case (Inr tx)
    with Cons.prems obtain ics1 where
      r: "index_calls env (Suc i) (snd (nextToolID c)) calls slots = (ics1, slots', acts, c')"
      by (auto simp: index_calls_Cons split: prod.splits)
    have ih: "\<forall>j < length calls. trace_of (call_id c (Suc j)) acts = index_trace env (call_id c (Suc j)) (calls ! j)" "\<forall>i. (\<forall>j < length calls. i \<noteq> call_id c (Suc j)) \<longrightarrow> trace_of i acts = []"
      using Cons.IH [OF r(1) nextToolID_id(3)] Cons.prems(3) by (simp_all add: nextToolID_id)
    have "trace_of (call_id c 0) acts = []" using ih(2) new by metis
    moreover have "index_trace env (call_id c 0) call = []" by (simp add: index_trace_def Inr)
    ultimately show ?thesis using ih by (simp add: less_Suc_cases)
  qed
qed simp

text \<open>What \<open>check_calls\<close> does.\<close>

definition allowed :: "('a, 'c, 'i, 'd, 'p, 'w) tool_env \<Rightarrow> ('a, 'c, 'i, 'd, 'p, 'w) agent_call \<Rightarrow> bool" where
  "allowed env ic = (res_Decision (call_decision env ic) = DecisionAllow)"

lemma with_update_fields [simp]:
  "Index (with_update env ic) = Index ic" "ToolID (with_update env ic) = ToolID ic"
  "Call (with_update env ic) = Call ic" "Tool (with_update env ic) = Tool ic"
  by (simp_all add: with_update_def split: option.split)

lemma distinct_Index: "distinct (map Index (x # xs)) \<Longrightarrow> y \<in> set xs \<Longrightarrow> Index y \<noteq> Index x"
  by (metis distinct.simps(2) image_eqI list.set_map list.simps(9))

lemma distinct_ToolID: "distinct (map ToolID (x # xs)) \<Longrightarrow> y \<in> set xs \<Longrightarrow> ToolID y \<noteq> ToolID x"
  by (metis distinct.simps(2) image_eqI list.set_map list.simps(9))

lemma check_calls_permitted:
  "check_calls env ics slots = (permitted, slots', acts) \<Longrightarrow>
    permitted = map (with_update env) (filter (allowed env) ics)"
  by (induction ics arbitrary: slots permitted slots' acts)
    (auto simp: allowed_def Let_def split: prod.splits if_splits)

lemma check_calls_slots:
  "check_calls env ics slots = (permitted, slots', acts) \<Longrightarrow> distinct (map Index ics) \<Longrightarrow>
    \<forall>ic \<in> set ics. Index ic < length slots \<Longrightarrow>
    length slots' = length slots
    \<and> (\<forall>k < length slots. k \<notin> Index ` set ics \<longrightarrow> slots' ! k = slots ! k)
    \<and> (\<forall>ic \<in> set ics. if allowed env ic then slots' ! Index ic = slots ! Index ic
         else slot_answer (Call ic) (slots' ! Index ic))"
proof (induction ics arbitrary: slots permitted slots' acts)
  case (Cons ic ics)
  define slots1 where "slots1 = (if allowed env ic then slots else slots[Index ic := Some (tool_message
    (call_Name (Call ic)) (''Permission denied: '' @ denial_reason (call_decision env ic)))])"
  from Cons.prems(1) obtain p a where "check_calls env ics slots1 = (p, slots', a)"
    by (auto simp: slots1_def allowed_def Let_def split: prod.splits if_splits)
  note ih = Cons.IH [OF this]
  have len: "length slots1 = length slots" by (simp add: slots1_def)
  have "length slots' = length slots"
    and same: "\<forall>k < length slots. k \<notin> Index ` set ics \<longrightarrow> slots' ! k = slots1 ! k"
    and rest: "\<forall>ic \<in> set ics. if allowed env ic then slots' ! Index ic = slots1 ! Index ic
         else slot_answer (Call ic) (slots' ! Index ic)"
    using ih Cons.prems(2,3) len by auto
  moreover have "slots1 ! k = slots ! k" if "k \<noteq> Index ic" for k using that by (simp add: slots1_def)
  moreover have "Index x \<noteq> Index ic" if "x \<in> set ics" for x
    using distinct_Index [OF Cons.prems(2) that] .
  moreover have "if allowed env ic then slots1 ! Index ic = slots ! Index ic
      else slot_answer (Call ic) (slots1 ! Index ic)"
    using Cons.prems(3) by (auto simp: slots1_def slot_answer_def)
  ultimately show ?case using Cons.prems(2,3) by (auto split: if_splits)
qed simp

definition denied_trace :: "('a, 'c, 'i, 'd, 'p, 'w) tool_env \<Rightarrow> ('a, 'c, 'i, 'd, 'p, 'w) agent_call \<Rightarrow>
    ('a, 'i, 'd, 'p) action list" where
  "denied_trace env ic = fail_call (ToolID ic) (call_Name (Call ic)) (Inr (Input (with_update env ic)))
     (''permission denied: '' @ denial_reason (call_decision env ic))"

lemma check_calls_trace:
  "check_calls env ics slots = (permitted, slots', acts) \<Longrightarrow> distinct (map ToolID ics) \<Longrightarrow>
    (\<forall>ic \<in> set ics. trace_of (ToolID ic) acts = (if allowed env ic then [] else denied_trace env ic))
    \<and> (\<forall>i. i \<notin> ToolID ` set ics \<longrightarrow> trace_of i acts = [])"
proof (induction ics arbitrary: slots permitted slots' acts)
  case (Cons ic ics)
  from Cons.prems(1) obtain s p a hook where r: "check_calls env ics s = (p, slots', a)"
    "acts = (if allowed env ic then [] else denied_trace env ic @ hook) @ a" "\<And>i. trace_of i hook = []"
  proof (cases "allowed env ic")
    case True
    with Cons.prems(1) that [of slots _ acts "[]"] show ?thesis
      by (auto simp: allowed_def Let_def split: prod.splits)
  next
    case False
    with Cons.prems(1) that show ?thesis
      by (auto simp: allowed_def denied_trace_def Let_def split: prod.splits if_splits)
  qed
  note ih = Cons.IH [OF r(1)]
  have t: "trace_of i (denied_trace env ic) = (if i = ToolID ic then denied_trace env ic else [])" for i
    by (simp add: denied_trace_def)
  have "ToolID x \<noteq> ToolID ic" if "x \<in> set ics" for x using distinct_ToolID [OF Cons.prems(2) that] .
  with ih Cons.prems(2) r(2,3) t show ?case by auto
qed simp

text \<open>Whatever the scheduler chooses, each goroutine reports its own progress in order.\<close>

definition progress :: "string \<Rightarrow> 'p list \<Rightarrow> ('a, 'i, 'd, 'p) action list" where
  "progress i ps = map (\<lambda>p. Send (ToolUseProgress i p)) ps"

lemma progress_simps [simp]: "progress i [] = []" "progress i (p # ps) = Send (ToolUseProgress i p) # progress i ps"
  by (simp_all add: progress_def)

lemma trace_progress [simp]: "trace_of i (progress j ps) = (if i = j then progress j ps else [])"
  by (induction ps) auto

definition goroutine_traces :: "('i, 'p) goroutine list \<Rightarrow> ('i, 'p) goroutine list \<Rightarrow>
    ('a, 'i, 'd, 'p) action list \<Rightarrow> bool" where
  "goroutine_traces waiting running acts =
     ((\<forall>(i, x, ps) \<in> set running. trace_of i acts = progress i ps)
      \<and> (\<forall>(i, x, ps) \<in> set waiting. trace_of i acts = Ran i x # progress i ps)
      \<and> (\<forall>i. i \<notin> fst ` set (waiting @ running) \<longrightarrow> trace_of i acts = []))"

lemma other_id: "i \<notin> fst ` S \<Longrightarrow> (j, y) \<in> S \<Longrightarrow> j \<noteq> i"
  by force

lemma traces_progress:
  assumes "goroutine_traces waiting (A @ (i, x, ps) # B) acts" "i \<notin> fst ` set (waiting @ A @ B)"
  shows "goroutine_traces waiting (A @ (i, x, p # ps) # B) (Send (ToolUseProgress i p) # acts)"
proof -
  have "\<And>y. (i, y) \<notin> set waiting" "\<And>y. (i, y) \<notin> set A" "\<And>y. (i, y) \<notin> set B"
    using other_id [OF assms(2)] by auto
  with assms show ?thesis by (auto simp: goroutine_traces_def ball_Un)
qed

lemma traces_start:
  assumes "goroutine_traces ws (running @ [(i, x, ps)]) acts" "i \<notin> fst ` set (ws @ running)"
  shows "goroutine_traces ((i, x, ps) # ws) running (Ran i x # acts)"
proof -
  have "\<And>y. (i, y) \<notin> set ws" "\<And>y. (i, y) \<notin> set running" using other_id [OF assms(2)] by auto
  with assms show ?thesis by (auto simp: goroutine_traces_def ball_Un)
qed

lemma run_goroutines_traces:
  fixes waiting running :: "('i, 'p) goroutine list"
  shows "0 < limit \<Longrightarrow> distinct (map fst (waiting @ running)) \<Longrightarrow>
    goroutine_traces waiting running (run_goroutines limit choices waiting running :: ('a, 'i, 'd, 'p) action list)"
proof (induction limit choices waiting running rule: run_goroutines.induct)
  case (1 limit choices waiting running)
  let ?n = "length running + can_start limit waiting running"
  let ?k = "pick choices ?n"
  let ?go = "run_goroutines :: nat \<Rightarrow> nat list \<Rightarrow> ('i, 'p) goroutine list \<Rightarrow> ('i, 'p) goroutine list \<Rightarrow>
    ('a, 'i, 'd, 'p) action list"
  show ?case
  proof (cases "?n = 0")
    case True
    then have "running = []" "waiting = []" using "1.prems"(1) by (auto simp: can_start_def split: if_splits)
    then show ?thesis by (simp add: goroutine_traces_def run_goroutines.simps can_start_def)
  next
    case n: False
    show ?thesis
    proof (cases "?k < length running")
      case k: True
      obtain i x qs where g: "running ! ?k = (i, x, qs)" by (metis prod.exhaust)
      define A B where "A = take ?k running" and "B = drop (Suc ?k) running"
      have run: "running = A @ (i, x, qs) # B" using id_take_nth_drop [OF k] g by (simp add: A_def B_def)
      have lenA: "length A = ?k" using k by (simp add: A_def)
      show ?thesis
      proof (cases qs)
        case Nil
        with "1.IH"(1) [OF refl refl refl n k g [symmetric] refl] "1.prems" have
          "goroutine_traces waiting (A @ B) (?go limit (tl choices) waiting (A @ B))"
          unfolding A_def [symmetric] B_def [symmetric] by (simp add: run)
        moreover have "?go limit choices waiting running = ?go limit (tl choices) waiting (A @ B)"
          using n k g Nil by (subst run_goroutines.simps) (auto simp: A_def B_def Let_def)
        moreover have "i \<notin> fst ` set (waiting @ A @ B)" using "1.prems"(2) by (auto simp: run)
        ultimately show ?thesis using Nil by (auto simp: goroutine_traces_def run)
      next
        case (Cons p ps)
        have upd: "running[?k := (i, x, ps)] = A @ (i, x, ps) # B"
          using upd_conv_take_nth_drop [OF k] by (simp add: A_def B_def)
        have d: "distinct (map fst (waiting @ running[?k := (i, x, ps)]))"
          using "1.prems"(2) unfolding upd by (simp add: run)
        from "1.IH"(2) [OF refl refl refl n k g [symmetric] refl Cons "1.prems"(1) d] have
          ih: "goroutine_traces waiting (A @ (i, x, ps) # B) (?go limit (tl choices) waiting (A @ (i, x, ps) # B))"
          unfolding upd .
        have "?go limit choices waiting running =
            Send (ToolUseProgress i p) # ?go limit (tl choices) waiting (A @ (i, x, ps) # B)"
          using n k g Cons upd by (subst run_goroutines.simps) (auto simp: Let_def)
        moreover have "i \<notin> fst ` set (waiting @ A @ B)" using "1.prems"(2) by (auto simp: run)
        ultimately show ?thesis using traces_progress [OF ih] unfolding run Cons by simp
      qed
    next
      case k: False
      have "?k < ?n" using n by (intro pick_less) simp
      with k have "can_start limit waiting running = 1" "waiting \<noteq> []"
        by (auto simp: can_start_def split: if_splits)
      then obtain i x ps ws where w: "waiting = (i, x, ps) # ws" by (cases waiting) auto
      with "1.IH"(3) [OF refl refl refl n k w refl refl] "1.prems" have
        ih: "goroutine_traces ws (running @ [(i, x, ps)]) (?go limit (tl choices) ws (running @ [(i, x, ps)]))"
        by auto
      have "?go limit choices waiting running =
          Ran i x # ?go limit (tl choices) ws (running @ [(i, x, ps)])"
        using n k w by (subst run_goroutines.simps) (auto simp: Let_def)
      moreover have "i \<notin> fst ` set (ws @ running)" using "1.prems"(2) by (auto simp: w)
      ultimately show ?thesis using traces_start [OF ih] unfolding w by simp
    qed
  qed
qed

text \<open>Calls that have been run: one message each, in order, and a complete trace.\<close>

definition executed :: "('a, 'c, 'i, 'd, 'p, 'w) agent_call list \<Rightarrow> 'a llm_Message list \<Rightarrow>
    ('a, 'i, 'd, 'p) action list \<Rightarrow> bool" where
  "executed ics ms acts =
     (list_all2 (\<lambda>ic m. slot_answer (Call ic) (Some m)) ics ms
      \<and> (\<forall>ic \<in> set ics. run_trace (ToolID ic) (call_Name (Call ic)) (Input ic) (trace_of (ToolID ic) acts))
      \<and> (\<forall>i. i \<notin> ToolID ` set ics \<longrightarrow> trace_of i acts = []))"

lemma trace_post_hook [simp]: "trace_of i (post_hook env ic r err) = []"
  by (simp add: post_hook_def)

lemma slot_answer_result [simp]: "slot_answer (Call ic) (Some (result_message env ic r err))"
  by (auto simp: slot_answer_def result_message_def)

lemma executed_append:
  assumes "executed xs ms acts" "executed ys ms' acts'" "distinct (map ToolID (xs @ ys))"
  shows "executed (xs @ ys) (ms @ ms') (acts @ acts')"
proof -
  have "ToolID x \<notin> ToolID ` set ys" if "x \<in> set xs" for x using that assms(3) by auto
  moreover have "ToolID y \<notin> ToolID ` set xs" if "y \<in> set ys" for y using that assms(3) by (auto simp: image_iff)
  ultimately show ?thesis using assms(1,2) by (auto simp: executed_def list_all2_appendI)
qed

lemma executed_single:
  "executeSingleCall env ic w = (m, acts, w') \<Longrightarrow> executed [ic] [m] acts"
  by (auto simp: executeSingleCall_def executed_def run_trace_def start_event_def Let_def progress_def [symmetric]
      split: prod.splits)

lemma executed_serial:
  "execute_serial env ics w = (ms, acts, w') \<Longrightarrow> distinct (map ToolID ics) \<Longrightarrow> executed ics ms acts"
proof (induction ics arbitrary: w ms acts w')
  case Nil
  then show ?case by (simp add: executed_def)
next
  case (Cons ic ics)
  then obtain m a w1 ms1 a1 where r: "executeSingleCall env ic w = (m, a, w1)"
    "execute_serial env ics w1 = (ms1, a1, w')" "ms = m # ms1" "acts = a @ a1"
    by (auto simp: Let_def split: prod.splits)
  from executed_append [OF executed_single [OF r(1)] Cons.IH [OF r(2)]] Cons.prems(2) show ?case
    by (simp add: r)
qed

lemma call_all_length: "call_all ics w = (outs, w') \<Longrightarrow> length outs = length ics"
  by (induction ics arbitrary: w outs w') (auto simp: Let_def split: prod.splits)

lemma about_start [simp]: "about i (start_event ic) \<longleftrightarrow> i = ToolID ic"
  by (simp add: start_event_def)

lemma trace_starts:
  "distinct (map ToolID ics) \<Longrightarrow> ic \<in> set ics \<Longrightarrow> trace_of (ToolID ic) (map start_event ics) = [start_event ic]"
  "i \<notin> ToolID ` set ics \<Longrightarrow> trace_of i (map start_event ics) = []"
proof -
  show none: "i \<notin> ToolID ` set ics \<Longrightarrow> trace_of i (map start_event ics) = []" for i and ics
    by (induction ics) auto
  show "distinct (map ToolID ics) \<Longrightarrow> ic \<in> set ics \<Longrightarrow> trace_of (ToolID ic) (map start_event ics) = [start_event ic]"
  proof (induction ics)
    case (Cons x ics)
    then show ?case using none [of "ToolID x" ics] distinct_ToolID [OF Cons.prems(1)]
      by (cases "ic = x") auto
  qed simp
qed

lemma trace_results:
  fixes outs :: "('p list \<times> 'd tool_Result \<times> string option) list"
  defines "results \<equiv> \<lambda>env zs. concat (map (\<lambda>(ic, _, r, err).
      Send (ToolUseResult (ToolID ic) (Some r) err) # post_hook env ic r err) zs)"
  assumes "distinct (map ToolID ics)" "length outs = length ics"
  shows "k < length ics \<Longrightarrow> trace_of (ToolID (ics ! k)) (results env (zip ics outs))
      = [Send (ToolUseResult (ToolID (ics ! k)) (Some (fst (snd (outs ! k)))) (snd (snd (outs ! k))))]"
    and "i \<notin> ToolID ` set ics \<Longrightarrow> trace_of i (results env (zip ics outs)) = []"
proof -
  have none: "i \<notin> ToolID ` set ics \<Longrightarrow> trace_of i (results env (zip ics outs)) = []"
    for i ics and outs :: "('p list \<times> 'd tool_Result \<times> string option) list"
    by (induction ics outs rule: list_induct2') (auto simp: results_def)
  then show "i \<notin> ToolID ` set ics \<Longrightarrow> trace_of i (results env (zip ics outs)) = []" .
  show "k < length ics \<Longrightarrow> trace_of (ToolID (ics ! k)) (results env (zip ics outs))
      = [Send (ToolUseResult (ToolID (ics ! k)) (Some (fst (snd (outs ! k)))) (snd (snd (outs ! k))))]"
    using assms(3,2)
  proof (induction outs ics arbitrary: k rule: list_induct2)
    case (Cons out outs ic ics)
    have cons: "results env (zip (ic # ics) (out # outs)) =
        Send (ToolUseResult (ToolID ic) (Some (fst (snd out))) (snd (snd out)))
          # post_hook env ic (fst (snd out)) (snd (snd out)) @ results env (zip ics outs)"
      by (simp add: results_def split_beta)
    show ?case
    proof (cases k)
      case 0
      then show ?thesis using none [of "ToolID ic" ics outs] Cons.prems(2) unfolding cons by simp
    next
      case (Suc k')
      then have "ToolID (ics ! k') \<noteq> ToolID ic" using distinct_ToolID [OF Cons.prems(2)] Cons.prems(1) by simp
      then show ?thesis using Suc Cons.IH [of k'] Cons.prems unfolding cons by simp
    qed
  qed simp
qed

lemma executed_concurrent:
  assumes "executeConcurrentBatch env limit ics w = (ms, acts, w')" "distinct (map ToolID ics)" "0 < limit"
  shows "executed ics ms acts"
proof -
  obtain outs w1 where c: "call_all ics w = (outs, w1)" by (cases "call_all ics w")
  note len = call_all_length [OF c]
  define gos where "gos = map (\<lambda>(ic, ps, _). (ToolID ic, Input ic, ps)) (zip ics outs)"
  define results where "results = concat (map (\<lambda>(ic, _, r, err).
      Send (ToolUseResult (ToolID ic) (Some r) err) # post_hook env ic r err) (zip ics outs))"
  define body :: "('a, 'b, 'c, 'd) action list" where "body = run_goroutines limit (te_choices env w) gos []"
  have acts: "acts = map start_event ics @ body @ results"
    and ms: "ms = map (\<lambda>(ic, _, r, err). result_message env ic r err) (zip ics outs)"
    using assms(1) c by (auto simp: executeConcurrentBatch_def Let_def gos_def results_def body_def)
  have ids: "map fst gos = map ToolID ics"
    using len by (auto simp: gos_def split_beta intro!: nth_equalityI)
  with assms(2) have "distinct (map fst (gos @ []))" by simp
  from run_goroutines_traces [OF assms(3) this] have g: "goroutine_traces gos [] body" by (simp add: body_def)
  have "run_trace (ToolID ic) (call_Name (Call ic)) (Input ic) (trace_of (ToolID ic) acts)" if ic: "ic \<in> set ics" for ic
  proof -
    obtain k where k: "k < length ics" "ic = ics ! k" using ic by (metis in_set_conv_nth)
    obtain ps r err where o: "outs ! k = (ps, r, err)" by (metis prod.exhaust)
    have "zip ics outs ! k = (ic, ps, r, err)" using k len o by simp
    then have "(ToolID ic, Input ic, ps) = gos ! k" "k < length gos" using k len by (simp_all add: gos_def)
    then have "(ToolID ic, Input ic, ps) \<in> set gos" by simp
    with g have "trace_of (ToolID ic) body = Ran (ToolID ic) (Input ic) # progress (ToolID ic) ps"
      by (auto simp: goroutine_traces_def)
    then show ?thesis
      using trace_starts(1) [OF assms(2) ic] trace_results(1) [OF assms(2) len k(1), of env, folded results_def] k o
      unfolding run_trace_def acts by (auto simp: start_event_def progress_def)
  qed
  moreover have "trace_of i acts = []" if "i \<notin> ToolID ` set ics" for i
  proof -
    have "i \<notin> fst ` set (gos @ [])" using that ids by (metis append_Nil2 list.set_map)
    with g have "trace_of i body = []" by (simp add: goroutine_traces_def)
    then show ?thesis
      using trace_starts(2) [OF that] trace_results(2) [OF assms(2) len that, of env, folded results_def]
      by (simp add: acts)
  qed
  moreover have "list_all2 (\<lambda>ic m. slot_answer (Call ic) (Some m)) ics ms"
    using len by (auto simp: ms list_all2_conv_all_nth split_beta)
  ultimately show ?thesis by (simp add: executed_def)
qed

lemma executed_batches:
  "ExecuteBatches env limit bs w = (ms, acts, w') \<Longrightarrow> 0 < limit \<Longrightarrow>
    distinct (map ToolID (concat (map Calls bs))) \<Longrightarrow> executed (concat (map Calls bs)) ms acts"
proof (induction bs arbitrary: w ms acts w')
  case Nil
  then show ?case by (simp add: executed_def)
next
  case (Cons b bs)
  then obtain m a w1 ms1 a1 obs where r:
    "(if Safe b \<and> 1 < length (Calls b) then executeConcurrentBatch env limit (Calls b) w
      else execute_serial env (Calls b) w) = (m, a, w1)"
    "ExecuteBatches env limit bs w1 = (ms1, a1, w')" "ms = m @ ms1" "acts = a @ obs @ a1"
    "\<And>i. trace_of i obs = []"
    by (auto simp: Let_def split: prod.splits if_splits)
  from Cons.prems(3) have d: "distinct (map ToolID (Calls b))" "distinct (map ToolID (concat (map Calls bs)))"
    by auto
  have first: "executed (Calls b) m (a @ obs)"
  proof -
    have "executed (Calls b) m a"
      using r(1) executed_concurrent [OF _ d(1) Cons.prems(2)] executed_serial [OF _ d(1)] by (auto split: if_splits)
    then show ?thesis using r(5) by (simp add: executed_def)
  qed
  from executed_append [OF first Cons.IH [OF r(2) Cons.prems(2) d(2)]] Cons.prems(3) show ?case
    by (simp add: r(3,4))
qed

section \<open>A round as a whole\<close>

lemma set_slots_nth:
  "list_all2 (\<lambda>ic m. slot_answer (Call ic) (Some m)) ics ms \<Longrightarrow> distinct (map Index ics) \<Longrightarrow>
    \<forall>ic \<in> set ics. Index ic < length slots \<Longrightarrow>
    length (set_slots slots ics ms) = length slots
    \<and> (\<forall>k. k \<notin> Index ` set ics \<longrightarrow> set_slots slots ics ms ! k = slots ! k)
    \<and> (\<forall>ic \<in> set ics. slot_answer (Call ic) (set_slots slots ics ms ! Index ic))"
proof (induction ics ms arbitrary: slots rule: list_all2_induct)
  case (Cons ic ics m ms)
  have "Index ic \<notin> Index ` set ics" using Cons.prems(1) by simp
  with Cons.IH [of "slots[Index ic := Some m]"] Cons.prems Cons.hyps show ?case by auto
qed simp

lemma collect_all:
  assumes "list_all2 slot_answer calls slots"
  shows "list_all2 (\<lambda>call m. slot_answer call (Some m)) calls (collect slots)"
  using assms by (induction rule: list_all2_induct) (auto simp: collect_def List.map_filter_def slot_answer_def)

text \<open>The early returns for rounds without calls to run are instances of the general case.\<close>

lemma round_uniform:
  assumes "executeToolCallsConcurrent env counter calls w = ((msgs, count), acts, counter', w')"
  obtains indexed s1 a1 permitted s2 a2 ms a3 where
    "index_calls env 0 counter calls (replicate (length calls) None) = (indexed, s1, a1, counter')"
    "check_calls env indexed s1 = (permitted, s2, a2)"
    "ExecuteBatches env (tool_limit env) (Partition permitted) w = (ms, a3, w')"
    "msgs = collect (set_slots s2 permitted ms)" "acts = a1 @ a2 @ a3" "count = length calls"
proof -
  obtain indexed s1 a1 c1 where i: "index_calls env 0 counter calls (replicate (length calls) None) = (indexed, s1, a1, c1)"
    by (metis prod.exhaust)
  obtain permitted s2 a2 where p: "check_calls env indexed s1 = (permitted, s2, a2)" by (metis prod.exhaust)
  obtain ms a3 w3 where e: "ExecuteBatches env (tool_limit env) (Partition permitted) w = (ms, a3, w3)"
    by (metis prod.exhaust)
  note def = assms [unfolded executeToolCallsConcurrent_def Let_def i, simplified]
  have "permitted = [] \<Longrightarrow> ms = [] \<and> a3 = [] \<and> w3 = w" using e by (auto simp: Partition_def)
  moreover have "indexed = [] \<Longrightarrow> permitted = [] \<and> s2 = s1 \<and> a2 = []" using p by auto
  ultimately show ?thesis using def p e i that [of indexed s1 a1 permitted s2 a2 ms a3]
    by (auto split: if_splits)
qed

lemma Partition_calls: "concat (map Calls (Partition ics)) = ics"
  using Partition_loop_calls [of ics "[]"] by (simp add: Partition_eq_loop)

text \<open>What the trace of one call of a round has to be.\<close>

definition call_trace_ok :: "('a, 'c, 'i, 'd, 'p, 'w) tool_env \<Rightarrow> nat \<Rightarrow> nat \<Rightarrow> 'a ToolCall \<Rightarrow>
    ('a, 'i, 'd, 'p) action list \<Rightarrow> bool" where
  "call_trace_ok env counter j call acts =
     (case parse_call env call of
        Inl _ \<Rightarrow> failed_trace (call_id counter j) (call_Name call) acts
      | Inr (tool, input) \<Rightarrow>
          (let ic = the_call 0 counter j call tool input in
           if allowed env ic then run_trace (call_id counter j) (call_Name call) (Input (with_update env ic)) acts
           else failed_trace (call_id counter j) (call_Name call) acts))"

lemma indexed_facts:
  assumes "index_calls env 0 counter calls slots = (indexed, s1, a1, counter')" "counter < 2 ^ 64"
  shows "ic \<in> set indexed \<longleftrightarrow> (\<exists>j < length calls. \<exists>t x. parse_call env (calls ! j) = Inr (t, x)
      \<and> ic = the_call 0 counter j (calls ! j) t x)"
    and "ic \<in> set indexed \<Longrightarrow> Index ic < length calls \<and> ToolID ic = call_id counter (Index ic) \<and> Call ic = calls ! Index ic"
    and "distinct (map Index indexed)"
    and "length calls \<le> 2 ^ 64 \<Longrightarrow> distinct (map ToolID indexed)"
proof -
  show mem: "ic \<in> set indexed \<longleftrightarrow> (\<exists>j < length calls. \<exists>t x. parse_call env (calls ! j) = Inr (t, x)
      \<and> ic = the_call 0 counter j (calls ! j) t x)" for ic
    using index_calls_members [OF assms, of ic] by blast
  show idx: "ic \<in> set indexed \<Longrightarrow> Index ic < length calls \<and> ToolID ic = call_id counter (Index ic) \<and> Call ic = calls ! Index ic" for ic
    using mem by (auto simp: the_call_def)
  show dI: "distinct (map Index indexed)" using index_calls_members [OF assms] by blast
  assume "length calls \<le> 2 ^ 64"
  moreover have "map ToolID indexed = map (call_id counter) (map Index indexed)" using idx by simp
  ultimately have "inj_on (call_id counter) (set (map Index indexed))"
    using idx call_id_inject [of counter _ _ "length calls"] by (fastforce simp: inj_on_def)
  with dI \<open>map ToolID indexed = _\<close> show "distinct (map ToolID indexed)" by (simp only: distinct_map)
qed

lemma permitted_facts:
  assumes "check_calls env indexed s1 = (permitted, s2, a2)"
  shows "permitted = map (with_update env) (filter (allowed env) indexed)"
    and "distinct (map Index indexed) \<Longrightarrow> distinct (map Index permitted)"
    and "distinct (map ToolID indexed) \<Longrightarrow> distinct (map ToolID permitted)"
proof -
  show perm: "permitted = map (with_update env) (filter (allowed env) indexed)"
    using check_calls_permitted [OF assms] .
  have "map ToolID permitted = map ToolID (filter (allowed env) indexed)"
    "map Index permitted = map Index (filter (allowed env) indexed)" by (simp_all add: perm comp_def)
  then show "distinct (map Index indexed) \<Longrightarrow> distinct (map Index permitted)"
    "distinct (map ToolID indexed) \<Longrightarrow> distinct (map ToolID permitted)"
    by (simp_all add: distinct_map_filter)
qed

text \<open>Running calls answers each of them, whatever their identifiers.\<close>

abbreviation answers :: "('a, 'c, 'i, 'd, 'p, 'w) agent_call list \<Rightarrow> 'a llm_Message list \<Rightarrow> bool" where
  "answers ics ms \<equiv> list_all2 (\<lambda>ic m. slot_answer (Call ic) (Some m)) ics ms"

lemma answers_serial: "execute_serial env ics w = (ms, acts, w') \<Longrightarrow> answers ics ms"
  by (induction ics arbitrary: w ms acts w') (auto simp: Let_def executeSingleCall_def split: prod.splits)

lemma answers_concurrent: "executeConcurrentBatch env limit ics w = (ms, acts, w') \<Longrightarrow> answers ics ms"
  by (auto simp: executeConcurrentBatch_def Let_def list_all2_conv_all_nth split: prod.splits dest: call_all_length)

lemma answers_batches: "ExecuteBatches env limit bs w = (ms, acts, w') \<Longrightarrow> answers (concat (map Calls bs)) ms"
proof (induction bs arbitrary: w ms acts w')
  case (Cons b bs)
  then obtain m a w1 ms1 a1 where r:
    "(if Safe b \<and> 1 < length (Calls b) then executeConcurrentBatch env limit (Calls b) w
      else execute_serial env (Calls b) w) = (m, a, w1)"
    "ExecuteBatches env limit bs w1 = (ms1, a1, w')" "ms = m @ ms1"
    by (auto simp: Let_def split: prod.splits if_splits)
  from r(1) have "answers (Calls b) m" by (auto dest: answers_serial answers_concurrent split: if_splits)
  with Cons.IH [OF r(2)] r(3) show ?case by (simp add: list_all2_appendI)
qed simp

lemma round_answers:
  assumes "executeToolCallsConcurrent env counter calls w = ((msgs, count), acts, counter', w')" "counter < 2 ^ 64"
  shows "list_all2 (\<lambda>call m. slot_answer call (Some m)) calls msgs"
proof -
  let ?n = "length calls"
  from round_uniform [OF assms(1)] obtain indexed s1 a1 permitted s2 a2 ms a3 where
    i: "index_calls env 0 counter calls (replicate ?n None) = (indexed, s1, a1, counter')" and
    p: "check_calls env indexed s1 = (permitted, s2, a2)" and
    e: "ExecuteBatches env (tool_limit env) (Partition permitted) w = (ms, a3, w')" and
    r: "msgs = collect (set_slots s2 permitted ms)" .
  note mem = indexed_facts(1) [OF i assms(2)] and idx = indexed_facts(2) [OF i assms(2)]
    and dI = indexed_facts(3) [OF i assms(2)]
  note perm = permitted_facts(1) [OF p]
  note sl1 = index_calls_slots [OF i, simplified]
  have inr: "\<forall>ic \<in> set indexed. Index ic < length s1" using idx sl1 by simp
  note sl2 = check_calls_slots [OF p dI inr]
  have l2: "answers permitted ms" using answers_batches [OF e] by (simp add: Partition_calls)
  have "\<forall>ic \<in> set permitted. Index ic < length s2" using idx sl1 sl2 by (auto simp: perm)
  note sl3 = set_slots_nth [OF l2 permitted_facts(2) [OF p dI] this]
  let ?final = "set_slots s2 permitted ms"
  have slot: "slot_answer (calls ! j) (?final ! j)" if j: "j < ?n" for j
  proof (cases "\<exists>ic \<in> set indexed. Index ic = j")
    case False
    then have no: "j \<notin> Index ` set indexed" "j \<notin> Index ` set permitted" by (auto simp: perm)
    with sl3 sl2 sl1 j have same: "?final ! j = s1 ! j" by auto
    have "slot_answer (calls ! j) (s1 ! j)"
    proof (cases "parse_call env (calls ! j)")
      case (Inl ec)
      with j sl1 [THEN conjunct2, rule_format, OF j] show ?thesis by (simp add: indexed_slot_def)
    next
      case (Inr tx)
      obtain t x where "tx = (t, x)" by (cases tx)
      with Inr j mem have "the_call 0 counter j (calls ! j) t x \<in> set indexed" by blast
      with False show ?thesis by (auto simp: the_call_def)
    qed
    with same show ?thesis by simp
  next
    case True
    then obtain ic where ic: "ic \<in> set indexed" "Index ic = j" "Call ic = calls ! j" using idx by auto
    show ?thesis
    proof (cases "allowed env ic")
      case True
      then have "with_update env ic \<in> set permitted" using ic by (auto simp: perm)
      with sl3 ic show ?thesis by fastforce
    next
      case False
      have "j \<notin> Index ` set permitted"
      proof
        assume "j \<in> Index ` set permitted"
        then obtain ic' where "ic' \<in> set indexed" "allowed env ic'" "Index ic' = Index ic" using ic by (auto simp: perm)
        then have "ic' = ic" using dI ic(1) by (auto simp: distinct_map inj_on_def)
        with False \<open>allowed env ic'\<close> show False by simp
      qed
      with sl3 have "?final ! j = s2 ! j" by blast
      with sl2 ic False show ?thesis by fastforce
    qed
  qed
  have "length ?final = ?n" using sl3 sl2 sl1 by simp
  with slot have "list_all2 slot_answer calls ?final" by (simp add: list_all2_conv_all_nth)
  then show ?thesis unfolding r by (rule collect_all)
qed

lemma round_traces:
  assumes "executeToolCallsConcurrent env counter calls w = ((msgs, count), acts, counter', w')"
    "counter < 2 ^ 64" "length calls \<le> 2 ^ 64"
  shows "(\<forall>j < length calls. call_trace_ok env counter j (calls ! j) (trace_of (call_id counter j) acts))
    \<and> (\<forall>i. (\<forall>j < length calls. i \<noteq> call_id counter j) \<longrightarrow> trace_of i acts = [])"
proof -
  let ?n = "length calls"
  from round_uniform [OF assms(1)] obtain indexed s1 a1 permitted s2 a2 ms a3 where
    i: "index_calls env 0 counter calls (replicate ?n None) = (indexed, s1, a1, counter')" and
    p: "check_calls env indexed s1 = (permitted, s2, a2)" and
    e: "ExecuteBatches env (tool_limit env) (Partition permitted) w = (ms, a3, w')" and
    r: "acts = a1 @ a2 @ a3" .
  note mem = indexed_facts(1) [OF i assms(2)] and idx = indexed_facts(2) [OF i assms(2)]
    and dT = indexed_facts(4) [OF i assms(2,3)]
  note perm = permitted_facts(1) [OF p]
  have lim: "0 < tool_limit env" by (simp add: tool_limit_def)
  have ex: "executed permitted ms a3"
    using executed_batches [OF e lim] permitted_facts(3) [OF p dT] by (simp add: Partition_calls)
  note tr1 = index_calls_trace [OF i assms(2,3)] and tr2 = check_calls_trace [OF p dT]
  have tr3: "i \<notin> ToolID ` set permitted \<Longrightarrow> trace_of i a3 = []" for i using ex by (auto simp: executed_def)
  have none: "trace_of i a2 = [] \<and> trace_of i a3 = []" if "i \<notin> ToolID ` set indexed" for i
  proof -
    have "i \<notin> ToolID ` set permitted"
    proof
      assume "i \<in> ToolID ` set permitted"
      then obtain ic where "ic \<in> set indexed" "i = ToolID (with_update env ic)" by (auto simp: perm)
      with that show False by simp
    qed
    with that tr2 tr3 [of i] show ?thesis by blast
  qed
  have "call_trace_ok env counter j (calls ! j) (trace_of (call_id counter j) acts)" if j: "j < ?n" for j
  proof (cases "parse_call env (calls ! j)")
    case (Inl ec)
    have "call_id counter j \<notin> ToolID ` set indexed"
    proof
      assume "call_id counter j \<in> ToolID ` set indexed"
      then obtain ic where ic: "ic \<in> set indexed" "call_id counter (Index ic) = call_id counter j" using idx by auto
      then have "Index ic = j" using call_id_inject [OF ic(2) _ j assms(3)] idx [OF ic(1)] by simp
      with ic(1) mem Inl show False by (auto simp: the_call_def)
    qed
    with none tr1 j Inl show ?thesis
      by (cases ec) (auto simp: r index_trace_def call_trace_ok_def failed_trace_def fail_call_def)
  next
    case (Inr tx)
    obtain t x where tx: "tx = (t, x)" by (cases tx)
    define ic where "ic = the_call 0 counter j (calls ! j) t x"
    have ic: "ic \<in> set indexed" "ToolID ic = call_id counter j" "Call ic = calls ! j"
      using mem j Inr tx by (auto simp: ic_def the_call_def)
    have t1: "trace_of (call_id counter j) a1 = []" using tr1 j Inr by (simp add: index_trace_def)
    have t2: "trace_of (call_id counter j) a2 = (if allowed env ic then [] else denied_trace env ic)"
      using tr2 ic by auto
    show ?thesis
    proof (cases "allowed env ic")
      case True
      then have w: "with_update env ic \<in> set permitted" using ic by (auto simp: perm)
      then have "run_trace (call_id counter j) (call_Name (calls ! j)) (Input (with_update env ic))
          (trace_of (call_id counter j) a3)" using ex ic by (fastforce simp: executed_def)
      with t1 t2 True Inr tx show ?thesis
        by (simp add: r call_trace_ok_def ic_def [symmetric] Let_def)
    next
      case False
      have "call_id counter j \<notin> ToolID ` set permitted"
      proof
        assume "call_id counter j \<in> ToolID ` set permitted"
        then obtain ic' where "ic' \<in> set indexed" "allowed env ic'" "ToolID ic' = ToolID ic"
          using ic by (auto simp: perm)
        then have "ic' = ic" using dT ic(1) by (auto simp: distinct_map inj_on_def)
        with False \<open>allowed env ic'\<close> show False by simp
      qed
      with tr3 t1 t2 False Inr tx ic show ?thesis
        by (auto simp: r call_trace_ok_def ic_def [symmetric] Let_def denied_trace_def failed_trace_def fail_call_def)
    qed
  qed
  moreover have "trace_of i acts = []" if "\<forall>j < ?n. i \<noteq> call_id counter j" for i
  proof -
    have "i \<notin> ToolID ` set indexed" using that idx by auto
    with none that tr1 show ?thesis by (auto simp: r)
  qed
  ultimately show ?thesis by blast
qed

text \<open>
  C17. Every tool call of a round is answered: the messages that go back to the model are exactly one
  per call, in the order of the calls and with their names, whatever calls are unknown,
  malformed, denied, or run side by side; so the assistant message and these answers together are a
  well-paired piece of conversation.
\<close>

theorem tool_round_answers:
  assumes "executeToolCallsConcurrent env counter calls w = ((msgs, count), acts, counter', w')"
    "counter < 2 ^ 64"
  shows "list_all2 (\<lambda>call m. \<exists>content. m = tool_message (call_Name call) content) calls msgs
    \<and> count = length calls \<and> paired True msgs"
proof -
  have a: "list_all2 (\<lambda>call m. \<exists>content. m = tool_message (call_Name call) content) calls msgs"
    using round_answers [OF assms] by (simp add: slot_answer_def)
  then have "list_all is_result msgs" by (induction rule: list_all2_induct) auto
  moreover have "count = length calls" using round_uniform [OF assms(1)] by metis
  ultimately show ?thesis using a paired_results by blast
qed

definition demo_tool :: "(unit, string, unit, string, nat) agent_tool" where
  "demo_tool = \<lparr>IsConcurrencySafe = (\<lambda>_. True), IsDestructive = (\<lambda>_. False), UnmarshalInput = Inr,
     CheckPermissions = (\<lambda>_ _. \<lparr>pr_Decision = PermAllow, pr_Reason = [], pr_UpdatedInput = None\<rparr>),
     CallFunc = (\<lambda>x n. (([x], \<lparr>Display = x, Data = None\<rparr>, None), Suc n))\<rparr>"

definition demo_env :: "(string, unit, string, unit, string, nat) tool_env" where
  "demo_env = \<lparr>te_Lookup = (\<lambda>n. if n = ''Read'' then Some demo_tool else None), te_marshal = Inr,
     te_marshalIndent = (\<lambda>_. None), te_sep = CHR ''/'', te_view = demo_view,
     te_callbacks = demo_callbacks, te_Mode = ModeDefault, te_Rules = no_rules,
     te_ToolContext = \<lparr>tc_PermissionMode = PermissionDefault\<rparr>, te_hasPostToolUse = True,
     te_hasPermissionDenied = True, te_hasBatchObserver = False, te_MaxConcurrentTools = 2,
     te_MaxResultChars = 100, te_choices = (\<lambda>n. [n, 2, 1])\<rparr>"

definition demo_calls :: "string ToolCall list" where
  "demo_calls = [\<lparr>call_Name = ''Read'', call_Arguments = ''a''\<rparr>, \<lparr>call_Name = ''Nope'', call_Arguments = ''b''\<rparr>,
     \<lparr>call_Name = ''Read'', call_Arguments = ''c''\<rparr>]"

theorem tool_round_answers_witness:
  "list_all2 (\<lambda>call m. \<exists>content. m = tool_message (call_Name call) content) demo_calls
     (fst (fst (executeToolCallsConcurrent demo_env 5 demo_calls 1)))
   \<and> snd (fst (executeToolCallsConcurrent demo_env 5 demo_calls 1)) = 3"
proof -
  obtain msgs count acts c' w' where
    e: "executeToolCallsConcurrent demo_env 5 demo_calls 1 = ((msgs, count), acts, c', w')"
    by (metis prod.exhaust)
  have "(5::nat) < 2 ^ 64" "length demo_calls = 3" by (simp_all add: demo_calls_def)
  with tool_round_answers [OF e] show ?thesis unfolding e by simp
qed

text \<open>
  What is seen of a round: for every call a start event, and then either an error result or the
  call itself, its progress in order and one result; a tool runs at most once per call, only if the
  call could be parsed and the permission resolver allows it, and with the input the resolver left;
  no event carries another identifier. All this holds for every schedule of the goroutines.
\<close>

theorem tool_round_traces:
  assumes "executeToolCallsConcurrent env counter calls w = ((msgs, count), acts, counter', w')"
    "counter < 2 ^ 64" "length calls \<le> 2 ^ 64"
  shows "(\<forall>j < length calls. call_trace_ok env counter j (calls ! j) (trace_of (call_id counter j) acts))
    \<and> (\<forall>i. (\<forall>j < length calls. i \<noteq> call_id counter j) \<longrightarrow> trace_of i acts = [])"
  using round_traces [OF assms] by blast

theorem tool_round_traces_witness:
  "call_trace_ok demo_env 5 0 (demo_calls ! 0)
    (trace_of (call_id 5 0) (fst (snd (executeToolCallsConcurrent demo_env 5 demo_calls 1))))
   \<and> call_trace_ok demo_env 5 1 (demo_calls ! 1)
    (trace_of (call_id 5 1) (fst (snd (executeToolCallsConcurrent demo_env 5 demo_calls 1))))"
proof -
  obtain msgs count acts c' w' where
    e: "executeToolCallsConcurrent demo_env 5 demo_calls 1 = ((msgs, count), acts, c', w')"
    by (metis prod.exhaust)
  have b: "(5::nat) < 2 ^ 64" "length demo_calls \<le> 2 ^ 64" "length demo_calls = 3" by (simp_all add: demo_calls_def)
  note t = conjunct1 [OF tool_round_traces [OF e b(1,2)], rule_format]
  show ?thesis using t [of 0] t [of 1] b(3) unfolding e by simp
qed

text \<open>
  No tool runs unless the resolver allows exactly this call: whenever a tool is called, the call is
  one of the round, it could be parsed, and the decision on it is allow.
\<close>

theorem only_allowed_calls_run:
  assumes "executeToolCallsConcurrent env counter calls w = ((msgs, count), acts, counter', w')"
    "counter < 2 ^ 64" "length calls \<le> 2 ^ 64" "Ran i x \<in> set acts"
  shows "\<exists>j < length calls. \<exists>tool input. i = call_id counter j \<and> parse_call env (calls ! j) = Inr (tool, input)
    \<and> res_Decision (call_decision env (the_call 0 counter j (calls ! j) tool input)) = DecisionAllow
    \<and> x = Input (with_update env (the_call 0 counter j (calls ! j) tool input))"
proof -
  have ran: "Ran i x \<in> set (trace_of i acts)" using assms(4) by (simp add: trace_of_def)
  obtain j where j: "j < length calls" "i = call_id counter j"
  proof (cases "\<exists>j < length calls. i = call_id counter j")
    case False
    with round_traces [OF assms(1-3)] have "trace_of i acts = []" by blast
    with ran show ?thesis by simp
  qed (use that in blast)
  have ok: "call_trace_ok env counter j (calls ! j) (trace_of i acts)"
    using round_traces [OF assms(1-3)] j by blast
  have nf: "\<not> failed_trace k n (trace_of i acts)" for k n using ran by (auto simp: failed_trace_def)
  from ok nf obtain tool input where p: "parse_call env (calls ! j) = Inr (tool, input)"
    by (auto simp: call_trace_ok_def split: sum.splits)
  from ok p nf have al: "allowed env (the_call 0 counter j (calls ! j) tool input)"
    and rt: "run_trace i (call_Name (calls ! j)) (Input (with_update env (the_call 0 counter j (calls ! j) tool input)))
      (trace_of i acts)"
    by (auto simp: call_trace_ok_def Let_def j split: if_splits)
  from rt ran have "x = Input (with_update env (the_call 0 counter j (calls ! j) tool input))"
    by (auto simp: run_trace_def)
  with j p al show ?thesis unfolding allowed_def by blast
qed

lemma demo_allowed:
  "parse_call demo_env (demo_calls ! 0) = Inr (demo_tool, ''a'')"
  "allowed demo_env (the_call 0 5 0 (demo_calls ! 0) demo_tool ''a'')"
  by (simp_all add: parse_call_def demo_env_def demo_calls_def demo_tool_def allowed_def call_decision_def
      call_request_def the_call_def Resolve_def Let_def demo_callbacks_def run_hook_def demo_view_def no_rules_def
      FirstMatchingRule_def first_match_def ExtractTarget_def nonempty_def mk_result_def ask_like_default_def observe_def)

lemma demo_round_runs:
  assumes "executeToolCallsConcurrent demo_env 5 demo_calls 1 = ((msgs, n), acts, c', w')"
  shows "\<exists>x. Ran (call_id 5 0) x \<in> set acts"
proof -
  have b: "(5::nat) < 2 ^ 64" "length demo_calls \<le> 2 ^ 64" "length demo_calls = 3" by (simp_all add: demo_calls_def)
  have "call_trace_ok demo_env 5 0 (demo_calls ! 0) (trace_of (call_id 5 0) acts)"
    using round_traces [OF assms b(1,2)] b(3) by simp
  then have "\<exists>x. Ran (call_id 5 0) x \<in> set (trace_of (call_id 5 0) acts)"
    using demo_allowed by (fastforce simp: call_trace_ok_def run_trace_def Let_def)
  then show ?thesis by (auto simp: trace_of_def)
qed

theorem only_allowed_calls_run_witness:
  "\<exists>j < 3. \<exists>tool input. call_id 5 0 = call_id 5 j \<and> parse_call demo_env (demo_calls ! j) = Inr (tool, input)
    \<and> res_Decision (call_decision demo_env (the_call 0 5 j (demo_calls ! j) tool input)) = DecisionAllow"
proof -
  obtain msgs count acts c' w' where
    e: "executeToolCallsConcurrent demo_env 5 demo_calls 1 = ((msgs, count), acts, c', w')"
    by (metis prod.exhaust)
  have b: "(5::nat) < 2 ^ 64" "length demo_calls \<le> 2 ^ 64" "length demo_calls = 3" by (simp_all add: demo_calls_def)
  obtain x where "Ran (call_id 5 0) x \<in> set acts" using demo_round_runs [OF e] ..
  from only_allowed_calls_run [OF e b(1,2) this] b(3) show ?thesis by auto
qed

end
