(* ===== verification/Agent_Turn.thy ===== *)
theory Agent_Turn
  imports Tool_Execution
begin

text \<open>
  One model turn (\<open>internal/agent/stream.go\<close>, \<open>internal/llm/watchdog.go\<close>): the request, the stream
  with its watchdog, the message that is put together from it, and the round of tool calls.

  The model client is the argument \<open>chat\<close>. When the watchdog's idle timer fires, or the run is
  cancelled, the stream is cut short; where that happens depends on time, so it is the argument
  \<open>stop\<close>: after that many events, with \<open>True\<close> for the timer and \<open>False\<close> for a cancellation.
\<close>

section \<open>The watchdog\<close>

definition watchdog_event :: "'a StreamEvent" where
  "watchdog_event = \<lparr>ev_Message = \<lparr>msg_Role = [], msg_Content = [], msg_Thinking = [], msg_ToolCalls = [],
       msg_ToolName = [], msg_Images = []\<rparr>, ev_Done = True, ev_DoneReason = ''watchdog_timeout'',
     ev_PromptEvalCount = 0, ev_EvalCount = 0, ev_TotalDuration = 0\<rparr>"

fun WatchStream :: "(nat \<times> bool) option \<Rightarrow> 'a StreamEvent list \<Rightarrow> 'a StreamEvent list" where
  "WatchStream (Some (0, idle)) input = (if idle then [watchdog_event] else [])"
| "WatchStream stop [] = []"
| "WatchStream stop (event # input) =
     event # (if ev_Done event then []
              else WatchStream (map_option (\<lambda>(n, idle). (n - 1, idle)) stop) input)"

section \<open>Accumulating the stream\<close>

record 'a turnResult =
  AssistantMessage :: "'a llm_Message"
  ToolCallMessages :: "'a llm_Message list"
  DoneReason :: string
  PromptEvalCount :: int
  EvalCount :: int
  TotalDuration :: int
  ToolCallsInTurn :: nat

definition zero_turn :: "'a turnResult" where
  "zero_turn = \<lparr>AssistantMessage = \<lparr>msg_Role = [], msg_Content = [], msg_Thinking = [], msg_ToolCalls = [],
       msg_ToolName = [], msg_Images = []\<rparr>, ToolCallMessages = [], DoneReason = [], PromptEvalCount = 0,
     EvalCount = 0, TotalDuration = 0, ToolCallsInTurn = 0\<rparr>"

text \<open>The buffers of the loop, and the flag for the first token.\<close>

record 'a accumulator =
  acc_content :: string
  acc_thinking :: string
  acc_toolCalls :: "'a ToolCall list"
  acc_usage :: "'a turnResult"
  acc_firstTokenSent :: bool

definition accumulate_event :: "'a accumulator \<Rightarrow> 'a StreamEvent \<Rightarrow> 'a accumulator \<times> ('a, 'i, 'd, 'p) action list" where
  "accumulate_event st evt =
     (let m = ev_Message evt;
          first = (\<not> acc_firstTokenSent st
            \<and> (msg_Content m \<noteq> [] \<or> msg_Thinking m \<noteq> [] \<or> 0 < length (msg_ToolCalls m)));
          usage = acc_usage st
      in (\<lparr>acc_content = acc_content st @ msg_Content m,
           acc_thinking = acc_thinking st @ msg_Thinking m,
           acc_toolCalls = (if 0 < length (msg_ToolCalls m) then msg_ToolCalls m else acc_toolCalls st),
           acc_usage = (if ev_Done evt then usage\<lparr>DoneReason := ev_DoneReason evt,
               PromptEvalCount := ev_PromptEvalCount evt, EvalCount := ev_EvalCount evt,
               TotalDuration := ev_TotalDuration evt\<rparr> else usage),
           acc_firstTokenSent = (first \<or> acc_firstTokenSent st)\<rparr>,
          (if first then [Send FirstTokenReceived] else [])
          @ (if msg_Content m \<noteq> [] then [Send (AssistantTextDelta (msg_Content m))] else [])
          @ (if msg_Thinking m \<noteq> [] then [Send (AssistantThinkingDelta (msg_Thinking m))] else [])))"

fun accumulate :: "'a accumulator \<Rightarrow> 'a StreamEvent list \<Rightarrow> 'a accumulator \<times> ('a, 'i, 'd, 'p) action list" where
  "accumulate st [] = (st, [])"
| "accumulate st (evt # stream) =
     (let (st, acts) = accumulate_event st evt; (st, acts') = accumulate st stream in (st, acts @ acts'))"

definition accumulateTurn :: "('a, 'c, 'i, 'd, 'p, 'w) tool_env \<Rightarrow> nat \<Rightarrow> 'a StreamEvent list \<Rightarrow> 'w \<Rightarrow>
    'a turnResult \<times> ('a, 'i, 'd, 'p) action list \<times> nat \<times> 'w" where
  "accumulateTurn env counter stream w =
     (let (st, acts) = accumulate \<lparr>acc_content = [], acc_thinking = [], acc_toolCalls = [],
            acc_usage = zero_turn, acc_firstTokenSent = False\<rparr> stream;
          calls = acc_toolCalls st;
          assistantMsg = \<lparr>msg_Role = RoleAssistant, msg_Content = acc_content st,
            msg_Thinking = acc_thinking st, msg_ToolCalls = calls, msg_ToolName = [], msg_Images = []\<rparr>;
          usage = (acc_usage st)\<lparr>AssistantMessage := assistantMsg\<rparr> in
      if 0 < length calls then
        let ((msgs, count), acts', counter, w) = executeToolCallsConcurrent env counter calls w
        in (usage\<lparr>ToolCallMessages := msgs, ToolCallsInTurn := count\<rparr>, acts @ acts', counter, w)
      else (usage, acts, counter, w))"

section \<open>The turn\<close>

text \<open>What \<open>buildToolDefs\<close> reads of a tool: its name, whether it is enabled, whether it is valid.\<close>

type_synonym tool_info = "string \<times> bool \<times> bool"

definition buildToolDefs :: "string \<Rightarrow> tool_info list \<Rightarrow> string list" where
  "buildToolDefs toolMode registry =
     (if EqualFold (TrimSpace toolMode) ''none'' then []
      else map fst (filter (\<lambda>(name, enabled, valid). enabled \<and> valid) registry))"

record ('a, 'c, 'i, 'd, 'p, 'w) turn_env =
  tn_chat :: "('a, 'w) chat"
  tn_cut :: "'w \<Rightarrow> (nat \<times> bool) option"
  tn_tools :: "('a, 'c, 'i, 'd, 'p, 'w) tool_env"
  tn_registry :: "tool_info list"
  tn_Model :: string
  tn_ToolMode :: string
  tn_KeepAlive :: string

definition chat_request :: "('a, 'c, 'i, 'd, 'p, 'w) turn_env \<Rightarrow> 'a llm_Message list \<Rightarrow> int \<Rightarrow> int \<Rightarrow> 'a ChatRequest" where
  "chat_request env history outputTokenBudget numCtx =
     \<lparr>rq_Model = tn_Model env, rq_Messages = history, rq_ToolNames = buildToolDefs (tn_ToolMode env) (tn_registry env),
      rq_Stream = True, rq_Think = SupportsThinking (ModelCapabilities (tn_Model env)),
      rq_KeepAlive = TrimSpace (tn_KeepAlive env), rq_num_predict = outputTokenBudget, rq_num_ctx = Some numCtx\<rparr>"

definition executeOneTurn :: "('a, 'c, 'i, 'd, 'p, 'w) turn_env \<Rightarrow> nat \<Rightarrow> 'a llm_Message list \<Rightarrow> int \<Rightarrow> int \<Rightarrow> 'w \<Rightarrow>
    (go_error + 'a turnResult) \<times> ('a, 'i, 'd, 'p) action list \<times> nat \<times> 'w" where
  "executeOneTurn env counter history outputTokenBudget numCtx w =
     (case tn_chat env (chat_request env history outputTokenBudget numCtx) w of
        (Inl e, w) \<Rightarrow> (Inl e, [Send LLMRequestStarted, Asked (chat_request env history outputTokenBudget numCtx)], counter, w)
      | (Inr stream, w) \<Rightarrow>
          (let (res, acts, counter, w) =
             accumulateTurn (tn_tools env) counter (WatchStream (tn_cut env w) (map fst stream)) w
           in (Inr res, [Send LLMRequestStarted, Asked (chat_request env history outputTokenBudget numCtx),
               Send LLMStreamOpened] @ acts, counter, w)))"

section \<open>What a turn returns\<close>

text \<open>The watchdog passes on an initial part of the stream, up to and including the first done event.\<close>

fun until_done :: "'a StreamEvent list \<Rightarrow> 'a StreamEvent list" where
  "until_done [] = []"
| "until_done (e # es) = e # (if ev_Done e then [] else until_done es)"

lemma WatchStream_None: "WatchStream None input = until_done input"
  by (induction input) simp_all

lemma WatchStream_prefix:
  "\<exists>n. WatchStream stop input = take n (until_done input)
    \<or> WatchStream stop input = take n (until_done input) @ [watchdog_event]"
proof (induction input arbitrary: stop)
  case Nil
  consider idle where "stop = Some (0, idle)" | "WatchStream stop [] = []"
    by (cases stop; cases "fst (the stop)") auto
  then show ?case by cases (auto intro: exI [of _ 0])
next
  case (Cons event input)
  let ?next = "map_option (\<lambda>(n, idle). (n - 1, idle)) stop"
  consider idle where "stop = Some (0, idle)" | "WatchStream stop (event # input) =
      event # (if ev_Done event then [] else WatchStream ?next input)"
    by (cases stop; cases "fst (the stop)") auto
  then show ?case
  proof cases
    case 1
    then show ?thesis by (intro exI [of _ 0]) simp
  next
    case 2
    from Cons.IH [of ?next] obtain n where "WatchStream ?next input = take n (until_done input)
        \<or> WatchStream ?next input = take n (until_done input) @ [watchdog_event]" by blast
    with 2 show ?thesis by (intro exI [of _ "Suc n"]) auto
  qed
qed

end
