(* ===== verification/Incomplete_Response.thy ===== *)
theory Incomplete_Response
  imports Agent_Messages
begin

text \<open>
  Detecting an answer that stops short (\<open>internal/agent/incomplete_response.go\<close>), and the prompt that
  asks the model to go on. A slice expression that is out of range panics; the functions that
  contain one return an \<open>option\<close>, with \<open>None\<close> for the panic.
\<close>

section \<open>Words and cues\<close>

definition wordCount :: "string \<Rightarrow> nat" where
  "wordCount s = length (Fields s)"

definition containsAny :: "string \<Rightarrow> string list \<Rightarrow> bool" where
  "containsAny s needles = list_ex (\<lambda>n. Contains s n) needles"

definition preambleOnlyCues :: "string list" where
  "preambleOnlyCues = [''based on'', ''comprehensive'', ''here is'', ''here are'', ''here'' @ [CHR 39] @ ''s'',
     ''i can now'', ''i will'', ''i'' @ [CHR 39] @ ''ll'', ''the fix is'', ''let me'', ''now i have'',
     ''summary'', ''report'', ''analysis'']"

definition explicitPromiseCues :: "string list" where
  "explicitPromiseCues = [''i am going to write'', ''i can now write'', ''i found the issue'',
     ''i will provide'', ''i will now write'', ''i will write'', ''i'' @ [CHR 39] @ ''m going to write'',
     ''i'' @ [CHR 39] @ ''ll now write'', ''i'' @ [CHR 39] @ ''ll write'', ''let me write'',
     ''now i have the full picture'', ''follows below'', ''as follows'']"

text \<open>The replacer of \<open>normalizeAssistantPreamble\<close>: typographic quotes become plain ones.\<close>

definition quote_table :: "(string \<times> char) list" where
  "quote_table = [(encode_rune 0x2018, CHR 39), (encode_rune 0x2019, CHR 39),
     (encode_rune 0x201C, CHR 34), (encode_rune 0x201D, CHR 34)]"

function replace_quotes :: "string \<Rightarrow> string" where
  "replace_quotes s =
     (case s of
        [] \<Rightarrow> []
      | c # cs \<Rightarrow>
          (case find (\<lambda>(old, _). HasPrefix s old) quote_table of
             None \<Rightarrow> c # replace_quotes cs
           | Some (old, new) \<Rightarrow> new # replace_quotes (drop (length old - 1) cs)))"
  by pat_completeness auto
termination by (relation "measure length") auto

declare replace_quotes.simps [simp del]

definition normalizeAssistantPreamble :: "string \<Rightarrow> string" where
  "normalizeAssistantPreamble s = JoinStr (Fields (replace_quotes (ToLower s))) '' ''"

section \<open>Does the answer look incomplete?\<close>

definition blanks :: "char set" where
  "blanks = {CHR '' '', CHR 9, CHR 13, CHR 10}"

definition shouldRetryIncompleteAssistantResponse :: "'a llm_Message \<Rightarrow> string \<Rightarrow> bool" where
  "shouldRetryIncompleteAssistantResponse msg doneReason =
     (if msg_ToolCalls msg \<noteq> [] then False
      else if doneReason \<noteq> [] \<and> doneReason \<noteq> ''stop'' then False
      else
        let content = TrimSpace (msg_Content msg) in
        if content = [] then TrimSpace (msg_Thinking msg) \<noteq> []
        else if 180 < wordCount content \<or> 1200 < length content then False
        else
          let normalized = normalizeAssistantPreamble content in
          if HasSuffix (TrimRight content blanks) '':'' \<and> containsAny normalized preambleOnlyCues then True
          else containsAny normalized explicitPromiseCues \<and> wordCount content \<le> 120)"

definition listingAnswerLooksSubstantive :: "string \<Rightarrow> bool" where
  "listingAnswerLooksSubstantive content =
     (let trimmed = TrimSpace content in
      if trimmed = [] then False
      else if 80 < wordCount trimmed then True
      else
        let path_like = (\<lambda>line. let l = TrimSpace line in
              l \<noteq> [] \<and> (Contains l ''/'' \<or> HasSuffix l ''.md'' \<or> HasSuffix l ''.txt''))
        in 3 \<le> length (filter path_like (Split trimmed (CHR 10))))"

section \<open>The prompt for the retry\<close>

text \<open>\<open>s[n:]\<close> and \<open>s[:n]\<close>.\<close>

definition slice_from :: "string \<Rightarrow> nat \<Rightarrow> string option" where
  "slice_from s n = (if n \<le> length s then Some (drop n s) else None)"

definition slice_to :: "string \<Rightarrow> nat \<Rightarrow> string option" where
  "slice_to s n = (if n \<le> length s then Some (take n s) else None)"

definition extractOriginalUserRequest :: "string \<Rightarrow> string option" where
  "extractOriginalUserRequest s =
     (case Index_of (ToLower s) ''user request:'' of
        None \<Rightarrow> Some s
      | Some idx \<Rightarrow>
          (case slice_from s (idx + length ''user request:'') of
             None \<Rightarrow> None
           | Some r \<Rightarrow>
               let rest = TrimSpace r in
               case Index_of (ToLower rest) ([CHR 10, CHR 10] @ ''directory tree data:'') of
                 None \<Rightarrow> Some rest
               | Some treeIdx \<Rightarrow> map_option TrimSpace (slice_to rest treeIdx)))"

definition extractDirectoryTreeData :: "string \<Rightarrow> string option" where
  "extractDirectoryTreeData s =
     (case Index_of (ToLower s) ''directory tree data:'' of
        None \<Rightarrow> Some []
      | Some idx \<Rightarrow> map_option TrimSpace (slice_from s (idx + length ''directory tree data:'')))"

record incompleteRetryInput =
  ir_PromptIntent :: string
  ir_AttachmentPolicy :: string
  ir_OriginalUserText :: string
  ir_LastUserContent :: string
  ir_LastAssistantContent :: string

definition listing_intro :: string where
  "listing_intro = ''Your previous response looked incomplete. Continue by answering this listing request:'' @ [CHR 10, CHR 10]"

definition anchored_intro :: string where
  "anchored_intro = ''Your previous response looked incomplete. Answer the original user request below without continuing any unrelated prior task.'' @ [CHR 10, CHR 10] @ ''Original user request:'' @ [CHR 10]"

text \<open>\<open>None\<close>: a panic. \<open>Some None\<close>: the code's \<open>("", false)\<close>, no retry.\<close>

definition buildIncompleteAssistantRetryPrompt :: "incompleteRetryInput \<Rightarrow> string option option" where
  "buildIncompleteAssistantRetryPrompt inp =
     (let lastUser = TrimSpace (ir_LastUserContent inp);
          lastUser = (if lastUser = [] then TrimSpace (ir_OriginalUserText inp) else lastUser) in
      if EqualFold (TrimSpace (ir_PromptIntent inp)) ''directory_listing''
         \<or> EqualFold (TrimSpace (ir_AttachmentPolicy inp)) ''listing_tree_only''
         \<or> Contains lastUser ''Directory tree data:'' then
        if listingAnswerLooksSubstantive (ir_LastAssistantContent inp) then Some None
        else
          (case (extractOriginalUserRequest lastUser, extractDirectoryTreeData lastUser) of
             (Some o1, Some t) \<Rightarrow>
               let original = TrimSpace o1;
                   original = (if original = [] then TrimSpace (ir_OriginalUserText inp) else original);
                   tree = TrimSpace t
               in Some (Some (TrimSpace (listing_intro
                    @ (if original \<noteq> [] then ''Original user request:'' @ [CHR 10] @ original @ [CHR 10, CHR 10] else [])
                    @ (if tree \<noteq> [] then ''Directory tree data:'' @ [CHR 10] @ tree else []))))
           | _ \<Rightarrow> None)
      else
        let original = TrimSpace (ir_OriginalUserText inp) in
        if original \<noteq> [] then Some (Some (anchored_intro @ original))
        else
          (case extractOriginalUserRequest lastUser of
             None \<Rightarrow> None
           | Some o1 \<Rightarrow>
               let original = TrimSpace o1;
                   original = (if original = [] then TrimSpace lastUser else original)
               in if original = [] then Some None else Some (Some (anchored_intro @ original))))"

section \<open>What it does\<close>

text \<open>
  A retry is only asked for after a turn that ended normally, without tool calls, and with at most
  180 words; an empty answer is retried only if the model was thinking.
\<close>

lemma retry_only_short_answers:
  assumes "shouldRetryIncompleteAssistantResponse msg doneReason"
  shows "msg_ToolCalls msg = [] \<and> (doneReason = [] \<or> doneReason = ''stop'')
    \<and> wordCount (TrimSpace (msg_Content msg)) \<le> 180 \<and> length (TrimSpace (msg_Content msg)) \<le> 1200"
  using assms by (auto simp: shouldRetryIncompleteAssistantResponse_def Let_def wordCount_def Fields_def
      chunks.simps split: if_splits)

text \<open>
  On ASCII text lower-casing keeps positions, so the slices are in range and the prompt is built;
  with other letters the lower-cased text can be longer than the original, and the slice panics.
\<close>

lemma length_ToLower_ascii: "is_ascii s \<Longrightarrow> length (ToLower s) = length s"
  by (simp add: ToLower_ascii)

lemma extract_total:
  assumes "is_ascii s"
  shows "extractDirectoryTreeData s \<noteq> None"
  using Index_of_bound [of "ToLower s" "''directory tree data:''"] assms
  by (auto simp: extractDirectoryTreeData_def slice_from_def length_ToLower_ascii split: option.split)

lemma ToLower_stroke: "ToLower (encode_rune 0x23A @ t) = encode_rune 0x2C65 @ ToLower t"
proof -
  have "unicode_ToLower 0x23A = 0x2C65" by (simp add: unicode_ToLower_def lower_table_def)
  moreover have "valid_rune 0x23A" by (simp add: valid_rune_def)
  ultimately show ?thesis by (simp add: ToLower_def runes_encode_rune string_of_runes_def)
qed

lemma lowercase_grows:
  "extractDirectoryTreeData (encode_rune 0x23A @ ''directory tree data:'') = None"
proof -
  have "is_ascii ''directory tree data:''" by (simp add: is_ascii_def)
  then have low: "ToLower ''directory tree data:'' = ''directory tree data:''"
    by (simp add: ToLower_ascii lower_char_id)
  have "encode_rune 0x2C65 = [char_of (0xE2::nat), char_of (0xB1::nat), char_of (0xA5::nat)]"
    "encode_rune 0x23A = [char_of (0xC8::nat), char_of (0xBA::nat)]"
    by (simp_all add: encode_rune_def encode_valid_def valid_rune_def)
  then show ?thesis unfolding extractDirectoryTreeData_def ToLower_stroke low
    by (simp add: slice_from_def)
qed

end
