(* ===== verification/Agent_Loop.thy ===== *)
theory Agent_Loop
  imports Agent_Turn Incomplete_Response
begin

text \<open>
  The agent loop (\<open>run\<close> of \<open>internal/agent/agent.go\<close>, with \<open>validateInput\<close> of
  \<open>internal/agent/input.go\<close> and \<open>classifyError\<close> of \<open>internal/agent/errors.go\<close>): model turns and tool
  rounds alternate until the model stops, with retries for answers that are too long or incomplete
  and compaction when the context fills up.

  One round of the loop is \<open>run_step\<close>; it ends the run, goes on with a new state, or panics. The
  callbacks of the caller (context, compaction requests, pending messages, stop hook) are functions
  of the state of the world. The loop itself has fuel, because a caller that always has pending
  messages keeps it going; how much is enough is proved below.
\<close>

section \<open>Input\<close>

record 'a Input = BudgetInput +
  in_Messages :: "'a llm_Message list"
  in_HistoryPolicy :: string
  in_PromptIntent :: string
  in_AttachmentPolicy :: string
  in_OriginalUserText :: string
  in_ToolsetName :: string
  in_PermissionMode :: mode

type_synonym ('c, 'i, 'd, 'p, 'w) registry = "(string \<Rightarrow> ('c, 'i, 'd, 'p, 'w) agent_tool option) \<times> tool_info list"

record ('a, 'c, 'i, 'd, 'p, 'w) run_env =
  re_cfg :: Config
  re_turn :: "('a, 'c, 'i, 'd, 'p, 'w) turn_env"
  re_tools :: "('c, 'i, 'd, 'p, 'w) registry"
  re_readOnlyTools :: "('c, 'i, 'd, 'p, 'w) registry option"
  re_ctxErr :: "'w \<Rightarrow> go_error option"
  re_CompactRequest :: "('w \<Rightarrow> bool \<times> 'w) option"
  re_PendingMessages :: "('w \<Rightarrow> 'a llm_Message list \<times> 'w) option"
  re_StopHook :: "('a llm_Message list \<Rightarrow> 'w \<Rightarrow> string option \<times> 'w) option"

definition validateInput :: "tools_mode \<Rightarrow> 'a Input \<Rightarrow> string + 'a Input" where
  "validateInput contextMode i =
     (if in_Model i = [] then Inl ''input.Model is required''
      else
        let toolMode = ToLower (TrimSpace (in_ToolMode i));
            mode = (if in_PermissionMode i = ModeOther [] then FromToolsMode contextMode else in_PermissionMode i)
        in Inr (i\<lparr>in_ToolsetName := (if in_ToolsetName i = [] then ''default'' else in_ToolsetName i),
                  in_ToolMode := (if toolMode = ''none'' then ''none'' else ''default''),
                  in_PermissionMode := (if mode = ModeOther [] then ModeDefault else Normalize mode)\<rparr>))"

definition nil_registry :: "('c, 'i, 'd, 'p, 'w) registry" where
  "nil_registry = (\<lambda>_. None, [])"

definition effectiveRegistry :: "string \<Rightarrow> ('c, 'i, 'd, 'p, 'w) registry \<Rightarrow> ('c, 'i, 'd, 'p, 'w) registry option \<Rightarrow>
    ('c, 'i, 'd, 'p, 'w) registry" where
  "effectiveRegistry toolsetName def readOnly =
     (let normalized = TrimSpace (ToLower toolsetName) in
      if normalized = [] \<or> normalized = ''default'' then def
      else if normalized = ''read_only'' then (case readOnly of None \<Rightarrow> nil_registry | Some r \<Rightarrow> r)
      else def)"

fun classifyError :: "go_error \<Rightarrow> TerminalReason \<times> string" where
  "classifyError Canceled = (TerminalAborted, ''context canceled'')"
| "classifyError DeadlineExceeded = (TerminalAborted, ''context deadline exceeded'')"
| "classifyError (OtherError e) = (TerminalUnrecoverable, e)"

definition latestUserContent :: "'a llm_Message list \<Rightarrow> string" where
  "latestUserContent history =
     (case find (\<lambda>m. msg_Role m = RoleUser) (rev history) of None \<Rightarrow> [] | Some m \<Rightarrow> msg_Content m)"

definition historyFileBodyCount :: "'a llm_Message list \<Rightarrow> int" where
  "historyFileBodyCount history = foldl (\<lambda>count m. count + int (Count_sub (msg_Content m) ''<file '')) 0 history"

definition isTerminalStreamFailure :: "string \<Rightarrow> bool" where
  "isTerminalStreamFailure doneReason = (doneReason = ''watchdog_timeout'' \<or> HasPrefix doneReason ''stream_error:'')"

definition streamFailureDetail :: "string \<Rightarrow> string" where
  "streamFailureDetail doneReason =
     (if doneReason = ''watchdog_timeout'' then ''llm stream watchdog timeout'' else doneReason)"

section \<open>State\<close>

record ('a, 'w) run_state =
  history :: "'a llm_Message list"
  usage :: Usage
  outputTokenBudget :: int
  lengthRetryCount :: nat
  incompleteRetryCount :: nat
  compactionAttempted :: bool
  lastContextTokens :: int
  addedConversation :: "'a llm_Message list"
  turn :: int
  toolID :: nat
  world :: 'w

datatype ('a, 'w) outcome = Continue "('a, 'w) run_state" | Finished | Crashed

definition initial_history :: "'a Input \<Rightarrow> 'a llm_Message list" where
  "initial_history i =
     (let h = in_Messages i;
          h = (if in_HistoryPolicy i = ''latest_only''
               then (case find (\<lambda>m. msg_Role m = RoleUser) (rev h) of None \<Rightarrow> h | Some m \<Rightarrow> [m]) else h)
      in if in_SystemPrompt i \<noteq> [] then text_message RoleSystem (in_SystemPrompt i) # h else h)"

definition initial_budget :: "Config \<Rightarrow> 'a Input \<Rightarrow> int" where
  "initial_budget cfg i = (if 0 < in_MaxOutputTokens i then in_MaxOutputTokens i else MaxOutputTokens cfg)"

definition zero_usage :: Usage where
  "zero_usage = \<lparr>u_PromptEvalCount = 0, u_EvalCount = 0, u_TotalDuration = 0, u_Turns = 0, u_ToolCalls = 0,
     u_DoneReason = []\<rparr>"

definition initial_state :: "Config \<Rightarrow> 'a Input \<Rightarrow> nat \<Rightarrow> 'w \<Rightarrow> ('a, 'w) run_state" where
  "initial_state cfg i counter w = \<lparr>history = initial_history i, usage = zero_usage,
     outputTokenBudget = initial_budget cfg i, lengthRetryCount = 0, incompleteRetryCount = 0,
     compactionAttempted = False, lastContextTokens = 0, addedConversation = [], turn = 1,
     toolID = counter, world = w\<rparr>"

definition terminal :: "TerminalReason \<Rightarrow> string \<Rightarrow> ('a, 'w) run_state \<Rightarrow> ('a, 'i, 'd, 'p) action list" where
  "terminal reason detail st = [Send (Terminal reason detail (usage st) (addedConversation st))]"

section \<open>One round of the loop\<close>

definition doCompact :: "('a, 'c, 'i, 'd, 'p, 'w) run_env \<Rightarrow> ('a, 'w) run_state \<Rightarrow>
    bool \<times> ('a, 'w) run_state \<times> ('a, 'i, 'd, 'p) action list" where
  "doCompact env st =
     (let (result, w) = Compact (tn_chat (re_turn env)) (Compaction (re_cfg env)) (tn_Model (re_turn env))
            (history st) (world st);
          acts = [Send (CompactionStarted (countTurns (history st)) (lastContextTokens st)),
                  Send (CompactionCompleted result)];
          st = st\<lparr>world := w\<rparr>
      in case cr_Messages result of
           None \<Rightarrow> (False, st, acts)
         | Some ms \<Rightarrow> if Skipped result then (False, st, acts) else (True, st\<lparr>history := ms\<rparr>, acts))"

definition manual_compaction :: "('a, 'c, 'i, 'd, 'p, 'w) run_env \<Rightarrow> ('a, 'w) run_state \<Rightarrow>
    ('a, 'w) run_state \<times> ('a, 'i, 'd, 'p) action list" where
  "manual_compaction env st =
     (case re_CompactRequest env of
        None \<Rightarrow> (st, [])
      | Some receive \<Rightarrow>
          let (requested, w) = receive (world st); st = st\<lparr>world := w\<rparr> in
          if requested then let (_, st, acts) = doCompact env st in (st, acts) else (st, []))"

definition run_report :: "'a Input \<Rightarrow> 'a packResult \<Rightarrow> PromptPackReport" where
  "run_report i packed = (Report packed)\<lparr>pp_HistoryPolicy := in_HistoryPolicy i, pp_Intent := in_PromptIntent i,
     pp_AttachmentPolicy := in_AttachmentPolicy i,
     pp_MemoryPolicy := (if EqualFold (TrimSpace (in_PromptIntent i)) ''directory_listing''
         \<or> EqualFold (TrimSpace (in_AttachmentPolicy i)) ''listing_tree_only''
       then ''skipped_listing_intent'' else ''default''),
     pp_RetryPolicy := ''anchored_original_request'',
     pp_DirectoryTreeAttached := Contains (latestUserContent (Messages packed)) ''Directory tree data:'',
     pp_IncludedFileBodies := historyFileBodyCount (Messages packed)\<rparr>"

definition pack_history :: "('a, 'c, 'i, 'd, 'p, 'w) run_env \<Rightarrow> 'a Input \<Rightarrow> ('a, 'w) run_state \<Rightarrow>
    'a llm_Message list \<times> int \<times> ('a, 'i, 'd, 'p) action list" where
  "pack_history env i st =
     (let cfg = re_cfg env;
          runNumCtx = effectiveNumCtx cfg i (in_Model i) (history st) (outputTokenBudget st);
          inputBudget = runNumCtx - outputTokenBudget st - ContextReserve cfg in
      if 0 < inputBudget then
        let packed = packPromptHistory (history st) inputBudget in
        (Messages packed, runNumCtx,
         if 0 < SkippedMessages (Report packed)
         then [Send (PackReport (run_report i packed)), Send (StageTiming ''prompt_pack'')] else [])
      else (history st, runNumCtx, []))"

definition add_usage :: "'a turnResult \<Rightarrow> Usage \<Rightarrow> Usage" where
  "add_usage r u = u\<lparr>u_PromptEvalCount := u_PromptEvalCount u + PromptEvalCount r,
     u_EvalCount := u_EvalCount u + EvalCount r, u_TotalDuration := u_TotalDuration u + TotalDuration r,
     u_ToolCalls := u_ToolCalls u + int (ToolCallsInTurn r), u_DoneReason := DoneReason r\<rparr>"

definition retry_notice :: "nat \<Rightarrow> string \<Rightarrow> string \<Rightarrow> 'a turnResult \<Rightarrow> ('a, 'i, 'd, 'p) action" where
  "retry_notice attempt cause kind r = Send (RetryNotice (int attempt) cause kind (DoneReason r)
     (int (length (msg_Content (AssistantMessage r)))) (int (length (msg_Thinking (AssistantMessage r)))))"

text \<open>A turn that ended because the output was too long.\<close>

definition length_stop :: "('a, 'c, 'i, 'd, 'p, 'w) run_env \<Rightarrow> 'a Input \<Rightarrow> 'a turnResult \<Rightarrow> ('a, 'w) run_state \<Rightarrow>
    ('a, 'w) outcome \<times> ('a, 'i, 'd, 'p) action list" where
  "length_stop env i r st0 =
     (let cfg = re_cfg env; st = st0\<lparr>lengthRetryCount := lengthRetryCount st0 + 1\<rparr>;
          overflow = ''context length exceeded after retry and compaction'' in
      if lengthRetryCount st = 1 then
        (Continue (st\<lparr>outputTokenBudget := LengthRetryTokens cfg\<rparr>), [retry_notice 1 ''context length exceeded, retrying with expanded token budget'' ''length'' r])
      else if lengthRetryCount st = 2 \<and> \<not> cc_Disabled (Compaction cfg) \<and> \<not> compactionAttempted st then
        let (compacted, st, acts) = doCompact env (st\<lparr>compactionAttempted := True\<rparr>) in
        if compacted then (Continue (st\<lparr>outputTokenBudget := initial_budget cfg i\<rparr>), acts)
        else (Finished, acts @ terminal TerminalContextOverflow overflow st)
      else (Finished, terminal TerminalContextOverflow overflow st))"

definition proactive_compaction :: "('a, 'c, 'i, 'd, 'p, 'w) run_env \<Rightarrow> ('a, 'w) run_state \<Rightarrow>
    ('a, 'w) run_state \<times> ('a, 'i, 'd, 'p) action list" where
  "proactive_compaction env st =
     (let cfg = Compaction (re_cfg env) in
      if \<not> cc_Disabled cfg \<and> 0 < cc_MaxContextTokens cfg
         \<and> cc_Threshold cfg (lastContextTokens st) (cc_MaxContextTokens cfg)
         \<and> cc_MinTurns cfg \<le> countTurns (history st)
      then let (_, st, acts) = doCompact env st in (st, acts) else (st, []))"

definition append_both :: "'a llm_Message list \<Rightarrow> ('a, 'w) run_state \<Rightarrow> ('a, 'w) run_state" where
  "append_both ms st = st\<lparr>history := history st @ ms, addedConversation := addedConversation st @ ms\<rparr>"

definition poll_pending :: "('a, 'c, 'i, 'd, 'p, 'w) run_env \<Rightarrow> ('a, 'w) run_state \<Rightarrow>
    'a llm_Message list \<times> ('a, 'w) run_state" where
  "poll_pending env st =
     (case re_PendingMessages env of
        None \<Rightarrow> ([], st)
      | Some provider \<Rightarrow> let (ms, w) = provider (world st) in (ms, st\<lparr>world := w\<rparr>))"

definition incompleteAssistantRetryLimit :: nat where
  "incompleteAssistantRetryLimit = 1"

text \<open>The model made no tool call: more messages, a retry, the stop hook, or the end.\<close>

definition stop_or_complete :: "('a, 'c, 'i, 'd, 'p, 'w) run_env \<Rightarrow> ('a, 'w) run_state \<Rightarrow>
    ('a, 'w) outcome \<times> ('a, 'i, 'd, 'p) action list" where
  "stop_or_complete env st =
     (case re_StopHook env of
        None \<Rightarrow> (Finished, terminal TerminalCompleted [] st)
      | Some hook \<Rightarrow>
          (case hook (addedConversation st) (world st) of
             (Some reason, w) \<Rightarrow>
               (Finished, Send (HookNotice reason) # terminal TerminalStopHook reason (st\<lparr>world := w\<rparr>))
           | (None, w) \<Rightarrow> (Finished, terminal TerminalCompleted [] (st\<lparr>world := w\<rparr>))))"

definition final_answer :: "('a, 'c, 'i, 'd, 'p, 'w) run_env \<Rightarrow> 'a Input \<Rightarrow> 'a turnResult \<Rightarrow> ('a, 'w) run_state \<Rightarrow>
    ('a, 'w) outcome \<times> ('a, 'i, 'd, 'p) action list" where
  "final_answer env i r st0 =
     (let (pending, st) = poll_pending env st0 in
      if 0 < length pending then (Continue (append_both pending st), [])
      else if shouldRetryIncompleteAssistantResponse (AssistantMessage r) (DoneReason r)
              \<and> incompleteRetryCount st < incompleteAssistantRetryLimit then
        let st = st\<lparr>incompleteRetryCount := incompleteRetryCount st + 1\<rparr> in
        case buildIncompleteAssistantRetryPrompt \<lparr>ir_PromptIntent = in_PromptIntent i,
               ir_AttachmentPolicy = in_AttachmentPolicy i, ir_OriginalUserText = in_OriginalUserText i,
               ir_LastUserContent = latestUserContent (history st),
               ir_LastAssistantContent = msg_Content (AssistantMessage r)\<rparr> of
          None \<Rightarrow> (Crashed, [])
        | Some None \<Rightarrow> (Finished, terminal TerminalCompleted [] st)
        | Some (Some retryPrompt) \<Rightarrow>
            (Continue (st\<lparr>history := history st @ [text_message RoleUser retryPrompt]\<rparr>),
             [retry_notice (incompleteRetryCount st)
                ''assistant response looked incomplete, requesting an anchored continuation''
                ''incomplete_assistant_response'' r])
      else stop_or_complete env st)"

definition after_turn :: "('a, 'c, 'i, 'd, 'p, 'w) run_env \<Rightarrow> 'a Input \<Rightarrow> 'a turnResult \<Rightarrow> ('a, 'w) run_state \<Rightarrow>
    ('a, 'w) outcome \<times> ('a, 'i, 'd, 'p) action list" where
  "after_turn env i r st =
     (if DoneReason r = ''length'' then length_stop env i r st
      else if isTerminalStreamFailure (DoneReason r)
      then (Finished, terminal TerminalUnrecoverable (streamFailureDetail (DoneReason r)) st)
      else
        let (st, acts) = proactive_compaction env (st\<lparr>lengthRetryCount := 0\<rparr>);
            st = append_both [AssistantMessage r] st in
        if length (ToolCallMessages r) = 0 then
          let (out, acts') = final_answer env i r st in (out, acts @ acts')
        else
          let (pending, st) = poll_pending env (append_both (ToolCallMessages r) st);
              st = (if 0 < length pending then append_both pending st else st)
          in (Continue (st\<lparr>turn := turn st + 1\<rparr>), acts))"

definition run_step :: "('a, 'c, 'i, 'd, 'p, 'w) run_env \<Rightarrow> 'a Input \<Rightarrow> ('a, 'w) run_state \<Rightarrow>
    ('a, 'w) outcome \<times> ('a, 'i, 'd, 'p) action list" where
  "run_step env i st =
     (let cfg = re_cfg env in
      if \<not> (MaxTurns cfg = 0 \<or> turn st \<le> MaxTurns cfg)
      then (Finished, terminal TerminalMaxTurns ''exceeded maximum turn count'' st)
      else case re_ctxErr env (world st) of
        Some e \<Rightarrow> (Finished, terminal TerminalAborted (error_text e) st)
      | None \<Rightarrow>
          let (st, acts1) = manual_compaction env st;
              st = st\<lparr>usage := (usage st)\<lparr>u_Turns := turn st\<rparr>\<rparr>;
              (packed, numCtx, acts2) = pack_history env i st;
              (res, acts3, counter, w) =
                executeOneTurn (re_turn env) (toolID st) packed (outputTokenBudget st) numCtx (world st);
              st = st\<lparr>toolID := counter, world := w\<rparr>;
              acts = acts1 @ [Send (AssistantTurnStarted (turn st))] @ acts2 @ acts3
          in case res of
               Inl e \<Rightarrow>
                 let st = st\<lparr>usage := add_usage (zero_turn :: 'a turnResult) (usage st)\<rparr>; (reason, detail) = classifyError e in
                 (Finished, acts @ [Send (TurnUsage (usage st))] @ terminal reason detail st)
             | Inr r \<Rightarrow>
                 let st = st\<lparr>usage := add_usage r (usage st), lastContextTokens := PromptEvalCount r\<rparr>;
                     (out, acts') = after_turn env i r st
                 in (out, acts @ [Send (TurnUsage (usage st))] @ acts'))"

section \<open>The run\<close>

fun run_loop :: "nat \<Rightarrow> ('a, 'c, 'i, 'd, 'p, 'w) run_env \<Rightarrow> 'a Input \<Rightarrow> ('a, 'w) run_state \<Rightarrow>
    (bool \<times> ('a, 'i, 'd, 'p) action list) option" where
  "run_loop 0 env i st = None"
| "run_loop (Suc fuel) env i st =
     (case run_step env i st of
        (Finished, acts) \<Rightarrow> Some (True, acts)
      | (Crashed, acts) \<Rightarrow> Some (False, acts)
      | (Continue st', acts) \<Rightarrow> map_option (\<lambda>(ok, acts'). (ok, acts @ acts')) (run_loop fuel env i st'))"

text \<open>The environment of a run: the tools of its toolset and its own mode and model.\<close>

definition run_for :: "('a, 'c, 'i, 'd, 'p, 'w) run_env \<Rightarrow> 'a Input \<Rightarrow> ('a, 'c, 'i, 'd, 'p, 'w) run_env" where
  "run_for env i =
     (let (lookup, infos) = effectiveRegistry (in_ToolsetName i) (re_tools env) (re_readOnlyTools env)
      in env\<lparr>re_turn := (re_turn env)\<lparr>
           tn_tools := (tn_tools (re_turn env))\<lparr>te_Lookup := lookup, te_Mode := in_PermissionMode i\<rparr>,
           tn_registry := infos, tn_Model := in_Model i, tn_ToolMode := in_ToolMode i\<rparr>\<rparr>)"

text \<open>The flag is false when the run panics.\<close>

definition run :: "nat \<Rightarrow> ('a, 'c, 'i, 'd, 'p, 'w) run_env \<Rightarrow> tools_mode \<Rightarrow> 'a Input \<Rightarrow> nat \<Rightarrow> 'w \<Rightarrow>
    (bool \<times> ('a, 'i, 'd, 'p) action list) option" where
  "run fuel env contextMode i counter w =
     (case validateInput contextMode i of
        Inl e \<Rightarrow> Some (True, [Send (Terminal TerminalUnrecoverable e zero_usage [])])
      | Inr i \<Rightarrow> run_loop fuel (run_for env i) i (initial_state (re_cfg env) i counter w))"

end
