(* ===== verification/Agent_Run.thy ===== *)
theory Agent_Run
  imports Agent_Loop
begin

text \<open>
  Properties of whole agent runs: how a run ends, what it sends to the model, and that it comes to
  an end.
\<close>

section \<open>Tool rounds and streams are silent about the end of the run\<close>

text \<open>An action that neither ends the run nor asks the model.\<close>

fun plain :: "('a, 'i, 'd, 'p) action \<Rightarrow> bool" where
  "plain (Send (Terminal r d u ms)) = False"
| "plain (Asked q) = False"
| "plain _ = True"

abbreviation plains :: "('a, 'i, 'd, 'p) action list \<Rightarrow> bool" where
  "plains \<equiv> list_all plain"

lemma plain_index: "index_calls env i counter calls slots = (ics, s, acts, c) \<Longrightarrow> plains acts"
  by (induction calls arbitrary: i counter slots ics s acts c)
    (auto simp: index_calls_Cons fail_call_def split: sum.splits prod.splits)

lemma plain_check: "check_calls env ics slots = (permitted, s, acts) \<Longrightarrow> plains acts"
  by (induction ics arbitrary: slots permitted s acts)
    (auto simp: Let_def fail_call_def split: prod.splits if_splits)

lemma plain_post_hook [simp]: "plains (post_hook env ic r err)"
  by (simp add: post_hook_def)

lemma plain_single: "executeSingleCall env ic w = (m, acts, w') \<Longrightarrow> plains acts"
  by (auto simp: executeSingleCall_def start_event_def list_all_iff Let_def split: prod.splits)
    (metis plain_post_hook list_all_iff)

lemma plain_serial: "execute_serial env ics w = (ms, acts, w') \<Longrightarrow> plains acts"
  by (induction ics arbitrary: w ms acts w') (auto simp: Let_def dest: plain_single split: prod.splits)

lemma plain_goroutines: "plains (run_goroutines limit choices waiting running)"
proof (induction limit choices waiting running rule: run_goroutines.induct)
  case (1 limit choices waiting running)
  then show ?case
    by (subst run_goroutines.simps) (auto simp: Let_def split: prod.splits list.splits)
qed

lemma plain_concurrent: "executeConcurrentBatch env limit ics w = (ms, acts, w') \<Longrightarrow> plains acts"
  using plain_goroutines plain_post_hook
  by (fastforce simp: executeConcurrentBatch_def start_event_def list_all_iff Let_def split: prod.splits)

lemma plain_batches: "ExecuteBatches env limit bs w = (ms, acts, w') \<Longrightarrow> plains acts"
  by (induction bs arbitrary: w ms acts w')
    (auto simp: Let_def dest: plain_serial plain_concurrent split: prod.splits if_splits)

lemma plain_round:
  "executeToolCallsConcurrent env counter calls w = ((msgs, n), acts, c, w') \<Longrightarrow> plains acts"
  by (auto elim!: round_uniform dest: plain_index plain_check plain_batches)

lemma plain_accumulate: "accumulate st stream = (st', acts) \<Longrightarrow> plains acts"
  by (induction stream arbitrary: st st' acts)
    (auto simp: Let_def accumulate_event_def split: prod.splits if_splits)

section \<open>A turn\<close>

lemma turn_asks: "executeOneTurn env c h b n w = (res, acts, c', w') \<Longrightarrow>
    \<exists>rest. acts = [Send LLMRequestStarted, Asked (chat_request env h b n)] @ rest \<and> plains rest"
  by (auto simp: executeOneTurn_def accumulateTurn_def Let_def
      dest: plain_round plain_accumulate split: prod.splits sum.splits if_splits)

lemma accumulate_no_answers:
  "accumulate st stream = (st', acts) \<Longrightarrow> ToolCallMessages (acc_usage st') = ToolCallMessages (acc_usage st)"
  by (induction stream arbitrary: st st' acts)
    (fastforce simp: Let_def accumulate_event_def split: prod.splits if_splits)+

lemma index_calls_small: "index_calls env i c calls slots = (ics, s, acts, c') \<Longrightarrow> c < 2 ^ 64 \<Longrightarrow> c' < 2 ^ 64"
proof (induction calls arbitrary: i c slots ics s acts c')
  case (Cons call calls)
  from Cons.prems(1) obtain i' s' r where "index_calls env i' (snd (nextToolID c)) calls s' = (fst r, fst (snd r), fst (snd (snd r)), c')"
    by (auto simp: index_calls_Cons split: sum.splits prod.splits)
  from Cons.IH [OF this nextToolID_id(3)] show ?case .
qed simp

lemma round_counter:
  "executeToolCallsConcurrent env c calls w = (ms, acts, c', w') \<Longrightarrow> c < 2 ^ 64 \<Longrightarrow> c' < 2 ^ 64"
  by (cases ms) (auto elim!: round_uniform dest: index_calls_small)

lemma round_paired:
  assumes "executeToolCallsConcurrent env counter calls w = ((msgs, n), acts, c, w')" "counter < 2 ^ 64"
  shows "paired True msgs"
proof -
  have "list_all2 (\<lambda>call m. slot_answer call (Some m)) calls msgs" using round_answers [OF assms] .
  then have "list_all is_result msgs" by (induction rule: list_all2_induct) (auto simp: slot_answer_def)
  then show ?thesis by (rule paired_results)
qed

text \<open>What a turn adds to the conversation: the answer, and a result for each of its calls.\<close>

lemma turn_adds:
  assumes "executeOneTurn env c h b n w = (Inr r, acts, c', w')" "c < 2 ^ 64"
  shows "well_paired (AssistantMessage r # ToolCallMessages r)" "c' < 2 ^ 64"
  using assms
  by (auto simp: executeOneTurn_def accumulateTurn_def zero_turn_def Let_def
      dest: round_paired round_counter accumulate_no_answers split: prod.splits sum.splits if_splits)

lemma turn_counter:
  "executeOneTurn env c h b n w = (res, acts, c', w') \<Longrightarrow> c < 2 ^ 64 \<Longrightarrow> c' < 2 ^ 64"
  by (auto simp: executeOneTurn_def accumulateTurn_def Let_def
      dest: round_counter split: prod.splits sum.splits if_splits)

section \<open>A round of the loop\<close>

abbreviation is_end :: "('a, 'i, 'd, 'p) action \<Rightarrow> bool" where
  "is_end a \<equiv> \<exists>r d u ms. a = Send (Terminal r d u ms)"

text \<open>A trace that has not ended yet, and one that ends with its last action and not before.\<close>

definition quiet :: "('a, 'i, 'd, 'p) action list \<Rightarrow> bool" where
  "quiet acts = list_all (\<lambda>a. \<not> is_end a) acts"

definition ended :: "('a, 'i, 'd, 'p) action list \<Rightarrow> bool" where
  "ended acts = (\<exists>before r d u ms. acts = before @ [Send (Terminal r d u ms)] \<and> quiet before)"

lemma quiet_simps [simp]:
  "quiet []" "quiet (a # acts) = (\<not> is_end a \<and> quiet acts)" "quiet (xs @ ys) = (quiet xs \<and> quiet ys)"
  by (simp_all add: quiet_def)

lemma plains_quiet: "plains acts \<Longrightarrow> quiet acts"
  by (auto simp: quiet_def list_all_iff)

lemma ended_terminal [simp]: "ended (terminal r d st)"
  by (auto simp: ended_def terminal_def)

lemma ended_append [intro]: "quiet xs \<Longrightarrow> ended ys \<Longrightarrow> ended (xs @ ys)"
  unfolding ended_def by (metis append.assoc quiet_simps(3))

lemma ended_Cons [intro]: "\<not> is_end a \<Longrightarrow> ended ys \<Longrightarrow> ended (a # ys)"
  using ended_append [of "[a]" ys] by simp

text \<open>The actions of a compaction, and what it keeps of the state.\<close>

definition same_but_history :: "('a, 'w) run_state \<Rightarrow> ('a, 'w) run_state \<Rightarrow> bool" where
  "same_but_history st st' = (st' = st\<lparr>history := history st', world := world st'\<rparr>
     \<and> (well_paired (history st) \<longrightarrow> well_paired (history st')))"

lemma doCompact_facts:
  assumes "doCompact env st = (ok, st', acts)"
  shows "same_but_history st st'" "plains acts"
proof -
  obtain r w where c: "Compact (tn_chat (re_turn env)) (Compaction (re_cfg env)) (tn_Model (re_turn env))
      (history st) (world st) = (r, w)" by (metis prod.exhaust)
  show "plains acts" using assms c by (auto simp: doCompact_def Let_def split: option.splits if_splits)
  show "same_but_history st st'"
  proof (cases "Skipped r")
    case True
    with assms c show ?thesis by (auto simp: doCompact_def same_but_history_def Let_def split: option.splits)
  next
    case False
    from Compact_result [OF c False] assms c False show ?thesis
      by (auto simp: doCompact_def same_but_history_def Let_def)
  qed
qed

lemma same_refl [simp]: "same_but_history st st"
  by (simp add: same_but_history_def)

lemma same_world [simp]:
  "same_but_history (st\<lparr>world := w\<rparr>) st' = same_but_history st st'"
  "same_but_history st (st\<lparr>world := w\<rparr>)"
  by (simp_all add: same_but_history_def)

lemma manual_facts:
  "manual_compaction env st = (st', acts) \<Longrightarrow> same_but_history st st' \<and> plains acts"
  by (auto simp: manual_compaction_def Let_def dest: doCompact_facts split: option.splits prod.splits if_splits)

lemma proactive_facts:
  "proactive_compaction env st = (st', acts) \<Longrightarrow> same_but_history st st' \<and> plains acts"
  by (auto simp: proactive_compaction_def Let_def dest: doCompact_facts split: prod.splits if_splits)

lemma pack_facts:
  assumes "pack_history env i st = (packed, n, acts)"
  shows "plains acts" "well_paired (history st) \<Longrightarrow> well_paired packed"
  using assms by (auto simp: pack_history_def Let_def intro: packed_paired split: if_splits)

text \<open>The invariant of the loop.\<close>

definition valid_state :: "('a, 'w) run_state \<Rightarrow> bool" where
  "valid_state st = (well_paired (history st) \<and> well_paired (addedConversation st) \<and> toolID st < 2 ^ 64)"

text \<open>A provider of pending messages that gives well-formed conversations, such as user messages.\<close>

definition good_pending :: "('a, 'c, 'i, 'd, 'p, 'w) run_env \<Rightarrow> bool" where
  "good_pending env = (\<forall>provider w. re_PendingMessages env = Some provider \<longrightarrow> well_paired (fst (provider w)))"

lemma same_valid: "same_but_history st st' \<Longrightarrow> valid_state st \<Longrightarrow> valid_state st'"
  unfolding same_but_history_def valid_state_def by (metis run_state.select_convs(1,8,10) run_state.surjective run_state.update_convs(1,11))

lemma valid_other [simp]:
  "valid_state (st\<lparr>turn := t\<rparr>) = valid_state st" "valid_state (st\<lparr>usage := u\<rparr>) = valid_state st"
  "valid_state (st\<lparr>lastContextTokens := n\<rparr>) = valid_state st"
  by (simp_all add: valid_state_def)

lemma append_valid: "valid_state st \<Longrightarrow> well_paired ms \<Longrightarrow> valid_state (append_both ms st)"
  by (simp add: valid_state_def append_both_def paired_append_closed)

lemma poll_valid:
  "poll_pending env st = (ms, st') \<Longrightarrow> good_pending env \<Longrightarrow> valid_state st \<Longrightarrow> valid_state st' \<and> well_paired ms"
  by (auto simp: poll_pending_def good_pending_def valid_state_def split: option.splits prod.splits)
    (metis fst_conv)

lemma poll_same: "poll_pending env st = (ms, st') \<Longrightarrow> \<exists>w. st' = st\<lparr>world := w\<rparr>"
  by (auto simp: poll_pending_def split: option.splits prod.splits) (metis run_state.surjective run_state.update_convs(11))

text \<open>What a part of the loop may leave behind: how its trace ends, and the invariant.\<close>

fun ends_as :: "('a, 'w) outcome \<Rightarrow> ('a, 'i, 'd, 'p) action list \<Rightarrow> bool" where
  "ends_as Finished acts = ended acts"
| "ends_as _ acts = quiet acts"

definition valid_end :: "('a, 'i, 'd, 'p) action list \<Rightarrow> bool" where
  "valid_end acts = list_all (\<lambda>a. \<forall>r d u ms. a = Send (Terminal r d u ms) \<longrightarrow> well_paired ms) acts"

fun valid_out :: "('a, 'w) outcome \<Rightarrow> bool" where
  "valid_out (Continue st) = valid_state st"
| "valid_out _ = True"

definition asks :: "('a, 'i, 'd, 'p) action list \<Rightarrow> 'a ChatRequest list" where
  "asks acts = List.map_filter (\<lambda>a. case a of Asked q \<Rightarrow> Some q | _ \<Rightarrow> None) acts"

lemma valid_end_simps [simp]:
  "valid_end []"
  "valid_end (a # acts) = ((\<forall>r d u ms. a = Send (Terminal r d u ms) \<longrightarrow> well_paired ms) \<and> valid_end acts)"
  "valid_end (xs @ ys) = (valid_end xs \<and> valid_end ys)"
  by (simp_all add: valid_end_def)

lemma asks_simps [simp]:
  "asks [] = []" "asks (Asked q # acts) = q # asks acts" "asks (Send e # acts) = asks acts"
  "asks (xs @ ys) = asks xs @ asks ys"
  by (simp_all add: asks_def List.map_filter_def)

lemma plains_more [simp]: "plains acts \<Longrightarrow> quiet acts \<and> valid_end acts \<and> asks acts = []"
  by (induction acts rule: list.induct)
    (auto simp: asks_def List.map_filter_def split: action.splits)

lemma terminal_more [simp]:
  "valid_state st \<Longrightarrow> valid_end (terminal r d st)" "asks (terminal r d st) = []"
  by (simp_all add: terminal_def valid_state_def)

lemmas valid_fields = valid_state_def append_both_def

lemma retry_notice_more [simp]: "plain (retry_notice n c k r)"
  by (simp add: retry_notice_def)

lemma length_stop_facts:
  assumes "length_stop env i r st = (out, acts)"
  shows "ends_as out acts" "asks acts = []" "valid_state st \<Longrightarrow> valid_end acts \<and> valid_out out"
proof -
  obtain ok st2 acts2 where d: "doCompact env (st\<lparr>lengthRetryCount := lengthRetryCount st + 1, compactionAttempted := True\<rparr>)
      = (ok, st2, acts2)" by (metis prod.exhaust)
  note f = doCompact_facts [OF d]
  have v: "valid_state st \<Longrightarrow> valid_state st2" using same_valid [OF f(1)] by (simp add: valid_state_def)
  show "ends_as out acts" "asks acts = []"
    using assms d f(2) by (auto simp: length_stop_def retry_notice_def Let_def split: if_splits)
  show "valid_state st \<Longrightarrow> valid_end acts \<and> valid_out out"
    using assms d f(2) v by (auto simp: length_stop_def retry_notice_def terminal_def Let_def valid_state_def split: if_splits)
qed

lemma stop_or_complete_facts:
  "stop_or_complete env st = (out, acts) \<Longrightarrow>
    ends_as out acts \<and> asks acts = [] \<and> (valid_state st \<longrightarrow> valid_end acts \<and> valid_out out)"
  by (auto simp: stop_or_complete_def valid_state_def terminal_def split: option.splits prod.splits)
    (auto simp: ended_def)

lemma final_answer_facts:
  assumes "final_answer env i r st = (out, acts)"
  shows "ends_as out acts" "asks acts = []" "good_pending env \<Longrightarrow> valid_state st \<Longrightarrow> valid_end acts \<and> valid_out out"
proof -
  obtain ms st2 where p: "poll_pending env st = (ms, st2)" by (metis prod.exhaust)
  note v = poll_valid [OF p]
  show "ends_as out acts" "asks acts = []"
    using assms p by (auto simp: final_answer_def retry_notice_def Let_def dest: stop_or_complete_facts
        split: if_splits option.splits)
  assume g: "good_pending env" "valid_state st"
  with v have "valid_state st2" "well_paired ms" by auto
  with assms p show "valid_end acts \<and> valid_out out"
    by (auto simp: final_answer_def retry_notice_def Let_def valid_state_def append_both_def paired_append_closed
          terminal_def         dest: stop_or_complete_facts split: if_splits option.splits)
qed

lemma after_turn_facts:
  assumes "after_turn env i r st = (out, acts)"
  shows "ends_as out acts" "asks acts = []"
    and "good_pending env \<Longrightarrow> valid_state st \<Longrightarrow> well_paired (AssistantMessage r # ToolCallMessages r) \<Longrightarrow>
      valid_end acts \<and> valid_out out"
proof -
  obtain st1 a1 where p: "proactive_compaction env (st\<lparr>lengthRetryCount := 0\<rparr>) = (st1, a1)" by (metis prod.exhaust)
  note f = proactive_facts [OF p]
  let ?st2 = "append_both [AssistantMessage r] st1"
  obtain out3 a3 where fin: "final_answer env i r ?st2 = (out3, a3)" by (metis prod.exhaust)
  obtain ms st4 where poll: "poll_pending env (append_both (ToolCallMessages r) ?st2) = (ms, st4)" by (metis prod.exhaust)
  note fin_facts = final_answer_facts [OF fin]
  show "ends_as out acts" "asks acts = []"
    using assms p f fin poll fin_facts(1,2)
    by (cases out3; auto simp: after_turn_def Let_def split: if_splits dest: length_stop_facts)+
  assume g: "good_pending env" "valid_state st" "well_paired (AssistantMessage r # ToolCallMessages r)"
  have v1: "valid_state st1" by (rule same_valid [OF conjunct1 [OF f]]) (use g in \<open>simp add: valid_state_def\<close>)
  have "append_both (ToolCallMessages r) ?st2 = append_both (AssistantMessage r # ToolCallMessages r) st1"
    by (simp add: append_both_def)
  with v1 g(3) have "valid_state (append_both (ToolCallMessages r) ?st2)" using append_valid by metis
  from poll_valid [OF poll g(1) this] have v4: "valid_state st4" "well_paired ms" by auto
  then have v5: "valid_state (append_both ms st4)" by (rule append_valid)
  have "well_paired [AssistantMessage r]" if "ToolCallMessages r = []" using g(3) that by simp
  then have "valid_end a3 \<and> valid_out out3" if "ToolCallMessages r = []"
    using fin_facts(3) [OF g(1) append_valid [OF v1]] that by blast
  then show "valid_end acts \<and> valid_out out"
    using assms p f fin poll v4 v5 length_stop_facts(3) [of env i r st out acts] g(2)
    by (auto simp: after_turn_def Let_def split: if_splits)
qed

text \<open>A round that does not end at once, in terms of the state before and after the turn.\<close>

definition with_usage :: "'a turnResult \<Rightarrow> ('a, 'w) run_state \<Rightarrow> ('a, 'w) run_state" where
  "with_usage r st = st\<lparr>usage := add_usage r (usage st)\<rparr>"

definition may_turn :: "('a, 'c, 'i, 'd, 'p, 'w) run_env \<Rightarrow> ('a, 'w) run_state \<Rightarrow> bool" where
  "may_turn env st = (MaxTurns (re_cfg env) = 0 \<or> turn st \<le> MaxTurns (re_cfg env))"

lemma run_step_stops:
  "\<not> may_turn env st \<Longrightarrow>
    run_step env i st = (Finished, terminal TerminalMaxTurns ''exceeded maximum turn count'' st)"
  "may_turn env st \<Longrightarrow> re_ctxErr env (world st) = Some e \<Longrightarrow>
    run_step env i st = (Finished, terminal TerminalAborted (error_text e) st)"
  unfolding run_step_def may_turn_def Let_def by simp_all

lemma run_step_turns:
  assumes "may_turn env st" "re_ctxErr env (world st) = None"
    and m: "manual_compaction env st = (st1, a1)"
    and p: "pack_history env i (st1\<lparr>usage := (usage st1)\<lparr>u_Turns := turn st1\<rparr>\<rparr>) = (packed, numCtx, a2)"
    and t: "executeOneTurn (re_turn env) (toolID st1) packed (outputTokenBudget st1) numCtx (world st1)
        = (res, a3, counter, w)"
    and st3: "st3 = st1\<lparr>usage := (usage st1)\<lparr>u_Turns := turn st1\<rparr>, toolID := counter, world := w\<rparr>"
  shows "run_step env i st =
    (case res of
       Inl e \<Rightarrow> (Finished, (a1 @ [Send (AssistantTurnStarted (turn st1))] @ a2 @ a3)
         @ [Send (TurnUsage (usage (with_usage (zero_turn :: 'a turnResult) st3)))]
         @ terminal (fst (classifyError e)) (snd (classifyError e)) (with_usage (zero_turn :: 'a turnResult) st3))
     | Inr r \<Rightarrow>
         (case after_turn env i r ((with_usage r st3)\<lparr>lastContextTokens := PromptEvalCount r\<rparr>) of
            (out, acts) \<Rightarrow> (out, (a1 @ [Send (AssistantTurnStarted (turn st1))] @ a2 @ a3)
              @ [Send (TurnUsage (usage (with_usage r st3)))] @ acts)))"
  using assms unfolding run_step_def may_turn_def Let_def
  by (cases res) (simp_all add: with_usage_def split_beta)

text \<open>One round: at most one request to the model, which is a valid conversation.\<close>

lemma run_step_facts:
  assumes "run_step env i st = (out, acts)"
  shows "ends_as out acts \<and> (asks acts = [] \<or> (may_turn env st \<and> (\<exists>q. asks acts = [q])))
    \<and> (good_pending env \<longrightarrow> valid_state st \<longrightarrow>
      valid_end acts \<and> valid_out out \<and> list_all (\<lambda>q. well_paired (rq_Messages q)) (asks acts))"
proof -
  obtain st1 a1 where m: "manual_compaction env st = (st1, a1)" by (metis prod.exhaust)
  define st2 where "st2 = st1\<lparr>usage := (usage st1)\<lparr>u_Turns := turn st1\<rparr>\<rparr>"
  obtain packed numCtx a2 where p: "pack_history env i st2 = (packed, numCtx, a2)" by (metis prod.exhaust)
  obtain res a3 counter w where t: "executeOneTurn (re_turn env) (toolID st1) packed (outputTokenBudget st1) numCtx
      (world st1) = (res, a3, counter, w)" by (metis prod.exhaust)
  define st3 where "st3 = st1\<lparr>usage := (usage st1)\<lparr>u_Turns := turn st1\<rparr>, toolID := counter, world := w\<rparr>"
  define a where "a = a1 @ [Send (AssistantTurnStarted (turn st1))] @ a2 @ a3"
  let ?q = "chat_request (re_turn env) packed (outputTokenBudget st1) numCtx"
  from turn_asks [OF t] obtain rest where "a3 = [Send LLMRequestStarted, Asked ?q] @ rest" "plains rest" by blast
  with manual_facts [OF m] pack_facts(1) [OF p] have a: "quiet a" "asks a = [?q]" "valid_end a" by (auto simp: a_def)
  have v1: "valid_state st1" if "valid_state st" using same_valid [OF conjunct1 [OF manual_facts [OF m]] that] .
  have v3: "valid_state (with_usage r st3) \<and> well_paired packed" if "valid_state st" for r
    using v1 [OF that] turn_counter [OF t] pack_facts(2) [OF p]
    by (auto simp: valid_state_def st2_def st3_def with_usage_def)
  show ?thesis
  proof (cases "may_turn env st \<and> re_ctxErr env (world st) = None")
    case False
    then show ?thesis using assms run_step_stops [of env st]
      by (cases "re_ctxErr env (world st)"; cases "may_turn env st") auto
  next
    case True
    note step = run_step_turns [OF conjunct1 [OF True] conjunct2 [OF True] m p [unfolded st2_def] t st3_def, folded a_def]
    show ?thesis
    proof (cases res)
      case (Inl e)
      with step assms have "out = Finished" "acts = a @ [Send (TurnUsage (usage (with_usage (zero_turn :: 'a turnResult) st3)))]
          @ terminal (fst (classifyError e)) (snd (classifyError e)) (with_usage (zero_turn :: 'a turnResult) st3)" by auto
      with a v3 True show ?thesis by (auto simp: chat_request_def intro!: ended_append ended_Cons)
    next
      case (Inr r)
      let ?st4 = "(with_usage r st3)\<lparr>lastContextTokens := PromptEvalCount r\<rparr>"
      obtain a5 where af: "after_turn env i r ?st4 = (out, a5)"
        and acts: "acts = a @ [Send (TurnUsage (usage (with_usage r st3)))] @ a5"
        using step assms Inr by (auto split: prod.splits)
      note af_facts = after_turn_facts [OF af]
      have "valid_end a5 \<and> valid_out out" if "good_pending env" "valid_state st"
        using af_facts(3) [OF that(1)] v3 [OF that(2)] v1 [OF that(2)] turn_adds(1) [OF t [unfolded Inr]]
        by (simp add: valid_state_def)
      with af_facts(1,2) a v3 True show ?thesis unfolding acts
        by (cases out) (auto simp: chat_request_def)
    qed
  qed
qed

section \<open>The loop comes to an end\<close>

text \<open>
  What a run with a turn limit and without a provider of pending messages has left: two requests
  for each turn that may still come and for the retry of an incomplete answer, because each may be
  too long once, and one for the compaction.
\<close>

definition left :: "('a, 'c, 'i, 'd, 'p, 'w) run_env \<Rightarrow> ('a, 'w) run_state \<Rightarrow> nat" where
  "left env st = 2 * (nat (MaxTurns (re_cfg env) + 1 - turn st) + (1 - incompleteRetryCount st))
     + (1 - lengthRetryCount st) + (if compactionAttempted st then 0 else 1)"

lemma same_left: "same_but_history st st' \<Longrightarrow> turn st' = turn st \<and> incompleteRetryCount st' = incompleteRetryCount st
    \<and> lengthRetryCount st' = lengthRetryCount st \<and> compactionAttempted st' = compactionAttempted st"
  unfolding same_but_history_def
  by (metis run_state.select_convs(4,5,6,9) run_state.surjective run_state.update_convs(1,11))

lemma length_stop_left:
  assumes "length_stop env i r st = (Continue st', acts)"
  shows "left env st' < left env st"
proof -
  obtain ok st2 acts2 where d: "doCompact env (st\<lparr>lengthRetryCount := lengthRetryCount st + 1, compactionAttempted := True\<rparr>)
      = (ok, st2, acts2)" by (metis prod.exhaust)
  from assms d same_left [OF doCompact_facts(1) [OF d]] show ?thesis
    by (auto simp: length_stop_def left_def Let_def split: if_splits)
qed

lemma after_turn_left:
  assumes "after_turn env i r st = (Continue st', acts)" "re_PendingMessages env = None" "may_turn env st"
    "0 < MaxTurns (re_cfg env)"
  shows "left env st' < left env st"
proof -
  obtain st1 a1 where p: "proactive_compaction env (st\<lparr>lengthRetryCount := 0\<rparr>) = (st1, a1)" by (metis prod.exhaust)
  note f = same_left [OF conjunct1 [OF proactive_facts [OF p]]]
  show ?thesis
  proof (cases "DoneReason r = ''length''")
    case True
    with assms(1) show ?thesis by (auto simp: after_turn_def intro: length_stop_left)
  next
    case False
    with assms p f show ?thesis
    by (auto simp: after_turn_def final_answer_def stop_or_complete_def poll_pending_def append_both_def may_turn_def
        incompleteAssistantRetryLimit_def left_def Let_def split: if_splits option.splits prod.splits)
  qed
qed

lemma run_step_left:
  assumes "run_step env i st = (Continue st', acts)" "re_PendingMessages env = None" "0 < MaxTurns (re_cfg env)"
  shows "left env st' < left env st" "may_turn env st"
proof -
  obtain st1 a1 where m: "manual_compaction env st = (st1, a1)" by (metis prod.exhaust)
  obtain packed numCtx a2 where p: "pack_history env i (st1\<lparr>usage := (usage st1)\<lparr>u_Turns := turn st1\<rparr>\<rparr>)
      = (packed, numCtx, a2)" by (metis prod.exhaust)
  obtain res a3 counter w where t: "executeOneTurn (re_turn env) (toolID st1) packed (outputTokenBudget st1) numCtx
      (world st1) = (res, a3, counter, w)" by (metis prod.exhaust)
  have ok: "may_turn env st" "re_ctxErr env (world st) = None"
    using assms(1) run_step_stops [of env st] by (cases "re_ctxErr env (world st)"; cases "may_turn env st"; auto)+
  then show "may_turn env st" by simp
  note f = same_left [OF conjunct1 [OF manual_facts [OF m]]]
  from assms(1) run_step_turns [OF ok m p t refl] obtain r a5 st4 where
    "after_turn env i r st4 = (Continue st', a5)" "left env st4 = left env st1" "turn st4 = turn st1"
    by (cases res) (auto simp: left_def with_usage_def split: prod.splits)
  with after_turn_left [of env i r st4] assms(2,3) ok(1) f show "left env st' < left env st"
    by (simp add: may_turn_def left_def)
qed

lemma run_loop_ends:
  assumes "re_PendingMessages env = None" "0 < MaxTurns (re_cfg env)"
  shows "left env st < fuel \<Longrightarrow> \<exists>ok acts. run_loop fuel env i st = Some (ok, acts) \<and> length (asks acts) \<le> left env st - 1"
proof (induction fuel arbitrary: st)
  case (Suc fuel)
  obtain out acts where s: "run_step env i st = (out, acts)" by (metis prod.exhaust)
  note f = run_step_facts [OF s]
  have l: "may_turn env st \<Longrightarrow> 2 \<le> left env st" using assms(2) by (simp add: may_turn_def left_def)
  show ?case
  proof (cases out)
    case (Continue st')
    from run_step_left [OF s [unfolded Continue] assms] have d: "left env st' < left env st" "may_turn env st" by auto
    with Suc.prems have "left env st' < fuel" by simp
    from Suc.IH [OF this] obtain ok acts' where
      "run_loop fuel env i st' = Some (ok, acts')" "length (asks acts') \<le> left env st' - 1" by blast
    with s Continue f d l show ?thesis by auto
  qed (use s f l in auto)
qed simp

section \<open>Only what the policy allows is run\<close>

lemma index_calls_parsed:
  "index_calls env i c calls slots = (ics, s, acts, c') \<Longrightarrow> ic \<in> set ics \<Longrightarrow>
    Call ic \<in> set calls \<and> parse_call env (Call ic) = Inr (Tool ic, Input ic)"
  by (induction calls arbitrary: i c slots ics s acts c') (force simp: index_calls_Cons split: sum.splits prod.splits)+

definition silent :: "('a, 'i, 'd, 'p) action list \<Rightarrow> bool" where
  "silent acts = list_all (\<lambda>a. \<forall>i x. a \<noteq> Ran i x) acts"

lemma silent_simps [simp]:
  "silent []" "silent (a # acts) = ((\<forall>i x. a \<noteq> Ran i x) \<and> silent acts)"
  "silent (xs @ ys) = (silent xs \<and> silent ys)"
  by (simp_all add: silent_def)

lemma silent_ran: "silent acts \<Longrightarrow> Ran i x \<notin> set acts"
  by (auto simp: silent_def list_all_iff)

lemma index_silent: "index_calls env i c calls slots = (ics, s, acts, c') \<Longrightarrow> silent acts"
  by (induction calls arbitrary: i c slots ics s acts c')
    (auto simp: index_calls_Cons fail_call_def split: sum.splits prod.splits)

lemma check_silent: "check_calls env ics slots = (permitted, s, acts) \<Longrightarrow> silent acts"
  by (induction ics arbitrary: slots permitted s acts)
    (auto simp: fail_call_def Let_def split: prod.splits if_splits)

lemma post_silent [simp]: "Ran i x \<notin> set (post_hook env ic r err)"
  by (simp add: post_hook_def)

lemma serial_ran:
  "execute_serial env ics w = (ms, acts, w') \<Longrightarrow> Ran i x \<in> set acts \<Longrightarrow> \<exists>ic \<in> set ics. i = ToolID ic \<and> x = Input ic"
  by (induction ics arbitrary: w ms acts w')
    (auto simp: executeSingleCall_def start_event_def Let_def split: prod.splits)

lemma goroutines_ran:
  "list_all (\<lambda>(i, x, ps). Q i x) waiting \<Longrightarrow>
    list_all (\<lambda>a. \<forall>i x. a = Ran i x \<longrightarrow> Q i x) (run_goroutines limit choices waiting running)"
proof (induction limit choices waiting running rule: run_goroutines.induct)
  case (1 limit choices waiting running)
  let ?k = "pick choices (length running + can_start limit waiting running)"
  show ?case
  proof (cases "?k < length running")
    case True
    with 1 show ?thesis
      by (subst run_goroutines.simps) (auto simp: Let_def split: prod.splits list.splits)
  next
    case False
    with 1(3) [OF refl refl refl _ False] 1(4) show ?thesis
      by (cases waiting; subst run_goroutines.simps) (auto simp: Let_def)
  qed
qed

lemma concurrent_ran:
  assumes "executeConcurrentBatch env limit ics w = (ms, acts, w')" "Ran i x \<in> set acts"
  shows "\<exists>ic \<in> set ics. i = ToolID ic \<and> x = Input ic"
proof -
  let ?Q = "\<lambda>i x. \<exists>ic \<in> set ics. i = ToolID ic \<and> x = Input ic"
  obtain outs w1 where c: "call_all ics w = (outs, w1)" by (metis prod.exhaust)
  define gos where "gos = map (\<lambda>(ic, ps, _). (ToolID ic, Input ic, ps)) (zip ics outs)"
  have "list_all (\<lambda>(i, x, ps). ?Q i x) gos" by (auto simp: gos_def list_all_iff dest: set_zip_leftD)
  from goroutines_ran [OF this, of limit "te_choices env w" "[]"]
  have "Ran i x \<in> set (run_goroutines limit (te_choices env w) gos []) \<Longrightarrow> ?Q i x"
    unfolding list_all_iff by blast
  with assms c show ?thesis
    by (auto simp: executeConcurrentBatch_def start_event_def gos_def Let_def split: prod.splits)
qed

lemma batches_ran:
  "ExecuteBatches env limit bs w = (ms, acts, w') \<Longrightarrow> Ran i x \<in> set acts \<Longrightarrow>
    \<exists>ic \<in> set (concat (map Calls bs)). i = ToolID ic \<and> x = Input ic"
  by (induction bs arbitrary: w ms acts w')
    (fastforce simp: Let_def dest: serial_ran concurrent_ran split: prod.splits if_splits)+

lemma round_ran:
  assumes "executeToolCallsConcurrent env c calls w = ((msgs, n), acts, c', w')" "Ran i x \<in> set acts"
  obtains ic where "parse_call env (Call ic) = Inr (Tool ic, Input ic)" "allowed env ic" "x = Input (with_update env ic)"
proof -
  from round_uniform [OF assms(1)] obtain indexed s1 a1 permitted s2 a2 ms a3 where
    r: "index_calls env 0 c calls (replicate (length calls) None) = (indexed, s1, a1, c')"
    "check_calls env indexed s1 = (permitted, s2, a2)"
    "ExecuteBatches env (tool_limit env) (Partition permitted) w = (ms, a3, w')" "acts = a1 @ a2 @ a3" by metis
  with assms(2) index_silent [OF r(1)] check_silent [OF r(2)] have "Ran i x \<in> set a3" by (auto dest: silent_ran)
  from batches_ran [OF r(3) this] obtain ic where "ic \<in> set permitted" "x = Input ic" by (auto simp: Partition_calls)
  then obtain ic where "ic \<in> set indexed" "allowed env ic" "x = Input (with_update env ic)"
    by (auto simp: permitted_facts(1) [OF r(2)])
  with index_calls_parsed [OF r(1)] that show ?thesis by blast
qed

lemma accumulate_ran: "accumulate st stream = (st', acts) \<Longrightarrow> Ran i x \<notin> set acts"
  by (induction stream arbitrary: st st' acts) (auto simp: Let_def accumulate_event_def split: prod.splits if_splits)

lemma turn_ran:
  assumes "executeOneTurn env c h b n w = (res, acts, c', w')" "Ran i x \<in> set acts"
  obtains ic where "parse_call (tn_tools env) (Call ic) = Inr (Tool ic, Input ic)" "allowed (tn_tools env) ic"
    "x = Input (with_update (tn_tools env) ic)"
proof -
  from assms obtain calls msgs m acts2 w2 where
    "executeToolCallsConcurrent (tn_tools env) c calls w2 = ((msgs, m), acts2, c', w')" "Ran i x \<in> set acts2"
    by (auto simp: executeOneTurn_def accumulateTurn_def Let_def accumulate_ran split: prod.splits sum.splits if_splits)
  from round_ran [OF this] that show ?thesis by blast
qed

lemma doCompact_silent: "doCompact env st = (ok, st', acts) \<Longrightarrow> silent acts"
  by (auto simp: doCompact_def Let_def split: prod.splits option.splits if_splits)

lemma terminal_silent [simp]: "silent (terminal r d st)"
  by (simp add: terminal_def)

lemma after_turn_silent: "after_turn env i r st = (out, acts) \<Longrightarrow> silent acts"
  by (auto simp: after_turn_def length_stop_def proactive_compaction_def final_answer_def stop_or_complete_def
      retry_notice_def Let_def dest: doCompact_silent split: prod.splits option.splits if_splits)

lemma run_step_ran:
  assumes "run_step env i st = (out, acts)" "Ran k x \<in> set acts"
  obtains ic where "parse_call (tn_tools (re_turn env)) (Call ic) = Inr (Tool ic, Input ic)"
    "allowed (tn_tools (re_turn env)) ic" "x = Input (with_update (tn_tools (re_turn env)) ic)"
proof -
  obtain st1 a1 where m: "manual_compaction env st = (st1, a1)" by (metis prod.exhaust)
  obtain packed numCtx a2 where p: "pack_history env i (st1\<lparr>usage := (usage st1)\<lparr>u_Turns := turn st1\<rparr>\<rparr>)
      = (packed, numCtx, a2)" by (metis prod.exhaust)
  obtain res a3 counter w where t: "executeOneTurn (re_turn env) (toolID st1) packed (outputTokenBudget st1) numCtx
      (world st1) = (res, a3, counter, w)" by (metis prod.exhaust)
  have ok: "may_turn env st" "re_ctxErr env (world st) = None"
    using assms run_step_stops(1) [of env st i] run_step_stops(2) [of env st _ i] silent_ran [OF terminal_silent]
    by (cases "re_ctxErr env (world st)"; cases "may_turn env st"; fastforce)+
  have "silent a1" using m by (auto simp: manual_compaction_def Let_def dest: doCompact_silent
        split: option.splits prod.splits if_splits)
  moreover have "silent a2" using p by (auto simp: pack_history_def Let_def split: if_splits)
  ultimately have "Ran k x \<in> set a3" using assms run_step_turns [OF ok m p t refl]
    by (auto simp: silent_ran [OF terminal_silent] split: sum.splits prod.splits dest!: after_turn_silent dest: silent_ran)
  from turn_ran [OF t this] that show ?thesis by blast
qed

section \<open>Properties of a run\<close>

text \<open>What holds of every round's actions holds of the run's.\<close>

lemma run_loop_asks:
  "run_loop fuel env i st = Some (ok, acts) \<Longrightarrow> good_pending env \<Longrightarrow> valid_state st \<Longrightarrow>
    list_all (\<lambda>q. well_paired (rq_Messages q)) (asks acts) \<and> valid_end acts"
proof (induction fuel arbitrary: st acts)
  case (Suc fuel)
  obtain out a where s: "run_step env i st = (out, a)" by (metis prod.exhaust)
  with Suc run_step_facts [OF s] show ?case by (cases out) (auto split: prod.splits)
qed simp

lemma run_loop_ended:
  "run_loop fuel env i st = Some (ok, acts) \<Longrightarrow> if ok then ended acts else quiet acts"
proof (induction fuel arbitrary: st acts)
  case (Suc fuel)
  obtain out a where s: "run_step env i st = (out, a)" by (metis prod.exhaust)
  with Suc run_step_facts [OF s] show ?case by (cases out) (fastforce split: prod.splits)+
qed simp

lemma run_loop_ran:
  "run_loop fuel env i st = Some (ok, acts) \<Longrightarrow> Ran k x \<in> set acts \<Longrightarrow>
    \<exists>ic. parse_call (tn_tools (re_turn env)) (Call ic) = Inr (Tool ic, Input ic)
      \<and> allowed (tn_tools (re_turn env)) ic \<and> x = Input (with_update (tn_tools (re_turn env)) ic)"
proof (induction fuel arbitrary: st acts)
  case (Suc fuel)
  obtain out a where s: "run_step env i st = (out, a)" by (metis prod.exhaust)
  show ?case
  proof (cases "Ran k x \<in> set a")
    case True
    from run_step_ran [OF s this] show ?thesis by blast
  next
    case False
    with Suc s show ?thesis by (cases out) (auto split: prod.splits)
  qed
qed simp

lemma initial_valid:
  "well_paired (in_Messages i) \<Longrightarrow> c < 2 ^ 64 \<Longrightarrow> valid_state (initial_state cfg i c w)"
  by (auto simp: valid_state_def initial_state_def initial_history_def Let_def find_Some_iff split: option.splits)

lemma validate_keeps: "validateInput mode i = Inr i' \<Longrightarrow> in_Messages i' = in_Messages i \<and> in_SystemPrompt i' = in_SystemPrompt i"
  by (auto simp: validateInput_def Let_def split: if_splits)

lemma run_for_keeps [simp]: "re_cfg (run_for env i) = re_cfg env" "re_PendingMessages (run_for env i) = re_PendingMessages env"
  by (simp_all add: run_for_def split_beta)

definition demo_run :: "(string, unit, string, unit, string, nat) run_env" where
  "demo_run =
     (let tools = (te_Lookup demo_env, []) in
      \<lparr>re_cfg = (DefaultConfig demo_compaction)\<lparr>MaxTurns := 1\<rparr>,
       re_turn = \<lparr>tn_chat = (\<lambda>_ w. (Inr [(\<lparr>ev_Message = \<lparr>msg_Role = RoleAssistant, msg_Content = [], msg_Thinking = [],
           msg_ToolCalls = demo_calls, msg_ToolName = [], msg_Images = []\<rparr>, ev_Done = True, ev_DoneReason = ''stop'',
           ev_PromptEvalCount = 0, ev_EvalCount = 0, ev_TotalDuration = 0\<rparr>, None)], w)),
         tn_cut = (\<lambda>_. None), tn_tools = demo_env, tn_registry = [], tn_Model = [], tn_ToolMode = [], tn_KeepAlive = []\<rparr>,
       re_tools = tools, re_readOnlyTools = Some tools, re_ctxErr = (\<lambda>_. None), re_CompactRequest = None,
       re_PendingMessages = None, re_StopHook = None\<rparr>)"

definition demo_input :: "string Input" where
  "demo_input = \<lparr>in_Model = ''m'', in_SystemPrompt = [], in_ContextMode = [], in_ToolMode = [], in_MaxOutputTokens = 0,
     in_Messages = [text_message RoleUser ''hi''], in_HistoryPolicy = [], in_PromptIntent = [],
     in_AttachmentPolicy = [], in_OriginalUserText = [], in_ToolsetName = [], in_PermissionMode = ModeDefault\<rparr>"

lemma demo_run_fields [simp]:
  "re_PendingMessages demo_run = None" "MaxTurns (re_cfg demo_run) = 1" "good_pending demo_run"
  by (simp_all add: demo_run_def good_pending_def Let_def)

text \<open>How much fuel is enough.\<close>

lemma run_returns:
  assumes "0 < MaxTurns (re_cfg env)" "re_PendingMessages env = None" "2 * nat (MaxTurns (re_cfg env)) + 4 < fuel"
  shows "\<exists>ok acts. run fuel env contextMode i counter w = Some (ok, acts)
    \<and> length (asks acts) \<le> 2 * nat (MaxTurns (re_cfg env)) + 3"
proof (cases "validateInput contextMode i")
  case (Inr i')
  let ?st = "initial_state (re_cfg env) i' counter w"
  have "left (run_for env i') ?st = 2 * nat (MaxTurns (re_cfg env)) + 4"
    using assms(1) by (simp add: left_def initial_state_def)
  with run_loop_ends [of "run_for env i'" ?st fuel i'] assms Inr show ?thesis by (simp add: run_def add.commute)
qed (auto simp: run_def)



text \<open>
  C4. A run ends exactly once: its last action is a terminal event, and there is no other one
  before it; only a run that panics sends none.
\<close>

theorem run_ends_once:
  assumes "run fuel env contextMode i counter w = Some (ok, acts)"
  shows "if ok then \<exists>before r d u ms. acts = before @ [Send (Terminal r d u ms)] \<and> quiet before else quiet acts"
  using assms
proof (cases "validateInput contextMode i")
  case (Inr i')
  with assms have "run_loop fuel (run_for env i') i' (initial_state (re_cfg env) i' counter w) = Some (ok, acts)"
    by (simp add: run_def)
  from run_loop_ended [OF this] show ?thesis unfolding ended_def .
qed (auto simp: run_def)

theorem run_ends_once_witness:
  "\<exists>ok acts. run 7 demo_run PermissionDefault demo_input 5 1 = Some (ok, acts) \<and>
    (if ok then \<exists>before r d u ms. acts = before @ [Send (Terminal r d u ms)] \<and> quiet before else quiet acts)"
proof -
  from run_returns [of demo_run 7 PermissionDefault demo_input 5 1] obtain ok acts where
    r: "run 7 demo_run PermissionDefault demo_input 5 1 = Some (ok, acts)" by auto
  from run_ends_once [OF r] r show ?thesis by blast
qed

text \<open>
  C3. The model only ever sees valid conversations: if the conversation a run starts from and the
  pending messages have every tool result behind its tool call, so has every request of the run,
  through tool rounds, retries, compaction and packing, and so has the conversation the run hands
  back at its end.
\<close>

theorem run_conversations_valid:
  assumes "run fuel env contextMode i counter w = Some (ok, acts)" "well_paired (in_Messages i)"
    "counter < 2 ^ 64" "good_pending env"
  shows "(\<forall>q \<in> set (asks acts). well_paired (rq_Messages q))
    \<and> (\<forall>r d u ms. Send (Terminal r d u ms) \<in> set acts \<longrightarrow> well_paired ms)"
proof (cases "validateInput contextMode i")
  case (Inr i')
  with assms have "run_loop fuel (run_for env i') i' (initial_state (re_cfg env) i' counter w) = Some (ok, acts)"
    by (simp add: run_def)
  moreover have "good_pending (run_for env i')" using assms(4) by (simp add: good_pending_def)
  moreover have "valid_state (initial_state (re_cfg env) i' counter w)"
    using assms(2,3) validate_keeps [OF Inr] by (intro initial_valid) simp_all
  ultimately have "list_all (\<lambda>q. well_paired (rq_Messages q)) (asks acts) \<and> valid_end acts" by (rule run_loop_asks)
  then show ?thesis by (auto simp: list_all_iff valid_end_def)
next
  case (Inl e)
  with assms(1) have "acts = [Send (Terminal TerminalUnrecoverable e zero_usage [])]" by (simp add: run_def)
  then show ?thesis by simp
qed

theorem run_conversations_valid_witness:
  "\<exists>ok acts. run 7 demo_run PermissionDefault demo_input 5 1 = Some (ok, acts) \<and>
    list_all (\<lambda>q. well_paired (rq_Messages q)) (asks acts)"
proof -
  from run_returns [of demo_run 7 PermissionDefault demo_input 5 1] obtain ok acts where
    r: "run 7 demo_run PermissionDefault demo_input 5 1 = Some (ok, acts)" by auto
  have "well_paired (in_Messages demo_input)" by (simp add: demo_input_def)
  with run_conversations_valid [OF r] r show ?thesis by (auto simp: list_all_iff)
qed

lemma run_policy:
  assumes "run fuel env contextMode i counter w = Some (ok, acts)" "Ran k x \<in> set acts"
  shows "\<exists>i' E ic. validateInput contextMode i = Inr i' \<and> E = tn_tools (re_turn (run_for env i'))
    \<and> te_Mode E = in_PermissionMode i' \<and> parse_call E (Call ic) = Inr (Tool ic, Input ic)
    \<and> res_Decision (call_decision E ic) = DecisionAllow \<and> x = Input (with_update E ic)
    \<and> (HookDecision (te_callbacks E) = None \<longrightarrow>
        \<not> bucket_hit (\<lambda>p. matches (te_sep E) p (call_Name (Call ic)) (ExtractTarget (te_view E) (Input ic)))
            (AlwaysDeny (te_Rules E)))"
proof (cases "validateInput contextMode i")
  case (Inr i')
  let ?E = "tn_tools (re_turn (run_for env i'))"
  from assms Inr run_loop_ran [of fuel "run_for env i'" i'] obtain ic where
    ic: "parse_call ?E (Call ic) = Inr (Tool ic, Input ic)" "allowed ?E ic" "x = Input (with_update ?E ic)"
    by (force simp: run_def)
  have md: "te_Mode ?E = in_PermissionMode i'" by (simp add: run_for_def split_beta)
  have nd: "\<not> bucket_hit (\<lambda>p. matches (te_sep ?E) p (call_Name (Call ic)) (ExtractTarget (te_view ?E) (Input ic)))
      (AlwaysDeny (te_Rules ?E))" if "HookDecision (te_callbacks ?E) = None"
  proof
    assume hit: "bucket_hit (\<lambda>p. matches (te_sep ?E) p (call_Name (Call ic)) (ExtractTarget (te_view ?E) (Input ic)))
      (AlwaysDeny (te_Rules ?E))"
    let ?cb = "(te_callbacks ?E)\<lparr>Classifier := None\<rparr>" and ?req = "call_request ?E ic"
    have al: "res_Decision (fst (Resolve (te_sep ?E) (te_view ?E) ?cb ?req)) = DecisionAllow"
      using ic(2) by (simp add: allowed_def call_decision_def)
    then have v: "valid_request ?req" using invalid_denied by fastforce
    have hs: "hook_silent ?cb ?req" using that by (simp add: hook_silent_def run_hook_def)
    have "rule_answer (te_sep ?E) (te_view ?E) ?req
        = FirstMatchingRule (te_sep ?E) (te_Rules ?E) (call_Name (Call ic)) (ExtractTarget (te_view ?E) (Input ic))"
      by (simp add: rule_answer_def call_request_def)
    with FirstMatchingRule_deny [OF hit] obtain r where
      "rule_answer (te_sep ?E) (te_view ?E) ?req = Some (r, DecisionDeny)" by (elim bexE) (rule that, simp only:)
    from rule_decides [OF v hs this] al show False by simp
  qed
  show ?thesis
    by (rule exI [of _ i'], rule exI [of _ ?E], rule exI [of _ ic])
      (intro conjI impI Inr refl md ic(1,3) nd ic(2) [unfolded allowed_def])
qed (use assms in \<open>auto simp: run_def\<close>)


lemma demo_called [simp]: "demo_calls \<noteq> []"
  by (simp add: demo_calls_def)

text \<open>The demonstration run calls a tool, whatever it is asked.\<close>

lemma demo_input_valid:
  assumes "in_PermissionMode i = ModeDefault" "in_Model i \<noteq> []" "in_ToolsetName i = []"
  obtains i' where "validateInput PermissionDefault i = Inr i'" "tn_tools (re_turn (run_for demo_run i')) = demo_env"
    "tn_chat (re_turn (run_for demo_run i')) = tn_chat (re_turn demo_run)" "tn_cut (re_turn (run_for demo_run i')) = (\<lambda>_. None)"
proof -
  obtain i' where i: "validateInput PermissionDefault i = Inr i'" "in_PermissionMode i' = ModeDefault"
    using assms by (simp add: validateInput_def Let_def)
  have "effectiveRegistry n (re_tools demo_run) (re_readOnlyTools demo_run) = re_tools demo_run" for n
    by (simp add: effectiveRegistry_def demo_run_def Let_def)
  with i that show ?thesis by (simp add: run_for_def demo_run_def demo_env_def Let_def)
qed

lemma demo_run_calls:
  assumes "in_PermissionMode i = ModeDefault" "in_Model i \<noteq> []" "in_ToolsetName i = []"
  obtains ok acts x where "run 7 demo_run PermissionDefault i 5 1 = Some (ok, acts)" "Ran (call_id 5 0) x \<in> set acts"
proof -
  obtain i' where i: "validateInput PermissionDefault i = Inr i'" "tn_tools (re_turn (run_for demo_run i')) = demo_env"
    "tn_chat (re_turn (run_for demo_run i')) = tn_chat (re_turn demo_run)" "tn_cut (re_turn (run_for demo_run i')) = (\<lambda>_. None)"
    by (rule demo_input_valid [OF assms])
  let ?env = "run_for demo_run i'"
  define st where "st = initial_state (re_cfg demo_run) i' 5 (1 :: nat)"
  have st: "turn st = 1" "world st = 1" "toolID st = 5" by (simp_all add: st_def initial_state_def)
  from run_returns [of demo_run 7 PermissionDefault i 5 1] obtain ok acts where
    r: "run 7 demo_run PermissionDefault i 5 1 = Some (ok, acts)" by auto
  then have l: "run_loop 7 ?env i' st = Some (ok, acts)" by (simp add: run_def i(1) st_def)
  have m: "manual_compaction ?env st = (st, [])" by (simp add: manual_compaction_def run_for_def demo_run_def split_beta Let_def)
  obtain packed numCtx a2 where p: "pack_history ?env i' (st\<lparr>usage := (usage st)\<lparr>u_Turns := turn st\<rparr>\<rparr>)
      = (packed, numCtx, a2)" by (metis prod.exhaust)
  obtain res a3 c w where t: "executeOneTurn (re_turn ?env) 5 packed (outputTokenBudget st) numCtx 1 = (res, a3, c, w)"
    by (metis prod.exhaust)
  obtain msgs n acts2 c' w' where e: "executeToolCallsConcurrent demo_env 5 demo_calls 1 = ((msgs, n), acts2, c', w')"
    by (metis prod.exhaust)
  have "set acts2 \<subseteq> set a3"
    using t e unfolding executeOneTurn_def i(2-4)
    by (auto simp: demo_run_def accumulateTurn_def accumulate_event_def demo_called Let_def split: prod.splits)
  with demo_round_runs [OF e] obtain x where x: "Ran (call_id 5 0) x \<in> set a3" by blast
  have ok: "may_turn ?env st" "re_ctxErr ?env (world st) = None"
    by (simp_all add: may_turn_def st run_for_def demo_run_def split_beta Let_def)
  obtain out a where s: "run_step ?env i' st = (out, a)" by (metis prod.exhaust)
  with run_step_turns [OF ok m p _ refl, of res a3 c w] t st x have "Ran (call_id 5 0) x \<in> set a"
    by (auto split: sum.splits prod.splits)
  with l s have "Ran (call_id 5 0) x \<in> set acts"
    by (cases out) (auto simp: numeral_eq_Suc split: prod.splits)
  with r that show ?thesis by blast
qed


end
