(* ===== verification/Sub_Agent.thy ===== *)
theory Sub_Agent
  imports Agent_Run
begin

text \<open>
  Sub-agents (\<open>internal/agent/subagent.go\<close>): how a child run is set up from the parent's input and the
  parameters of the spawn, and how its events become the result of the tool call. The child is a \<open>run\<close>
  of the agent loop, so what is proved of runs holds of it. Output files and callbacks of the caller are
  parameters; what is written to the output file is the list of its records.
\<close>

section \<open>Parameters\<close>

datatype SpawnMode = SpawnBuiltin | SpawnCustom | SpawnFork | SpawnOther string

record 'a SubagentParams =
  sp_Mode :: SpawnMode
  sp_SystemPrompt :: string
  sp_Task :: string
  sp_Model :: string
  sp_PermissionMode :: mode
  sp_Messages :: "'a llm_Message list"
  sp_Background :: bool
  sp_MaxTurns :: int

text \<open>What the environment answers: the random task id, and creating the output file of a background run.\<close>

record subagent_os =
  os_taskID :: "string + string"
  os_openOutput :: "string option"

section \<open>The child's input\<close>

definition child_mode :: "mode \<Rightarrow> mode \<Rightarrow> mode" where
  "child_mode parent requested =
     (let m = Normalize requested;
          m = (if m = ModeOther [] then ModeBubble else m);
          m = (if parent \<noteq> ModeOther [] then ClampMode parent m else m)
      in if parent = ModeBypass \<or> parent = ModeDontAsk then parent else m)"

definition child_messages :: "'a Input \<Rightarrow> 'a SubagentParams \<Rightarrow> 'a llm_Message list" where
  "child_messages parent params =
     (let messages = [text_message RoleUser (sp_Task params)];
          messages = (if sp_Mode params = SpawnFork then in_Messages parent @ messages else messages)
      in if sp_Messages params \<noteq> [] then sp_Messages params @ messages else messages)"

abbreviation default_subagent_prompt :: string where
  "default_subagent_prompt \<equiv>
     ''You are a delegated sub-agent. Complete the assigned task and return concise results.''"

definition child_input :: "'a Input \<Rightarrow> 'a SubagentParams \<Rightarrow> 'a Input" where
  "child_input parent params =
     \<lparr>in_Model = (if TrimSpace (sp_Model params) = [] then in_Model parent else TrimSpace (sp_Model params)),
      in_SystemPrompt = (if TrimSpace (sp_SystemPrompt params) = [] then default_subagent_prompt
        else TrimSpace (sp_SystemPrompt params)),
      in_ContextMode = [], in_ToolMode = [], in_MaxOutputTokens = 0,
      in_Messages = child_messages parent params, in_HistoryPolicy = [], in_PromptIntent = [],
      in_AttachmentPolicy = [], in_OriginalUserText = [], in_ToolsetName = [],
      in_PermissionMode = child_mode (in_PermissionMode parent) (sp_PermissionMode params)\<rparr>"

definition child_config :: "Config \<Rightarrow> int \<Rightarrow> 'a SubagentParams \<Rightarrow> Config" where
  "child_config base defaultMaxTurns params =
     (let cfg = (if 0 < MaxTurns base \<and> MaxTurns base < defaultMaxTurns
            then base\<lparr>MaxTurns := defaultMaxTurns\<rparr> else base)
      in if 0 < sp_MaxTurns params then cfg\<lparr>MaxTurns := sp_MaxTurns params\<rparr> else cfg)"

text \<open>The child has the tools of its own registry, and neither pending messages nor a stop hook.\<close>

definition child_env :: "('a, 'c, 'i, 'd, 'p, 'w) run_env \<Rightarrow> ('c, 'i, 'd, 'p, 'w) registry \<Rightarrow> Config \<Rightarrow>
    ('w \<Rightarrow> go_error option) \<Rightarrow> ('a, 'c, 'i, 'd, 'p, 'w) run_env" where
  "child_env env tools cfg childErr =
     env\<lparr>re_cfg := cfg, re_tools := tools, re_ctxErr := childErr, re_CompactRequest := None,
         re_PendingMessages := None, re_StopHook := None\<rparr>"

section \<open>The child's events\<close>

fun reason_string :: "TerminalReason \<Rightarrow> string" where
  "reason_string TerminalCompleted = ''completed''"
| "reason_string TerminalAborted = ''aborted''"
| "reason_string TerminalMaxTurns = ''max_turns''"
| "reason_string TerminalContextOverflow = ''context_overflow''"
| "reason_string TerminalStopHook = ''stop_hook''"
| "reason_string TerminalUnrecoverable = ''unrecoverable''"

definition lastAssistantFromConversation :: "'a llm_Message list \<Rightarrow> string" where
  "lastAssistantFromConversation messages =
     (case find (\<lambda>m. msg_Role m = RoleAssistant \<and> TrimSpace (msg_Content m) \<noteq> []) (rev messages) of
        None \<Rightarrow> [] | Some m \<Rightarrow> msg_Content m)"

text \<open>The kind of the record an event leaves in the output file, if it leaves one.\<close>

fun output_kind :: "('a, 'i, 'd, 'p) Event \<Rightarrow> string option" where
  "output_kind (AssistantTextDelta _) = Some ''text''"
| "output_kind (AssistantThinkingDelta _) = Some ''thinking''"
| "output_kind (ToolUseStart _ _ _) = Some ''tool_start''"
| "output_kind (ToolUseProgress _ _) = Some ''tool_progress''"
| "output_kind (ToolUseResult _ _ _) = Some ''tool_result''"
| "output_kind (RetryNotice _ _ _ _ _ _) = Some ''retry''"
| "output_kind (CompactionStarted _ _) = Some ''compaction_started''"
| "output_kind (CompactionCompleted _) = Some ''compaction_completed''"
| "output_kind (HookNotice _) = Some ''hook_notice''"
| "output_kind (Terminal _ _ _ _) = Some ''terminal''"
| "output_kind _ = None"

text \<open>The loop over the events: an error that ends it, or the last assistant text and whether a terminal event was seen.\<close>

fun watch_child :: "string \<Rightarrow> bool \<Rightarrow> ('a, 'i, 'd, 'p) Event list \<Rightarrow> string + string \<times> bool" where
  "watch_child lastAssistant sawTerminal [] = Inr (lastAssistant, sawTerminal)"
| "watch_child lastAssistant sawTerminal (AssistantTextDelta c # es) = watch_child (lastAssistant @ c) sawTerminal es"
| "watch_child lastAssistant sawTerminal (Terminal reason detail u conversation # es) =
     (if reason \<noteq> TerminalCompleted
      then Inl (''sub-agent ended with '' @ reason_string reason @ '': '' @ detail)
      else watch_child (if lastAssistant = [] then lastAssistantFromConversation conversation else lastAssistant) True es)"
| "watch_child lastAssistant sawTerminal (_ # es) = watch_child lastAssistant sawTerminal es"

section \<open>runSubagent\<close>

text \<open>\<open>Died\<close> is a panic of the child's goroutine, which ends the process.\<close>

datatype subagent_result = Returned "string + string" | Died

definition child_result :: "string \<Rightarrow> bool \<Rightarrow> go_error option \<Rightarrow> bool \<Rightarrow> ('a, 'i, 'd, 'p) action list \<Rightarrow> subagent_result" where
  "child_result taskID background endErr ok acts =
     (if \<not> ok then Died
      else case watch_child [] False (sent acts) of
        Inl e \<Rightarrow> Returned (Inl e)
      | Inr (lastAssistant, sawTerminal) \<Rightarrow>
          if \<not> sawTerminal
          then Returned (Inl (case endErr of Some e \<Rightarrow> error_text e
            | None \<Rightarrow> ''sub-agent terminated without terminal event''))
          else if background then Returned (Inr taskID)
          else if TrimSpace lastAssistant = [] then Returned (Inr ''Sub-agent completed with no output.'')
          else Returned (Inr (TrimSpace lastAssistant)))"

definition runSubagent :: "nat \<Rightarrow> ('a, 'c, 'i, 'd, 'p, 'w) run_env \<Rightarrow> tools_mode \<Rightarrow> subagent_os \<Rightarrow>
    bool \<Rightarrow> bool \<Rightarrow> 'a Input \<Rightarrow> 'a SubagentParams \<Rightarrow> ('c, 'i, 'd, 'p, 'w) registry \<Rightarrow> int \<Rightarrow>
    ('w \<Rightarrow> go_error option) \<Rightarrow> go_error option \<Rightarrow> nat \<Rightarrow> 'w \<Rightarrow>
    (subagent_result \<times> ('a, 'i, 'd, 'p) action list) option" where
  "runSubagent fuel env contextMode os isSubagent haveClient parent params tools defaultMaxTurns childErr endErr counter w =
     (if TrimSpace (sp_Task params) = [] then Some (Returned (Inl ''sub-agent task is required''), [])
      else if isSubagent then Some (Returned (Inl ''sub-agent recursion not allowed''), [])
      else if \<not> haveClient then Some (Returned (Inl ''llm client is required''), [])
      else case os_taskID os of
        Inl e \<Rightarrow> Some (Returned (Inl (''generate task id: '' @ e)), [])
      | Inr taskID \<Rightarrow>
          (case (sp_Background params, os_openOutput os) of
             (True, Some e) \<Rightarrow> Some (Returned (Inl e), [])
           | _ \<Rightarrow>
               map_option (\<lambda>(ok, acts). (child_result taskID (sp_Background params) endErr ok acts, acts))
                 (run fuel (child_env env tools (child_config (re_cfg env) defaultMaxTurns params) childErr)
                   contextMode (child_input parent params) counter w)))"

section \<open>The mode of a child\<close>

lemma Normalize_not_empty [simp]: "Normalize m \<noteq> ModeOther s"
  by (cases m) auto

lemma child_mode_eq:
  "child_mode parent requested =
     (if parent = ModeBypass \<or> parent = ModeDontAsk then parent
      else if parent = ModeOther [] then Normalize requested
      else ClampMode parent (Normalize requested))"
  by (auto simp: child_mode_def Let_def)

lemma child_mode_strictness: "parent \<noteq> ModeOther [] \<Longrightarrow> strictness parent \<le> strictness (child_mode parent requested)"
  by (simp add: child_mode_eq ClampMode_strictness)

lemma child_mode_known: "known_mode (child_mode parent requested)"
  by (auto simp: child_mode_eq) (simp_all add: known_mode_def)

text \<open>An empty mode never reaches the default of bubble mode: it is normalized to the default mode before.\<close>

lemma empty_mode_is_default: "child_mode (ModeOther []) (ModeOther []) = ModeDefault"
  by (simp add: child_mode_eq)

text \<open>Below a bypass parent even a child that asks for plan mode bypasses permissions.\<close>

lemma plan_child_of_bypass: "child_mode ModeBypass ModePlan = ModeBypass"
  by (simp add: child_mode_eq)

text \<open>A turn limit of the parent below the default is raised for the child.\<close>

lemma turn_limit_raised:
  assumes "MaxTurns base = 3" "sp_MaxTurns params = 0"
  shows "MaxTurns (child_config base 200 params) = 200"
  using assms by (simp add: child_config_def)

text \<open>The default toolset is the child's whole registry.\<close>

lemma default_registry: "effectiveRegistry ''default'' tools readOnly = tools"
proof -
  have "ToLower ''default'' = ''default''" by (simp add: ToLower_ascii is_ascii_def lower_char_id)
  moreover have "TrimSpace ''default'' = ''default''" by code_simp
  ultimately show ?thesis by (simp add: effectiveRegistry_def Let_def)
qed

section \<open>The result of a child\<close>

text \<open>The assistant text a child streamed, over all its turns.\<close>

fun streamed :: "('a, 'i, 'd, 'p) Event list \<Rightarrow> string" where
  "streamed [] = []"
| "streamed (AssistantTextDelta c # es) = c @ streamed es"
| "streamed (_ # es) = streamed es"

lemma watch_quiet:
  "quiet acts \<Longrightarrow> watch_child seen False (sent acts @ es) = watch_child (seen @ streamed (sent acts)) False es"
proof (induction acts arbitrary: seen)
  case (Cons a acts)
  show ?case
  proof (cases a)
    case (Send e)
    with Cons show ?thesis by (cases e) auto
  qed (use Cons in auto)
qed simp

definition child_answer :: "string \<Rightarrow> 'a llm_Message list \<Rightarrow> string" where
  "child_answer text conversation =
     (let a = TrimSpace (if text = [] then lastAssistantFromConversation conversation else text)
      in if a = [] then ''Sub-agent completed with no output.'' else a)"

lemma watch_ended:
  "quiet before \<Longrightarrow> watch_child [] False (sent (before @ [Send (Terminal r d u ms)])) =
    (if r \<noteq> TerminalCompleted then Inl (''sub-agent ended with '' @ reason_string r @ '': '' @ d)
     else Inr (if streamed (sent before) = [] then lastAssistantFromConversation ms else streamed (sent before), True))"
  using watch_quiet [of before "[]" "[Terminal r d u ms]"] by simp

lemma run_ended: "run fuel env contextMode i counter w = Some (True, acts) \<Longrightarrow> ended acts"
proof (cases "validateInput contextMode i")
  case (Inr i')
  assume "run fuel env contextMode i counter w = Some (True, acts)"
  with Inr have "run_loop fuel (run_for env i') i' (initial_state (re_cfg env) i' counter w) = Some (True, acts)"
    by (simp add: run_def)
  from run_loop_ended [OF this] show ?thesis by simp
next
  case (Inl e)
  assume "run fuel env contextMode i counter w = Some (True, acts)"
  with Inl have "acts = [] @ [Send (Terminal TerminalUnrecoverable e zero_usage [])]" by (simp add: run_def)
  then show ?thesis unfolding ended_def using quiet_simps(1) by blast
qed

lemma runSubagent_runs:
  assumes "runSubagent fuel env contextMode os isSubagent haveClient parent params tools n childErr endErr counter w = Some (res, acts)"
  obtains (refused) e where "res = Returned (Inl e)" "acts = []"
  | (ran) taskID ok where "TrimSpace (sp_Task params) \<noteq> []" "\<not> isSubagent" "haveClient" "os_taskID os = Inr taskID"
      "run fuel (child_env env tools (child_config (re_cfg env) n params) childErr) contextMode
        (child_input parent params) counter w = Some (ok, acts)"
      "res = child_result taskID (sp_Background params) endErr ok acts"
proof -
  consider "TrimSpace (sp_Task params) = [] \<or> isSubagent \<or> \<not> haveClient"
    | e where "TrimSpace (sp_Task params) \<noteq> []" "\<not> isSubagent" "haveClient" "os_taskID os = Inl e"
    | taskID e where "TrimSpace (sp_Task params) \<noteq> []" "\<not> isSubagent" "haveClient" "os_taskID os = Inr taskID"
        "sp_Background params" "os_openOutput os = Some e"
    | taskID where "TrimSpace (sp_Task params) \<noteq> []" "\<not> isSubagent" "haveClient" "os_taskID os = Inr taskID"
        "\<not> (sp_Background params \<and> os_openOutput os \<noteq> None)"
    by (cases "os_taskID os"; cases "os_openOutput os") auto
  then show thesis
  proof cases
    case 1
    then show thesis using assms refused by (auto simp: runSubagent_def split: if_splits)
  next
    case 2
    then show thesis using assms refused by (auto simp: runSubagent_def)
  next
    case 3
    then show thesis using assms refused by (auto simp: runSubagent_def)
  next
    case (4 taskID)
    let ?r = "run fuel (child_env env tools (child_config (re_cfg env) n params) childErr) contextMode
        (child_input parent params) counter w"
    have "map_option (\<lambda>(ok, acts). (child_result taskID (sp_Background params) endErr ok acts, acts)) ?r = Some (res, acts)"
      using assms 4 by (cases "sp_Background params") (simp_all add: runSubagent_def)
    then obtain ok where "?r = Some (ok, acts)" "res = child_result taskID (sp_Background params) endErr ok acts" by auto
    with 4 ran [of taskID ok] show thesis by simp
  qed
qed

text \<open>A spawn under the demonstration run.\<close>

definition demo_spawn :: "string SubagentParams" where
  "demo_spawn = \<lparr>sp_Mode = SpawnBuiltin, sp_SystemPrompt = [], sp_Task = ''look'', sp_Model = [],
     sp_PermissionMode = ModeBypass, sp_Messages = [], sp_Background = False, sp_MaxTurns = 0\<rparr>"

abbreviation demo_child :: "nat \<Rightarrow> (subagent_result \<times> (string, string, unit, string) action list) option" where
  "demo_child fuel \<equiv> runSubagent fuel demo_run PermissionDefault
     \<lparr>os_taskID = Inr ''a1'', os_openOutput = None\<rparr> False True demo_input demo_spawn (te_Lookup demo_env, []) 1
     (\<lambda>_. None) None 5 1"

lemma demo_child_run: "child_env demo_run (te_Lookup demo_env, []) (child_config (re_cfg demo_run) 1 demo_spawn) (\<lambda>_. None) = demo_run"
  by (simp add: child_env_def child_config_def demo_spawn_def demo_run_def Let_def)

lemma demo_child_calls: obtains res acts x where "demo_child 7 = Some (res, acts)" "Ran (call_id 5 0) x \<in> set acts"
proof -
  have "child_mode ModeDefault ModeBypass = ModeDefault" by code_simp
  then have "in_PermissionMode (child_input demo_input demo_spawn) = ModeDefault"
    "in_Model (child_input demo_input demo_spawn) \<noteq> []" "in_ToolsetName (child_input demo_input demo_spawn) = []"
    by (simp_all add: child_input_def demo_input_def demo_spawn_def)
  then obtain ok acts x where "run 7 demo_run PermissionDefault (child_input demo_input demo_spawn) 5 1 = Some (ok, acts)"
    "Ran (call_id 5 0) x \<in> set acts" by (rule demo_run_calls)
  moreover have "TrimSpace (sp_Task demo_spawn) \<noteq> []" "\<not> sp_Background demo_spawn" by (code_simp, simp add: demo_spawn_def)
  ultimately show ?thesis using that unfolding runSubagent_def by (simp add: demo_child_run)
qed

text \<open>
  C7. What a sub-agent returns: either it is refused with an error before anything happens (no task, a
  sub-agent of a sub-agent, no client, no output file), or its run ends with one terminal event and the
  result is the error with the reason of that event, or, only if the run completed, the task id of a
  background run and otherwise the text the child streamed (the last assistant message if it streamed
  none); or the process dies with a panic of the run. There is no other outcome.
\<close>

theorem subagent_result_exact:
  assumes "runSubagent fuel env contextMode os isSubagent haveClient parent params tools n childErr endErr counter w
    = Some (res, acts)"
  shows "(\<exists>e. res = Returned (Inl e) \<and> acts = [])
    \<or> (\<exists>before reason detail u conversation.
        acts = before @ [Send (Terminal reason detail u conversation)] \<and> quiet before \<and> \<not> isSubagent
        \<and> res = Returned (if reason \<noteq> TerminalCompleted
            then Inl (''sub-agent ended with '' @ reason_string reason @ '': '' @ detail)
            else if sp_Background params then os_taskID os
            else Inr (child_answer (streamed (sent before)) conversation)))
    \<or> res = Died"
proof (cases rule: runSubagent_runs [OF assms])
  case (2 taskID ok)
  show ?thesis
  proof (cases ok)
    case True
    from 2(5) True have "ended acts" using run_ended by fastforce
    then obtain before r d u ms where
      a: "acts = before @ [Send (Terminal r d u ms)]" "quiet before" unfolding ended_def by blast
    have "res = Returned (if r \<noteq> TerminalCompleted
            then Inl (''sub-agent ended with '' @ reason_string r @ '': '' @ d)
            else if sp_Background params then os_taskID os
            else Inr (child_answer (streamed (sent before)) ms))"
      using 2(6) True 2(4) watch_ended [OF a(2), of r d u ms]
      unfolding a(1) by (cases "r = TerminalCompleted") (simp_all add: child_result_def child_answer_def)
    with a 2(2) show ?thesis by blast
  next
    case False
    then show ?thesis using 2(6) by (simp add: child_result_def)
  qed
qed simp

theorem subagent_result_exact_witness:
  "\<exists>res acts. demo_child 7 = Some (res, acts) \<and> (\<exists>x. Ran (call_id 5 0) x \<in> set acts)
    \<and> (res = Died \<or> (\<exists>before r d u ms. acts = before @ [Send (Terminal r d u ms)]))"
proof -
  obtain res acts x where d: "demo_child 7 = Some (res, acts)" "Ran (call_id 5 0) x \<in> set acts" by (rule demo_child_calls)
  then have "acts \<noteq> []" by auto
  with subagent_result_exact [OF d(1)] d show ?thesis by blast
qed



text \<open>
  A sub-agent always returns: with a turn limit of the parent or of the spawn, enough fuel always gives
  a result, and the child asks the model a bounded number of times.
\<close>

theorem subagent_returns:
  assumes "0 < MaxTurns (re_cfg env) \<or> 0 < sp_MaxTurns params" "0 < n"
    and "2 * nat (MaxTurns (child_config (re_cfg env) n params)) + 4 < fuel"
  shows "\<exists>res acts. runSubagent fuel env contextMode os isSubagent haveClient parent params tools n childErr endErr counter w
      = Some (res, acts)
    \<and> length (asks acts) \<le> 2 * nat (MaxTurns (child_config (re_cfg env) n params)) + 3"
proof -
  let ?env = "child_env env tools (child_config (re_cfg env) n params) childErr"
  have "0 < MaxTurns (child_config (re_cfg env) n params)" using assms(1,2) by (auto simp: child_config_def Let_def)
  then have "0 < MaxTurns (re_cfg ?env)" "re_PendingMessages ?env = None"
    "2 * nat (MaxTurns (re_cfg ?env)) + 4 < fuel" using assms(3) by (simp_all add: child_env_def)
  from run_returns [OF this, of contextMode "child_input parent params" counter w] obtain ok acts where
    "run fuel ?env contextMode (child_input parent params) counter w = Some (ok, acts)"
    "length (asks acts) \<le> 2 * nat (MaxTurns (child_config (re_cfg env) n params)) + 3" by (auto simp: child_env_def)
  then show ?thesis
    by (cases "os_taskID os"; cases "sp_Background params"; cases "os_openOutput os")
      (simp_all add: runSubagent_def)
qed

theorem subagent_returns_witness:
  "\<exists>res acts. demo_child 7 = Some (res, acts) \<and> length (asks acts) \<le> 5"
proof -
  have "MaxTurns (child_config (re_cfg demo_run) 1 demo_spawn) = 1" by (simp add: child_config_def demo_spawn_def)
  with subagent_returns [of demo_run demo_spawn 1 7 PermissionDefault "\<lparr>os_taskID = Inr ''a1'', os_openOutput = None\<rparr>" False True
    demo_input "(te_Lookup demo_env, [])" "\<lambda>_. None" None 5 1] show ?thesis by simp
qed

end
