(* ===== verification/Path_Safe.thy ===== *)
theory Path_Safe
  imports Go_Strings
begin

text \<open>
  File paths and the boundary of the workspace (\<open>internal/tools/pathsafe.go\<close>): \<open>ResolvePath\<close>, which
  every file tool and the browser's file handlers go through. The lexical functions of Go's package
  \<open>filepath\<close> it uses are modelled as they are on Unix (the platform with \<open>samePath\<close> an equality);
  what needs the file system (\<open>EvalSymlinks\<close>, the working directory of the process) is an argument.
\<close>

section \<open>Package filepath\<close>

abbreviation Slash :: char where
  "Slash \<equiv> CHR ''/''"

definition IsAbs :: "string \<Rightarrow> bool" where
  "IsAbs p = HasPrefix p [Slash]"

text \<open>\<open>Clean\<close>: one segment after the other, with the segments kept so far in reverse order.\<close>

definition clean_step :: "bool \<Rightarrow> string list \<Rightarrow> string \<Rightarrow> string list" where
  "clean_step rooted out seg =
     (if seg = [] \<or> seg = ''.'' then out
      else if seg = ''..'' then
        (if out \<noteq> [] \<and> hd out \<noteq> ''..'' then tl out else if rooted then out else seg # out)
      else seg # out)"

definition clean_segs :: "string \<Rightarrow> string list" where
  "clean_segs p = rev (foldl (clean_step (IsAbs p)) [] (Split p Slash))"

definition unclean :: "bool \<Rightarrow> string list \<Rightarrow> string" where
  "unclean rooted segs =
     (if rooted then Slash # Join segs Slash else if segs = [] then ''.'' else Join segs Slash)"

definition Clean :: "string \<Rightarrow> string" where
  "Clean p = unclean (IsAbs p) (clean_segs p)"

text \<open>\<open>filepath.Join\<close> drops empty elements.\<close>

definition JoinPath :: "string list \<Rightarrow> string" where
  "JoinPath elems = (let es = dropWhile (\<lambda>e. e = []) elems in if es = [] then [] else Clean (Join es Slash))"

definition Base :: "string \<Rightarrow> string" where
  "Base p =
     (if p = [] then ''.''
      else let q = TrimRight p {Slash} in if q = [] then [Slash] else last (Split q Slash))"

definition Dir :: "string \<Rightarrow> string" where
  "Dir p = Clean (rev (dropWhile (\<lambda>c. c \<noteq> Slash) (rev p)))"

text \<open>\<open>filepath.Rel\<close>: drop the elements both paths start with, and go up from what is left of the base.\<close>

definition elements :: "string \<Rightarrow> string list" where
  "elements p = (if p = [] then [] else if p = [Slash] then [[]] else Split p Slash)"

fun strip_common :: "string list \<Rightarrow> string list \<Rightarrow> string list \<times> string list" where
  "strip_common (b # bs) (t # ts) = (if b = t then strip_common bs ts else (b # bs, t # ts))"
| "strip_common bs ts = (bs, ts)"

definition Rel :: "string \<Rightarrow> string \<Rightarrow> string + string" where
  "Rel basepath targpath =
     (let base = Clean basepath; targ = Clean targpath in
      if targ = base then Inr ''.''
      else
        let base = (if base = ''.'' then [] else base);
            err = ''Rel: can't make '' @ targpath @ '' relative to '' @ basepath;
            (bs, ts) = strip_common (elements base) (elements targ)
        in if IsAbs base \<noteq> IsAbs targ then Inl err
           else if bs \<noteq> [] \<and> ts \<noteq> [] \<and> hd bs = ''..'' then Inl err
           else Inr (Join (map (\<lambda>_. ''..'') bs @ ts) Slash))"

section \<open>The workspace boundary\<close>

datatype PathMode = PathRead | PathWrite

datatype path_error = PathEmpty | OutsideRoots string | NoRoots | NotExist | OS_Error string

text \<open>
  What the paths are resolved against: the working directory of the process (\<open>filepath.Abs\<close> fails
  without one), the symbolic links as \<open>EvalSymlinks\<close> follows them, and the roots of the tool context.
\<close>

record path_env =
  pe_Getwd :: "string + string"
  pe_EvalSymlinks :: "string \<Rightarrow> string + string"
  pe_WorkingDir :: string
  pe_AdditionalWorkingDirs :: "string list"

definition Abs_path :: "path_env \<Rightarrow> string \<Rightarrow> path_error + string" where
  "Abs_path env p =
     (if IsAbs p then Inr (Clean p)
      else case pe_Getwd env of Inl e \<Rightarrow> Inl (OS_Error e) | Inr wd \<Rightarrow> Inr (JoinPath [wd, p]))"

definition isWithin :: "string \<Rightarrow> string \<Rightarrow> bool" where
  "isWithin root0 path0 =
     (let root = Clean root0; path = Clean path0 in
      if root = path then True
      else case Rel root path of
        Inl _ \<Rightarrow> False
      | Inr rel \<Rightarrow> rel \<noteq> ''.'' \<and> rel \<noteq> ''..'' \<and> \<not> HasPrefix rel ''../'')"

definition isSpecialPath :: "string \<Rightarrow> bool" where
  "isSpecialPath path =
     (let clean = Clean path in
      clean \<in> {''/dev/null'', ''/dev/random'', ''/dev/urandom'', ''/dev/zero'', ''/dev/stdin''}
      \<or> HasPrefix clean ''/dev/fd/'')"

fun eval_roots :: "path_env \<Rightarrow> string list \<Rightarrow> path_error + string list" where
  "eval_roots env [] = Inr []"
| "eval_roots env (root # raw) =
     (if TrimSpace root = [] then eval_roots env raw
      else case Abs_path env root of
        Inl e \<Rightarrow> Inl e
      | Inr a \<Rightarrow>
          (case eval_roots env raw of
             Inl e \<Rightarrow> Inl e
           | Inr roots \<Rightarrow>
               Inr (Clean (case pe_EvalSymlinks env a of Inl _ \<Rightarrow> a | Inr evaluated \<Rightarrow> evaluated) # roots)))"

definition allowedRoots :: "path_env \<Rightarrow> path_error + string list" where
  "allowedRoots env =
     (case eval_roots env (pe_WorkingDir env # pe_AdditionalWorkingDirs env) of
        Inl e \<Rightarrow> Inl e
      | Inr roots \<Rightarrow> if length roots = 0 then Inl NoRoots else Inr roots)"

definition resolveExistingOrParent :: "path_env \<Rightarrow> string \<Rightarrow> PathMode \<Rightarrow> path_error + string" where
  "resolveExistingOrParent env path m =
     (case pe_EvalSymlinks env path of
        Inr evaluated \<Rightarrow> Inr (Clean evaluated)
      | Inl e \<Rightarrow>
          if m = PathRead then Inl (OS_Error e)
          else case pe_EvalSymlinks env (Dir path) of
            Inr evaluated \<Rightarrow> Inr (JoinPath [evaluated, Base path])
          | Inl _ \<Rightarrow> Inl NotExist)"

definition ResolvePath :: "path_env \<Rightarrow> string \<Rightarrow> PathMode \<Rightarrow> path_error + string" where
  "ResolvePath env requested m =
     (if TrimSpace requested = [] then Inl PathEmpty
      else if isSpecialPath requested then Inl (OutsideRoots requested)
      else
        let candidate = (if IsAbs requested then requested else JoinPath [pe_WorkingDir env, requested]) in
        case Abs_path env candidate of
          Inl e \<Rightarrow> Inl e
        | Inr abs0 \<Rightarrow>
            let abs = Clean abs0 in
            if isSpecialPath abs then Inl (OutsideRoots requested)
            else case resolveExistingOrParent env abs m of
              Inl e \<Rightarrow> Inl e
            | Inr resolved \<Rightarrow>
                (case allowedRoots env of
                   Inl e \<Rightarrow> Inl e
                 | Inr roots \<Rightarrow> if list_ex (\<lambda>root. isWithin root resolved) roots then Inr abs
                               else Inl (OutsideRoots requested)))"

section \<open>Clean paths\<close>

text \<open>A kept segment; an absolute path keeps no \<open>..\<close>.\<close>

definition kept :: "bool \<Rightarrow> string \<Rightarrow> bool" where
  "kept rooted seg = (seg \<noteq> [] \<and> seg \<noteq> ''.'' \<and> Slash \<notin> set seg \<and> (rooted \<longrightarrow> seg \<noteq> ''..''))"

lemma clean_step_kept:
  "list_all (kept rooted) out \<Longrightarrow> Slash \<notin> set seg \<Longrightarrow> list_all (kept rooted) (clean_step rooted out seg)"
  by (cases out) (auto simp: clean_step_def kept_def)

lemma clean_fold_kept:
  "list_all (kept rooted) out \<Longrightarrow> list_all (\<lambda>s. Slash \<notin> set s) segs \<Longrightarrow>
    list_all (kept rooted) (foldl (clean_step rooted) out segs)"
  by (induction segs arbitrary: out) (auto intro: clean_step_kept)

lemma clean_segs_kept: "list_all (kept (IsAbs p)) (clean_segs p)"
proof -
  have "list_all (\<lambda>s. Slash \<notin> set s) (Split p Slash)" using Split_no_sep by (fastforce simp: list_all_iff)
  then show ?thesis unfolding clean_segs_def using clean_fold_kept [of "IsAbs p" "[]"] by (simp add: list_all_rev)
qed

lemma clean_fold_id:
  "list_all (kept True) segs \<Longrightarrow> foldl (clean_step True) out segs = rev segs @ out"
  by (induction segs arbitrary: out) (auto simp: clean_step_def kept_def)

lemma IsAbs_Cons [simp]: "IsAbs (Slash # s)" "\<not> IsAbs []" "IsAbs (c # s) \<longleftrightarrow> c = Slash"
  by (auto simp: IsAbs_def)

lemma kept_no_slash: "list_all (kept r) segs \<Longrightarrow> \<forall>s \<in> set segs. Slash \<notin> set s"
  by (auto simp: list_all_iff kept_def)

lemma clean_segs_of_segs: "list_all (kept True) segs \<Longrightarrow> clean_segs (Slash # Join segs Slash) = segs"
  by (cases "segs = []") (auto simp: clean_segs_def clean_step_def clean_fold_id Split_Join kept_no_slash)

lemma Clean_abs: "IsAbs p \<Longrightarrow> Clean p = Slash # Join (clean_segs p) Slash"
  by (simp add: Clean_def unclean_def)

lemma clean_segs_Clean: "IsAbs p \<Longrightarrow> clean_segs (Clean p) = clean_segs p"
  using clean_segs_kept [of p] by (simp add: Clean_abs clean_segs_of_segs)

lemma IsAbs_Clean [simp]: "IsAbs p \<Longrightarrow> IsAbs (Clean p)"
  by (simp add: Clean_abs)

lemma Clean_idem: "IsAbs p \<Longrightarrow> Clean (Clean p) = Clean p"
  by (simp add: Clean_abs [of "Clean p"] clean_segs_Clean) (simp add: Clean_abs)

lemma Clean_eq_iff: "IsAbs p \<Longrightarrow> IsAbs q \<Longrightarrow> Clean p = Clean q \<longleftrightarrow> clean_segs p = clean_segs q"
  using clean_segs_Clean by (metis Clean_abs)

section \<open>Inside a root\<close>

lemma strip_common_split:
  "strip_common bs ts = (bs', ts') \<Longrightarrow> \<exists>c. bs = c @ bs' \<and> ts = c @ ts' \<and> (bs' = [] \<or> ts' = [] \<or> hd bs' \<noteq> hd ts')"
proof (induction bs ts arbitrary: bs' ts' rule: strip_common.induct)
  case (1 b bs t ts)
  show ?case
  proof (cases "b = t")
    case True
    with 1 obtain c where "bs = c @ bs'" "ts = c @ ts'" "bs' = [] \<or> ts' = [] \<or> hd bs' \<noteq> hd ts'" by auto
    with True show ?thesis by (intro exI [of _ "b # c"]) simp
  next
    case False
    with 1(2) show ?thesis by (intro exI [of _ "[]"]) auto
  qed
qed auto

lemma strip_common_prefix: "fst (strip_common bs ts) = [] \<longleftrightarrow> prefix bs ts"
  by (induction bs ts rule: strip_common.induct) auto

lemma elements_abs:
  assumes "list_all (kept True) segs"
  shows "elements (Slash # Join segs Slash) = [] # segs"
proof (cases "segs = []")
  case False
  then have s: "Split (Join segs Slash) Slash = segs" using assms by (simp add: Split_Join kept_no_slash)
  have "[] \<notin> set segs" using assms by (auto simp: list_all_iff kept_def)
  with s False have "Join segs Slash \<noteq> []" by (cases "Join segs Slash = []") (auto simp del: Split_not_Nil)
  with s show ?thesis by (simp add: elements_def)
qed (simp add: elements_def)

lemma Join_dots:
  assumes "list_all (kept True) ts" "ts \<noteq> []"
  shows "Join ts Slash \<noteq> ''.''" "Join ts Slash \<noteq> ''..''" "\<not> HasPrefix (Join ts Slash) ''../''"
proof -
  have s: "Split (Join ts Slash) Slash = ts" using assms by (simp add: Split_Join kept_no_slash)
  have k: "''.'' \<notin> set ts" "''..'' \<notin> set ts" using assms(1) by (auto simp: list_all_iff kept_def)
  have one: "Split ''.'' Slash = [''.'']" "Split ''..'' Slash = [''..'']" by simp_all
  show "Join ts Slash \<noteq> ''.''" "Join ts Slash \<noteq> ''..''" using s k one by (metis list.set_intros(1))+
  show "\<not> HasPrefix (Join ts Slash) ''../''"
  proof
    assume "HasPrefix (Join ts Slash) ''../''"
    then obtain r where "Join ts Slash = ''..'' @ Slash # r" by (auto simp: HasPrefix_iff_prefix prefix_def)
    then have "Split (Join ts Slash) Slash = ''..'' # Split r Slash" by (simp add: Split_append)
    with s k(2) show False by (metis list.set_intros(1))
  qed
qed

lemma Join_up:
  assumes "bs \<noteq> []"
  shows "Join (map (\<lambda>_. ''..'') bs @ ts) Slash = ''..'' \<or> HasPrefix (Join (map (\<lambda>_. ''..'') bs @ ts) Slash) ''../''"
  using assms by (cases bs; cases "map (\<lambda>_. ''..'') (tl bs) @ ts") (auto simp del: append_is_Nil_conv)

text \<open>A path is inside a root exactly if the root's segments are the first ones of the path.\<close>

lemma isWithin_abs:
  assumes "IsAbs root" "IsAbs path"
  shows "isWithin root path \<longleftrightarrow> prefix (clean_segs root) (clean_segs path)"
proof (cases "Clean root = Clean path")
  case True
  then show ?thesis using assms by (simp add: isWithin_def Clean_eq_iff)
next
  case False
  obtain bs ts where s: "strip_common (clean_segs root) (clean_segs path) = (bs, ts)" by (metis prod.exhaust)
  have kr: "list_all (kept True) (clean_segs root)" and kp: "list_all (kept True) (clean_segs path)"
    using clean_segs_kept assms by (metis)+
  from strip_common_split [OF s] obtain c where c: "clean_segs root = c @ bs" "clean_segs path = c @ ts" by blast
  have kts: "list_all (kept True) ts" and kbs: "list_all (kept True) bs" using kr kp c by auto
  have ne: "clean_segs root \<noteq> clean_segs path" using False Clean_eq_iff [OF assms] by simp
  have dot: "Clean root \<noteq> ''.''" using assms by (simp add: Clean_abs)
  have el: "strip_common (elements (Clean root)) (elements (Clean path)) = (bs, ts)"
    using s kr kp assms by (simp add: Clean_abs elements_abs)
  have up: "bs = [] \<or> hd bs \<noteq> ''..''" using kbs by (cases bs) (auto simp: kept_def)
  have rel: "Rel (Clean root) (Clean path) = Inr (Join (map (\<lambda>_. ''..'') bs @ ts) Slash)"
    using el up dot False assms by (auto simp: Rel_def Clean_idem Let_def)
  have pre: "prefix (clean_segs root) (clean_segs path) \<longleftrightarrow> bs = []" using strip_common_prefix s by (metis fst_conv)
  show ?thesis
  proof (cases "bs = []")
    case True
    then have "ts \<noteq> []" using ne c by auto
    with True Join_dots [OF kts] rel False show ?thesis by (simp add: isWithin_def pre)
  next
    case bs: False
    from Join_up [OF bs, of ts] rel False bs show ?thesis by (auto simp: isWithin_def pre)
  qed
qed

section \<open>What ResolvePath lets through\<close>

text \<open>
  What package \<open>os\<close> promises: the working directory of the process is absolute, and the symbolic links
  of an absolute path lead to an absolute path.
\<close>

definition os_ok :: "path_env \<Rightarrow> bool" where
  "os_ok env = ((\<forall>wd. pe_Getwd env = Inr wd \<longrightarrow> IsAbs wd)
     \<and> (\<forall>p q. IsAbs p \<longrightarrow> pe_EvalSymlinks env p = Inr q \<longrightarrow> IsAbs q))"

lemma JoinPath_abs: "IsAbs p \<Longrightarrow> IsAbs (JoinPath [p, q])"
  by (cases p) (auto simp: JoinPath_def)

lemma Abs_path_abs: "os_ok env \<Longrightarrow> Abs_path env p = Inr q \<Longrightarrow> IsAbs q"
  by (auto simp: Abs_path_def os_ok_def JoinPath_abs split: if_splits sum.splits)

lemma eval_roots_abs: "os_ok env \<Longrightarrow> eval_roots env raw = Inr roots \<Longrightarrow> list_all IsAbs roots"
proof (induction raw arbitrary: roots)
  case (Cons root raw)
  show ?case
  proof (cases "TrimSpace root = []")
    case False
    with Cons.prems obtain a rs where "Abs_path env root = Inr a" "eval_roots env raw = Inr rs"
      "roots = Clean (case pe_EvalSymlinks env a of Inl _ \<Rightarrow> a | Inr evaluated \<Rightarrow> evaluated) # rs"
      by (auto split: sum.splits)
    moreover from this(1) have "IsAbs a" by (rule Abs_path_abs [OF Cons.prems(1)])
    moreover from calculation Cons.IH [OF Cons.prems(1)] have "list_all IsAbs rs" by blast
    ultimately show ?thesis using Cons.prems(1) by (cases "pe_EvalSymlinks env a") (auto simp: os_ok_def)
  qed (use Cons in simp)
qed simp

lemma IsAbs_Dir: "IsAbs p \<Longrightarrow> IsAbs (Dir p)"
proof -
  assume "IsAbs p"
  then obtain s where p: "p = Slash # s" by (cases p) auto
  have "\<exists>t. dropWhile (\<lambda>c. c \<noteq> Slash) (xs @ [Slash]) = t @ [Slash]" for xs
    by (induction xs) auto
  then obtain t where "dropWhile (\<lambda>c. c \<noteq> Slash) (rev s @ [Slash]) = t @ [Slash]" by blast
  then show ?thesis unfolding Dir_def p by simp
qed

lemma resolved_abs:
  assumes "os_ok env" "IsAbs p" "resolveExistingOrParent env p m = Inr q"
  shows "IsAbs q"
proof (cases "pe_EvalSymlinks env p")
  case (Inr e)
  with assms show ?thesis by (auto simp: resolveExistingOrParent_def os_ok_def)
next
  case (Inl err)
  with assms(3) obtain e where "pe_EvalSymlinks env (Dir p) = Inr e" "q = JoinPath [e, Base p]"
    by (auto simp: resolveExistingOrParent_def split: sum.splits if_splits)
  moreover from this(1) assms(1) IsAbs_Dir [OF assms(2)] have "IsAbs e" by (auto simp: os_ok_def)
  ultimately show ?thesis using JoinPath_abs by blast
qed

lemma ResolvePath_Inr:
  assumes "ResolvePath env requested m = Inr p"
  obtains q p' resolved roots root where "Abs_path env q = Inr p'" "p = Clean p'"
    "\<not> isSpecialPath p" "resolveExistingOrParent env p m = Inr resolved" "allowedRoots env = Inr roots"
    "root \<in> set roots" "isWithin root resolved"
proof -
  define q where "q = (if IsAbs requested then requested else JoinPath [pe_WorkingDir env, requested])"
  from assms obtain p' where p': "Abs_path env q = Inr p'"
    unfolding ResolvePath_def q_def Let_def by (auto split: if_splits sum.splits)
  with assms obtain resolved roots where "p = Clean p'" "\<not> isSpecialPath p"
    "resolveExistingOrParent env p m = Inr resolved" "allowedRoots env = Inr roots"
    "list_ex (\<lambda>root. isWithin root resolved) roots"
    unfolding ResolvePath_def q_def [symmetric] Let_def by (auto split: if_splits sum.splits)
  with p' that show ?thesis by (auto simp: list_ex_iff)
qed


definition demo_paths :: path_env where
  "demo_paths = \<lparr>pe_Getwd = Inr ''/w'', pe_EvalSymlinks = (\<lambda>p. if p = ''/w/l'' then Inr ''/etc/x'' else Inr p),
     pe_WorkingDir = ''/w'', pe_AdditionalWorkingDirs = []\<rparr>"

lemma demo_resolve:
  "ResolvePath demo_paths ''d/../a'' PathRead = Inr ''/w/a''"
  "ResolvePath demo_paths ''../wx'' PathRead = Inl (OutsideRoots ''../wx'')"
  "ResolvePath demo_paths ''l'' PathRead = Inl (OutsideRoots ''l'')"
  by (simp_all add: ResolvePath_def demo_paths_def TrimSpace_def trim_chunks_def chunks_ascii is_space_def
      isSpecialPath_def Clean_def clean_segs_def clean_step_def unclean_def JoinPath_def Abs_path_def Let_def
      resolveExistingOrParent_def allowedRoots_def isWithin_def Rel_def elements_def)


section \<open>File name extensions\<close>

text \<open>\<open>filepath.Ext\<close>: from the last dot of the last element on.\<close>

definition Ext :: "string \<Rightarrow> string" where
  "Ext p =
     (let base = rev (takeWhile (\<lambda>c. c \<noteq> Slash) (rev p)); suffix = rev (takeWhile (\<lambda>c. c \<noteq> CHR ''.'') (rev base))
      in if CHR ''.'' \<in> set base then CHR ''.'' # suffix else [])"

end
