(* ===== verification/Path_Lock.thy ===== *)
theory Path_Lock
  imports Path_Safe
begin

text \<open>
  The locks on file paths (\<open>internal/tools/filewrite/lock.go\<close>), which keep an agent's write and a save
  from the browser apart. An entry of the table is shared by everybody who waits for or holds the
  lock of one key; it has a channel with room for one token and a count of its users, and it is deleted
  with the last of them. The table is only read and written under a mutex, so \<open>acquireEntry\<close> and
  \<open>releaseEntry\<close> are atomic; sending to and receiving from the channel are steps of their own.
\<close>

section \<open>The table of entries\<close>

text \<open>Entries are pointers: a heap of entries beside the table, and the next unused address.\<close>

record pathLockEntry =
  entry_full :: bool
  refs :: int

record locks =
  pathLocks :: "string \<rightharpoonup> nat"
  entries :: "nat \<Rightarrow> pathLockEntry"
  next_entry :: nat

definition pathKey :: "path_env \<Rightarrow> string \<Rightarrow> string" where
  "pathKey env path = (case pe_EvalSymlinks env path of Inr resolved \<Rightarrow> resolved | Inl _ \<Rightarrow> path)"

definition acquireEntry :: "string \<Rightarrow> 'x locks_scheme \<Rightarrow> nat \<times> 'x locks_scheme" where
  "acquireEntry key s =
     (let (e, s) = (case pathLocks s key of
            Some e \<Rightarrow> (e, s)
          | None \<Rightarrow> (next_entry s,
              s\<lparr>pathLocks := (pathLocks s)(key \<mapsto> next_entry s),
                entries := (entries s)(next_entry s := \<lparr>entry_full = False, refs = 0\<rparr>),
                next_entry := next_entry s + 1\<rparr>))
      in (e, s\<lparr>entries := (entries s)(e := (entries s e)\<lparr>refs := refs (entries s e) + 1\<rparr>)\<rparr>))"

definition releaseEntry :: "string \<Rightarrow> nat \<Rightarrow> 'x locks_scheme \<Rightarrow> 'x locks_scheme" where
  "releaseEntry key e s =
     (let s = s\<lparr>entries := (entries s)(e := (entries s e)\<lparr>refs := refs (entries s e) - 1\<rparr>)\<rparr>
      in if refs (entries s e) = 0 then s\<lparr>pathLocks := (pathLocks s)(key := None)\<rparr> else s)"

definition lockCount :: "'x locks_scheme \<Rightarrow> nat" where
  "lockCount s = card (dom (pathLocks s))"

section \<open>Goroutines that lock paths\<close>

text \<open>
  Where a goroutine is in \<open>LockPath\<close> (\<open>False\<close>) or \<open>TryLockPath\<close>, and in the unlock function it got.
\<close>

datatype lock_pc =
    Out
  | Waiting bool string nat
  | Holding string nat
  | Leaving string nat

record lock_state = locks +
  pcs :: "nat \<Rightarrow> lock_pc"

definition locks_init :: lock_state where
  "locks_init = \<lparr>pathLocks = Map.empty, entries = (\<lambda>_. \<lparr>entry_full = False, refs = 0\<rparr>), next_entry = 0,
     pcs = (\<lambda>_. Out)\<rparr>"

definition move :: "nat \<Rightarrow> lock_pc \<Rightarrow> lock_state \<Rightarrow> lock_state" where
  "move g p s = s\<lparr>pcs := (pcs s)(g := p)\<rparr>"

definition set_full :: "nat \<Rightarrow> bool \<Rightarrow> lock_state \<Rightarrow> lock_state" where
  "set_full e b s = s\<lparr>entries := (entries s)(e := (entries s e)\<lparr>entry_full := b\<rparr>)\<rparr>"

inductive lock_step :: "lock_state \<Rightarrow> lock_state \<Rightarrow> bool" where
  enter: "pcs s g = Out \<Longrightarrow> acquireEntry key s = (e, s') \<Longrightarrow>
    lock_step s (move g (Waiting b key e) s')"
| send: "pcs s g = Waiting b key e \<Longrightarrow> \<not> entry_full (entries s e) \<Longrightarrow>
    lock_step s (move g (Holding key e) (set_full e True s))"
| expire: "pcs s g = Waiting False key e \<Longrightarrow> lock_step s (move g (Leaving key e) s)"
| busy: "pcs s g = Waiting True key e \<Longrightarrow> entry_full (entries s e) \<Longrightarrow>
    lock_step s (move g (Leaving key e) s)"
| receive: "pcs s g = Holding key e \<Longrightarrow> entry_full (entries s e) \<Longrightarrow>
    lock_step s (move g (Leaving key e) (set_full e False s))"
| release: "pcs s g = Leaving key e \<Longrightarrow> lock_step s (move g Out (releaseEntry key e s))"

inductive_cases lock_stepE: "lock_step s s'"

abbreviation lock_reachable :: "lock_state \<Rightarrow> bool" where
  "lock_reachable s \<equiv> lock_step\<^sup>*\<^sup>* locks_init s"

section \<open>The invariant\<close>

fun uses :: "lock_pc \<Rightarrow> (string \<times> nat) option" where
  "uses Out = None"
| "uses (Waiting _ key e) = Some (key, e)"
| "uses (Holding key e) = Some (key, e)"
| "uses (Leaving key e) = Some (key, e)"

definition users :: "lock_state \<Rightarrow> nat \<Rightarrow> nat set" where
  "users s e = {g. \<exists>key. uses (pcs s g) = Some (key, e)}"

definition holders :: "lock_state \<Rightarrow> nat \<Rightarrow> nat set" where
  "holders s e = {g. \<exists>key. pcs s g = Holding key e}"

text \<open>
  Everybody who uses an entry still finds it in the table; an entry of the table is used, its count
  is the number of its users, and its channel is full exactly if one of them holds the lock.
\<close>

definition entry_ok :: "lock_state \<Rightarrow> nat \<Rightarrow> bool" where
  "entry_ok s e =
     (e < next_entry s \<and> users s e \<noteq> {} \<and> finite (users s e)
      \<and> refs (entries s e) = int (card (users s e))
      \<and> (if entry_full (entries s e) then \<exists>g. holders s e = {g} else holders s e = {}))"

definition lock_inv :: "lock_state \<Rightarrow> bool" where
  "lock_inv s =
     ((\<forall>g key e. uses (pcs s g) = Some (key, e) \<longrightarrow> pathLocks s key = Some e)
      \<and> (\<forall>key e. pathLocks s key = Some e \<longrightarrow> entry_ok s e)
      \<and> (\<forall>key key' e. pathLocks s key = Some e \<longrightarrow> pathLocks s key' = Some e \<longrightarrow> key = key'))"

lemma lock_invI:
  assumes "\<And>g key e. uses (pcs s g) = Some (key, e) \<Longrightarrow> pathLocks s key = Some e"
    and "\<And>key e. pathLocks s key = Some e \<Longrightarrow> entry_ok s e"
    and "\<And>key key' e. pathLocks s key = Some e \<Longrightarrow> pathLocks s key' = Some e \<Longrightarrow> key = key'"
  shows "lock_inv s"
  using assms unfolding lock_inv_def by blast

lemma lock_invD:
  assumes "lock_inv s"
  shows "uses (pcs s g) = Some (key, e) \<Longrightarrow> pathLocks s key = Some e"
    and "pathLocks s key = Some e \<Longrightarrow> entry_ok s e"
    and "pathLocks s key = Some e \<Longrightarrow> pathLocks s key' = Some e \<Longrightarrow> key = key'"
  using assms unfolding lock_inv_def by blast+

lemma holders_users: "g \<in> holders s e \<Longrightarrow> g \<in> users s e"
  by (auto simp: holders_def users_def)

lemma move_simps [simp]:
  "pathLocks (move g p s) = pathLocks s" "entries (move g p s) = entries s"
  "next_entry (move g p s) = next_entry s" "pcs (move g p s) = (pcs s)(g := p)"
  "pathLocks (set_full e b s) = pathLocks s" "next_entry (set_full e b s) = next_entry s"
  "pcs (set_full e b s) = pcs s"
  "entries (set_full e b s) = (entries s)(e := (entries s e)\<lparr>entry_full := b\<rparr>)"
  by (simp_all add: move_def set_full_def)

lemma users_move:
  "users (move g p s) e = (if \<exists>key. uses p = Some (key, e) then insert g (users s e) else users s e - {g})"
  by (auto simp: users_def)

lemma holders_move:
  "holders (move g p s) e = (if \<exists>key. p = Holding key e then insert g (holders s e) else holders s e - {g})"
  by (auto simp: holders_def)

lemma users_cong: "pcs s = pcs t \<Longrightarrow> users s e = users t e" "pcs s = pcs t \<Longrightarrow> holders s e = holders t e"
  by (simp_all add: users_def holders_def)

text \<open>A goroutine that goes on with the entry it uses: the table and the users stay as they are.\<close>

lemma inv_goes_on:
  assumes inv: "lock_inv s" and g: "uses (pcs s g) = Some (key, e)" and p: "uses p = Some (key, e)"
    and full: "if b then \<exists>h. holders (move g p s) e = {h} else holders (move g p s) e = {}"
  shows "lock_inv (move g p (set_full e b s))"
proof (rule lock_invI)
  let ?s = "move g p (set_full e b s)"
  note d = lock_invD [OF inv]
  have us: "users ?s e' = users s e'" for e'
    using g p by (auto simp: users_move users_cong [of "set_full e b s" s] users_def)
  show "pathLocks ?s key' = Some e'" if "uses (pcs ?s g') = Some (key', e')" for g' key' e'
    using that d(1) g p by (auto split: if_splits)
  show "entry_ok ?s e'" if k: "pathLocks ?s key' = Some e'" for key' e'
  proof (cases "e' = e")
    case True
    have "entry_ok s e" using d(1) [OF g] d(2) by blast
    with full us show ?thesis unfolding entry_ok_def True holders_move users_cong [of "set_full e b s" s, simplified]
      by (auto split: if_splits)
  next
    case False
    have "holders ?s e' = holders s e'" using False g p
      by (auto simp: holders_move users_cong [of "set_full e b s" s] holders_def split: if_splits)
    with False us d(2) k show ?thesis by (simp add: entry_ok_def)
  qed
  show "key1 = key2" if "pathLocks ?s key1 = Some e'" "pathLocks ?s key2 = Some e'" for key1 key2 e'
    using that d(3) by simp
qed

lemma set_full_id: "set_full e (entry_full (entries s e)) s = s"
  by (simp add: set_full_def)

lemma inv_enter:
  assumes inv: "lock_inv s" and g: "pcs s g = Out" and a: "acquireEntry key s = (e, s')"
  shows "lock_inv (move g (Waiting b key e) s')"
proof (rule lock_invI)
  let ?s = "move g (Waiting b key e) s'"
  note d = lock_invD [OF inv]
  have s': "pathLocks s' = (pathLocks s)(key \<mapsto> e)" "pcs s' = pcs s" "next_entry s \<le> next_entry s'" "e < next_entry s'"
    using a d(2) by (auto simp: acquireEntry_def Let_def entry_ok_def split: option.splits)
  have out: "g \<notin> users s e'" "g \<notin> holders s e'" for e' using g by (simp_all add: users_def holders_def)
  have us: "users ?s e' = (if e' = e then insert g (users s e) else users s e')" for e'
    using out by (auto simp: users_move users_cong [OF s'(2)])
  have hs: "holders ?s e' = holders s e'" for e'
    using out by (auto simp: holders_move users_cong [OF s'(2)])
  have old: "pathLocks s key = Some e \<or> (pathLocks s key = None \<and> e = next_entry s)"
    using a by (auto simp: acquireEntry_def Let_def split: option.splits)
  have other: "e' \<noteq> e" if "pathLocks s k = Some e'" "k \<noteq> key" for k e'
    using that old d(2,3) by (auto simp: entry_ok_def)
  show "pathLocks ?s key' = Some e'" if u: "uses (pcs ?s g') = Some (key', e')" for g' key' e'
  proof (cases "g' = g")
    case False
    then have k: "pathLocks s key' = Some e'" using u s' d(1) by simp
    with old s'(1) show ?thesis by (cases "key' = key") auto
  qed (use u s'(1) in auto)
  have new: "entry_ok ?s e"
  proof (cases "pathLocks s key")
    case None
    then have "users s e = {}" using old d(1,2) by (fastforce simp: users_def entry_ok_def)
    moreover from this have "holders s e = {}" using holders_users by blast
    ultimately show ?thesis using None a s'(4) us hs
      by (auto simp: entry_ok_def acquireEntry_def Let_def)
  next
    case (Some e0)
    then have e: "e0 = e" "entry_ok s e" using old d(2) by auto
    then have "entries s' e = (entries s e)\<lparr>refs := refs (entries s e) + 1\<rparr>"
      using a Some by (auto simp: acquireEntry_def Let_def)
    with e s'(4) us hs out show ?thesis by (simp add: entry_ok_def)
  qed
  show "entry_ok ?s e'" if k: "pathLocks ?s key' = Some e'" for key' e'
  proof (cases "key' = key")
    case False
    then have k': "pathLocks s key' = Some e'" using k s' by simp
    have "entries s' e' = entries s e'" using other [OF k' False] a
      by (auto simp: acquireEntry_def Let_def split: option.splits)
    with other [OF k' False] d(2) [OF k'] us hs s'(3) show ?thesis by (simp add: entry_ok_def)
  qed (use k s' new in auto)
  show "key1 = key2" if "pathLocks ?s key1 = Some e'" "pathLocks ?s key2 = Some e'" for key1 key2 e'
    using that s'(1) d(3) other [of key1 e'] other [of key2 e'] by (cases "key1 = key"; cases "key2 = key") auto
qed

lemma inv_release:
  assumes inv: "lock_inv s" and g: "pcs s g = Leaving key e"
  shows "lock_inv (move g Out (releaseEntry key e s))"
proof (rule lock_invI)
  let ?s = "move g Out (releaseEntry key e s)"
  note d = lock_invD [OF inv]
  have k: "pathLocks s key = Some e" using d(1) [of g key e] g by simp
  have ok: "entry_ok s e" using d(2) [OF k] .
  have gu: "g \<in> users s e" "g \<in> users s e' \<longleftrightarrow> e' = e" "g \<notin> holders s e'" for e'
    using g by (simp_all add: users_def holders_def) auto
  have same: "pcs (releaseEntry key e s) = pcs s" "next_entry (releaseEntry key e s) = next_entry s"
    by (simp_all add: releaseEntry_def Let_def)
  have us: "users ?s e' = users s e' - {g}" and hs: "holders ?s e' = holders s e'" for e'
    using gu by (auto simp: users_move holders_move users_cong [OF same(1)])
  have one: "card (users s e) = 1 \<longleftrightarrow> users s e = {g}"
  proof
    assume "card (users s e) = 1"
    then obtain x where "users s e = {x}" by (rule card_1_singletonE)
    with gu(1) show "users s e = {g}" by simp
  qed simp
  have last: "refs (entries s e) - 1 = 0 \<longleftrightarrow> users s e = {g}"
    using ok unfolding entry_ok_def one [symmetric] by linarith
  have table: "pathLocks ?s = (if users s e = {g} then (pathLocks s)(key := None) else pathLocks s)"
    using last by (simp add: releaseEntry_def Let_def)
  have ent: "entries ?s = (entries s)(e := (entries s e)\<lparr>refs := refs (entries s e) - 1\<rparr>)"
    by (simp add: releaseEntry_def Let_def)
  show "pathLocks ?s key' = Some e'" if u: "uses (pcs ?s g') = Some (key', e')" for g' key' e'
  proof -
    from u have g': "g' \<noteq> g" "uses (pcs s g') = Some (key', e')" using same by (auto split: if_splits)
    from d(1) [OF this(2)] have k': "pathLocks s key' = Some e'" .
    have "g' \<in> users s e'" using g'(2) by (simp add: users_def)
    then have "users s e \<noteq> {g}" if "key' = key" using that k k' g'(1) by fastforce
    with k' show ?thesis unfolding table by (cases "key' = key") auto
  qed
  show "entry_ok ?s e'" if k': "pathLocks ?s key' = Some e'" for key' e'
  proof -
    from k' have o: "pathLocks s key' = Some e'" "users s e = {g} \<Longrightarrow> key' \<noteq> key"
      unfolding table by (auto split: if_splits)
    show ?thesis
    proof (cases "e' = e")
      case True
      then have "key' = key" using o(1) k d(3) by blast
      then have "users s e - {g} \<noteq> {}" using o(2) gu(1) by blast
      with True ok us hs ent same gu(1) show ?thesis by (simp add: entry_ok_def of_nat_diff card_gt_0_iff Suc_leI)
    next
      case False
      with d(2) [OF o(1)] us hs ent same gu(2) [of e'] show ?thesis by (simp add: entry_ok_def)
    qed
  qed
  show "key1 = key2" if "pathLocks ?s key1 = Some e'" "pathLocks ?s key2 = Some e'" for key1 key2 e'
    using that d(3) unfolding table by (auto split: if_splits)
qed

lemma inv_leaves:
  assumes "pcs s g = Waiting b key e" "lock_inv s"
  shows "lock_inv (move g (Leaving key e) s)"
proof -
  have k: "pathLocks s key = Some e" using assms lock_invD(1) [of s g key e] by simp
  have "g \<notin> holders s e" using assms(1) by (simp add: holders_def)
  then have h: "holders (move g (Leaving key e) s) e = holders s e" by (simp add: holders_move)
  have "g \<notin> holders s e" using assms(1) by (simp add: holders_def)
  moreover from lock_invD(2) [OF assms(2) k]
  have "if entry_full (entries s e) then \<exists>g. holders s e = {g} else holders s e = {}" by (simp add: entry_ok_def)
  ultimately show ?thesis
    using inv_goes_on [OF assms(2), of g key e "Leaving key e" "entry_full (entries s e)"] assms(1)
    by (simp add: h set_full_id)
qed

lemma lock_inv_step: "lock_step s s' \<Longrightarrow> lock_inv s \<Longrightarrow> lock_inv s'"
proof (induction rule: lock_step.induct)
  case (send s g b key e)
  from send have k: "pathLocks s key = Some e" using lock_invD(1) [of s g key e] by simp
  then have "holders s e = {}" using lock_invD(2) [OF send.prems k] send(2) by (simp add: entry_ok_def)
  with inv_goes_on [OF send.prems, of g key e "Holding key e" True] send(1) show ?case
    by (simp add: holders_move)
next
  case (receive s g key e)
  from receive have k: "pathLocks s key = Some e" using lock_invD(1) [of s g key e] by simp
  have "g \<in> holders s e" using receive(1) by (auto simp: holders_def)
  then have "holders s e = {g}" using lock_invD(2) [OF receive.prems k] receive(2) by (auto simp: entry_ok_def)
  with inv_goes_on [OF receive.prems, of g key e "Leaving key e" False] receive(1) show ?case
    by (simp add: holders_move)
next
  case (expire s g key e)
  then show ?case by (rule inv_leaves)
next
  case (busy s g key e)
  from busy(1,3) show ?case by (rule inv_leaves)
qed (auto intro: inv_enter inv_release)

lemma inv_init: "lock_inv locks_init"
  by (rule lock_invI) (auto simp: locks_init_def)

lemma lock_inv_reachable: "lock_reachable s \<Longrightarrow> lock_inv s"
  by (induction rule: rtranclp_induct) (auto intro: inv_init lock_inv_step)

section \<open>What the locks guarantee\<close>

lemma holders_one:
  assumes "lock_inv s" "pcs s g = Holding key e" "pcs s g' = Holding key e'"
  shows "g = g'"
proof -
  from assms have k: "pathLocks s key = Some e" "pathLocks s key = Some e'"
    using lock_invD(1) [of s g key e] lock_invD(1) [of s g' key e'] by simp_all
  then have "g \<in> holders s e" "g' \<in> holders s e" using assms by (auto simp: holders_def)
  with lock_invD(2) [OF assms(1) k(1)] show ?thesis by (auto simp: entry_ok_def split: if_splits)
qed

text \<open>
  C26. Paths are locked exclusively: in every interleaving of agent writes and browser saves, with
  waits that time out, entries that are deleted and created again, and any number of keys, two
  goroutines never hold the lock of the same key.
\<close>

theorem path_lock_exclusive:
  assumes "lock_reachable s" "pcs s g = Holding key e" "pcs s g' = Holding key e'"
  shows "g = g'"
  by (rule holders_one [OF lock_inv_reachable [OF assms(1)] assms(2,3)])

text \<open>
  The table of locks does not leak and loses nothing: it has an entry for a key exactly while
  somebody waits for, holds or leaves the lock of this key, so it is empty when all are done; the lock
  is free to be taken exactly if nobody holds it, and whoever holds it can always release it.
\<close>

theorem lock_table_exact:
  assumes "lock_reachable s"
  shows "(pathLocks s key \<noteq> None \<longleftrightarrow> (\<exists>g e. uses (pcs s g) = Some (key, e)))
    \<and> (pcs s g = Waiting b key e \<longrightarrow>
        (entry_full (entries s e) \<longleftrightarrow> (\<exists>g'. pcs s g' = Holding key e)))
    \<and> (pcs s g = Holding key e \<longrightarrow> entry_full (entries s e))"
proof -
  have inv: "lock_inv s" by (rule lock_inv_reachable [OF assms])
  note d = lock_invD [OF inv]
  have "\<exists>g. uses (pcs s g) = Some (key, e)" if k: "pathLocks s key = Some e" for e
  proof -
    from d(2) [OF k] obtain g key' where u: "uses (pcs s g) = Some (key', e)" by (auto simp: entry_ok_def users_def)
    from d(3) [OF d(1) [OF u] k] u show ?thesis by auto
  qed
  with d(1) have one: "pathLocks s key \<noteq> None \<longleftrightarrow> (\<exists>g e. uses (pcs s g) = Some (key, e))" by blast
  have held: "\<exists>key'. pcs s g' = Holding key' e \<Longrightarrow> pathLocks s key = Some e \<Longrightarrow> pcs s g' = Holding key e" for g'
    using d(1,3) by (metis uses.simps(3))
  have full: "entry_full (entries s e) \<longleftrightarrow> (\<exists>g'. pcs s g' = Holding key e)" if "pathLocks s key = Some e"
  proof -
    have "holders s e = {g'. pcs s g' = Holding key e}" using held that by (auto simp: holders_def)
    moreover have "if entry_full (entries s e) then \<exists>g. holders s e = {g} else holders s e = {}"
      using d(2) [OF that] by (simp add: entry_ok_def)
    ultimately show ?thesis by (auto split: if_splits)
  qed
  have two: "pcs s g = Waiting b key e \<longrightarrow> (entry_full (entries s e) \<longleftrightarrow> (\<exists>g'. pcs s g' = Holding key e))"
    using full d(1) [of g key e] by simp
  have "pcs s g = Holding key e \<longrightarrow> entry_full (entries s e)" using full d(1) [of g key e] by auto
  with one two show ?thesis by blast
qed

section \<open>Examples\<close>

abbreviation demo_path :: string where "demo_path \<equiv> ''/w/a''"

text \<open>An agent write (goroutine 0) holds the lock while a browser save (goroutine 1) tries to get it.\<close>

definition demo_entered :: lock_state where
  "demo_entered = move 0 (Waiting False demo_path 0) (snd (acquireEntry demo_path locks_init))"

definition demo_held :: lock_state where
  "demo_held = move 0 (Holding demo_path 0) (set_full 0 True demo_entered)"

definition demo_tried :: lock_state where
  "demo_tried = move 1 (Waiting True demo_path 0) (snd (acquireEntry demo_path demo_held))"

lemmas demo_locks = demo_tried_def demo_held_def demo_entered_def acquireEntry_def locks_init_def
  move_def set_full_def Let_def

lemma demo_tried_reachable: "lock_reachable demo_tried"
proof -
  have 1: "lock_step locks_init demo_entered"
    unfolding demo_entered_def by (rule enter [where b = False]) (simp_all add: acquireEntry_def locks_init_def)
  have 2: "lock_step demo_entered demo_held"
    unfolding demo_held_def by (rule send [where b = False]) (simp_all add: demo_locks)
  have 3: "lock_step demo_held demo_tried"
    unfolding demo_tried_def by (rule enter [where b = True]) (simp_all add: demo_locks)
  from 1 2 3 show ?thesis by (meson converse_rtranclp_into_rtranclp rtranclp.rtrancl_refl)
qed

theorem path_lock_exclusive_witness:
  "lock_reachable demo_tried \<and> {g. \<exists>e. pcs demo_tried g = Holding demo_path e} = {0}"
proof -
  have "pcs demo_tried 0 = Holding demo_path 0" by (simp add: demo_locks)
  then have "{g. \<exists>e. pcs demo_tried g = Holding demo_path e} = {0}"
    using path_lock_exclusive [OF demo_tried_reachable, of 0 demo_path 0] by blast
  with demo_tried_reachable show ?thesis by blast
qed

theorem lock_table_exact_witness:
  "pcs demo_tried 1 = Waiting True demo_path 0 \<and> entry_full (entries demo_tried 0)
    \<and> pathLocks demo_tried demo_path = Some 0 \<and> pathLocks demo_tried ''/w/b'' = None"
proof -
  have p: "pcs demo_tried = (\<lambda>_. Out)(0 := Holding demo_path 0, 1 := Waiting True demo_path 0)"
    "pathLocks demo_tried demo_path = Some 0"
    by (simp_all add: demo_locks fun_eq_iff)
  have "pathLocks demo_tried ''/w/b'' = None"
    using lock_table_exact [OF demo_tried_reachable, of "''/w/b''" 0 False 0] by (auto simp: p split: if_splits)
  moreover have "entry_full (entries demo_tried 0)"
    using lock_table_exact [OF demo_tried_reachable, of demo_path 0 False 0] by (simp add: p)
  ultimately show ?thesis by (simp add: p)
qed

text \<open>
  The key of a file that does not exist yet is the path as it was given, so two paths to one new file,
  one of them through a linked directory, have two keys and are not kept apart.
\<close>

lemma new_file_two_keys:
  assumes "pe_EvalSymlinks env ''/w/d/f'' = Inl e" "pe_EvalSymlinks env ''/w/link/f'' = Inl e'"
  shows "pathKey env ''/w/d/f'' \<noteq> pathKey env ''/w/link/f''"
  using assms by (simp add: pathKey_def)

end
