(* ===== verification/Go_Text.thy ===== *)
theory Go_Text
  imports Go_Strings
begin

text \<open>
  Text as the file tools handle it: \<open>strconv.Itoa\<close>, \<open>utf8.Valid\<close>, the lines \<open>bufio.Reader.ReadString\<close>
  yields, and the replacement of the first occurrence of a substring.
\<close>

abbreviation NL :: char where "NL \<equiv> CHR 10"
abbreviation CR :: char where "CR \<equiv> CHR 13"
abbreviation Tab :: char where "Tab \<equiv> CHR 9"

definition Itoa :: "int \<Rightarrow> string" where
  "Itoa n = (if n < 0 then CHR ''-'' # FormatUint (nat (- n)) else FormatUint (nat n))"

lemma Itoa_inject [simp]: "Itoa a = Itoa b \<longleftrightarrow> a = b"
proof -
  have "\<not> is_digit (CHR ''-'')" by (simp add: is_digit_def)
  then have "CHR ''-'' # s \<noteq> FormatUint n" for s n
    using FormatUint_digits [of n] by (metis list.pred_inject(2))
  then show ?thesis by (auto simp: Itoa_def eq_nat_nat_iff dest: sym)
qed

section \<open>Package unicode/utf8\<close>

definition utf8_Valid :: "string \<Rightarrow> bool" where
  "utf8_Valid s = list_all (\<lambda>(r, w). decode_rune w \<noteq> None) (chunks s)"

lemma utf8_Valid_Nil [simp]: "utf8_Valid []"
  by (simp add: utf8_Valid_def)

lemma utf8_Valid_append_ascii:
  "(of_char c :: nat) < 0x80 \<Longrightarrow> utf8_Valid (s @ c # t) \<longleftrightarrow> utf8_Valid s \<and> utf8_Valid t"
  by (simp add: utf8_Valid_def chunks_append_ascii chunks_ascii decode_rune.simps)

lemma utf8_Valid_snoc_ascii:
  "(of_char c :: nat) < 0x80 \<Longrightarrow> utf8_Valid (s @ [c]) \<longleftrightarrow> utf8_Valid s"
  using utf8_Valid_append_ascii [of c s "[]"] by simp

text \<open>A prefix of at most \<open>n\<close> bytes that ends with a rune.\<close>

fun take_chunks :: "int \<Rightarrow> (nat \<times> string) list \<Rightarrow> string" where
  "take_chunks n [] = []"
| "take_chunks n ((r, w) # cs) =
     (if n < int (length w) then [] else w @ take_chunks (n - int (length w)) cs)"

lemma take_chunks_prefix: "prefix (take_chunks n cs) (concat (map snd cs))"
  by (induction n cs rule: take_chunks.induct) auto

lemma take_chunks_length: "0 \<le> n \<Longrightarrow> int (length (take_chunks n cs)) \<le> n"
  by (induction n cs rule: take_chunks.induct) auto

section \<open>Lines\<close>

text \<open>The pieces \<open>ReadString('\n')\<close> returns one after the other up to the end of the input.\<close>

definition read_strings :: "string \<Rightarrow> string list" where
  "read_strings s =
     (let segs = Split s NL in
      map (\<lambda>l. l @ [NL]) (butlast segs) @ (if last segs = [] then [] else [last segs]))"

lemma read_strings_concat: "concat (read_strings s) = s"
proof -
  have "concat (map (\<lambda>l. l @ [NL]) (butlast segs)) @ last segs = Join segs NL" if "segs \<noteq> []" for segs
    using that
  proof (induction segs rule: list_nonempty_induct)
    case (cons x xs)
    then show ?case by (simp add: Join_Cons)
  qed simp
  from this [OF Split_not_Nil, of s NL] show ?thesis by (auto simp: read_strings_def Let_def)
qed

lemma utf8_Valid_Join:
  "(of_char c :: nat) < 0x80 \<Longrightarrow> utf8_Valid (Join segs c) \<longleftrightarrow> list_all utf8_Valid segs"
proof (induction segs)
  case (Cons x segs)
  then show ?case by (cases "segs = []") (simp_all add: Join_Cons utf8_Valid_append_ascii)
qed simp

lemma utf8_Valid_Split: "(of_char c :: nat) < 0x80 \<Longrightarrow> utf8_Valid s \<longleftrightarrow> list_all utf8_Valid (Split s c)"
  using utf8_Valid_Join [of c "Split s c"] by simp

lemma list_all_butlast_last: "xs \<noteq> [] \<Longrightarrow> list_all P xs \<longleftrightarrow> list_all P (butlast xs) \<and> P (last xs)"
  by (cases xs rule: rev_cases) auto

lemma utf8_Valid_read_strings: "utf8_Valid s \<longleftrightarrow> list_all utf8_Valid (read_strings s)"
proof -
  have "list_all utf8_Valid (map (\<lambda>l. l @ [NL]) segs) \<longleftrightarrow> list_all utf8_Valid segs" for segs
    by (simp add: list.pred_map comp_def utf8_Valid_snoc_ascii)
  then show ?thesis
    by (auto simp: read_strings_def Let_def utf8_Valid_Split [of NL s] list_all_butlast_last [OF Split_not_Nil])
qed

section \<open>Replacing\<close>

text \<open>\<open>strings.Replace(s, old, new, 1)\<close> of a non-empty substring.\<close>

definition Replace_first :: "string \<Rightarrow> string \<Rightarrow> string \<Rightarrow> string" where
  "Replace_first s old new =
     (case Index_of s old of
        None \<Rightarrow> s
      | Some i \<Rightarrow> take i s @ new @ drop (i + length old) s)"

lemma Index_of_split: "Index_of s sub = Some i \<Longrightarrow> s = take i s @ sub @ drop (i + length sub) s"
proof -
  assume i: "Index_of s sub = Some i"
  from Index_of_prefix [OF this] obtain r where "drop i s = sub @ r" by (auto simp: prefix_def)
  then have "s = take i s @ sub @ r" "r = drop (i + length sub) s"
    by (metis append_take_drop_id, metis add.commute append_eq_conv_conj drop_drop)
  then show ?thesis by simp
qed

lemma Replace_first_split:
  "Index_of s old = Some i \<Longrightarrow>
    s = take i s @ old @ drop (i + length old) s \<and>
    Replace_first s old new = take i s @ new @ drop (i + length old) s"
  using Index_of_split by (auto simp: Replace_first_def)

end
