(* ===== verification/File_Disk.thy ===== *)
theory File_Disk
  imports Path_Safe Go_Text
begin

text \<open>
  What the file tools read and write: files on disk, the atomic write through a temporary file
  (\<open>internal/tools/filewrite/atomic.go\<close>), and the session's snapshots of file contents
  (\<open>fileSnapshotStore\<close> in \<open>internal/state/app.go\<close>).

  The disk maps physical paths to files, directories and symbolic links to physical paths. What the
  operating system decides is in an environment: how links among the directories of a path are
  followed (beside \<open>EvalSymlinks\<close> of the path boundary), the clock, the name of a temporary file, and a
  possible fault of every system call. Only the modelled program changes the disk during a call.
\<close>

section \<open>Disk and system calls\<close>

datatype file_node =
    Regular (fcontent: string) (fperm: nat) (fmtime: int)
  | Directory
  | Symlink string

type_synonym disk = "string \<rightharpoonup> file_node"

datatype io_error = ENOENT | EISDIR | IO string

record io_env = path_env +
  io_dir :: "string \<Rightarrow> io_error + string"
  io_now :: int
  io_CreateTemp :: "io_error + string"
  io_Write :: "(nat \<times> io_error) option"
  io_Chmod :: "io_error option"
  io_Sync :: "io_error option"
  io_Close :: "io_error option"
  io_Rename :: "io_error option"
  io_Remove :: "io_error option"
  io_Stat :: "string \<Rightarrow> io_error option"
  io_Read :: "string \<Rightarrow> io_error option"

abbreviation paths_of :: "io_env \<Rightarrow> path_env" where
  "paths_of env \<equiv> path_env.truncate env"

text \<open>The physical path of the directory entry a path names; its last element is not followed.\<close>

definition entry :: "io_env \<Rightarrow> string \<Rightarrow> io_error + string" where
  "entry env p = (case io_dir env (Dir p) of Inl e \<Rightarrow> Inl e | Inr d \<Rightarrow> Inr (JoinPath [d, Base p]))"

definition followed :: "disk \<Rightarrow> string \<Rightarrow> file_node option" where
  "followed d e = (case d e of Some (Symlink t) \<Rightarrow> d t | n \<Rightarrow> n)"

definition os_Stat :: "io_env \<Rightarrow> disk \<Rightarrow> string \<Rightarrow> io_error + file_node" where
  "os_Stat env d p =
     (case io_Stat env p of
        Some e \<Rightarrow> Inl e
      | None \<Rightarrow>
          (case entry env p of
             Inl e \<Rightarrow> Inl e
           | Inr e \<Rightarrow>
               (case followed d e of
                  None \<Rightarrow> Inl ENOENT
                | Some (Symlink _) \<Rightarrow> Inl (IO ''too many levels of symbolic links'')
                | Some n \<Rightarrow> Inr n)))"

definition os_ReadFile :: "io_env \<Rightarrow> disk \<Rightarrow> string \<Rightarrow> io_error + string" where
  "os_ReadFile env d p =
     (case io_Read env p of
        Some e \<Rightarrow> Inl e
      | None \<Rightarrow>
          (case entry env p of
             Inl e \<Rightarrow> Inl e
           | Inr e \<Rightarrow>
               (case followed d e of
                  None \<Rightarrow> Inl ENOENT
                | Some (Regular c _ _) \<Rightarrow> Inr c
                | Some Directory \<Rightarrow> Inl EISDIR
                | Some (Symlink _) \<Rightarrow> Inl (IO ''too many levels of symbolic links''))))"

definition os_Rename :: "io_env \<Rightarrow> disk \<Rightarrow> string \<Rightarrow> string \<Rightarrow> io_error + disk" where
  "os_Rename env d tmp p =
     (case io_Rename env of
        Some e \<Rightarrow> Inl e
      | None \<Rightarrow>
          (case entry env p of
             Inl e \<Rightarrow> Inl e
           | Inr e \<Rightarrow> if d e = Some Directory then Inl EISDIR else if e = tmp then Inr d
             else Inr (d(e := d tmp, tmp := None))))"

section \<open>AtomicWrite\<close>

definition cleanup :: "io_env \<Rightarrow> string \<Rightarrow> disk \<Rightarrow> disk" where
  "cleanup env tmp d = (if io_Remove env = None then d(tmp := None) else d)"

definition AtomicWrite :: "io_env \<Rightarrow> string \<Rightarrow> string \<Rightarrow> nat \<Rightarrow> disk \<Rightarrow> io_error option \<times> disk" where
  "AtomicWrite env p content perm d =
     (case io_CreateTemp env of
        Inl e \<Rightarrow> (Some e, d)
      | Inr tmp \<Rightarrow>
          (case io_Write env of
             Some (n, e) \<Rightarrow> (Some e, cleanup env tmp (d(tmp \<mapsto> Regular (take n content) 384 (io_now env))))
           | None \<Rightarrow>
               let d = d(tmp \<mapsto> Regular content 384 (io_now env)) in
               (case io_Chmod env of
                  Some e \<Rightarrow> (Some e, cleanup env tmp d)
                | None \<Rightarrow>
                    let d = d(tmp \<mapsto> Regular content perm (io_now env)) in
                    (case io_Sync env of
                       Some e \<Rightarrow> (Some e, cleanup env tmp d)
                     | None \<Rightarrow>
                         (case io_Close env of
                            Some e \<Rightarrow> (Some e, cleanup env tmp d)
                          | None \<Rightarrow>
                              (case os_Rename env d tmp p of
                                 Inl e \<Rightarrow> (Some e, cleanup env tmp d)
                               | Inr d \<Rightarrow> (None, d)))))))"

text \<open>
  What package \<open>os\<close> promises of the temporary file: it is created under a name that did not exist.
\<close>

definition temp_fresh :: "io_env \<Rightarrow> disk \<Rightarrow> bool" where
  "temp_fresh env d = (\<forall>tmp. io_CreateTemp env = Inr tmp \<longrightarrow> d tmp = None)"

definition temp_left :: "io_env \<Rightarrow> string \<Rightarrow> bool" where
  "temp_left env q = (io_CreateTemp env = Inr q \<and> io_Remove env \<noteq> None)"

lemma AtomicWrite_error:
  assumes "AtomicWrite env p content perm d = (Some e, d')" "temp_fresh env d"
  shows "d' q = d q \<or> temp_left env q"
  using assms unfolding AtomicWrite_def temp_fresh_def temp_left_def cleanup_def Let_def
  by (auto split: sum.splits option.splits if_splits)

lemma AtomicWrite_ok:
  assumes "AtomicWrite env p content perm d = (None, d')" "temp_fresh env d"
  obtains e where "entry env p = Inr e" "d e \<noteq> Some Directory"
    "d' = d(e \<mapsto> Regular content perm (io_now env))"
proof -
  from assms(1) obtain tmp e where t: "io_CreateTemp env = Inr tmp" "entry env p = Inr e"
    "(d(tmp \<mapsto> Regular content perm (io_now env))) e \<noteq> Some Directory"
    "d' = (let d' = d(tmp \<mapsto> Regular content perm (io_now env)) in
      if e = tmp then d' else d'(e \<mapsto> Regular content perm (io_now env), tmp := None))"
    unfolding AtomicWrite_def os_Rename_def Let_def by (auto split: sum.splits option.splits if_splits)
  from t(1) assms(2) have "d tmp = None" by (simp add: temp_fresh_def)
  with t that [of e] show ?thesis by (auto simp: fun_eq_iff split: if_splits)
qed

section \<open>Snapshots\<close>

record snapshot_store =
  snaps :: "string \<rightharpoonup> string"
  rangeSnaps :: "string \<rightharpoonup> string"

definition snap_record :: "string \<Rightarrow> string \<Rightarrow> snapshot_store \<Rightarrow> snapshot_store" where
  "snap_record path content s = s\<lparr>snaps := (snaps s)(path \<mapsto> content)\<rparr>"

definition snap_read :: "string \<Rightarrow> snapshot_store \<Rightarrow> string option" where
  "snap_read path s = snaps s path"

definition rangeSnapshotKey :: "string \<Rightarrow> int \<Rightarrow> int \<Rightarrow> int \<Rightarrow> string" where
  "rangeSnapshotKey path startLine lineCount mtime =
     path @ ''|'' @ Itoa startLine @ ''|'' @ Itoa lineCount @ ''|'' @ Itoa mtime"

definition snap_recordRange :: "string \<Rightarrow> int \<Rightarrow> int \<Rightarrow> int \<Rightarrow> string \<Rightarrow> snapshot_store \<Rightarrow> snapshot_store" where
  "snap_recordRange path startLine lineCount mtime content s =
     s\<lparr>rangeSnaps := (rangeSnaps s)(rangeSnapshotKey path startLine lineCount mtime \<mapsto> content)\<rparr>"

definition snap_readRange :: "string \<Rightarrow> int \<Rightarrow> int \<Rightarrow> int \<Rightarrow> snapshot_store \<Rightarrow> string option" where
  "snap_readRange path startLine lineCount mtime s = rangeSnaps s (rangeSnapshotKey path startLine lineCount mtime)"

text \<open>The state a tool call works on; a session without snapshots has a \<open>nil\<close> store.\<close>

record file_world =
  w_disk :: disk
  w_snaps :: "snapshot_store option"

definition update_snaps :: "(snapshot_store \<Rightarrow> snapshot_store) \<Rightarrow> file_world \<Rightarrow> file_world" where
  "update_snaps f w = w\<lparr>w_snaps := map_option f (w_snaps w)\<rparr>"

lemma update_snaps_disk [simp]: "w_disk (update_snaps f w) = w_disk w"
  by (simp add: update_snaps_def)

text \<open>Two ranges share a key only if they are the same: the numbers are read off from the right.\<close>

lemma Itoa_no_bar: "CHR ''|'' \<notin> set (Itoa n)"
proof -
  have "\<not> is_digit (CHR ''|'')" by (simp add: is_digit_def)
  then have "CHR ''|'' \<notin> set (FormatUint k)" for k
    using FormatUint_digits [of k] by (auto simp: list_all_iff)
  then show ?thesis by (simp add: Itoa_def)
qed

lemma last_field:
  assumes "a @ c # x = b @ c # y" "c \<notin> set x" "c \<notin> set y"
  shows "a = b \<and> x = y"
  using assms by (auto simp: append_eq_append_conv2 append_eq_Cons_conv Cons_eq_append_conv)

lemma rangeSnapshotKey_inject:
  "rangeSnapshotKey p a b m = rangeSnapshotKey q a' b' m' \<longleftrightarrow> p = q \<and> a = a' \<and> b = b' \<and> m = m'"
proof
  assume eq: "rangeSnapshotKey p a b m = rangeSnapshotKey q a' b' m'"
  define f where "f p a = p @ CHR ''|'' # Itoa a" for p a
  have key: "rangeSnapshotKey p a b m = f (f (f p a) b) m" for p a b m
    by (simp add: rangeSnapshotKey_def f_def)
  have f: "f x u = f y v \<Longrightarrow> x = y \<and> u = v" for x y u v
    unfolding f_def using last_field [of x "CHR ''|''" "Itoa u" y "Itoa v"] Itoa_no_bar by simp
  from eq show "p = q \<and> a = a' \<and> b = b' \<and> m = m'" unfolding key using f by metis
qed simp

end
