(* ===== verification/File_Read.thy ===== *)
theory File_Read
  imports File_Disk
begin

text \<open>
  Reading a range of lines of a text file (\<open>internal/tools/fileread/range_reader.go\<close>) and the FileRead
  tool (\<open>fileread.go\<close>). The properties: the fast reader and the streaming reader give the same answer;
  what is returned is a prefix of the lines asked for, within the byte budget, and all of them if they
  fit.
\<close>

section \<open>Cutting a line\<close>

definition truncateUTF8ToBytes :: "string \<Rightarrow> int \<Rightarrow> string" where
  "truncateUTF8ToBytes s n =
     (if n \<le> 0 \<or> s = [] then []
      else if int (length s) \<le> n then s
      else take_chunks n (chunks s))"

lemma truncate_prefix: "prefix (truncateUTF8ToBytes s n) s"
  using take_chunks_prefix [of n "chunks s"] by (simp add: truncateUTF8ToBytes_def)

lemma truncate_length: "0 \<le> n \<Longrightarrow> int (length (truncateUTF8ToBytes s n)) \<le> n"
  using take_chunks_length [of n "chunks s"] by (simp add: truncateUTF8ToBytes_def)

section \<open>Selecting a range\<close>

datatype read_error = Stat_failed io_error | Read_failed io_error | Is_directory string | Not_UTF8 string

record lineRangeResult =
  Content :: string
  StartLine :: int
  LineCount :: int
  TotalLines :: int
  ReadBytes :: int
  Truncated :: bool

text \<open>The variables of the loop.\<close>

record scan =
  sel_lines :: "string list"
  lineNumber :: int
  selectedBytes :: int
  truncated :: bool
  selectionDone :: bool

text \<open>UTF-8 encoded byte order mark.\<close>

abbreviation BOM :: string where "BOM \<equiv> [CHR 0xEF, CHR 0xBB, CHR 0xBF]"

definition line_of :: "string \<Rightarrow> string" where
  "line_of chunk = TrimSuffix (TrimSuffix chunk [NL]) [CR]"

definition select_line :: "int \<Rightarrow> int \<Rightarrow> string \<Rightarrow> scan \<Rightarrow> scan" where
  "select_line startLine maxBytes line st =
     (if startLine \<le> lineNumber st \<and> \<not> selectionDone st
      then
        let sepBytes = (if sel_lines st \<noteq> [] then 1 else 0);
            nextBytes = selectedBytes st + sepBytes + int (length line)
        in if 0 < maxBytes \<and> maxBytes < nextBytes
           then
             let allowed = maxBytes - selectedBytes st - sepBytes;
                 st = (if 0 < allowed
                   then let line = truncateUTF8ToBytes line allowed in
                        st\<lparr>sel_lines := sel_lines st @ [line],
                           selectedBytes := selectedBytes st + sepBytes + int (length line)\<rparr>
                   else st)
             in st\<lparr>truncated := True, selectionDone := True\<rparr>
           else st\<lparr>sel_lines := sel_lines st @ [line], selectedBytes := nextBytes\<rparr>
      else st)"

definition after_line :: "int \<Rightarrow> scan \<Rightarrow> scan" where
  "after_line endLine st =
     (let st = (if endLine \<le> lineNumber st then st\<lparr>selectionDone := True\<rparr> else st)
      in if selectionDone st \<and> endLine < lineNumber st then st\<lparr>truncated := True\<rparr> else st)"

fun scan_lines :: "int \<Rightarrow> int \<Rightarrow> int \<Rightarrow> string list \<Rightarrow> scan \<Rightarrow> scan option" where
  "scan_lines startLine endLine maxBytes [] st = Some st"
| "scan_lines startLine endLine maxBytes (chunk # cs) st =
     (let st = st\<lparr>lineNumber := lineNumber st + 1\<rparr>;
          chunk = (if lineNumber st = 1 then TrimPrefix chunk BOM else chunk)
      in if \<not> utf8_Valid chunk then None
         else scan_lines startLine endLine maxBytes cs
           (after_line endLine (select_line startLine maxBytes (line_of chunk) st)))"

definition scan_init :: scan where
  "scan_init = \<lparr>sel_lines = [], lineNumber = 0, selectedBytes = 0, truncated = False, selectionDone = False\<rparr>"

definition selectLineRangeFromReader ::
    "string \<Rightarrow> string \<Rightarrow> int \<Rightarrow> int \<Rightarrow> int \<Rightarrow> read_error + lineRangeResult" where
  "selectLineRangeFromReader path input startLine lineLimit maxBytes =
     (let startLine = (if startLine \<le> 0 then 1 else startLine);
          lineLimit = (if lineLimit \<le> 0 then 1 else lineLimit);
          maxBytes = (if maxBytes < 0 then 0 else maxBytes);
          selectionEndLine = wrap64 (wrap64 (startLine + lineLimit) - 1)
      in case scan_lines startLine selectionEndLine maxBytes (read_strings input) scan_init of
           None \<Rightarrow> Inl (Not_UTF8 (Base path))
         | Some st \<Rightarrow>
             if lineNumber st < startLine
             then Inr \<lparr>Content = [], StartLine = startLine, LineCount = 0, TotalLines = lineNumber st,
                       ReadBytes = 0, Truncated = False\<rparr>
             else
               let content = Join (sel_lines st) NL in
               Inr \<lparr>Content = content, StartLine = startLine, LineCount = int (length (sel_lines st)),
                    TotalLines = lineNumber st, ReadBytes = int (length content), Truncated = truncated st\<rparr>)"

definition selectLineRangeFromBytes ::
    "string \<Rightarrow> string \<Rightarrow> int \<Rightarrow> int \<Rightarrow> int \<Rightarrow> read_error + lineRangeResult" where
  "selectLineRangeFromBytes path content startLine lineLimit maxBytes =
     (if \<not> utf8_Valid content then Inl (Not_UTF8 (Base path))
      else selectLineRangeFromReader path content startLine lineLimit maxBytes)"

abbreviation readerFastPathThreshold :: int where
  "readerFastPathThreshold \<equiv> 10 * 1024 * 1024"

definition readLineRange :: "io_env \<Rightarrow> disk \<Rightarrow> string \<Rightarrow> int \<Rightarrow> int \<Rightarrow> int \<Rightarrow> read_error + lineRangeResult" where
  "readLineRange env d path startLine lineLimit maxBytes =
     (case os_Stat env d path of
        Inl e \<Rightarrow> Inl (Stat_failed e)
      | Inr info \<Rightarrow>
          let select = (if readerFastPathThreshold < (case info of Regular c _ _ \<Rightarrow> int (length c) | _ \<Rightarrow> 0)
            then selectLineRangeFromReader else selectLineRangeFromBytes)
          in case os_ReadFile env d path of
               Inl e \<Rightarrow> Inl (Read_failed e)
             | Inr content \<Rightarrow> select path content startLine lineLimit maxBytes)"

record ReadRangeResult = lineRangeResult +
  Path :: string
  TotalBytes :: int
  MTime :: int

definition ReadRange :: "io_env \<Rightarrow> disk \<Rightarrow> string \<Rightarrow> int \<Rightarrow> int \<Rightarrow> int \<Rightarrow> read_error + ReadRangeResult" where
  "ReadRange env d path startLine lineLimit maxBytes =
     (case os_Stat env d path of
        Inl e \<Rightarrow> Inl (Stat_failed e)
      | Inr Directory \<Rightarrow> Inl (Is_directory (Base path))
      | Inr info \<Rightarrow>
          let startLine = (if startLine \<le> 0 then 1 else startLine);
              lineLimit = (if lineLimit \<le> 0 then 200 else lineLimit);
              maxBytes = (if maxBytes < 0 then 0 else maxBytes)
          in case readLineRange env d path startLine lineLimit maxBytes of
               Inl e \<Rightarrow> Inl e
             | Inr res \<Rightarrow> Inr (lineRangeResult.extend res
                 \<lparr>Path = path, TotalBytes = int (length (fcontent info)), MTime = fmtime info\<rparr>))"

section \<open>What is selected\<close>

text \<open>The lines of a text: without a byte order mark, carriage returns and line feeds.\<close>

definition text_chunks :: "string \<Rightarrow> string list" where
  "text_chunks s = (case read_strings s of [] \<Rightarrow> [] | c # cs \<Rightarrow> TrimPrefix c BOM # cs)"

definition text_lines :: "string \<Rightarrow> string list" where
  "text_lines s = map line_of (text_chunks s)"

definition line_step :: "int \<Rightarrow> int \<Rightarrow> int \<Rightarrow> string \<Rightarrow> scan \<Rightarrow> scan" where
  "line_step startLine endLine maxBytes line st =
     after_line endLine (select_line startLine maxBytes line (st\<lparr>lineNumber := lineNumber st + 1\<rparr>))"

lemma lineNumber_kept [simp]:
  "lineNumber (after_line e st) = lineNumber st" "lineNumber (select_line s m line st) = lineNumber st"
  by (simp_all add: after_line_def select_line_def Let_def)

lemma lineNumber_step [simp]: "lineNumber (line_step s e m line st) = lineNumber st + 1"
  by (simp add: line_step_def)

lemma scan_rest:
  "0 < lineNumber st \<Longrightarrow> scan_lines s e m cs st =
    (if list_all utf8_Valid cs then Some (fold (line_step s e m) (map line_of cs) st) else None)"
  by (induction cs arbitrary: st) (simp_all add: Let_def line_step_def)

lemma scan_all:
  "scan_lines s e m (read_strings input) scan_init =
    (if list_all utf8_Valid (text_chunks input)
     then Some (fold (line_step s e m) (text_lines input) scan_init) else None)"
  by (cases "read_strings input")
    (simp_all add: text_lines_def text_chunks_def scan_rest Let_def scan_init_def line_step_def)

lemma utf8_Valid_BOM: "utf8_Valid (TrimPrefix s BOM) \<longleftrightarrow> utf8_Valid s"
proof (cases "HasPrefix s BOM")
  case True
  then obtain r where s: "s = BOM @ r" by (auto simp: HasPrefix_iff_prefix prefix_def)
  have d: "decode_rune (BOM @ t) = Some (0xFEFF, 3)" for t
    by (simp add: decode_rune.simps in_range_def second_lo_def second_hi_def cont_bits_def)
  have "chunks s = (0xFEFF, BOM) # chunks r"
    using chunks_good [of s, OF _ d [of r, folded s]] s by simp
  with d [of "[]"] show ?thesis by (simp add: TrimPrefix_def True utf8_Valid_def) (simp add: s)
qed (simp add: TrimPrefix_def)

lemma text_chunks_valid: "list_all utf8_Valid (text_chunks s) \<longleftrightarrow> utf8_Valid s"
  by (cases "read_strings s") (simp_all add: text_chunks_def utf8_Valid_read_strings [of s] utf8_Valid_BOM)

lemma readers_same:
  "selectLineRangeFromBytes path content startLine lineLimit maxBytes =
   selectLineRangeFromReader path content startLine lineLimit maxBytes"
  by (simp add: selectLineRangeFromBytes_def selectLineRangeFromReader_def scan_all text_chunks_valid Let_def)

text \<open>
  The two readers agree: reading a file at once and streaming it line by line give the same answer
  for every content, range and budget; in particular both refuse exactly the files that are not UTF-8
  anywhere, also outside the range.
\<close>

theorem readers_agree:
  "selectLineRangeFromBytes path content startLine lineLimit maxBytes =
   selectLineRangeFromReader path content startLine lineLimit maxBytes"
  by (rule readers_same)

section \<open>The invariant of the loop\<close>

definition wanted :: "int \<Rightarrow> int \<Rightarrow> string list \<Rightarrow> string list" where
  "wanted startLine endLine ls = take (nat (endLine + 1 - startLine)) (drop (nat (startLine - 1)) ls)"

lemma wanted_snoc:
  assumes "1 \<le> s" "s \<le> e + 1"
  shows "wanted s e (ls @ [l]) = wanted s e ls @ (if s \<le> int (length ls) + 1 \<and> int (length ls) + 1 \<le> e then [l] else [])"
  using assms by (auto simp: wanted_def nat_le_iff)

lemma length_Join_snoc:
  "length (Join (ls @ [l]) c) = length (Join ls c) + (if ls \<noteq> [] then 1 else 0) + length l"
  by (induction ls rule: induct_list012) auto

lemma Join_snoc: "ls \<noteq> [] \<Longrightarrow> Join (ls @ [l]) c = Join ls c @ c # l"
  by (induction ls rule: induct_list012) auto

definition whole :: "int \<Rightarrow> int \<Rightarrow> int \<Rightarrow> string list \<Rightarrow> scan \<Rightarrow> bool" where
  "whole s e m ls st =
     (sel_lines st = wanted s e ls \<and> (m = 0 \<or> selectedBytes st \<le> m)
      \<and> (selectionDone st \<longleftrightarrow> e \<le> lineNumber st) \<and> (truncated st \<longleftrightarrow> e < lineNumber st))"

definition cut :: "int \<Rightarrow> int \<Rightarrow> int \<Rightarrow> string list \<Rightarrow> scan \<Rightarrow> bool" where
  "cut s e m ls st =
     (selectionDone st \<and> truncated st \<and> wanted s e ls \<noteq> [] \<and> 0 < m \<and> selectedBytes st \<le> m
      \<and> m < int (length (Join (wanted s e ls) NL)) \<and> prefix (Join (sel_lines st) NL) (Join (wanted s e ls) NL))"

definition scan_inv :: "int \<Rightarrow> int \<Rightarrow> int \<Rightarrow> string list \<Rightarrow> scan \<Rightarrow> bool" where
  "scan_inv s e m ls st =
     (lineNumber st = int (length ls) \<and> selectedBytes st = int (length (Join (sel_lines st) NL))
      \<and> (whole s e m ls st \<or> cut s e m ls st))"

lemma whole_step:
  assumes "1 \<le> s" "s \<le> e + 1" "0 \<le> m" and st: "lineNumber st = int (length ls)"
    "selectedBytes st = int (length (Join (sel_lines st) NL))" "whole s e m ls st"
  shows "scan_inv s e m (ls @ [l]) (line_step s e m l st)"
proof -
  let ?n = "int (length ls) + 1"
  let ?sep = "if sel_lines st \<noteq> [] then 1 else 0 :: int"
  let ?next = "selectedBytes st + ?sep + int (length l)"
  have w: "wanted s e (ls @ [l]) = wanted s e ls @ (if s \<le> ?n \<and> ?n \<le> e then [l] else [])"
    by (rule wanted_snoc [OF assms(1,2)])
  have sel: "sel_lines st = wanted s e ls" "m = 0 \<or> selectedBytes st \<le> m" "selectionDone st \<longleftrightarrow> e < ?n"
    "truncated st \<longleftrightarrow> e + 1 < ?n" using st by (auto simp: whole_def)
  have len: "int (length (Join (sel_lines st @ [x]) NL)) = selectedBytes st + ?sep + int (length x)" for x
    using st(2) by (simp add: length_Join_snoc)
  show ?thesis
  proof (cases "s \<le> ?n \<and> ?n \<le> e")
    case False
    then show ?thesis using st sel w
      by (auto simp: line_step_def select_line_def after_line_def scan_inv_def whole_def Let_def)
  next
    case True
    show ?thesis
    proof (cases "0 < m \<and> m < ?next")
      case False
      then have "m = 0 \<or> ?next \<le> m" using assms(3) by linarith
      with False True show ?thesis using st sel w len [of l]
        by (auto simp: line_step_def select_line_def after_line_def scan_inv_def whole_def Let_def)
    next
      case over: True
      define t where "t = truncateUTF8ToBytes l (m - selectedBytes st - ?sep)"
      have t: "prefix t l" by (simp add: t_def truncate_prefix)
      define sel' where "sel' = (if 0 < m - selectedBytes st - ?sep then sel_lines st @ [t] else sel_lines st)"
      have pre: "prefix (Join sel' NL) (Join (wanted s e (ls @ [l])) NL)"
        using w True t sel(1) by (cases "sel_lines st = []") (auto simp: sel'_def Join_snoc prefix_def)
      have m: "m < int (length (Join (wanted s e (ls @ [l])) NL))" using over len [of l] w True sel(1) by simp
      have "0 < m - selectedBytes st - ?sep \<Longrightarrow> int (length t) \<le> m - selectedBytes st - ?sep"
        unfolding t_def by (rule truncate_length) simp
      then have "int (length (Join sel' NL)) \<le> m"
        using len [of t] sel(2) st(2) over by (auto simp: sel'_def)
      then have "cut s e m (ls @ [l]) st'" "scan_inv s e m (ls @ [l]) st'"
        if "st' = st\<lparr>lineNumber := ?n, sel_lines := sel', selectedBytes := int (length (Join sel' NL)),
              truncated := True, selectionDone := True\<rparr>" for st'
        using that pre m over w True by (simp_all add: scan_inv_def cut_def)
      moreover have "line_step s e m l st = st\<lparr>lineNumber := ?n, sel_lines := sel',
          selectedBytes := int (length (Join sel' NL)), truncated := True, selectionDone := True\<rparr>"
        using over True st sel len [of t]
        by (auto simp: line_step_def select_line_def after_line_def Let_def sel'_def t_def)
      ultimately show ?thesis by blast
    qed
  qed
qed

lemma cut_step:
  assumes "1 \<le> s" "s \<le> e + 1" "0 \<le> m" and st: "lineNumber st = int (length ls)"
    "selectedBytes st = int (length (Join (sel_lines st) NL))" "cut s e m ls st"
  shows "scan_inv s e m (ls @ [l]) (line_step s e m l st)"
proof -
  have same: "line_step s e m l st = st\<lparr>lineNumber := lineNumber st + 1\<rparr>"
    using st(3) by (simp add: line_step_def select_line_def after_line_def cut_def Let_def)
  have pre: "prefix (Join (wanted s e ls) NL) (Join (wanted s e (ls @ [l])) NL)"
    using wanted_snoc [OF assms(1,2), of ls l] st(3) by (auto simp: cut_def Join_snoc)
  then have "length (Join (wanted s e ls) NL) \<le> length (Join (wanted s e (ls @ [l])) NL)"
    by (rule prefix_length_le)
  moreover have "wanted s e (ls @ [l]) \<noteq> []"
    using wanted_snoc [OF assms(1,2), of ls l] st(3) by (auto simp: cut_def)
  ultimately show ?thesis unfolding same
    using st pre by (auto simp: scan_inv_def cut_def intro: prefix_order.trans)
qed

lemma scan_inv_fold:
  assumes "1 \<le> s" "s \<le> e" "0 \<le> m"
  shows "scan_inv s e m ls (fold (line_step s e m) ls scan_init)"
proof (induction ls rule: rev_induct)
  case Nil
  have "wanted s e [] = []" by (simp add: wanted_def)
  with assms show ?case by (simp add: scan_inv_def whole_def scan_init_def)
next
  case (snoc l ls)
  from assms(2) have e: "s \<le> e + 1" by simp
  have f: "fold (line_step s e m) (ls @ [l]) scan_init = line_step s e m l (fold (line_step s e m) ls scan_init)"
    by simp
  from snoc show ?case unfolding f
    using whole_step [OF assms(1) e assms(3), of _ ls l] cut_step [OF assms(1) e assms(3), of _ ls l]
    unfolding scan_inv_def [of s e m ls] by blast
qed

section \<open>The range reader is exact\<close>

lemma wanted_empty: "1 \<le> s \<Longrightarrow> int (length ls) < s \<Longrightarrow> wanted s e ls = []"
  by (simp add: wanted_def)

lemma range_read:
  assumes "utf8_Valid content" "1 \<le> startLine" "1 \<le> lineLimit" "startLine + lineLimit < 2 ^ 63" "0 \<le> maxBytes"
  obtains res where "selectLineRangeFromReader path content startLine lineLimit maxBytes = Inr res"
    "TotalLines res = int (length (text_lines content))"
    "prefix (Content res) (Join (wanted startLine (startLine + lineLimit - 1) (text_lines content)) NL)"
    "maxBytes = 0 \<or> int (length (Content res)) \<le> maxBytes"
    "Content res = Join (wanted startLine (startLine + lineLimit - 1) (text_lines content)) NL \<longleftrightarrow>
      maxBytes = 0 \<or> int (length (Join (wanted startLine (startLine + lineLimit - 1) (text_lines content)) NL)) \<le> maxBytes"
    "Truncated res \<longleftrightarrow>
      Content res \<noteq> Join (wanted startLine (startLine + lineLimit - 1) (text_lines content)) NL
        \<or> startLine + lineLimit - 1 < int (length (text_lines content))"
proof -
  let ?e = "startLine + lineLimit - 1" and ?ls = "text_lines content"
  let ?all = "Join (wanted startLine ?e ?ls) NL"
  define st where "st = fold (line_step startLine ?e maxBytes) ?ls scan_init"
  have scan: "scan_lines startLine ?e maxBytes (read_strings content) scan_init = Some st"
    using assms(1) by (simp add: scan_all text_chunks_valid st_def)
  have inv: "scan_inv startLine ?e maxBytes ?ls st"
    unfolding st_def by (rule scan_inv_fold) (use assms in auto)
  then have n: "lineNumber st = int (length ?ls)" by (simp add: scan_inv_def)
  have wrap: "wrap64 (wrap64 (startLine + lineLimit) - 1) = ?e"
    using assms(2-4) by (subst wrap64_id) (auto intro!: wrap64_id)
  show thesis
  proof (cases "lineNumber st < startLine")
    case True
    then have "wanted startLine ?e ?ls = []" using n assms(2) by (simp add: wanted_empty)
    moreover have "\<not> ?e < int (length ?ls)" using True n assms(3) by linarith
    ultimately show thesis using True n assms scan
      by (intro that [of "\<lparr>Content = [], StartLine = startLine, LineCount = 0, TotalLines = lineNumber st,
                       ReadBytes = 0, Truncated = False\<rparr>"])
        (simp_all add: selectLineRangeFromReader_def wrap)
  next
    case False
    define res where "res = \<lparr>Content = Join (sel_lines st) NL, StartLine = startLine,
      LineCount = int (length (sel_lines st)), TotalLines = lineNumber st,
      ReadBytes = int (length (Join (sel_lines st) NL)), Truncated = truncated st\<rparr>"
    have r: "selectLineRangeFromReader path content startLine lineLimit maxBytes = Inr res"
      using False assms scan by (simp add: selectLineRangeFromReader_def wrap res_def Let_def)
    have c: "Content res = Join (sel_lines st) NL" "Truncated res = truncated st" by (simp_all add: res_def)
    from inv have len: "selectedBytes st = int (length (Content res))" by (simp add: scan_inv_def c)
    from inv consider "whole startLine ?e maxBytes ?ls st" | "cut startLine ?e maxBytes ?ls st"
      by (auto simp: scan_inv_def)
    then show thesis
    proof cases
      case 1
      then show thesis using r c len n by (intro that [OF r]) (auto simp: whole_def res_def)
    next
      case 2
      then have "int (length (Content res)) < int (length ?all)" using len by (simp add: cut_def)
      then have "Content res \<noteq> ?all" by auto
      with 2 show thesis using r c len n by (intro that [OF r]) (auto simp: cut_def res_def)
    qed
  qed
qed

text \<open>
  C27. What a range read returns: for valid UTF-8 the total is the number of lines of the file, the
  content is a prefix of the lines asked for, joined by line feeds, it keeps to the byte budget, it is
  all of them if they fit, and the answer is marked as truncated exactly if something was cut or lines
  follow the range.
\<close>

theorem range_read_exact:
  assumes "utf8_Valid content" "1 \<le> startLine" "1 \<le> lineLimit" "startLine + lineLimit < 2 ^ 63" "0 \<le> maxBytes"
    and asked: "asked = Join (wanted startLine (startLine + lineLimit - 1) (text_lines content)) NL"
  shows "\<exists>res. selectLineRangeFromReader path content startLine lineLimit maxBytes = Inr res
    \<and> TotalLines res = int (length (text_lines content))
    \<and> prefix (Content res) asked
    \<and> (maxBytes = 0 \<or> int (length (Content res)) \<le> maxBytes)
    \<and> (Content res = asked \<longleftrightarrow> maxBytes = 0 \<or> int (length asked) \<le> maxBytes)
    \<and> (Truncated res \<longleftrightarrow>
        Content res \<noteq> asked \<or> startLine + lineLimit - 1 < int (length (text_lines content)))"
proof -
  from range_read [OF assms(1-5), of path, folded asked] show ?thesis by (metis (no_types, lifting))
qed

text \<open>With a limit that overflows the sum, nothing is selected, though the file has the line.\<close>

lemma line_limit_overflows:
  "selectLineRangeFromReader p [CHR ''a'', NL, CHR ''b'', NL] 2 (2 ^ 63 - 1) 0 =
    Inr \<lparr>Content = [], StartLine = 2, LineCount = 0, TotalLines = 2, ReadBytes = 0, Truncated = True\<rparr>"
  by (simp add: selectLineRangeFromReader_def read_strings_def scan_init_def wrap64_def Let_def
      utf8_Valid_def chunks_ascii decode_rune.simps select_line_def after_line_def line_of_def
      TrimPrefix_def TrimSuffix_def HasSuffix_def)

abbreviation demo_text :: string where
  "demo_text \<equiv> [CHR ''a'', NL, CHR ''b'', CR, NL, CHR ''c'', CHR ''d'', NL]"

lemmas read_simps = text_lines_def text_chunks_def read_strings_def line_of_def Let_def
  utf8_Valid_def chunks_ascii decode_rune.simps TrimPrefix_def TrimSuffix_def HasSuffix_def

theorem range_read_exact_witness:
  "\<exists>res. selectLineRangeFromReader ''f'' demo_text 2 2 3 = Inr res
    \<and> TotalLines res = 3 \<and> Content res \<noteq> [CHR ''b'', NL, CHR ''c'', CHR ''d''] \<and> Truncated res"
  using range_read_exact [of demo_text 2 2 3 "[CHR ''b'', NL, CHR ''c'', CHR ''d'']" "''f''"]
  by (auto simp: read_simps wanted_def)

end
