(* ===== verification/Tool_Registry.thy ===== *)
theory Tool_Registry
  imports Agent_Events Permission_Resolver Go_Strings "HOL-Library.Multiset"
begin

text \<open>
  How tools are built and registered (\<open>internal/tools/tool.go\<close>, \<open>registry.go\<close>, \<open>context.go\<close>):
  the conservative defaults \<open>BuildTool\<close> fills in, the checks of \<open>ValidateTool\<close>, the registry with its
  canonical names and aliases, and the limits a tool context falls back to. A \<open>nil\<close> function of a
  \<open>Spec\<close> is \<open>None\<close>; a JSON schema is a value of a type parameter.
\<close>

section \<open>Tools with defaults\<close>

record RenderHints =
  Title :: string
  rh_Summary :: string

record ('c, 'i, 'd, 'j, 'e) Spec =
  Spec_Name :: string
  Spec_Description :: string
  Spec_Aliases :: "string list"
  Schema :: "'j option"
  Unmarshal :: "(string \<Rightarrow> string + 'i) option"
  CallFunc :: "('c tool_context_scheme \<Rightarrow> 'i \<Rightarrow> string + 'e) option"
  IsEnabledFunc :: "('c tool_context_scheme \<Rightarrow> bool) option"
  IsReadOnlyFunc :: "('i \<Rightarrow> bool) option"
  IsConcurrentFunc :: "('i \<Rightarrow> bool) option"
  IsDestructiveFunc :: "('i \<Rightarrow> bool) option"
  CheckPermFunc :: "('c tool_context_scheme \<Rightarrow> 'i \<Rightarrow> 'i permission_result) option"
  RenderFunc :: "('i \<Rightarrow> 'd tool_Result \<Rightarrow> RenderHints) option"

definition built_UnmarshalInput :: "('c, 'i, 'd, 'j, 'e) Spec \<Rightarrow> string \<Rightarrow> string + 'i" where
  "built_UnmarshalInput t raw =
     (case Unmarshal t of None \<Rightarrow> Inl ''tool has no input parser'' | Some f \<Rightarrow> f raw)"

definition built_IsEnabled :: "('c, 'i, 'd, 'j, 'e) Spec \<Rightarrow> 'c tool_context_scheme \<Rightarrow> bool" where
  "built_IsEnabled t ctx = (case IsEnabledFunc t of None \<Rightarrow> True | Some f \<Rightarrow> f ctx)"

definition built_IsReadOnly :: "('c, 'i, 'd, 'j, 'e) Spec \<Rightarrow> 'i \<Rightarrow> bool" where
  "built_IsReadOnly t input = (case IsReadOnlyFunc t of None \<Rightarrow> False | Some f \<Rightarrow> f input)"

definition built_IsConcurrencySafe :: "('c, 'i, 'd, 'j, 'e) Spec \<Rightarrow> 'i \<Rightarrow> bool" where
  "built_IsConcurrencySafe t input = (case IsConcurrentFunc t of None \<Rightarrow> False | Some f \<Rightarrow> f input)"

definition built_IsDestructive :: "('c, 'i, 'd, 'j, 'e) Spec \<Rightarrow> 'i \<Rightarrow> bool" where
  "built_IsDestructive t input = (case IsDestructiveFunc t of None \<Rightarrow> True | Some f \<Rightarrow> f input)"

definition built_CheckPermissions ::
    "('c, 'i, 'd, 'j, 'e) Spec \<Rightarrow> 'c tool_context_scheme \<Rightarrow> 'i \<Rightarrow> 'i permission_result" where
  "built_CheckPermissions t ctx input =
     (case CheckPermFunc t of
        Some f \<Rightarrow> f ctx input
      | None \<Rightarrow>
          if built_IsReadOnly t input then \<lparr>pr_Decision = PermAllow, pr_Reason = [], pr_UpdatedInput = Some input\<rparr>
          else case tc_PermissionMode ctx of
            PermissionBypassPermissions \<Rightarrow> \<lparr>pr_Decision = PermAllow, pr_Reason = [], pr_UpdatedInput = Some input\<rparr>
          | PermissionPlan \<Rightarrow>
              \<lparr>pr_Decision = PermDeny, pr_Reason = ''plan mode allows only read-only tools'', pr_UpdatedInput = None\<rparr>
          | PermissionDontAsk \<Rightarrow>
              \<lparr>pr_Decision = PermDeny, pr_Reason = ''tool requires permission prompt'', pr_UpdatedInput = None\<rparr>
          | _ \<Rightarrow>
              \<lparr>pr_Decision = PermAsk, pr_Reason = ''tool is not read-only'', pr_UpdatedInput = Some input\<rparr>)"

definition built_Call :: "('c, 'i, 'd, 'j, 'e) Spec \<Rightarrow> 'c tool_context_scheme \<Rightarrow> 'i \<Rightarrow> string + 'e" where
  "built_Call t ctx input =
     (case CallFunc t of None \<Rightarrow> Inl ''tool has no call function'' | Some f \<Rightarrow> f ctx input)"

definition built_Render :: "('c, 'i, 'd, 'j, 'e) Spec \<Rightarrow> 'i \<Rightarrow> 'd tool_Result \<Rightarrow> RenderHints" where
  "built_Render t input result =
     (case RenderFunc t of
        Some f \<Rightarrow> f input result
      | None \<Rightarrow> \<lparr>Title = Spec_Name t, rh_Summary = Spec_Name t\<rparr>)"

section \<open>Validation\<close>

datatype tool_error =
    ToolNil
  | NameEmpty
  | DescriptionTooLong string
  | FirstSentenceTooLong string
  | SchemaNil string

definition ValidateTool :: "('c, 'i, 'd, 'j, 'e) Spec option \<Rightarrow> tool_error option" where
  "ValidateTool tool =
     (case tool of
        None \<Rightarrow> Some ToolNil
      | Some t \<Rightarrow>
          if TrimSpace (Spec_Name t) = [] then Some NameEmpty
          else
            let desc = Spec_Description t in
            if 1024 < length desc then Some (DescriptionTooLong (Spec_Name t))
            else
              let first = (case Index_of desc ''.'' of Some idx \<Rightarrow> take (idx + 1) desc | None \<Rightarrow> desc) in
              if 100 < length first then Some (FirstSentenceTooLong (Spec_Name t))
              else if Schema t = None then Some (SchemaNil (Spec_Name t))
              else None)"

record 'j ToolDef =
  Type :: string
  Function_Name :: string
  Function_Description :: string
  Parameters :: "'j option"

definition ToLLMToolDef :: "('c, 'i, 'd, 'j, 'e) Spec option \<Rightarrow> tool_error + 'j ToolDef" where
  "ToLLMToolDef tool =
     (case ValidateTool tool of
        Some e \<Rightarrow> Inl e
      | None \<Rightarrow>
          (case tool of
             None \<Rightarrow> Inl ToolNil
           | Some t \<Rightarrow> Inr \<lparr>Type = ''function'', Function_Name = Spec_Name t,
               Function_Description = Spec_Description t, Parameters = Schema t\<rparr>))"

section \<open>The registry\<close>

record 't Registry =
  Registry_tools :: "string \<rightharpoonup> 't"
  Registry_aliases :: "string \<rightharpoonup> string"

definition NewRegistry :: "'t Registry" where
  "NewRegistry = \<lparr>Registry_tools = Map.empty, Registry_aliases = Map.empty\<rparr>"

datatype register_error =
    RegistryNil
  | Invalid tool_error
  | AlreadyRegistered string
  | NameIsAlias string string
  | EmptyAlias string
  | AliasesItself string
  | DuplicateAlias string string
  | AliasIsTool string
  | AliasTaken string string

text \<open>The loop over the aliases; the result is the set \<open>seenAliases\<close>, in the order of the aliases.\<close>

fun check_aliases :: "'t Registry \<Rightarrow> string \<Rightarrow> string list \<Rightarrow> string list \<Rightarrow> register_error + string list" where
  "check_aliases r name [] seen = Inr seen"
| "check_aliases r name (alias # as) seen =
     (if alias = [] then Inl (EmptyAlias name)
      else if alias = name then Inl (AliasesItself name)
      else if alias \<in> set seen then Inl (DuplicateAlias name alias)
      else if Registry_tools r alias \<noteq> None then Inl (AliasIsTool alias)
      else case Registry_aliases r alias of
        Some existing \<Rightarrow> Inl (AliasTaken alias existing)
      | None \<Rightarrow> check_aliases r name as (seen @ [alias]))"

definition Register ::
    "('c, 'i, 'd, 'j, 'e) Spec Registry option \<Rightarrow> ('c, 'i, 'd, 'j, 'e) Spec option \<Rightarrow>
     register_error + ('c, 'i, 'd, 'j, 'e) Spec Registry" where
  "Register reg tool =
     (case reg of
        None \<Rightarrow> Inl RegistryNil
      | Some r \<Rightarrow>
          (case ValidateTool tool of
             Some e \<Rightarrow> Inl (Invalid e)
           | None \<Rightarrow>
               (case tool of
                  None \<Rightarrow> Inl (Invalid ToolNil)
                | Some t \<Rightarrow>
                    let name = Spec_Name t in
                    if Registry_tools r name \<noteq> None then Inl (AlreadyRegistered name)
                    else case Registry_aliases r name of
                      Some existing \<Rightarrow> Inl (NameIsAlias name existing)
                    | None \<Rightarrow>
                        (case check_aliases r name (Spec_Aliases t) [] of
                           Inl e \<Rightarrow> Inl e
                         | Inr seen \<Rightarrow>
                             Inr (r\<lparr>Registry_tools := (Registry_tools r)(name \<mapsto> t),
                                    Registry_aliases := foldl (\<lambda>m a. m(a \<mapsto> name)) (Registry_aliases r) seen\<rparr>)))))"

definition registry_Lookup :: "'t Registry option \<Rightarrow> string \<Rightarrow> 't option" where
  "registry_Lookup reg name =
     (case reg of
        None \<Rightarrow> None
      | Some r \<Rightarrow>
          (case Registry_tools r name of
             Some t \<Rightarrow> Some t
           | None \<Rightarrow>
               (case Registry_aliases r name of
                  None \<Rightarrow> None
                | Some canonical \<Rightarrow> Registry_tools r canonical)))"

text \<open>\<open>All\<close>; \<open>order\<close> is the order in which Go happens to iterate over the map of tools.\<close>

definition All_tools :: "string list \<Rightarrow> ('c, 'i, 'd, 'j, 'e) Spec Registry option \<Rightarrow> ('c, 'i, 'd, 'j, 'e) Spec list" where
  "All_tools order reg =
     (case reg of
        None \<Rightarrow> []
      | Some r \<Rightarrow> sort_key Spec_Name (List.map_filter (Registry_tools r) order))"

section \<open>Names and aliases\<close>

definition keys_of :: "('c, 'i, 'd, 'j, 'e) Spec \<Rightarrow> string list" where
  "keys_of t = Spec_Name t # Spec_Aliases t"

lemma check_aliases_Inr:
  "check_aliases r name as seen = Inr seen' \<longleftrightarrow>
    seen' = seen @ as \<and> [] \<notin> set as \<and> name \<notin> set as \<and> set as \<inter> set seen = {} \<and> distinct as
      \<and> (\<forall>a \<in> set as. Registry_tools r a = None \<and> Registry_aliases r a = None)"
  by (induction as arbitrary: seen) (auto split: option.splits)

lemma alias_updates: "foldl (\<lambda>m a. m(a \<mapsto> name)) m as = (\<lambda>x. if x \<in> set as then Some name else m x)"
  by (induction as arbitrary: m) (auto simp: fun_eq_iff)

text \<open>
  What a registry must keep: every tool stands under its own name and passed the checks, an alias
  leads to the tool that has it, and no key is both a name and an alias.
\<close>

definition registry_ok :: "('c, 'i, 'd, 'j, 'e) Spec Registry \<Rightarrow> bool" where
  "registry_ok r =
     ((\<forall>n t. Registry_tools r n = Some t \<longrightarrow>
         Spec_Name t = n \<and> ValidateTool (Some t) = None \<and> distinct (keys_of t)
         \<and> (\<forall>a \<in> set (Spec_Aliases t). a \<noteq> [] \<and> Registry_aliases r a = Some n))
      \<and> (\<forall>a n. Registry_aliases r a = Some n \<longrightarrow>
         Registry_tools r a = None \<and> (\<exists>t. Registry_tools r n = Some t \<and> a \<in> set (Spec_Aliases t))))"

lemma ok_tool:
  assumes "registry_ok r" "Registry_tools r n = Some t"
  shows "Spec_Name t = n" "ValidateTool (Some t) = None" "distinct (keys_of t)"
    "a \<in> set (Spec_Aliases t) \<Longrightarrow> a \<noteq> []" "a \<in> set (Spec_Aliases t) \<Longrightarrow> Registry_aliases r a = Some n"
  using assms unfolding registry_ok_def by blast+

lemma ok_alias:
  assumes "registry_ok r" "Registry_aliases r a = Some n"
  shows "Registry_tools r a = None" "\<exists>t. Registry_tools r n = Some t \<and> a \<in> set (Spec_Aliases t)"
  using assms unfolding registry_ok_def by blast+

lemma registry_ok_New: "registry_ok NewRegistry"
  by (simp add: registry_ok_def NewRegistry_def)

lemma Register_Inr:
  "Register (Some r) (Some t) = Inr r' \<longleftrightarrow>
    ValidateTool (Some t) = None \<and> distinct (keys_of t) \<and> [] \<notin> set (Spec_Aliases t)
    \<and> (\<forall>k \<in> set (keys_of t). Registry_tools r k = None \<and> Registry_aliases r k = None)
    \<and> r' = r\<lparr>Registry_tools := (Registry_tools r)(Spec_Name t \<mapsto> t),
            Registry_aliases := (\<lambda>x. if x \<in> set (Spec_Aliases t) then Some (Spec_Name t) else Registry_aliases r x)\<rparr>"
proof (cases "check_aliases r (Spec_Name t) (Spec_Aliases t) []")
  case (Inl e)
  then show ?thesis using check_aliases_Inr [of r "Spec_Name t" "Spec_Aliases t" "[]" "Spec_Aliases t"]
    by (auto simp: Register_def Let_def keys_of_def split: option.splits)
next
  case (Inr seen)
  then show ?thesis using check_aliases_Inr [of r "Spec_Name t" "Spec_Aliases t" "[]" seen]
    by (auto simp: Register_def Let_def keys_of_def alias_updates split: option.splits)
qed

lemma Register_None [simp]: "Register None tool = Inl RegistryNil" "Register (Some r) None = Inl (Invalid ToolNil)"
  by (simp_all add: Register_def ValidateTool_def)

lemma registry_ok_Register:
  assumes ok: "registry_ok r" and reg: "Register (Some r) (Some t) = Inr r'"
  shows "registry_ok r'"
proof -
  let ?n = "Spec_Name t"
  from reg have v: "ValidateTool (Some t) = None" "distinct (keys_of t)" "[] \<notin> set (Spec_Aliases t)"
    and free: "\<And>k. k \<in> set (keys_of t) \<Longrightarrow> Registry_tools r k = None \<and> Registry_aliases r k = None"
    and r': "Registry_tools r' = (Registry_tools r)(?n \<mapsto> t)"
      "Registry_aliases r' = (\<lambda>x. if x \<in> set (Spec_Aliases t) then Some ?n else Registry_aliases r x)"
    by (auto simp: Register_Inr)
  have self: "Registry_tools r ?n = None" "Registry_aliases r ?n = None"
    using free by (auto simp: keys_of_def)
  show ?thesis unfolding registry_ok_def
  proof (intro conjI allI impI)
    fix n u assume u: "Registry_tools r' n = Some u"
    then have "(n = ?n \<and> u = t) \<or> Registry_tools r n = Some u" using r' by (auto split: if_splits)
    then show "Spec_Name u = n" "ValidateTool (Some u) = None" "distinct (keys_of u)"
      using ok v unfolding registry_ok_def by blast+
    show "\<forall>a \<in> set (Spec_Aliases u). a \<noteq> [] \<and> Registry_aliases r' a = Some n"
    proof (cases "n = ?n")
      case True
      then show ?thesis using u v r' by auto
    next
      case False
      then have old: "Registry_tools r n = Some u" using u r' by simp
      have "a \<noteq> [] \<and> Registry_aliases r' a = Some n" if a: "a \<in> set (Spec_Aliases u)" for a
      proof -
        from ok_tool(4,5) [OF ok old a] have "a \<noteq> []" "Registry_aliases r a = Some n" .
        moreover from this free [of a] have "a \<notin> set (Spec_Aliases t)" by (auto simp: keys_of_def)
        ultimately show ?thesis using r' by simp
      qed
      then show ?thesis by blast
    qed
  next
    fix a n assume a: "Registry_aliases r' a = Some n"
    show "Registry_tools r' a = None"
    proof (cases "a \<in> set (Spec_Aliases t)")
      case True
      then show ?thesis using v(2) free [of a] r' by (auto simp: keys_of_def)
    next
      case False
      then have old: "Registry_aliases r a = Some n" using a r' by simp
      then have "a \<noteq> ?n" using self by auto
      with ok_alias(1) [OF ok old] r' show ?thesis by simp
    qed
    show "\<exists>u. Registry_tools r' n = Some u \<and> a \<in> set (Spec_Aliases u)"
    proof (cases "a \<in> set (Spec_Aliases t)")
      case True
      then show ?thesis using a r' by auto
    next
      case False
      then have "Registry_aliases r a = Some n" using a r' by simp
      then obtain u where "Registry_tools r n = Some u" "a \<in> set (Spec_Aliases u)"
        using ok_alias(2) [OF ok] by blast
      moreover from this self have "n \<noteq> ?n" by auto
      ultimately show ?thesis using r' by auto
    qed
  qed
qed

section \<open>Registering one tool after the other\<close>

text \<open>\<open>builtin.NewRegistry\<close> and its callers register tools one by one; a refused tool changes nothing.\<close>

definition try_Register :: "('c, 'i, 'd, 'j, 'e) Spec \<Rightarrow> ('c, 'i, 'd, 'j, 'e) Spec Registry \<Rightarrow>
    ('c, 'i, 'd, 'j, 'e) Spec Registry" where
  "try_Register t r = (case Register (Some r) (Some t) of Inl _ \<Rightarrow> r | Inr r' \<Rightarrow> r')"

text \<open>
  The contract of a registry as its users see it: adding a thing either is refused and changes nothing,
  or makes every key of the thing lead to it and leaves all other keys alone.
\<close>

locale catalogue =
  fixes add :: "'t \<Rightarrow> 'r \<Rightarrow> 'r" and look :: "'r \<Rightarrow> string \<Rightarrow> 't option" and keys :: "'t \<Rightarrow> string list"
    and invar :: "'r \<Rightarrow> bool" and accepts :: "'r \<Rightarrow> 't \<Rightarrow> bool"
  assumes add_invar: "invar r \<Longrightarrow> invar (add t r)"
    and add_refused: "invar r \<Longrightarrow> \<not> accepts r t \<Longrightarrow> add t r = r"
    and add_look: "invar r \<Longrightarrow> accepts r t \<Longrightarrow>
      look (add t r) k = (if k \<in> set (keys t) then Some t else look r k)"
    and accepts_free: "invar r \<Longrightarrow> accepts r t \<Longrightarrow> k \<in> set (keys t) \<Longrightarrow> look r k = None"
begin

lemma fold_invar: "invar r \<Longrightarrow> invar (fold add ts r)"
  by (induction ts arbitrary: r) (auto intro: add_invar)

lemma look_kept:
  assumes "invar r" "look r k = Some t"
  shows "look (add u r) k = Some t"
proof (cases "accepts r u")
  case True
  with assms accepts_free [OF assms(1) True, of k] show ?thesis by (auto simp: add_look)
qed (use assms in \<open>simp add: add_refused\<close>)

lemma look_stays: "invar r \<Longrightarrow> look r k = Some t \<Longrightarrow> look (fold add ts r) k = Some t"
  by (induction ts arbitrary: r) (auto intro: add_invar look_kept)

text \<open>A key leads to the first accepted thing that has it.\<close>

lemma look_origin:
  "invar r \<Longrightarrow> look (fold add ts r) k = Some t \<Longrightarrow> look r k = None \<Longrightarrow>
    \<exists>us vs. ts = us @ t # vs \<and> accepts (fold add us r) t \<and> k \<in> set (keys t)"
proof (induction ts arbitrary: r)
  case (Cons u ts)
  show ?case
  proof (cases "look (add u r) k")
    case None
    from Cons.IH [OF add_invar [OF Cons.prems(1)] _ None] Cons.prems(2)
    obtain us vs where "ts = us @ t # vs" "accepts (fold add us (add u r)) t" "k \<in> set (keys t)" by auto
    then show ?thesis by (intro exI [of _ "u # us"] exI [of _ vs]) simp
  next
    case (Some t')
    have acc: "accepts r u" using Some Cons.prems(3) add_refused [OF Cons.prems(1), of u] by fastforce
    have "look (fold add ts (add u r)) k = Some t'" using look_stays [OF add_invar [OF Cons.prems(1)] Some] .
    then have t': "t' = t" using Cons.prems(2) by simp
    then have "u = t \<and> k \<in> set (keys t)" using Some add_look [OF Cons.prems(1) acc, of k] Cons.prems(3)
      by (auto split: if_splits)
    with acc show ?thesis by (intro exI [of _ "[]"] exI [of _ ts]) simp
  qed
qed simp

lemma accepted_found:
  assumes "invar r" "accepts (fold add us r) t" "k \<in> set (keys t)"
  shows "look (fold add (us @ t # vs) r) k = Some t"
proof -
  have "look (add t (fold add us r)) k = Some t"
    using add_look [OF fold_invar [OF assms(1)] assms(2)] assms(3) by simp
  with look_stays [OF add_invar [OF fold_invar [OF assms(1)]]] show ?thesis by simp
qed

end

definition can_register :: "('c, 'i, 'd, 'j, 'e) Spec Registry \<Rightarrow> ('c, 'i, 'd, 'j, 'e) Spec \<Rightarrow> bool" where
  "can_register r t = (ValidateTool (Some t) = None \<and> distinct (keys_of t) \<and> [] \<notin> set (Spec_Aliases t)
     \<and> list_all (\<lambda>k. registry_Lookup (Some r) k = None) (keys_of t))"

lemma lookup_None:
  "registry_ok r \<Longrightarrow> registry_Lookup (Some r) k = None \<longleftrightarrow> Registry_tools r k = None \<and> Registry_aliases r k = None"
  using ok_alias(2) [of r k] by (auto simp: registry_Lookup_def split: option.splits)

lemma Register_accepts:
  assumes "registry_ok r" "can_register r t"
  shows "Register (Some r) (Some t) = Inr (try_Register t r)"
    and "registry_Lookup (Some (try_Register t r)) k =
      (if k \<in> set (keys_of t) then Some t else registry_Lookup (Some r) k)"
proof -
  define r' where "r' = r\<lparr>Registry_tools := (Registry_tools r)(Spec_Name t \<mapsto> t),
    Registry_aliases := (\<lambda>x. if x \<in> set (Spec_Aliases t) then Some (Spec_Name t) else Registry_aliases r x)\<rparr>"
  have reg: "Register (Some r) (Some t) = Inr r'"
    using assms by (auto simp: Register_Inr r'_def can_register_def lookup_None list_all_iff)
  then show "Register (Some r) (Some t) = Inr (try_Register t r)" by (simp add: try_Register_def)
  have free: "\<forall>k \<in> set (keys_of t). Registry_tools r k = None \<and> Registry_aliases r k = None"
    using assms by (auto simp: can_register_def lookup_None list_all_iff)
  have "Registry_aliases r x \<noteq> Some (Spec_Name t)" for x
    using ok_alias(2) [OF assms(1), of x "Spec_Name t"] free by (auto simp: keys_of_def)
  with free show "registry_Lookup (Some (try_Register t r)) k =
      (if k \<in> set (keys_of t) then Some t else registry_Lookup (Some r) k)"
    using reg by (auto simp: try_Register_def registry_Lookup_def r'_def keys_of_def split: option.splits)
qed

lemma Register_refuses:
  assumes "registry_ok r" "\<not> can_register r t"
  shows "\<exists>e. Register (Some r) (Some t) = Inl e"
proof (cases "Register (Some r) (Some t)")
  case (Inr r')
  then have "can_register r t" using assms(1) unfolding Register_Inr can_register_def list_all_iff
    by (auto simp: lookup_None)
  with assms show ?thesis by simp
qed simp

interpretation registry: catalogue try_Register "\<lambda>r. registry_Lookup (Some r)" keys_of registry_ok can_register
proof
  fix r :: "('a, 'b, 'c, 'd, 'e) Spec Registry" and t k
  assume ok: "registry_ok r"
  show "registry_ok (try_Register t r)"
    using ok registry_ok_Register unfolding try_Register_def by (auto split: sum.splits)
  show "\<not> can_register r t \<Longrightarrow> try_Register t r = r"
    using Register_refuses [OF ok, of t] by (auto simp: try_Register_def)
  show "can_register r t \<Longrightarrow> registry_Lookup (Some (try_Register t r)) k =
      (if k \<in> set (keys_of t) then Some t else registry_Lookup (Some r) k)"
    by (rule Register_accepts [OF ok])
  show "can_register r t \<Longrightarrow> k \<in> set (keys_of t) \<Longrightarrow> registry_Lookup (Some r) k = None"
    by (auto simp: can_register_def list_all_iff)
qed

section \<open>The properties\<close>

abbreviation register_all :: "('c, 'i, 'd, 'j, 'e) Spec list \<Rightarrow> ('c, 'i, 'd, 'j, 'e) Spec Registry" where
  "register_all ts \<equiv> fold try_Register ts NewRegistry"

text \<open>
  C28. Registries are well formed: after any tools were registered one by one, whatever was refused on the
  way, each tool stands under its own name, passed validation and has distinct non-empty aliases that
  lead to it, every alias belongs to a registered tool, and no key is both a name and an alias.
\<close>

theorem registry_well_formed:
  "registry_ok (fold try_Register ts NewRegistry)"
  by (rule registry.fold_invar [OF registry_ok_New])

text \<open>
  Lookup finds exactly what was registered: a name or alias leads to a tool exactly if the tool was
  accepted when it was registered and has that name or alias; nothing registered later takes a key
  over, and a tool is refused exactly if it is invalid, repeats a key, has an empty alias, or one of
  its keys is taken.
\<close>

theorem lookup_first_registered:
  "(registry_Lookup (Some (register_all ts)) k = Some t \<longleftrightarrow>
      (\<exists>us vs. ts = us @ t # vs \<and> k \<in> set (keys_of t) \<and> can_register (register_all us) t))
   \<and> (Register (Some (register_all ts)) (Some t) = Inr (try_Register t (register_all ts))
      \<longleftrightarrow> can_register (register_all ts) t)"
proof (intro conjI iffI)
  have new: "registry_Lookup (Some NewRegistry) k = None"
    by (simp add: registry_Lookup_def NewRegistry_def)
  assume "registry_Lookup (Some (register_all ts)) k = Some t"
  from registry.look_origin [OF registry_ok_New this new]
  show "\<exists>us vs. ts = us @ t # vs \<and> k \<in> set (keys_of t) \<and> can_register (register_all us) t" by blast
next
  assume "\<exists>us vs. ts = us @ t # vs \<and> k \<in> set (keys_of t) \<and> can_register (register_all us) t"
  then show "registry_Lookup (Some (register_all ts)) k = Some t"
    using registry.accepted_found [OF registry_ok_New] by blast
next
  have ok: "registry_ok (register_all ts)" by (rule registry.fold_invar [OF registry_ok_New])
  show "can_register (register_all ts) t" if "Register (Some (register_all ts)) (Some t) = Inr (try_Register t (register_all ts))"
    using that Register_refuses [OF ok, of t] by fastforce
  show "Register (Some (register_all ts)) (Some t) = Inr (try_Register t (register_all ts))" if "can_register (register_all ts) t"
    using Register_accepts(1) [OF ok that] .
qed

text \<open>\<open>All\<close> does not depend on the order in which the map is walked.\<close>

lemma names_of_tools:
  "registry_ok r \<Longrightarrow> set order \<subseteq> dom (Registry_tools r) \<Longrightarrow>
    map Spec_Name (List.map_filter (Registry_tools r) order) = order"
proof (induction order)
  case (Cons n order)
  then obtain t where t: "Registry_tools r n = Some t" by auto
  from ok_tool(1) [OF Cons.prems(1) t] Cons t show ?case by (simp add: List.map_filter_simps)
qed (simp add: List.map_filter_simps)

lemma All_tools_sorted:
  assumes "registry_ok r" "set order = dom (Registry_tools r)" "distinct order"
  shows "map Spec_Name (All_tools order (Some r)) = sort order"
proof -
  let ?ts = "List.map_filter (Registry_tools r) order"
  have "map Spec_Name (sort_key Spec_Name ?ts) = sort (map Spec_Name ?ts)"
    by (rule properties_for_sort [symmetric]) simp_all
  with assms show ?thesis by (simp add: All_tools_def names_of_tools)
qed

lemma map_inj_names:
  assumes "registry_ok r" "set xs \<subseteq> ran (Registry_tools r)" "set ys \<subseteq> ran (Registry_tools r)"
    "map Spec_Name xs = map Spec_Name ys"
  shows "xs = ys"
proof (rule map_inj_on [OF assms(4)])
  show "inj_on Spec_Name (set xs \<union> set ys)"
  proof (rule inj_onI)
    fix t u assume tu: "t \<in> set xs \<union> set ys" "u \<in> set xs \<union> set ys" "Spec_Name t = Spec_Name u"
    then have "t \<in> ran (Registry_tools r)" "u \<in> ran (Registry_tools r)" using assms(2,3) by blast+
    then obtain n m where "Registry_tools r n = Some t" "Registry_tools r m = Some u"
      unfolding ran_def by blast
    with tu(3) show "t = u" using ok_tool(1) [OF assms(1)] by (metis option.inject)
  qed
qed

lemma set_All_tools: "set order = dom (Registry_tools r) \<Longrightarrow> set (All_tools order (Some r)) = ran (Registry_tools r)"
  by (auto simp: All_tools_def ran_def List.map_filter_def image_iff dom_def) (metis option.sel)+

text \<open>
  The list of all tools is sorted by name and the same on every call, although Go walks the map in
  a random order: any two orders of the registered names give the same list, which holds exactly the
  registered tools.
\<close>

theorem All_tools_deterministic:
  assumes "set order = dom (Registry_tools (register_all ts))" "distinct order"
    "set order' = dom (Registry_tools (register_all ts))" "distinct order'"
  shows "All_tools order (Some (register_all ts)) = All_tools order' (Some (register_all ts))
    \<and> set (All_tools order (Some (register_all ts))) = ran (Registry_tools (register_all ts))
    \<and> sorted (map Spec_Name (All_tools order (Some (register_all ts))))"
proof -
  let ?r = "register_all ts"
  have ok: "registry_ok ?r" by (rule registry.fold_invar [OF registry_ok_New])
  have names: "map Spec_Name (All_tools order (Some ?r)) = sort order"
    "map Spec_Name (All_tools order' (Some ?r)) = sort order'"
    using assms All_tools_sorted [OF ok] by blast+
  have "sort order = sort order'"
    using assms by (metis set_eq_iff_mset_eq_distinct properties_for_sort sorted_sort mset_sort)
  then have "All_tools order (Some ?r) = All_tools order' (Some ?r)"
    using map_inj_names [OF ok] names set_All_tools assms by (metis order_refl)
  with names set_All_tools [OF assms(1)] show ?thesis by simp
qed

text \<open>
  Tools are closed by default: a tool built without a permission check and without a claim to be
  read-only is allowed only in the mode that bypasses permissions, and denied in plan and dontAsk mode.
\<close>

lemma built_tools_fail_closed:
  assumes "CheckPermFunc t = None" "IsReadOnlyFunc t = None"
  shows "(pr_Decision (built_CheckPermissions t ctx input) = PermAllow \<longleftrightarrow>
      tc_PermissionMode ctx = PermissionBypassPermissions)
    \<and> (pr_Decision (built_CheckPermissions t ctx input) = PermDeny \<longleftrightarrow>
      tc_PermissionMode ctx \<in> {PermissionPlan, PermissionDontAsk})
    \<and> \<not> built_IsReadOnly t input"
  using assms by (auto simp: built_CheckPermissions_def built_IsReadOnly_def split: tools_mode.splits)

section \<open>Limits of a tool context\<close>

abbreviation "defaultBashTimeout \<equiv> (30000000000 :: int)"
abbreviation "defaultMaxResultChars \<equiv> (30000 :: int)"
abbreviation "defaultMaxReadChars \<equiv> (100000 :: int)"
abbreviation "defaultMaxDirFiles \<equiv> (200 :: int)"
abbreviation "defaultMaxPromptFiles \<equiv> (400 :: int)"
abbreviation "defaultMaxDirBytes \<equiv> (512 * 1024 :: int)"
abbreviation "defaultMaxPromptBytes \<equiv> (2 * 1024 * 1024 :: int)"
abbreviation "defaultMaxDirDepth \<equiv> (8 :: int)"

text \<open>The limits of \<open>Context\<close>; a duration is in nanoseconds.\<close>

record context_limits = tool_context +
  BashTimeout :: int
  MaxResultChars :: int
  MaxReadChars :: int
  MaxDirFiles :: int
  MaxPromptFiles :: int
  MaxDirBytes :: int
  MaxPromptBytes :: int
  MaxDirDepth :: int

definition DefaultLimits :: context_limits where
  "DefaultLimits = \<lparr>tc_PermissionMode = PermissionDefault, BashTimeout = defaultBashTimeout,
     MaxResultChars = defaultMaxResultChars, MaxReadChars = defaultMaxReadChars,
     MaxDirFiles = defaultMaxDirFiles, MaxPromptFiles = defaultMaxPromptFiles,
     MaxDirBytes = defaultMaxDirBytes, MaxPromptBytes = defaultMaxPromptBytes, MaxDirDepth = defaultMaxDirDepth\<rparr>"

definition EffectiveBashTimeout :: "context_limits \<Rightarrow> int" where
  "EffectiveBashTimeout c = (if BashTimeout c \<le> 0 then defaultBashTimeout else BashTimeout c)"

definition EffectiveMaxResultChars :: "context_limits \<Rightarrow> int" where
  "EffectiveMaxResultChars c = (if MaxResultChars c \<le> 0 then defaultMaxResultChars else MaxResultChars c)"

definition EffectiveMaxReadChars :: "context_limits \<Rightarrow> int" where
  "EffectiveMaxReadChars c = (if MaxReadChars c \<le> 0 then defaultMaxReadChars else MaxReadChars c)"

definition EffectiveMaxDirFiles :: "context_limits \<Rightarrow> int" where
  "EffectiveMaxDirFiles c = (if MaxDirFiles c \<le> 0 then defaultMaxDirFiles else MaxDirFiles c)"

definition EffectiveMaxPromptFiles :: "context_limits \<Rightarrow> int" where
  "EffectiveMaxPromptFiles c = (if MaxPromptFiles c \<le> 0 then defaultMaxPromptFiles else MaxPromptFiles c)"

definition EffectiveMaxDirBytes :: "context_limits \<Rightarrow> int" where
  "EffectiveMaxDirBytes c = (if MaxDirBytes c \<le> 0 then defaultMaxDirBytes else MaxDirBytes c)"

definition EffectiveMaxPromptBytes :: "context_limits \<Rightarrow> int" where
  "EffectiveMaxPromptBytes c = (if MaxPromptBytes c \<le> 0 then defaultMaxPromptBytes else MaxPromptBytes c)"

definition EffectiveMaxDirDepth :: "context_limits \<Rightarrow> int" where
  "EffectiveMaxDirDepth c = (if MaxDirDepth c \<le> 0 then defaultMaxDirDepth else MaxDirDepth c)"

lemma effective_limits_positive:
  "0 < EffectiveBashTimeout c" "0 < EffectiveMaxResultChars c" "0 < EffectiveMaxReadChars c"
  "0 < EffectiveMaxDirFiles c" "0 < EffectiveMaxPromptFiles c" "0 < EffectiveMaxDirBytes c"
  "0 < EffectiveMaxPromptBytes c" "0 < EffectiveMaxDirDepth c"
  by (simp_all add: EffectiveBashTimeout_def EffectiveMaxResultChars_def EffectiveMaxReadChars_def
      EffectiveMaxDirFiles_def EffectiveMaxPromptFiles_def EffectiveMaxDirBytes_def
      EffectiveMaxPromptBytes_def EffectiveMaxDirDepth_def)

end
