(* ===== verification/File_Tools.thy ===== *)
theory File_Tools
  imports File_Read Tool_Registry
begin

text \<open>
  The file tools: FileRead (\<open>internal/tools/fileread/fileread.go\<close>), FileWrite
  (\<open>filewrite/filewrite.go\<close>) and FileEdit (\<open>fileedit/fileedit.go\<close>), each with its input check, its
  permission check and its call on the disk and the session's snapshots. JSON decoding and the outcome
  of waiting for the path lock are arguments.
\<close>

section \<open>Inputs and permissions\<close>

datatype tool_failure =
    InvalidInput
  | PathFailed path_error
  | ReadFailed read_error
  | LockFailed string
  | IOFailed io_error
  | ParentNotDir string
  | IdenticalStrings
  | StaleFile
  | OldNotFound
  | OldNotUnique nat

record ReadInput =
  ri_Path :: string
  ri_StartLine :: int
  ri_LineLimit :: int

record WriteInput =
  wi_Path :: string
  wi_Content :: string

record EditInput =
  ei_Path :: string
  OldString :: string
  NewString :: string
  ei_ReplaceAll :: bool

definition read_unmarshal :: "(string \<Rightarrow> string + string list) \<Rightarrow> (string \<Rightarrow> string + ReadInput) \<Rightarrow> string \<Rightarrow>
    string + ReadInput" where
  "read_unmarshal json_fields json_input raw =
     (case json_fields raw of
        Inl e \<Rightarrow> Inl e
      | Inr keys \<Rightarrow>
          if ''offset'' \<in> set keys then Inl ''offset is not supported; use start_line''
          else if ''limit'' \<in> set keys then Inl ''limit is not supported; use line_limit''
          else case json_input raw of
            Inl e \<Rightarrow> Inl e
          | Inr input \<Rightarrow>
              if TrimSpace (ri_Path input) = [] then Inl ''path is required''
              else if ri_StartLine input < 0 then Inl ''start_line must be non-negative''
              else if ri_LineLimit input < 0 then Inl ''line_limit must be non-negative''
              else Inr input)"

definition write_unmarshal :: "(string \<Rightarrow> string + WriteInput) \<Rightarrow> string \<Rightarrow> string + WriteInput" where
  "write_unmarshal json_input raw =
     (case json_input raw of
        Inl e \<Rightarrow> Inl e
      | Inr input \<Rightarrow> if TrimSpace (wi_Path input) = [] then Inl ''path is required'' else Inr input)"

definition edit_unmarshal :: "(string \<Rightarrow> string + EditInput) \<Rightarrow> string \<Rightarrow> string + EditInput" where
  "edit_unmarshal json_input raw =
     (case json_input raw of
        Inl e \<Rightarrow> Inl e
      | Inr input \<Rightarrow>
          if TrimSpace (ei_Path input) = [] then Inl ''path is required''
          else if OldString input = [] then Inl ''old_string is required''
          else Inr input)"

text \<open>An input of another type than the tool's is \<open>None\<close>.\<close>

definition read_checkPermissions :: "'c tool_context_scheme \<Rightarrow> ReadInput option \<Rightarrow> ReadInput permission_result" where
  "read_checkPermissions ctx input =
     (case input of
        None \<Rightarrow> \<lparr>pr_Decision = PermDeny, pr_Reason = ''invalid FileRead input'', pr_UpdatedInput = None\<rparr>
      | Some i \<Rightarrow> \<lparr>pr_Decision = PermAllow, pr_Reason = [], pr_UpdatedInput = Some i\<rparr>)"

definition modifies_permission :: "string \<Rightarrow> 'c tool_context_scheme \<Rightarrow> 'i \<Rightarrow> 'i permission_result" where
  "modifies_permission reason ctx i =
     (case tc_PermissionMode ctx of
        PermissionBypassPermissions \<Rightarrow> \<lparr>pr_Decision = PermAllow, pr_Reason = [], pr_UpdatedInput = Some i\<rparr>
      | PermissionPlan \<Rightarrow> \<lparr>pr_Decision = PermDeny, pr_Reason = reason, pr_UpdatedInput = None\<rparr>
      | PermissionDontAsk \<Rightarrow> \<lparr>pr_Decision = PermDeny, pr_Reason = reason, pr_UpdatedInput = None\<rparr>
      | _ \<Rightarrow> \<lparr>pr_Decision = PermAsk, pr_Reason = reason, pr_UpdatedInput = Some i\<rparr>)"

definition write_checkPermissions :: "'c tool_context_scheme \<Rightarrow> WriteInput option \<Rightarrow> WriteInput permission_result" where
  "write_checkPermissions ctx input =
     (case input of
        None \<Rightarrow> \<lparr>pr_Decision = PermDeny, pr_Reason = ''invalid FileWrite input'', pr_UpdatedInput = None\<rparr>
      | Some i \<Rightarrow> modifies_permission ''FileWrite modifies files'' ctx i)"

definition edit_checkPermissions :: "'c tool_context_scheme \<Rightarrow> EditInput option \<Rightarrow> EditInput permission_result" where
  "edit_checkPermissions ctx input =
     (case input of
        None \<Rightarrow> \<lparr>pr_Decision = PermDeny, pr_Reason = ''invalid FileEdit input'', pr_UpdatedInput = None\<rparr>
      | Some i \<Rightarrow> modifies_permission ''FileEdit modifies files'' ctx i)"

section \<open>FileRead\<close>

record ReadOutput = lineRangeResult +
  ro_Path :: string
  SizeBytes :: int

definition pad5 :: "int \<Rightarrow> string" where
  "pad5 n = replicate (5 - length (Itoa n)) (CHR '' '') @ Itoa n"

text \<open>\<open>strings.SplitAfter(s, "\n")\<close>.\<close>

definition SplitAfter_NL :: "string \<Rightarrow> string list" where
  "SplitAfter_NL s = (let segs = Split s NL in map (\<lambda>l. l @ [NL]) (butlast segs) @ [last segs])"

fun numbered :: "int \<Rightarrow> string list \<Rightarrow> string" where
  "numbered n [] = []"
| "numbered n (line # lines) = (if line = [] then [] else pad5 n @ ''  '' @ line) @ numbered (n + 1) lines"

definition formatDisplay :: "ReadOutput \<Rightarrow> string" where
  "formatDisplay out =
     ''File: '' @ ro_Path out @ [NL] @
     (let endLine = (if 0 < LineCount out then StartLine out + LineCount out - 1 else StartLine out)
      in ''Range: lines '' @ Itoa (StartLine out) @ ''-'' @ Itoa endLine @ '' of '' @ Itoa (TotalLines out) @ [NL]) @
     ''Size: '' @ Itoa (SizeBytes out) @ '' bytes'' @ (if Truncated out then '' (truncated)'' else []) @ [NL, NL] @
     numbered (StartLine out) (SplitAfter_NL (Content out))"

definition formatAlreadyInContextDisplay :: "ReadOutput \<Rightarrow> string" where
  "formatAlreadyInContextDisplay out =
     (let endLine = (if 0 < LineCount out then StartLine out + LineCount out - 1 else StartLine out) in
      ''File: '' @ ro_Path out @ [NL] @
      ''Range: lines '' @ Itoa (StartLine out) @ ''-'' @ Itoa endLine @ '' of '' @ Itoa (TotalLines out) @ [NL] @
      ''Notice: range unchanged and already present in context; returning compact result.'' @ [NL])"

definition read_output :: "string \<Rightarrow> ReadRangeResult \<Rightarrow> ReadOutput" where
  "read_output path res = lineRangeResult.extend (lineRangeResult.truncate res) \<lparr>ro_Path = path, SizeBytes = TotalBytes res\<rparr>"

definition read_call :: "context_limits \<Rightarrow> io_env \<Rightarrow> ReadInput option \<Rightarrow> file_world \<Rightarrow>
    (tool_failure + ReadOutput \<times> string) \<times> file_world" where
  "read_call ctx env input w =
     (case input of
        None \<Rightarrow> (Inl InvalidInput, w)
      | Some i \<Rightarrow>
          (case ResolvePath (paths_of env) (ri_Path i) PathRead of
             Inl e \<Rightarrow> (Inl (PathFailed e), w)
           | Inr path \<Rightarrow>
               let startLine = (if ri_StartLine i \<le> 0 then 1 else ri_StartLine i);
                   lineLimit = (if ri_LineLimit i \<le> 0 then max 1 (EffectiveMaxReadChars ctx div 80) else ri_LineLimit i)
               in case ReadRange env (w_disk w) path startLine lineLimit (EffectiveMaxReadChars ctx) of
                    Inl e \<Rightarrow> (Inl (ReadFailed e), w)
                  | Inr res \<Rightarrow>
                      if (case w_snaps w of
                            None \<Rightarrow> False
                          | Some s \<Rightarrow> snap_readRange path (StartLine res) (LineCount res) (MTime res) s \<noteq> None)
                      then
                        let out = (read_output path res)\<lparr>Content := [], ReadBytes := 0\<rparr>
                        in (Inr (out, formatAlreadyInContextDisplay out), w)
                      else
                        let out = read_output path res
                        in (Inr (out, formatDisplay out),
                            update_snaps (snap_recordRange path (StartLine res) (LineCount res) (MTime res) (Content res)
                              \<circ> snap_record path (Content res)) w)))"

section \<open>FileWrite\<close>

record WriteOutput =
  wo_Path :: string
  BytesWritten :: int
  Created :: bool

definition write_display :: "WriteOutput \<Rightarrow> string" where
  "write_display out =
     (if Created out then ''Created '' @ wo_Path out @ '' with '' @ Itoa (BytesWritten out) @ '' bytes''
      else ''Wrote '' @ Itoa (BytesWritten out) @ '' bytes to '' @ wo_Path out)"

text \<open>\<open>lock path\<close> is the error of waiting for the lock of a path, if there is one.\<close>

definition write_call :: "(string \<Rightarrow> string option) \<Rightarrow> io_env \<Rightarrow> WriteInput option \<Rightarrow> file_world \<Rightarrow>
    (tool_failure + WriteOutput \<times> string) \<times> file_world" where
  "write_call lock env input w =
     (case input of
        None \<Rightarrow> (Inl InvalidInput, w)
      | Some i \<Rightarrow>
          (case ResolvePath (paths_of env) (wi_Path i) PathWrite of
             Inl e \<Rightarrow> (Inl (PathFailed e), w)
           | Inr path \<Rightarrow>
               (case lock path of
                  Some e \<Rightarrow> (Inl (LockFailed e), w)
                | None \<Rightarrow>
                    (case os_Stat env (w_disk w) (Dir path) of
                       Inl e \<Rightarrow> (Inl (IOFailed e), w)
                     | Inr node \<Rightarrow>
                         if node \<noteq> Directory then (Inl (ParentNotDir (Dir path)), w)
                         else
                           let prior = os_ReadFile env (w_disk w) path;
                               created = (prior = Inl ENOENT)
                           in case (prior, created) of
                                (Inl e, False) \<Rightarrow> (Inl (IOFailed e), w)
                              | _ \<Rightarrow>
                                  let w = (case prior of
                                        Inr content \<Rightarrow> update_snaps (snap_record path content) w
                                      | Inl _ \<Rightarrow> w)
                                  in case AtomicWrite env path (wi_Content i) 420 (w_disk w) of
                                       (Some e, d) \<Rightarrow> (Inl (IOFailed e), w\<lparr>w_disk := d\<rparr>)
                                     | (None, d) \<Rightarrow>
                                         let out = \<lparr>wo_Path = path, BytesWritten = int (length (wi_Content i)),
                                                    Created = created\<rparr>
                                         in (Inr (out, write_display out), w\<lparr>w_disk := d\<rparr>)))))"

section \<open>FileEdit\<close>

definition normalizeLineEndings :: "string \<Rightarrow> string" where
  "normalizeLineEndings s = ReplaceAll s [CR, NL] [NL]"

definition normalizeForMatch :: "string \<Rightarrow> string" where
  "normalizeForMatch s =
     Join (map (\<lambda>line. TrimRight line {CHR '' '', Tab}) (Split (normalizeLineEndings s) NL)) NL"

definition countOccurrences :: "string \<Rightarrow> string \<Rightarrow> nat" where
  "countOccurrences haystack needle = (if needle = [] then 0 else Count_sub haystack needle)"

text \<open>
  \<open>buildDiffDisplay\<close>: the first differing line, or the length of the shorter list; then equal last
  lines are dropped.
\<close>

fun first_diff :: "string list \<Rightarrow> string list \<Rightarrow> nat" where
  "first_diff (x # xs) (y # ys) = (if x = y then Suc (first_diff xs ys) else 0)"
| "first_diff _ _ = 0"

fun trim_end :: "string list \<Rightarrow> string list \<Rightarrow> nat \<Rightarrow> nat \<Rightarrow> nat \<Rightarrow> nat \<times> nat" where
  "trim_end oldLines newLines firstDiff lastOld lastNew =
     (if firstDiff < lastOld \<and> firstDiff < lastNew \<and> oldLines ! lastOld = newLines ! lastNew
      then trim_end oldLines newLines firstDiff (lastOld - 1) (lastNew - 1)
      else (lastOld, lastNew))"

declare trim_end.simps [simp del]

text \<open>The hunk: where it starts, the lines it removes and the lines it adds.\<close>

definition diff_hunk :: "string list \<Rightarrow> string list \<Rightarrow> nat \<times> string list \<times> string list" where
  "diff_hunk oldLines newLines =
     (let firstDiff = first_diff oldLines newLines;
          (lastOld, lastNew) = trim_end oldLines newLines firstDiff (length oldLines - 1) (length newLines - 1)
      in (firstDiff, drop firstDiff (take (lastOld + 1) oldLines), drop firstDiff (take (lastNew + 1) newLines)))"

definition buildDiffDisplay :: "string \<Rightarrow> string \<Rightarrow> string \<Rightarrow> string" where
  "buildDiffDisplay path before after =
     ''--- '' @ path @ [NL] @ ''+++ '' @ path @ [NL] @
     (if before = after then ''(no changes)'' @ [NL]
      else
        let (firstDiff, removed, added) = diff_hunk (Split before NL) (Split after NL);
            start = Itoa (int firstDiff + 1)
        in ''@@ -'' @ start @ '','' @ Itoa (int (length removed)) @ '' +'' @ start @ '','' @ Itoa (int (length added)) @
           '' @@'' @ [NL] @
           concat (map (\<lambda>l. CHR ''-'' # l @ [NL]) removed) @
           concat (map (\<lambda>l. CHR ''+'' # l @ [NL]) added))"

record EditOutput =
  eo_Path :: string
  OccurrencesReplaced :: nat
  BytesBefore :: nat
  BytesAfter :: nat

definition edit_call :: "(string \<Rightarrow> string option) \<Rightarrow> io_env \<Rightarrow> EditInput option \<Rightarrow> file_world \<Rightarrow>
    (tool_failure + EditOutput \<times> string) \<times> file_world" where
  "edit_call lock env input w =
     (case input of
        None \<Rightarrow> (Inl InvalidInput, w)
      | Some i \<Rightarrow>
          if OldString i = NewString i then (Inl IdenticalStrings, w)
          else case ResolvePath (paths_of env) (ei_Path i) PathRead of
            Inl e \<Rightarrow> (Inl (PathFailed e), w)
          | Inr path \<Rightarrow>
              (case lock path of
                 Some e \<Rightarrow> (Inl (LockFailed e), w)
               | None \<Rightarrow>
                   (case os_ReadFile env (w_disk w) path of
                      Inl e \<Rightarrow> (Inl (IOFailed e), w)
                    | Inr rawContent \<Rightarrow>
                        if (case w_snaps w of
                              None \<Rightarrow> False
                            | Some s \<Rightarrow> snap_read path s \<notin> {None, Some rawContent})
                        then (Inl StaleFile, w)
                        else
                          let fileStr = normalizeLineEndings rawContent;
                              normalOld = normalizeForMatch (OldString i);
                              normalFile = normalizeForMatch fileStr;
                              count = countOccurrences normalFile normalOld
                          in if count = 0 then (Inl OldNotFound, w)
                             else if 1 < count \<and> \<not> ei_ReplaceAll i then (Inl (OldNotUnique count), w)
                             else
                               let (newStr, replaced) =
                                     (if ei_ReplaceAll i then (ReplaceAll normalFile normalOld (NewString i), count)
                                      else (Replace_first normalFile normalOld (NewString i), 1))
                               in case AtomicWrite env path newStr 420 (w_disk w) of
                                    (Some e, d) \<Rightarrow> (Inl (IOFailed e), w\<lparr>w_disk := d\<rparr>)
                                  | (None, d) \<Rightarrow>
                                      (Inr (\<lparr>eo_Path = path, OccurrencesReplaced = replaced,
                                             BytesBefore = length rawContent, BytesAfter = length newStr\<rparr>,
                                            buildDiffDisplay (ei_Path i) normalFile newStr),
                                       update_snaps (snap_record path newStr) (w\<lparr>w_disk := d\<rparr>)))))"

section \<open>The diff is a patch\<close>

lemma first_diff_take: "take (first_diff xs ys) xs = take (first_diff xs ys) ys"
  by (induction xs ys rule: first_diff.induct) auto

lemma first_diff_le: "first_diff xs ys \<le> length xs" "first_diff xs ys \<le> length ys"
  by (induction xs ys rule: first_diff.induct) auto

lemma trim_end_facts:
  assumes "trim_end xs ys f i j = (i', j')" "i < length xs" "j < length ys" "drop (i + 1) xs = drop (j + 1) ys"
    "f \<le> i + 1" "f \<le> j + 1"
  shows "drop (i' + 1) xs = drop (j' + 1) ys \<and> f \<le> i' + 1 \<and> f \<le> j' + 1 \<and> i' < length xs \<and> j' < length ys"
  using assms
proof (induction xs ys f i j arbitrary: i' j' rule: trim_end.induct)
  case (1 xs ys f i j)
  show ?case
  proof (cases "f < i \<and> f < j \<and> xs ! i = ys ! j")
    case True
    then have "drop (i - 1 + 1) xs = drop (j - 1 + 1) ys"
      using 1(3-5) Cons_nth_drop_Suc [of i xs] Cons_nth_drop_Suc [of j ys] by simp
    moreover have "trim_end xs ys f (i - 1) (j - 1) = (i', j')" using 1(2) True by (simp add: trim_end.simps [of _ _ _ i])
    ultimately show ?thesis using 1(1) [OF True] 1(3,4) True by auto
  next
    case False
    then have "trim_end xs ys f i j = (i, j)" by (subst trim_end.simps) auto
    then show ?thesis using 1(2-) by auto
  qed
qed

text \<open>
  The diff FileEdit shows is a correct patch: at the reported line, the old lines continue with the
  removed ones, and putting the added ones in their place gives exactly the new lines.
\<close>

theorem diff_is_patch:
  assumes "diff_hunk (Split before NL) (Split after NL) = (at, removed, added)"
  shows "take (length removed) (drop at (Split before NL)) = removed
    \<and> Join (take at (Split before NL) @ added @ drop (at + length removed) (Split before NL)) NL = after"
proof -
  let ?xs = "Split before NL" and ?ys = "Split after NL"
  let ?f = "first_diff ?xs ?ys"
  obtain i j where t: "trim_end ?xs ?ys ?f (length ?xs - 1) (length ?ys - 1) = (i, j)" by (metis prod.exhaust)
  with assms have h: "at = ?f" "removed = drop ?f (take (i + 1) ?xs)" "added = drop ?f (take (j + 1) ?ys)"
    by (auto simp: diff_hunk_def Let_def)
  have pos: "0 < length ?xs" "0 < length ?ys" by simp_all
  have le: "?f \<le> length ?xs" "?f \<le> length ?ys" by (rule first_diff_le)+
  have f: "drop (i + 1) ?xs = drop (j + 1) ?ys \<and> ?f \<le> i + 1 \<and> ?f \<le> j + 1 \<and> i < length ?xs \<and> j < length ?ys"
    by (rule trim_end_facts [OF t]) (use pos le in linarith, use pos le in linarith, use pos in simp, use pos le in linarith, use pos le in linarith)
  have len: "at + length removed = i + 1" using f h by simp
  have "take at ?xs @ added = take (j + 1) ?ys"
    using h f first_diff_take [of ?xs ?ys] append_take_drop_id [of ?f "take (j + 1) ?ys"]
    by (simp add: min_def split: if_splits)
  then have "take at ?xs @ added @ drop (at + length removed) ?xs = ?ys"
    using len f append_take_drop_id [of "j + 1" ?ys] by (metis append.assoc)
  moreover have "take (length removed) (drop at ?xs) = removed" using h f by (simp add: take_drop)
  ultimately show ?thesis by simp
qed

theorem diff_is_patch_witness:
  "Join (take 1 (Split [CHR ''a'', NL, CHR ''b''] NL) @ [''c''] @ drop 2 (Split [CHR ''a'', NL, CHR ''b''] NL)) NL
    = [CHR ''a'', NL, CHR ''c'']"
  using diff_is_patch [of "[CHR ''a'', NL, CHR ''b'']" "[CHR ''a'', NL, CHR ''c'']" 1 "[''b'']" "[''c'']"]
  by (simp add: diff_hunk_def trim_end.simps)

section \<open>Failing tools leave the files alone\<close>

lemma write_call_error:
  assumes "write_call lock env input w = (Inl e, w')" "temp_fresh env (w_disk w)"
  shows "w_disk w' q = w_disk w q \<or> temp_left env q"
proof -
  have "w_disk w' = w_disk w \<or> (\<exists>path content e'. AtomicWrite env path content 420 (w_disk w) = (Some e', w_disk w'))"
    using assms(1) unfolding write_call_def Let_def
    by (auto split: option.splits sum.splits if_splits prod.splits bool.splits)
  then show ?thesis using AtomicWrite_error [OF _ assms(2)] by metis
qed

lemma edit_call_error:
  assumes "edit_call lock env input w = (Inl e, w')" "temp_fresh env (w_disk w)"
  shows "w_disk w' q = w_disk w q \<or> temp_left env q" "w_snaps w' = w_snaps w"
proof -
  have r: "w' = w \<or> (\<exists>path content e'. AtomicWrite env path content 420 (w_disk w) = (Some e', w_disk w')
      \<and> w_snaps w' = w_snaps w)"
    using assms(1) unfolding edit_call_def Let_def
    by (auto split: option.splits sum.splits if_splits prod.splits intro!: exI)
  then show "w_disk w' q = w_disk w q \<or> temp_left env q" using AtomicWrite_error [OF _ assms(2)] by metis
  from r show "w_snaps w' = w_snaps w" by auto
qed

text \<open>
  C12. A failing tool leaves the files alone: whatever goes wrong in FileWrite or FileEdit (a bad path, a
  lock that is not free, a stale or ambiguous edit, or a fault of any system call half-way through the
  atomic write), every file keeps its content and permissions; at most the temporary file is left
  behind, and only if it could not be removed either.
\<close>

theorem failed_tool_keeps_files:
  assumes "temp_fresh env (w_disk w)"
    and "fst (write_call lock env wi w) = Inl e \<and> w' = snd (write_call lock env wi w)
      \<or> fst (edit_call lock env ei w) = Inl e \<and> w' = snd (edit_call lock env ei w)"
  shows "w_disk w' q = w_disk w q \<or> temp_left env q"
  using assms write_call_error [OF _ assms(1), of lock wi e w' q] edit_call_error(1) [OF _ assms(1), of lock ei e w' q]
  by (metis prod.collapse)

section \<open>What a successful tool does\<close>

lemma write_call_ok:
  assumes "write_call lock env (Some i) w = (Inr (out, disp), w')"
  obtains path where "ResolvePath (paths_of env) (wi_Path i) PathWrite = Inr path" "lock path = None"
    "AtomicWrite env path (wi_Content i) 420 (w_disk w) = (None, w_disk w')"
    "wo_Path out = path" "BytesWritten out = int (length (wi_Content i))"
    "Created out \<longleftrightarrow> os_ReadFile env (w_disk w) path = Inl ENOENT"
    "w_snaps w' = (case os_ReadFile env (w_disk w) path of
      Inr content \<Rightarrow> map_option (snap_record path content) (w_snaps w) | Inl _ \<Rightarrow> w_snaps w)"
  using assms that unfolding write_call_def Let_def
  by (auto split: option.splits sum.splits if_splits prod.splits bool.splits simp: update_snaps_def)

lemma edit_call_ok:
  assumes "edit_call lock env (Some i) w = (Inr (out, disp), w')"
  obtains path raw N old new where
    "ResolvePath (paths_of env) (ei_Path i) PathRead = Inr path" "lock path = None"
    "os_ReadFile env (w_disk w) path = Inr raw"
    "N = normalizeForMatch (normalizeLineEndings raw)" "old = normalizeForMatch (OldString i)"
    "0 < countOccurrences N old" "ei_ReplaceAll i \<or> countOccurrences N old = 1"
    "new = (if ei_ReplaceAll i then ReplaceAll N old (NewString i) else Replace_first N old (NewString i))"
    "AtomicWrite env path new 420 (w_disk w) = (None, w_disk w')"
    "w_snaps w' = map_option (snap_record path new) (w_snaps w)"
    "OccurrencesReplaced out = countOccurrences N old" "BytesAfter out = length new" "eo_Path out = path"
    "disp = buildDiffDisplay (ei_Path i) N new"
    "\<forall>s. w_snaps w = Some s \<longrightarrow> snap_read path s \<in> {None, Some raw}"
  using assms that unfolding edit_call_def Let_def
  by (auto split: option.splits sum.splits if_splits prod.splits simp: update_snaps_def)

lemma read_back:
  assumes "entry env path = Inr e" "io_Read env path = None" "d e = Some (Regular content perm t)"
  shows "os_ReadFile env d path = Inr content"
  using assms by (simp add: os_ReadFile_def followed_def)

text \<open>
  C16. What was written is read back: after a successful FileWrite the file holds exactly the given bytes,
  reading its path yields them, and no other file has changed.
\<close>

theorem write_then_read:
  assumes "write_call lock env (Some i) w = (Inr (out, disp), w')" "temp_fresh env (w_disk w)"
    and "io_Read env (wo_Path out) = None"
  shows "os_ReadFile env (w_disk w') (wo_Path out) = Inr (wi_Content i)
    \<and> (\<exists>e. entry env (wo_Path out) = Inr e
        \<and> w_disk w' = (w_disk w)(e \<mapsto> Regular (wi_Content i) 420 (io_now env)))"
proof -
  from write_call_ok [OF assms(1)] obtain path where p: "wo_Path out = path"
    "AtomicWrite env path (wi_Content i) 420 (w_disk w) = (None, w_disk w')" by metis
  from AtomicWrite_ok [OF p(2) assms(2)] obtain e where e: "entry env path = Inr e"
    "w_disk w' = (w_disk w)(e \<mapsto> Regular (wi_Content i) 420 (io_now env))" by metis
  have "os_ReadFile env (w_disk w') path = Inr (wi_Content i)"
    by (rule read_back [OF e(1) assms(3) [unfolded p(1)]]) (simp add: e(2))
  with e p show ?thesis by blast
qed

lemma count_one:
  assumes "countOccurrences N old = 1"
  obtains i where "Index_of N old = Some i" "\<not> Contains (drop (i + length old) N) old" "old \<noteq> []"
proof -
  from assms have old: "old \<noteq> []" "Count_sub N old = 1" by (auto simp: countOccurrences_def split: if_splits)
  then obtain i where i: "Index_of N old = Some i" "Count_sub (drop (i + length old) N) old = 0"
    by (subst (asm) Count_sub.simps) (auto split: option.splits)
  with that old show ?thesis by (simp add: Count_sub_zero)
qed


section \<open>Examples\<close>

definition demo_io :: io_env where
  "demo_io = \<lparr>pe_Getwd = Inr ''/w'', pe_EvalSymlinks = (\<lambda>p. if p = ''/w/n'' then Inl ''enoent'' else Inr p),
     pe_WorkingDir = ''/w'', pe_AdditionalWorkingDirs = [],
     io_dir = Inr, io_now = 7, io_CreateTemp = Inr ''/w/t'', io_Write = None, io_Chmod = None, io_Sync = None,
     io_Close = None, io_Rename = None, io_Remove = None, io_Stat = (\<lambda>_. None), io_Read = (\<lambda>_. None)\<rparr>"

definition demo_world :: file_world where
  "demo_world = \<lparr>w_disk = [''/w'' \<mapsto> Directory, ''/w/a'' \<mapsto> Regular [CHR ''x'', CHR '' '', NL, CHR ''y'', NL] 493 0],
     w_snaps = Some \<lparr>snaps = Map.empty, rangeSnaps = Map.empty\<rparr>\<rparr>"

lemmas path_simps = ResolvePath_def TrimSpace_def trim_chunks_def chunks_ascii is_space_def
  isSpecialPath_def Clean_def clean_segs_def clean_step_def unclean_def IsAbs_def JoinPath_def Abs_path_def
  resolveExistingOrParent_def allowedRoots_def isWithin_def Let_def Rel_def elements_def Dir_def Base_def
  TrimRight_def

lemma demo_paths_resolve:
  "ResolvePath (paths_of demo_io) ''a'' PathRead = Inr ''/w/a''"
  "ResolvePath (paths_of demo_io) ''n'' PathWrite = Inr ''/w/n''"
  by (simp_all add: path_simps demo_io_def path_env.defs)

lemma demo_entry: "entry demo_io ''/w/a'' = Inr ''/w/a''" "entry demo_io ''/w/n'' = Inr ''/w/n''"
  "entry demo_io ''/w'' = Inr ''/w''" "Dir ''/w/n'' = ''/w''"
  by (simp_all add: entry_def path_simps demo_io_def)

definition demo_write :: WriteInput where
  "demo_write = \<lparr>wi_Path = ''n'', wi_Content = ''hi''\<rparr>"

definition demo_edit :: EditInput where
  "demo_edit = \<lparr>ei_Path = ''a'', OldString = ''y'', NewString = ''z'', ei_ReplaceAll = False\<rparr>"

lemma demo_fresh: "temp_fresh demo_io (w_disk demo_world)"
  by (simp add: temp_fresh_def demo_io_def demo_world_def)

lemma demo_disk: "w_disk demo_world = [''/w'' \<mapsto> Directory, ''/w/a'' \<mapsto> Regular [CHR ''x'', CHR '' '', NL, CHR ''y'', NL] 493 0]"
  "w_snaps demo_world = Some \<lparr>snaps = Map.empty, rangeSnaps = Map.empty\<rparr>"
  by (simp_all add: demo_world_def)

lemma demo_faults: "io_Stat demo_io p = None" "io_Read demo_io p = None" "io_CreateTemp demo_io = Inr ''/w/t''"
  "io_Write demo_io = None" "io_Chmod demo_io = None" "io_Sync demo_io = None" "io_Close demo_io = None"
  "io_Rename demo_io = None" "io_Remove demo_io = None" "io_now demo_io = 7"
  by (simp_all add: demo_io_def)

lemma demo_read:
  "os_ReadFile demo_io (w_disk demo_world) ''/w/a'' = Inr [CHR ''x'', CHR '' '', NL, CHR ''y'', NL]"
  "os_ReadFile demo_io (w_disk demo_world) ''/w/n'' = Inl ENOENT"
  "os_Stat demo_io (w_disk demo_world) ''/w'' = Inr Directory"
  by (simp_all add: os_ReadFile_def os_Stat_def demo_faults demo_entry demo_disk followed_def)

lemma demo_atomic:
  "AtomicWrite demo_io ''/w/n'' c 420 (w_disk demo_world) = (None, (w_disk demo_world)(''/w/n'' \<mapsto> Regular c 420 7))"
  "AtomicWrite demo_io ''/w/a'' c 420 (w_disk demo_world) = (None, (w_disk demo_world)(''/w/a'' \<mapsto> Regular c 420 7))"
  by (auto simp: AtomicWrite_def os_Rename_def demo_faults demo_entry demo_disk fun_eq_iff Let_def)

lemma demo_write_call:
  "\<exists>out disp w'. write_call (\<lambda>_. None) demo_io (Some demo_write) demo_world = (Inr (out, disp), w') \<and> wo_Path out = ''/w/n''"
  by (simp add: write_call_def demo_write_def demo_paths_resolve demo_read demo_entry demo_atomic Let_def)

text \<open>
  The edit of the example changes the second line only, but the blank at the end of the first line is
  gone afterwards, and so are the execute permissions of the file.
\<close>

lemma demo_normal:
  "normalizeLineEndings [CHR ''x'', CHR '' '', NL, CHR ''y'', NL] = [CHR ''x'', CHR '' '', NL, CHR ''y'', NL]"
  "normalizeForMatch [CHR ''x'', CHR '' '', NL, CHR ''y'', NL] = [CHR ''x'', NL, CHR ''y'', NL]"
  "normalizeForMatch ''y'' = ''y''"
  by (simp_all add: normalizeLineEndings_def normalizeForMatch_def TrimRight_def)

lemma demo_edit_call:
  "\<exists>out disp w'. edit_call (\<lambda>_. None) demo_io (Some demo_edit) demo_world = (Inr (out, disp), w')
    \<and> eo_Path out = ''/w/a'' \<and> w_disk w' ''/w/a'' = Some (Regular [CHR ''x'', NL, CHR ''z'', NL] 420 7)"
proof -
  have one: "countOccurrences [CHR ''x'', NL, CHR ''y'', NL] ''y'' = 1"
    by (simp add: countOccurrences_def Count_sub.simps)
  have new: "Replace_first [CHR ''x'', NL, CHR ''y'', NL] ''y'' ''z'' = [CHR ''x'', NL, CHR ''z'', NL]"
    by (simp add: Replace_first_def)
  show ?thesis
    by (simp add: edit_call_def demo_edit_def demo_paths_resolve demo_read demo_normal one new demo_atomic
        demo_disk(2) snap_read_def Let_def)
qed

theorem write_then_read_witness:
  "\<exists>out disp w'. write_call (\<lambda>_. None) demo_io (Some demo_write) demo_world = (Inr (out, disp), w')
    \<and> os_ReadFile demo_io (w_disk w') ''/w/n'' = Inr ''hi''"
proof -
  from demo_write_call obtain out disp w' where w:
    "write_call (\<lambda>_. None) demo_io (Some demo_write) demo_world = (Inr (out, disp), w')" "wo_Path out = ''/w/n''" by blast
  from write_then_read [OF w(1) demo_fresh demo_faults(2)] w show ?thesis by (auto simp: demo_write_def)
qed


theorem failed_tool_keeps_files_witness:
  "fst (write_call (\<lambda>_. Some ''timeout'') demo_io (Some demo_write) demo_world) = Inl (LockFailed ''timeout'')
    \<and> w_disk (snd (write_call (\<lambda>_. Some ''timeout'') demo_io (Some demo_write) demo_world)) ''/w/a'' = w_disk demo_world ''/w/a''"
proof -
  have f: "fst (write_call (\<lambda>_. Some ''timeout'') demo_io (Some demo_write) demo_world) = Inl (LockFailed ''timeout'')"
    by (simp add: write_call_def demo_write_def demo_paths_resolve)
  with failed_tool_keeps_files [OF demo_fresh, of "\<lambda>_. Some ''timeout''" "Some demo_write" "LockFailed ''timeout''"
      "snd (write_call (\<lambda>_. Some ''timeout'') demo_io (Some demo_write) demo_world)" None "''/w/a''"]
  show ?thesis by (simp add: temp_left_def demo_faults)
qed

text \<open>An old string of blanks only is empty after normalization and never found, whatever the file holds.\<close>

lemma blank_old_not_found: "countOccurrences N (normalizeForMatch '' '') = 0"
  by (simp add: countOccurrences_def normalizeForMatch_def normalizeLineEndings_def TrimRight_def)

text \<open>Uniqueness counts occurrences that do not overlap: \<open>aa\<close> counts once in \<open>aaa\<close>, where it occurs twice.\<close>

lemma overlapping_counts_once: "countOccurrences ''aaa'' ''aa'' = 1"
  by (simp add: countOccurrences_def Count_sub.simps)

section \<open>Reading a file and then editing it\<close>

lemma length_Join: "ls \<noteq> [] \<Longrightarrow> length (Join ls c) + 1 = sum_list (map (\<lambda>l. length l + 1) ls)"
  by (induction ls rule: list_nonempty_induct) (auto simp: Join_Cons)

lemma length_Join_take: "length (Join (take k ls) c) \<le> length (Join ls c)"
proof (cases "take k ls = []")
  case False
  then have ne: "ls \<noteq> []" by auto
  have "sum_list (map (\<lambda>l. length l + 1) ls) =
      sum_list (map (\<lambda>l. length l + 1) (take k ls)) + sum_list (map (\<lambda>l. length l + 1) (drop k ls))"
    by (metis append_take_drop_id map_append sum_list.append)
  with length_Join [OF False, of c] length_Join [OF ne, of c] show ?thesis by linarith
qed auto

lemma length_line_of: "length (line_of (x @ [NL])) \<le> length x"
proof -
  have "TrimSuffix (x @ [NL]) [NL] = x" by (simp add: TrimSuffix_def)
  then show ?thesis by (simp add: line_of_def TrimSuffix_def)
qed

lemma length_first_line: "length (line_of (TrimPrefix (x @ [NL]) BOM)) \<le> length x"
proof (cases "HasPrefix (x @ [NL]) BOM")
  case True
  then obtain r where r: "x @ [NL] = BOM @ r" by (auto simp: HasPrefix_iff_prefix prefix_def)
  then have "r \<noteq> []" "last r = NL" by (auto dest!: arg_cong [of _ _ last] split: if_splits)
  then obtain y where y: "r = y @ [NL]" by (metis append_butlast_last_id)
  with r have x: "x = BOM @ y" by simp
  have "TrimPrefix (x @ [NL]) BOM = y @ [NL]" unfolding x by (simp add: TrimPrefix_def)
  then show ?thesis using length_line_of [of y] x by simp
qed (use length_line_of [of x] in \<open>simp add: TrimPrefix_def\<close>)

lemma Split_newline_end: "last (Split (s @ [NL]) NL) = []"
proof (rule ccontr)
  obtain ys x where e: "Split (s @ [NL]) NL = ys @ [x]"
    using Split_not_Nil by (metis append_butlast_last_id)
  assume "last (Split (s @ [NL]) NL) \<noteq> []"
  with e have x: "x \<noteq> []" by simp
  have "s @ [NL] = Join (ys @ [x]) NL" by (metis Join_Split e)
  then have "s @ [NL] = (if ys = [] then x else Join ys NL @ NL # x)" by (simp add: Join_snoc)
  then have "last (s @ [NL]) = last x" using x by (cases "ys = []") simp_all
  then have "NL \<in> set x" using x by (metis last_in_set last_snoc)
  moreover have "x \<in> set (Split (s @ [NL]) NL)" by (simp add: e)
  ultimately show False using Split_no_sep by fast
qed

text \<open>The lines of a file that ends with a line feed are shorter than the file, however they are joined.\<close>

lemma lines_shorter: "length (Join (text_lines (s @ [NL])) NL) < length (s @ [NL])"
proof -
  let ?segs = "butlast (Split (s @ [NL]) NL)"
  have r: "read_strings (s @ [NL]) = map (\<lambda>l. l @ [NL]) ?segs"
    by (simp add: read_strings_def Split_newline_end Let_def)
  then have total: "length (s @ [NL]) = sum_list (map (\<lambda>l. length l + 1) ?segs)"
    using arg_cong [OF read_strings_concat [of "s @ [NL]"], of length] by (simp add: length_concat comp_def)
  then have "?segs \<noteq> []" by auto
  then obtain x xs where xs: "?segs = x # xs" by (cases ?segs) auto
  have t: "text_lines (s @ [NL]) = line_of (TrimPrefix (x @ [NL]) BOM) # map (\<lambda>l. line_of (l @ [NL])) xs"
    by (simp add: text_lines_def text_chunks_def r xs)
  have "sum_list (map (\<lambda>l. length l + 1) (map (\<lambda>l. line_of (l @ [NL])) xs)) \<le> sum_list (map (\<lambda>l. length l + 1) xs)"
    using length_line_of by (induction xs) (auto simp: add_mono)
  then have "sum_list (map (\<lambda>l. length l + 1) (text_lines (s @ [NL]))) \<le> length (s @ [NL])"
    using length_first_line [of x] unfolding total xs t by simp
  with length_Join [of "text_lines (s @ [NL])" NL] t show ?thesis by simp
qed

text \<open>
  FileRead records the lines it selected as the snapshot of the whole file, without the final line
  feed, so an edit of any file that ends with a line feed is refused as stale after it was read, and
  reading it again does not help.
\<close>

lemma read_then_edit_refused:
  assumes "read_call ctx env (Some ri) w = (Inr (out, disp), w')"
    and path: "ResolvePath (paths_of env) (ri_Path ri) PathRead = Inr path"
      "ResolvePath (paths_of env) (ei_Path ei) PathRead = Inr path"
    and raw: "os_ReadFile env (w_disk w) path = Inr (c @ [NL])" "utf8_Valid (c @ [NL])"
    and ri: "ri_StartLine ri = 0" "ri_LineLimit ri = 0" "EffectiveMaxReadChars ctx < 2 ^ 62"
    and s: "w_snaps w = Some s" "rangeSnaps s = Map.empty"
    and ei: "OldString ei \<noteq> NewString ei" "lock path = None"
  shows "edit_call lock env (Some ei) w' = (Inl StaleFile, w')"
proof -
  let ?m = "EffectiveMaxReadChars ctx" and ?l = "max 1 (EffectiveMaxReadChars ctx div 80)"
  have m: "0 < ?m" by (rule effective_limits_positive)
  have l: "1 \<le> ?l" "1 + ?l < 2 ^ 63" using ri(3) m by auto
  from range_read [OF raw(2) order_refl l(1) l(2) order_less_imp_le [OF m], of path] obtain res where res:
    "selectLineRangeFromReader path (c @ [NL]) 1 ?l ?m = Inr res"
    "prefix (Content res) (Join (wanted 1 (1 + ?l - 1) (text_lines (c @ [NL]))) NL)" by blast
  have "length (Content res) \<le> length (Join (text_lines (c @ [NL])) NL)"
    using prefix_length_le [OF res(2)] length_Join_take order_trans unfolding wanted_def by fastforce
  then have short: "Content res \<noteq> c @ [NL]" using lines_shorter [of c] by auto
  have sel: "selectLineRangeFromBytes path (c @ [NL]) 1 ?l ?m = Inr res" using res(1) readers_same by metis
  from assms(1) path(1) ri obtain rr where rr: "ReadRange env (w_disk w) path 1 ?l ?m = Inr rr"
    and w': "w' = update_snaps (snap_recordRange path (StartLine rr) (LineCount rr) (MTime rr) (Content rr)
        \<circ> snap_record path (Content rr)) w"
    using s by (auto simp: read_call_def Let_def snap_readRange_def split: sum.splits if_splits)
  have "Content rr = Content res"
    using rr raw(1) sel res(1) l m by (auto simp: ReadRange_def readLineRange_def Let_def lineRangeResult.defs
        split: sum.splits file_node.splits if_splits)
  with short w' s have "w_snaps w' = Some s'" "snap_read path s' = Some (Content res)"
    if "s' = snap_recordRange path (StartLine rr) (LineCount rr) (MTime rr) (Content rr) (snap_record path (Content rr) s)"
    for s' using that by (simp_all add: update_snaps_def snap_read_def snap_record_def snap_recordRange_def)
  moreover have "os_ReadFile env (w_disk w') path = Inr (c @ [NL])" using raw(1) w' by simp
  ultimately show ?thesis using path(2) ei short by (auto simp: edit_call_def)
qed

text \<open>
  FileWrite records the content a file had before the write, so an edit that follows is refused as
  stale as well.
\<close>

lemma write_then_edit_refused:
  assumes w: "write_call lock env (Some wi) w = (Inr (out, disp), w')" "temp_fresh env (w_disk w)"
    and prior: "os_ReadFile env (w_disk w) (wo_Path out) = Inr prior" "prior \<noteq> wi_Content wi"
    and s: "w_snaps w = Some s" and path: "ResolvePath (paths_of env) (ei_Path ei) PathRead = Inr (wo_Path out)"
    and ei: "OldString ei \<noteq> NewString ei" "lock (wo_Path out) = None"
  shows "edit_call lock env (Some ei) w' = (Inl StaleFile, w')"
proof -
  from write_call_ok [OF w(1)] have snap: "w_snaps w' = Some (snap_record (wo_Path out) prior s)"
    and d: "AtomicWrite env (wo_Path out) (wi_Content wi) 420 (w_disk w) = (None, w_disk w')"
    using prior(1) s by (metis map_option_eq_Some option.map(2) sum.simps(6))+
  from AtomicWrite_ok [OF d w(2)] obtain e where e: "entry env (wo_Path out) = Inr e"
    "w_disk w' = (w_disk w)(e \<mapsto> Regular (wi_Content wi) 420 (io_now env))" by metis
  have "io_Read env (wo_Path out) = None" using prior(1) by (auto simp: os_ReadFile_def split: option.splits)
  from read_back [OF e(1) this] e(2) have "os_ReadFile env (w_disk w') (wo_Path out) = Inr (wi_Content wi)" by simp
  with snap path ei prior(2) show ?thesis by (simp add: edit_call_def snap_read_def snap_record_def)
qed

end
