(* ===== verification/Net_Guard.thy ===== *)
theory Net_Guard
  imports Go_Strings "HOL-Library.Word"
begin

unbundle bit_operations_syntax

text \<open>
  The guard of outgoing HTTP (\<open>internal/netguard/netguard.go\<close>), which MCP, HTTP hooks and WebFetch
  share: which destinations are blocked, the check of a URL, the dial that connects only to validated
  addresses, and the client that follows redirects. Addresses are words of 32 and 128 bits, as in Go's
  package \<open>netip\<close>; parsers, the resolver, the network and the servers' answers are parameters, and the
  resolver may answer differently every time it is asked.
\<close>

section \<open>Addresses\<close>

datatype Addr = NoAddr | V4 "32 word" | V6 (bits: "128 word") (zone: string)

text \<open>The methods of \<open>netip.Addr\<close> the guard uses.\<close>

fun WithoutZone :: "Addr \<Rightarrow> Addr" where
  "WithoutZone (V6 a _) = V6 a []"
| "WithoutZone a = a"

fun netip_Unmap :: "Addr \<Rightarrow> Addr" where
  "netip_Unmap (V6 a z) = (if drop_bit 32 a = 0xFFFF then V4 (ucast a) else V6 a z)"
| "netip_Unmap a = a"

fun IsUnspecified :: "Addr \<Rightarrow> bool" where
  "IsUnspecified NoAddr = False"
| "IsUnspecified (V4 a) = (a = 0)"
| "IsUnspecified (V6 a z) = (a = 0 \<and> z = [])"

fun IsMulticast :: "Addr \<Rightarrow> bool" where
  "IsMulticast NoAddr = False"
| "IsMulticast (V4 a) = (drop_bit 28 a = 0xE)"
| "IsMulticast (V6 a _) = (drop_bit 120 a = 0xFF)"

fun IsLoopback :: "Addr \<Rightarrow> bool" where
  "IsLoopback NoAddr = False"
| "IsLoopback (V4 a) = (drop_bit 24 a = 127)"
| "IsLoopback (V6 a _) = (a = 1)"

fun IsPrivate :: "Addr \<Rightarrow> bool" where
  "IsPrivate NoAddr = False"
| "IsPrivate (V4 a) = (drop_bit 24 a = 10 \<or> drop_bit 20 a = 0xAC1 \<or> drop_bit 16 a = 0xC0A8)"
| "IsPrivate (V6 a _) = (drop_bit 121 a = 0x7E)"

fun IsLinkLocalUnicast :: "Addr \<Rightarrow> bool" where
  "IsLinkLocalUnicast NoAddr = False"
| "IsLinkLocalUnicast (V4 a) = (drop_bit 16 a = 0xA9FE)"
| "IsLinkLocalUnicast (V6 a _) = (drop_bit 118 a = 0x3FA)"

fun IsInterfaceLocalMulticast :: "Addr \<Rightarrow> bool" where
  "IsInterfaceLocalMulticast (V6 a _) = (drop_bit 112 a AND 0xFF0F = 0xFF01)"
| "IsInterfaceLocalMulticast _ = False"

section \<open>Blocked destinations\<close>

record Policy =
  AllowPrivate :: bool
  AllowLoopback :: bool
  HTTPLoopbackOnly :: bool
  MaxRedirects :: int

definition Unmap :: "Addr \<Rightarrow> Addr" where
  "Unmap addr0 =
     (case netip_Unmap (WithoutZone addr0) of
        V6 a z \<Rightarrow>
          if drop_bit 32 a = 0x64FF9B0000000000000000 then V4 (ucast a)
          else if drop_bit 112 a = 0x2002 then V4 (ucast (drop_bit 80 a))
          else V6 a z
      | addr \<Rightarrow> addr)"

fun isCGNAT :: "Addr \<Rightarrow> bool" where
  "isCGNAT (V4 a) = (drop_bit 24 a = 100 \<and> drop_bit 16 a AND 0xC0 = 64)"
| "isCGNAT _ = False"

definition Blocked :: "Addr \<Rightarrow> Policy \<Rightarrow> bool" where
  "Blocked addr0 p =
     (let addr = Unmap addr0 in
      if addr = NoAddr \<or> IsUnspecified addr \<or> IsMulticast addr then True
      else if IsLoopback addr then \<not> AllowLoopback p
      else if IsPrivate addr \<or> IsLinkLocalUnicast addr \<or> IsInterfaceLocalMulticast addr \<or> isCGNAT addr
      then \<not> AllowPrivate p
      else False)"

section \<open>Checking a URL\<close>

record url =
  Scheme :: string
  Hostname :: string

datatype net_error =
    InvalidURL string
  | UnsupportedScheme string
  | MissingHost
  | LocalhostDenied string
  | DestinationDenied string
  | HTTPOnlyLoopback
  | EmptyDialHost
  | LookupFailed string
  | NoAddresses string
  | InvalidDialAddress string
  | DialFailed string
  | TooManyRedirects int
  | RedirectBlocked net_error

record net_env =
  ParseURL :: "string \<Rightarrow> string + url"
  ParseAddr :: "string \<Rightarrow> Addr option"
  SplitHostPort :: "string \<Rightarrow> string + string \<times> string"
  canonicalAddr :: "url \<Rightarrow> string"
  Lookup_host :: "nat \<Rightarrow> string \<Rightarrow> string + Addr list"
  Dial :: "nat \<Rightarrow> Addr \<Rightarrow> string \<Rightarrow> string option"
  Location :: "nat \<Rightarrow> url \<Rightarrow> url option"

definition isLocalName :: "string \<Rightarrow> bool" where
  "isLocalName host =
     (let h = ToLower (TrimSuffix (TrimSpace host) ''.'') in
      h = ''localhost'' \<or> HasSuffix h ''.localhost'')"

definition parseHostAddr :: "net_env \<Rightarrow> string \<Rightarrow> Addr option" where
  "parseHostAddr env host = ParseAddr env (TrimSuffix (TrimPrefix host ''['') '']'')"

definition validateParsed :: "net_env \<Rightarrow> url \<Rightarrow> Policy \<Rightarrow> net_error option" where
  "validateParsed env u p =
     (if Scheme u \<noteq> ''https'' \<and> Scheme u \<noteq> ''http'' then Some (UnsupportedScheme (Scheme u))
      else
        let host = Hostname u in
        if host = [] then Some MissingHost
        else
          let check = (if isLocalName host
                then if \<not> AllowLoopback p then Inl (LocalhostDenied host) else Inr True
                else case parseHostAddr env host of
                  Some addr \<Rightarrow>
                    if Blocked addr p then Inl (DestinationDenied host) else Inr (IsLoopback (Unmap addr))
                | None \<Rightarrow> Inr False)
          in case check of
               Inl e \<Rightarrow> Some e
             | Inr loopback \<Rightarrow>
                 if Scheme u = ''http'' \<and> HTTPLoopbackOnly p \<and> \<not> loopback then Some HTTPOnlyLoopback else None)"

definition ValidateURL :: "net_env \<Rightarrow> string \<Rightarrow> Policy \<Rightarrow> net_error option" where
  "ValidateURL env rawURL p =
     (case ParseURL env (TrimSpace rawURL) of
        Inl e \<Rightarrow> Some (InvalidURL e)
      | Inr u \<Rightarrow> validateParsed env u p)"

section \<open>Dialing\<close>

text \<open>\<open>127.0.0.1\<close> and \<open>::1\<close>.\<close>

definition loopback_addrs :: "Addr list" where
  "loopback_addrs = [V4 0x7F000001, V6 1 []]"

text \<open>\<open>i\<close> counts the lookups: the resolver may give another answer the next time.\<close>

definition resolveValidated :: "net_env \<Rightarrow> nat \<Rightarrow> string \<Rightarrow> Policy \<Rightarrow> net_error + Addr list" where
  "resolveValidated env i host0 p =
     (let host = TrimSpace host0 in
      if host = [] then Inl EmptyDialHost
      else if isLocalName host \<and> \<not> AllowLoopback p then Inl (LocalhostDenied host)
      else
        let answer = (case parseHostAddr env host of
              Some a \<Rightarrow> Inr [a]
            | None \<Rightarrow>
                if isLocalName host then Inr loopback_addrs
                else case Lookup_host env i host of Inl e \<Rightarrow> Inl (LookupFailed e) | Inr addrs \<Rightarrow> Inr addrs)
        in case answer of
             Inl e \<Rightarrow> Inl e
           | Inr addrs \<Rightarrow>
               if length addrs = 0 then Inl (NoAddresses host)
               else if list_ex (\<lambda>a. Blocked a p) addrs then Inl (DestinationDenied host)
               else Inr addrs)"

definition ValidateDialHost :: "net_env \<Rightarrow> nat \<Rightarrow> string \<Rightarrow> Policy \<Rightarrow> net_error option" where
  "ValidateDialHost env i host p =
     (case resolveValidated env i host p of Inl e \<Rightarrow> Some e | Inr _ \<Rightarrow> None)"

text \<open>The addresses that are dialed, in order, and the connection (the last one) or an error.\<close>

fun dial_loop :: "net_env \<Rightarrow> nat \<Rightarrow> string \<Rightarrow> Addr list \<Rightarrow> string \<Rightarrow> Addr list \<times> (net_error + Addr)" where
  "dial_loop env i port [] lastErr = ([], Inl (DialFailed lastErr))"
| "dial_loop env i port (a # addrs) lastErr =
     (case Dial env i a port of
        None \<Rightarrow> ([a], Inr a)
      | Some derr \<Rightarrow> let (dialed, r) = dial_loop env i port addrs derr in (a # dialed, r))"

definition DialContext :: "net_env \<Rightarrow> Policy \<Rightarrow> nat \<Rightarrow> string \<Rightarrow> Addr list \<times> (net_error + Addr)" where
  "DialContext env p i address =
     (case SplitHostPort env address of
        Inl e \<Rightarrow> ([], Inl (InvalidDialAddress address))
      | Inr (host, port) \<Rightarrow>
          (case resolveValidated env i host p of
             Inl e \<Rightarrow> ([], Inl e)
           | Inr addrs \<Rightarrow> dial_loop env i port addrs []))"

section \<open>The client\<close>

definition maxRedirects :: "Policy \<Rightarrow> int" where
  "maxRedirects p = (if MaxRedirects p \<le> 0 then 3 else MaxRedirects p)"

definition CheckRedirect :: "net_env \<Rightarrow> Policy \<Rightarrow> url \<Rightarrow> url list \<Rightarrow> net_error option" where
  "CheckRedirect env p u via =
     (if maxRedirects p \<le> int (length via) then Some (TooManyRedirects (maxRedirects p))
      else case validateParsed env u p of
        Some e \<Rightarrow> Some (RedirectBlocked e)
      | None \<Rightarrow> None)"

text \<open>
  A request with the client: the dial for the URL, then the redirects the server answers with, each
  checked with the requests made before. The trace has every request with the addresses dialed for it.
\<close>

function client_do :: "net_env \<Rightarrow> Policy \<Rightarrow> url list \<Rightarrow> url \<Rightarrow> (url \<times> Addr list) list \<times> net_error option" where
  "client_do env p via u =
     (let i = length via; (dialed, conn) = DialContext env p i (canonicalAddr env u) in
      case conn of
        Inl e \<Rightarrow> ([(u, dialed)], Some e)
      | Inr _ \<Rightarrow>
          (case Location env i u of
             None \<Rightarrow> ([(u, dialed)], None)
           | Some next \<Rightarrow>
               (case CheckRedirect env p next (via @ [u]) of
                  Some e \<Rightarrow> ([(u, dialed)], Some e)
                | None \<Rightarrow>
                    let (trace, r) = client_do env p (via @ [u]) next in ((u, dialed) # trace, r))))"
  by pat_completeness auto
termination
  by (relation "measure (\<lambda>(env, p, via, u). nat (maxRedirects p) - length via)")
    (auto simp: CheckRedirect_def split: if_splits)

declare client_do.simps [simp del]

section \<open>The blocked addresses as ranges\<close>

text \<open>An address lies in the network \<open>net/len\<close> if it has the same first \<open>len\<close> bits.\<close>

definition in_net :: "'w::len word \<Rightarrow> nat \<Rightarrow> nat \<Rightarrow> bool" where
  "in_net a net len = (net \<le> unat a \<and> unat a < net + 2 ^ (LENGTH('w) - len))"

lemma div_eq_interval: "0 < m \<Longrightarrow> x div m = c \<longleftrightarrow> c * m \<le> x \<and> x < c * m + (m :: nat)"
proof
  assume m: "0 < m" and c: "x div m = c"
  have "x = c * m + x mod m" using c by (metis div_mult_mod_eq)
  with mod_less_divisor [OF m, of x] show "c * m \<le> x \<and> x < c * m + m" by linarith
next
  assume "0 < m" "c * m \<le> x \<and> x < c * m + m"
  then show "x div m = c" by (intro div_nat_eqI) (simp_all add: mult.commute)
qed

lemma drop_bit_eq_net:
  fixes a b :: "'w::len word"
  shows "drop_bit (LENGTH('w) - len) a = b \<longleftrightarrow> in_net a (unat b * 2 ^ (LENGTH('w) - len)) len"
proof -
  have "drop_bit (LENGTH('w) - len) a = b \<longleftrightarrow> unat a div 2 ^ (LENGTH('w) - len) = unat b"
    by (simp only: word_unat_eq_iff unat_drop_bit_eq drop_bit_eq_div [where 'a = nat])
  then show ?thesis unfolding in_net_def by (simp add: div_eq_interval)
qed

lemma cgnat_bits: "drop_bit 24 a = 100 \<and> drop_bit 16 a AND 0xC0 = 64 \<longleftrightarrow> drop_bit 22 (a :: 32 word) = 401"
proof -
  define b where "b = drop_bit 22 a"
  have up: "drop_bit 24 a = drop_bit 2 b" by (simp add: b_def drop_bit_drop_bit)
  have mask: "(0xC0 :: 32 word) = push_bit 6 (mask 2)" by (simp add: mask_eq_exp_minus_1 push_bit_eq_mult)
  have "drop_bit 16 a AND 0xC0 = push_bit 6 (take_bit 2 b)" unfolding mask
    by (rule bit_word_eqI) (auto simp: bit_simps b_def)
  moreover have "drop_bit 6 (push_bit 6 (take_bit 2 b)) = take_bit 2 b"
    by (rule bit_word_eqI) (auto simp: bit_simps)
  moreover have "drop_bit 6 (64 :: 32 word) = 1" "push_bit 6 (1 :: 32 word) = 64" by simp_all
  ultimately have low: "drop_bit 16 a AND 0xC0 = 64 \<longleftrightarrow> take_bit 2 b = 1" by metis
  have "push_bit 2 (drop_bit 2 b) + take_bit 2 b = b" by (rule bits_ident)
  moreover have "drop_bit 2 (401 :: 32 word) = 100" "take_bit 2 (401 :: 32 word) = 1"
    "push_bit 2 (100 :: 32 word) + 1 = 401" by simp_all
  ultimately show ?thesis unfolding up low b_def [symmetric] by metis
qed

abbreviation octets :: "nat \<Rightarrow> nat \<Rightarrow> nat \<Rightarrow> nat \<Rightarrow> nat" where
  "octets a b c d \<equiv> ((a * 256 + b) * 256 + c) * 256 + d"

lemmas v4_nets =
  drop_bit_eq_net [where 'w = 32 and len = 4, simplified] drop_bit_eq_net [where 'w = 32 and len = 8, simplified]
  drop_bit_eq_net [where 'w = 32 and len = 10, simplified] drop_bit_eq_net [where 'w = 32 and len = 12, simplified]
  drop_bit_eq_net [where 'w = 32 and len = 16, simplified]

text \<open>
  C15. Which IPv4 destinations are blocked: exactly 0.0.0.0 and 224.0.0.0/4 always, 127.0.0.0/8 unless
  loopback is allowed, and 10.0.0.0/8, 172.16.0.0/12, 192.168.0.0/16, 169.254.0.0/16 and 100.64.0.0/10
  unless private destinations are allowed.
\<close>

theorem blocked_v4_ranges:
  "Blocked (V4 a) p \<longleftrightarrow>
     a = 0 \<or> in_net a (octets 224 0 0 0) 4
     \<or> (\<not> AllowLoopback p \<and> in_net a (octets 127 0 0 0) 8)
     \<or> (\<not> AllowPrivate p \<and>
         (in_net a (octets 10 0 0 0) 8 \<or> in_net a (octets 172 16 0 0) 12 \<or> in_net a (octets 192 168 0 0) 16
          \<or> in_net a (octets 169 254 0 0) 16 \<or> in_net a (octets 100 64 0 0) 10))"
proof -
  have loop: "in_net a (octets 127 0 0 0) 8 \<Longrightarrow>
    \<not> (in_net a (octets 10 0 0 0) 8 \<or> in_net a (octets 172 16 0 0) 12 \<or> in_net a (octets 192 168 0 0) 16
      \<or> in_net a (octets 169 254 0 0) 16 \<or> in_net a (octets 100 64 0 0) 10)"
    by (auto simp: in_net_def)
  have cgnat: "isCGNAT (V4 a) \<longleftrightarrow> in_net a (octets 100 64 0 0) 10"
    by (simp only: isCGNAT.simps cgnat_bits) (simp add: v4_nets)
  show ?thesis using loop
    by (auto simp: Blocked_def Unmap_def Let_def cgnat v4_nets simp del: isCGNAT.simps)
qed

section \<open>IPv4 addresses inside IPv6 addresses\<close>

definition mapped :: "32 word \<Rightarrow> 128 word" where
  "mapped x = push_bit 32 0xFFFF OR ucast x"

definition nat64 :: "32 word \<Rightarrow> 128 word" where
  "nat64 x = push_bit 32 0x64FF9B0000000000000000 OR ucast x"

definition sixtofour :: "32 word \<Rightarrow> 80 word \<Rightarrow> 128 word" where
  "sixtofour x rest = push_bit 112 0x2002 OR push_bit 80 (ucast x) OR ucast rest"

lemma bits_beyond [simp]: "LENGTH('w::len) \<le> n \<Longrightarrow> \<not> bit (x :: 'w word) n"
  by (simp add: impossible_bit)

lemma high_bits: "drop_bit 32 (push_bit 32 c OR ucast (x :: 32 word) :: 128 word) = take_bit 96 c"
  by (rule bit_word_eqI) (auto simp: bit_simps)

lemma low_bits: "(ucast (push_bit 32 c OR ucast (x :: 32 word) :: 128 word) :: 32 word) = x"
  by (rule bit_word_eqI) (auto simp: bit_simps)

lemma top_bits:
  "drop_bit 112 (push_bit 112 c OR push_bit 80 (ucast (x :: 32 word)) OR ucast (r :: 80 word) :: 128 word) = take_bit 16 c"
  by (rule bit_word_eqI) (auto simp: bit_simps)

lemma middle_bits:
  "(ucast (drop_bit 80 (push_bit 112 c OR push_bit 80 (ucast (x :: 32 word)) OR ucast (r :: 80 word) :: 128 word)) :: 32 word) = x"
  by (rule bit_word_eqI) (auto simp: bit_simps)

lemma sixtofour_not_mapped: "drop_bit 32 (sixtofour x r) \<noteq> 0xFFFF \<and> drop_bit 32 (sixtofour x r) \<noteq> 0x64FF9B0000000000000000"
proof -
  have "drop_bit 80 (drop_bit 32 (sixtofour x r)) = drop_bit 112 (sixtofour x r)" by (simp add: drop_bit_drop_bit)
  also have "\<dots> = 0x2002" unfolding sixtofour_def by (simp only: top_bits) simp
  finally have t: "drop_bit 80 (drop_bit 32 (sixtofour x r)) = 0x2002" .
  have "drop_bit 80 (0xFFFF :: 128 word) \<noteq> 0x2002" "drop_bit 80 (0x64FF9B0000000000000000 :: 128 word) \<noteq> 0x2002" by simp_all
  with t show ?thesis by metis
qed

lemma Unmap_embedded:
  "Unmap (V6 (mapped x) z) = V4 x" "Unmap (V6 (nat64 x) z) = V4 x" "Unmap (V6 (sixtofour x r) z) = V4 x"
proof -
  have m: "drop_bit 32 (mapped x) = 0xFFFF" "(ucast (mapped x) :: 32 word) = x"
    unfolding mapped_def by (simp only: high_bits, simp, simp only: low_bits)
  have n: "drop_bit 32 (nat64 x) = 0x64FF9B0000000000000000" "(ucast (nat64 x) :: 32 word) = x"
    unfolding nat64_def by (simp only: high_bits, simp, simp only: low_bits)
  have s: "drop_bit 112 (sixtofour x r) = 0x2002" "(ucast (drop_bit 80 (sixtofour x r)) :: 32 word) = x"
    unfolding sixtofour_def by (simp only: top_bits, simp, simp only: middle_bits)
  show "Unmap (V6 (mapped x) z) = V4 x" by (simp add: Unmap_def m)
  show "Unmap (V6 (nat64 x) z) = V4 x" by (simp add: Unmap_def n)
  show "Unmap (V6 (sixtofour x r) z) = V4 x" using sixtofour_not_mapped [of x r] by (simp add: Unmap_def s)
qed

text \<open>
  No detour through IPv6: an IPv4 destination is blocked in its IPv4-mapped, its NAT64 and its 6to4 form,
  with whatever zone, exactly if it is blocked as it is.
\<close>

theorem embedded_blocked_alike:
  "Blocked (V6 (mapped x) z) p = Blocked (V4 x) p \<and> Blocked (V6 (nat64 x) z) p = Blocked (V4 x) p
    \<and> Blocked (V6 (sixtofour x r) z) p = Blocked (V4 x) p"
proof -
  have "Unmap (V4 x) = V4 x" by (simp add: Unmap_def)
  then have b: "Blocked a p = Blocked (V4 x) p" if "Unmap a = V4 x" for a using that by (simp add: Blocked_def)
  show ?thesis using b Unmap_embedded by blast
qed

section \<open>What the client reaches\<close>

lemma resolveValidated_allowed:
  "resolveValidated env i host p = Inr addrs \<Longrightarrow> list_all (\<lambda>a. \<not> Blocked a p) addrs"
  unfolding resolveValidated_def Let_def
  by (auto simp: list_all_iff list_ex_iff split: if_splits option.splits sum.splits)

lemma dial_loop_subset: "set (fst (dial_loop env i port addrs lastErr)) \<subseteq> set addrs"
  by (induction env i port addrs lastErr rule: dial_loop.induct)
    (auto simp: Let_def split: option.splits prod.splits)

lemma DialContext_allowed: "list_all (\<lambda>a. \<not> Blocked a p) (fst (DialContext env p i address))"
proof (cases "SplitHostPort env address")
  case (Inr hp)
  obtain host port where hp: "hp = (host, port)" by (cases hp)
  show ?thesis
  proof (cases "resolveValidated env i host p")
    case addrs: (Inr addrs)
    then show ?thesis
      using Inr hp resolveValidated_allowed [OF addrs] dial_loop_subset [of env i port addrs "[]"]
      by (auto simp: DialContext_def list_all_iff)
  qed (use Inr hp in \<open>simp add: DialContext_def\<close>)
qed (simp add: DialContext_def)

text \<open>One request, and what follows it.\<close>

lemma client_do_trace:
  obtains (stop) dialed r where "client_do env p via u = ([(u, dialed)], r)" "list_all (\<lambda>a. \<not> Blocked a p) dialed"
  | (go_on) dialed nxt where "list_all (\<lambda>a. \<not> Blocked a p) dialed" "CheckRedirect env p nxt (via @ [u]) = None"
      "fst (client_do env p via u) = (u, dialed) # fst (client_do env p (via @ [u]) nxt)"
proof -
  obtain dialed conn where d: "DialContext env p (length via) (canonicalAddr env u) = (dialed, conn)" by fastforce
  then have allowed: "list_all (\<lambda>a. \<not> Blocked a p) dialed"
    using DialContext_allowed [of p env "length via" "canonicalAddr env u"] by simp
  note def = client_do.simps [of env p via u]
  show thesis
  proof (cases conn)
    case (Inl e)
    then show thesis using stop allowed d by (simp add: def)
  next
    case conn: (Inr c)
    show thesis
    proof (cases "Location env (length via) u")
      case None
      then show thesis using stop allowed d conn by (simp add: def)
    next
      case (Some nxt)
      then show thesis using stop go_on allowed d conn
        by (cases "CheckRedirect env p nxt (via @ [u])") (simp_all add: def Let_def split_beta)
    qed
  qed
qed

lemma CheckRedirect_None:
  "CheckRedirect env p u via = None \<longleftrightarrow> int (length via) < maxRedirects p \<and> validateParsed env u p = None"
  by (auto simp: CheckRedirect_def split: option.splits)

lemma client_trace:
  "int (length via) < maxRedirects p \<Longrightarrow>
    list_all (\<lambda>(u, dialed). list_all (\<lambda>a. \<not> Blocked a p) dialed) (fst (client_do env p via u))
    \<and> list_all (\<lambda>(u, _). validateParsed env u p = None) (tl (fst (client_do env p via u)))
    \<and> fst (hd (fst (client_do env p via u))) = u \<and> fst (client_do env p via u) \<noteq> []
    \<and> int (length via + length (fst (client_do env p via u))) \<le> maxRedirects p"
proof (induction "nat (maxRedirects p) - length via" arbitrary: via u rule: less_induct)
  case less
  show ?case
  proof (cases rule: client_do_trace [of env p via u])
    case (stop dialed r)
    then show ?thesis using less.prems by simp
  next
    case (go_on dialed nxt)
    from go_on(2) have c: "int (length (via @ [u])) < maxRedirects p" "validateParsed env nxt p = None"
      by (simp_all add: CheckRedirect_None)
    have "nat (maxRedirects p) - length (via @ [u]) < nat (maxRedirects p) - length via" using c(1) by simp
    from less.hyps [OF this c(1), of nxt] c(2) go_on(1,3) show ?thesis
      by (cases "fst (client_do env p (via @ [u]) nxt)") auto
  qed
qed

lemma maxRedirects_pos: "0 < maxRedirects p"
  by (simp add: maxRedirects_def)

text \<open>
  C14. The client reaches only allowed destinations: whatever the first URL, the redirects of the
  servers, and the answers of the resolver (which may change from one lookup to the next), no blocked
  address is ever dialed, every URL a redirect leads to was validated, and a chain of redirects ends
  after at most \<open>maxRedirects\<close> requests.
\<close>

theorem client_reaches_only_allowed:
  "list_all (\<lambda>(u, dialed). list_all (\<lambda>a. \<not> Blocked a p) dialed) (fst (client_do env p [] url))
    \<and> list_all (\<lambda>(u, _). validateParsed env u p = None) (tl (fst (client_do env p [] url)))
    \<and> int (length (fst (client_do env p [] url))) \<le> maxRedirects p"
  using client_trace [of "[]" p env url] maxRedirects_pos [of p] by simp

text \<open>
  The bound counts requests, not redirects: with the default of three, the third redirect is refused.
\<close>

lemma third_redirect_refused:
  assumes "MaxRedirects p = 0"
  shows "CheckRedirect env p u [a, b, c] = Some (TooManyRedirects 3)"
  using assms by (simp add: CheckRedirect_def maxRedirects_def)

end
