(* ===== verification/Go_Unicode.thy ===== *)
theory Go_Unicode
  imports Go_Text
begin

text \<open>
  Upper case and decimal digits as Go's packages \<open>strings\<close> and \<open>unicode\<close> have them, with the
  tables of Unicode 15.
\<close>

text \<open>The simple upper-case mappings beyond ASCII, in the format of \<open>lower_table\<close>.\<close>

definition upper_table :: "(nat \<times> nat \<times> nat \<times> nat) list" where
  "upper_table =
  [(181,181,1,924), (224,246,1,192), (248,254,1,216), (255,255,1,376), (257,303,2,256),
   (305,305,1,73), (307,311,2,306), (314,328,2,313), (331,375,2,330), (378,382,2,377),
   (383,383,1,83), (384,384,1,579), (387,389,2,386), (392,392,1,391), (396,396,1,395),
   (402,402,1,401), (405,405,1,502), (409,409,1,408), (410,410,1,573), (414,414,1,544),
   (417,421,2,416), (424,424,1,423), (429,429,1,428), (432,432,1,431), (436,438,2,435),
   (441,441,1,440), (445,445,1,444), (447,447,1,503), (453,453,1,452), (454,454,1,452),
   (456,456,1,455), (457,457,1,455), (459,459,1,458), (460,460,1,458), (462,476,2,461),
   (477,477,1,398), (479,495,2,478), (498,498,1,497), (499,499,1,497), (501,501,1,500),
   (505,543,2,504), (547,563,2,546), (572,572,1,571), (575,576,1,11390), (578,578,1,577),
   (583,591,2,582), (592,592,1,11375), (593,593,1,11373), (594,594,1,11376), (595,595,1,385),
   (596,596,1,390), (598,599,1,393), (601,601,1,399), (603,603,1,400), (604,604,1,42923),
   (608,608,1,403), (609,609,1,42924), (611,611,1,404), (613,613,1,42893), (614,614,1,42922),
   (616,616,1,407), (617,617,1,406), (618,618,1,42926), (619,619,1,11362), (620,620,1,42925),
   (623,623,1,412), (625,625,1,11374), (626,626,1,413), (629,629,1,415), (637,637,1,11364),
   (640,640,1,422), (642,642,1,42949), (643,643,1,425), (647,647,1,42929), (648,648,1,430),
   (649,649,1,580), (650,651,1,433), (652,652,1,581), (658,658,1,439), (669,669,1,42930),
   (670,670,1,42928), (837,837,1,921), (881,883,2,880), (887,887,1,886), (891,893,1,1021),
   (940,940,1,902), (941,943,1,904), (945,961,1,913), (962,962,1,931), (963,971,1,931),
   (972,972,1,908), (973,974,1,910), (976,976,1,914), (977,977,1,920), (981,981,1,934),
   (982,982,1,928), (983,983,1,975), (985,1007,2,984), (1008,1008,1,922), (1009,1009,1,929),
   (1010,1010,1,1017), (1011,1011,1,895), (1013,1013,1,917), (1016,1016,1,1015),
   (1019,1019,1,1018), (1072,1103,1,1040), (1104,1119,1,1024), (1121,1153,2,1120),
   (1163,1215,2,1162), (1218,1230,2,1217), (1231,1231,1,1216), (1233,1327,2,1232),
   (1377,1414,1,1329), (4304,4346,1,7312), (4349,4351,1,7357), (5112,5117,1,5104),
   (7296,7296,1,1042), (7297,7297,1,1044), (7298,7298,1,1054), (7299,7300,1,1057),
   (7301,7301,1,1058), (7302,7302,1,1066), (7303,7303,1,1122), (7304,7304,1,42570),
   (7545,7545,1,42877), (7549,7549,1,11363), (7566,7566,1,42950), (7681,7829,2,7680),
   (7835,7835,1,7776), (7841,7935,2,7840), (7936,7943,1,7944), (7952,7957,1,7960),
   (7968,7975,1,7976), (7984,7991,1,7992), (8000,8005,1,8008), (8017,8023,2,8025),
   (8032,8039,1,8040), (8048,8049,1,8122), (8050,8053,1,8136), (8054,8055,1,8154),
   (8056,8057,1,8184), (8058,8059,1,8170), (8060,8061,1,8186), (8064,8071,1,8072),
   (8080,8087,1,8088), (8096,8103,1,8104), (8112,8113,1,8120), (8115,8115,1,8124),
   (8126,8126,1,921), (8131,8131,1,8140), (8144,8145,1,8152), (8160,8161,1,8168),
   (8165,8165,1,8172), (8179,8179,1,8188), (8526,8526,1,8498), (8560,8575,1,8544),
   (8580,8580,1,8579), (9424,9449,1,9398), (11312,11359,1,11264), (11361,11361,1,11360),
   (11365,11365,1,570), (11366,11366,1,574), (11368,11372,2,11367), (11379,11379,1,11378),
   (11382,11382,1,11381), (11393,11491,2,11392), (11500,11502,2,11499), (11507,11507,1,11506),
   (11520,11557,1,4256), (11559,11559,1,4295), (11565,11565,1,4301), (42561,42605,2,42560),
   (42625,42651,2,42624), (42787,42799,2,42786), (42803,42863,2,42802), (42874,42876,2,42873),
   (42879,42887,2,42878), (42892,42892,1,42891), (42897,42899,2,42896), (42900,42900,1,42948),
   (42903,42921,2,42902), (42933,42947,2,42932), (42952,42954,2,42951), (42961,42961,1,42960),
   (42967,42969,2,42966), (42998,42998,1,42997), (43859,43859,1,42931), (43888,43967,1,5024),
   (65345,65370,1,65313), (66600,66639,1,66560), (66776,66811,1,66736), (66967,66967,1,66928),
   (66968,66977,1,66929), (66979,66993,1,66940), (66995,67001,1,66956), (67003,67004,1,66964),
   (68800,68850,1,68736), (71872,71903,1,71840), (93792,93823,1,93760), (125218,125251,1,125184)]"

definition unicode_ToUpper :: "nat \<Rightarrow> nat" where
  "unicode_ToUpper r =
     (if r < 0x80 then (if 0x61 \<le> r \<and> r \<le> 0x7A then r - 0x20 else r)
      else case find (\<lambda>(lo, hi, step, to). lo \<le> r \<and> r \<le> hi \<and> (r - lo) mod step = 0) upper_table of
        None \<Rightarrow> r
      | Some (lo, hi, step, to) \<Rightarrow> to + (r - lo))"

definition ToUpper :: "string \<Rightarrow> string" where
  "ToUpper s = string_of_runes (map unicode_ToUpper (runes s))"

definition upper_char :: "char \<Rightarrow> char" where
  "upper_char c = char_of (unicode_ToUpper (of_char c))"

lemma unicode_ToUpper_ascii:
  "r < 0x80 \<Longrightarrow> unicode_ToUpper r = (if 0x61 \<le> r \<and> r \<le> 0x7A then r - 0x20 else r)"
  by (simp add: unicode_ToUpper_def)

lemma ToUpper_ascii: "is_ascii s \<Longrightarrow> ToUpper s = map upper_char s"
proof (induction s)
  case (Cons c s)
  then have c: "(of_char c :: nat) < 0x80" "is_ascii s" by (simp_all add: is_ascii_def)
  then have "unicode_ToUpper (of_char c) < 0x80" by (auto simp: unicode_ToUpper_ascii)
  with Cons c show ?case
    by (simp add: ToUpper_def runes_ascii string_of_runes_def encode_rune_ascii upper_char_def)
qed (simp add: ToUpper_def string_of_runes_def)

text \<open>The decimal digits of \<open>unicode.IsDigit\<close>, as closed ranges of code points.\<close>

definition digit_table :: "(nat \<times> nat) list" where
  "digit_table =
  [(48,57), (1632,1641), (1776,1785), (1984,1993), (2406,2415), (2534,2543), (2662,2671),
   (2790,2799), (2918,2927), (3046,3055), (3174,3183), (3302,3311), (3430,3439), (3558,3567),
   (3664,3673), (3792,3801), (3872,3881), (4160,4169), (4240,4249), (6112,6121), (6160,6169),
   (6470,6479), (6608,6617), (6784,6793), (6800,6809), (6992,7001), (7088,7097), (7232,7241),
   (7248,7257), (42528,42537), (43216,43225), (43264,43273), (43472,43481), (43504,43513),
   (43600,43609), (44016,44025), (65296,65305), (66720,66729), (68912,68921), (69734,69743),
   (69872,69881), (69942,69951), (70096,70105), (70384,70393), (70736,70745), (70864,70873),
   (71248,71257), (71360,71369), (71472,71481), (71904,71913), (72016,72025), (72784,72793),
   (73040,73049), (73120,73129), (73552,73561), (92768,92777), (92864,92873), (93008,93017),
   (120782,120831), (123200,123209), (123632,123641), (124144,124153), (125264,125273),
   (130032,130041)]"

definition IsDigit :: "nat \<Rightarrow> bool" where
  "IsDigit r = list_ex (\<lambda>(lo, hi). lo \<le> r \<and> r \<le> hi) digit_table"

end
