(* ===== verification/Hook_Dispatch.thy ===== *)
theory Hook_Dispatch
  imports Permission_Resolver Net_Guard Go_Unicode
begin

text \<open>
  User hooks (\<open>internal/hooks\<close>): which hooks are loaded, which of them an event runs, what the four
  kinds of hook make of their command, model or server, how their results become one, and the decision
  a hook takes about a tool call before the permission rules are looked at.

  Shell commands, the model, HTTP servers and JSON are parameters; what a hook does is a change of a
  world. A panic is \<open>None\<close>.
\<close>

section \<open>Types\<close>

datatype hook_kind = KindCommand | KindPrompt | KindHTTP | KindAgent | KindOther string

datatype hook_event =
    EventSessionStart | EventSessionEnd | EventUserPromptSubmit | EventUserMessageRecv
  | EventPreToolUse | EventPostToolUse | EventPostToolUseFail | EventPermissionDenied
  | EventStop | EventSetup | EventSubagentStart | EventSubagentStop | EventPreCompact
  | EventPostCompact | EventMemoryRead | EventMemoryWrite | EventNotification
  | EventConfigChange | EventInstructionsLoad | EventCwdChanged | EventFileChanged
  | EventTaskCreated | EventTaskCompleted | EventOther string

datatype hook_source = HookUser | HookProject

record hook =
  hk_Kind :: hook_kind
  hk_Event :: hook_event
  hk_Matcher :: string
  hk_Command :: string
  hk_Prompt :: string
  hk_URL :: string
  hk_Method :: string
  hk_TimeoutSec :: int
  hk_ParallelSafe :: bool
  hk_Env :: "(string \<times> string) list"
  hk_Source :: hook_source
  hk_Enabled :: bool

definition Kind_Valid :: "hook_kind \<Rightarrow> bool" where
  "Kind_Valid k = (case k of KindOther _ \<Rightarrow> False | _ \<Rightarrow> True)"

definition Kind_Executable :: "hook_kind \<Rightarrow> bool" where
  "Kind_Executable k = (k = KindCommand \<or> k = KindPrompt \<or> k = KindHTTP \<or> k = KindAgent)"

definition Event_Valid :: "hook_event \<Rightarrow> bool" where
  "Event_Valid e = (case e of EventOther _ \<Rightarrow> False | _ \<Rightarrow> True)"

definition hook_Timeout :: "hook \<Rightarrow> int \<Rightarrow> int" where
  "hook_Timeout h defaultTimeout =
     (if hk_TimeoutSec h \<le> 0 then defaultTimeout else wrap64 (hk_TimeoutSec h * 1000000000))"

record hook_config =
  hc_SessionID :: string
  hc_Model :: string
  hc_PermissionMode :: string
  hc_WorkingDir :: string
  hc_DefaultTimeout :: int

record tool_input =
  ti_Name :: string
  ti_Target :: string
  ti_InputSummary :: string
  ti_ResultSummary :: string
  ti_Error :: string

record envelope =
  env_Event :: hook_event
  env_SessionID :: string
  env_WorkingDir :: string
  env_Tool :: "tool_input option"
  env_ConversationSummary :: string
  env_Metadata :: "(string \<times> string) list"

datatype hook_decision = HookNone | HookAllow | HookDeny | HookAsk | HookOther string

record hook_result =
  hr_Decision :: hook_decision
  hr_Reason :: string
  hr_UpdatedInput :: string
  hr_AdditionalContext :: string
  hr_Warning :: string

definition no_result :: hook_result where
  "no_result = \<lparr>hr_Decision = HookNone, hr_Reason = [], hr_UpdatedInput = [], hr_AdditionalContext = [], hr_Warning = []\<rparr>"

definition hook_warning :: "string \<Rightarrow> hook_result" where
  "hook_warning w = no_result\<lparr>hr_Warning := w\<rparr>"

definition Decision_Valid :: "hook_decision \<Rightarrow> bool" where
  "Decision_Valid d = (case d of HookOther _ \<Rightarrow> False | _ \<Rightarrow> True)"

definition Decisive :: "hook_result \<Rightarrow> bool" where
  "Decisive r = (hr_Decision r = HookAllow \<or> hr_Decision r = HookDeny \<or> hr_Decision r = HookAsk)"

section \<open>Redaction\<close>

text \<open>
  Where a marker is found in the upper-case text is used as a place in the text itself; the two may
  have different lengths, and slicing beyond the end of the text is a panic.
\<close>

definition redact :: "string \<Rightarrow> string \<Rightarrow> string option" where
  "redact s marker =
     (case Index_of (ToUpper s) marker of
        None \<Rightarrow> Some s
      | Some idx \<Rightarrow>
          let start = idx + length marker in
          if length s < start then None
          else
            let rest = drop start s;
                secret = takeWhile (\<lambda>c. c \<notin> {CHR '' '', NL, Tab}) rest in
            Some (take start s @ ''<redacted>'' @ drop (length secret) rest))"

fun redact_all :: "string list \<Rightarrow> string \<Rightarrow> string option" where
  "redact_all [] s = Some s"
| "redact_all (m # ms) s = (case redact s m of None \<Rightarrow> None | Some s \<Rightarrow> redact_all ms s)"

definition sanitize :: "string \<Rightarrow> string option" where
  "sanitize s0 =
     (let s = TrimSpace s0;
          s = (if 2000 < length s then take 2000 s @ NL # ''<truncated>'' else s)
      in redact_all [''TOKEN='', ''KEY='', ''SECRET='', ''PASSWORD=''] s)"

section \<open>Which hooks an event runs\<close>

text \<open>
  The regular expression made of a pattern: \<open>*\<close> stands for any runes but line feeds, \<open>?\<close> for one of
  them, everything else for itself; the whole target has to match.
\<close>

fun hook_wild :: "nat list \<Rightarrow> nat list \<Rightarrow> bool" where
  "hook_wild [] ts = (ts = [])"
| "hook_wild (p # ps) [] = (p = 0x2A \<and> hook_wild ps [])"
| "hook_wild (p # ps) (t # ts) =
     (if p = 0x2A then hook_wild ps (t # ts) \<or> t \<noteq> 0x0A \<and> hook_wild (p # ps) ts
      else if p = 0x3F then t \<noteq> 0x0A \<and> hook_wild ps ts
      else p = t \<and> hook_wild ps ts)"

definition hook_wildcardMatch :: "string \<Rightarrow> string \<Rightarrow> bool" where
  "hook_wildcardMatch pattern target = hook_wild (runes pattern) (runes target)"

definition matchesHook :: "hook \<Rightarrow> envelope \<Rightarrow> bool" where
  "matchesHook h e =
     (if hk_Event h \<noteq> env_Event e then False
      else if TrimSpace (hk_Matcher h) = [] then True
      else case env_Tool e of
        None \<Rightarrow> False
      | Some t \<Rightarrow>
          (case ParsePattern (hk_Matcher h) of
             None \<Rightarrow> hk_Matcher h = ti_Name t
           | Some (tool, g) \<Rightarrow>
               if tool \<noteq> ti_Name t then False else hook_wildcardMatch g (ti_Target t)))"

section \<open>Loading hooks\<close>

record hook_snapshot =
  sn_Hooks :: "hook list"
  sn_Disabled :: "(hook \<times> string) list"
  sn_Warnings :: "string list"

definition empty_snapshot :: hook_snapshot where
  "empty_snapshot = \<lparr>sn_Hooks = [], sn_Disabled = [], sn_Warnings = []\<rparr>"

definition merge_snapshot :: "hook_snapshot \<Rightarrow> hook_snapshot \<Rightarrow> hook_snapshot" where
  "merge_snapshot s t =
     \<lparr>sn_Hooks = sn_Hooks s @ sn_Hooks t, sn_Disabled = sn_Disabled s @ sn_Disabled t,
      sn_Warnings = sn_Warnings s @ sn_Warnings t\<rparr>"

definition matchingHooks :: "hook_snapshot \<Rightarrow> envelope \<Rightarrow> hook list" where
  "matchingHooks s e = filter (\<lambda>h. matchesHook h e) (sn_Hooks s)"

datatype hook_error = InvalidKind | InvalidEvent | HookCommandRequired | HookPromptRequired | HookURLRequired | AgentPromptRequired

definition validateHook :: "hook \<Rightarrow> hook_error option" where
  "validateHook h =
     (if \<not> Kind_Valid (hk_Kind h) then Some InvalidKind
      else if \<not> Event_Valid (hk_Event h) then Some InvalidEvent
      else case hk_Kind h of
        KindCommand \<Rightarrow> if TrimSpace (hk_Command h) = [] then Some HookCommandRequired else None
      | KindPrompt \<Rightarrow> if TrimSpace (hk_Prompt h) = [] then Some HookPromptRequired else None
      | KindHTTP \<Rightarrow> if TrimSpace (hk_URL h) = [] then Some HookURLRequired else None
      | KindAgent \<Rightarrow> if TrimSpace (hk_Prompt h) = [] then Some AgentPromptRequired else None
      | KindOther _ \<Rightarrow> None)"

definition hookPolicy :: Policy where
  "hookPolicy = \<lparr>AllowPrivate = False, AllowLoopback = True, HTTPLoopbackOnly = True, MaxRedirects = 0\<rparr>"

text \<open>
  The outside world: file contents (\<open>None\<close> for a file that does not exist), JSON in both directions, the
  shell, the model of a client (\<open>None\<close> for a \<open>nil\<close> one), HTTP answers, texts of errors, and the order in
  which the scheduler lets the parallel hooks have their effects.
\<close>

datatype shell_end = HookTimedOut | Exited string | HookFailed int string

datatype http_answer = CallFailed string | Answered int string

record 'w hook_os =
  ho_ReadFile :: "string \<Rightarrow> string + string option"
  ho_parseConfig :: "string \<Rightarrow> string + hook list"
  ho_error_text :: "hook_error \<Rightarrow> string"
  ho_kind_text :: "hook_kind \<Rightarrow> string"
  ho_event_text :: "hook_event \<Rightarrow> string"
  ho_net_text :: "net_error \<Rightarrow> string"
  ho_quote :: "string \<Rightarrow> string"
  ho_net :: net_env
  ho_marshal :: "envelope \<Rightarrow> string + string"
  ho_unmarshal :: "string \<Rightarrow> string + hook_result"
  ho_decodeHTTP :: "string \<Rightarrow> hook_result option"
  ho_LookupEnv :: "string \<Rightarrow> string option"
  ho_shell :: "string \<Rightarrow> string \<Rightarrow> string list \<Rightarrow> string \<Rightarrow> int \<Rightarrow> 'w \<Rightarrow> shell_end \<times> 'w"
  ho_chat :: "(string \<Rightarrow> string \<Rightarrow> string \<Rightarrow> int \<Rightarrow> 'w \<Rightarrow> (string + string list) \<times> 'w) option"
  ho_request :: "string \<Rightarrow> string \<Rightarrow> string + url"
  ho_http :: "string \<Rightarrow> url \<Rightarrow> (string \<times> string) list \<Rightarrow> string \<Rightarrow> int \<Rightarrow> 'w \<Rightarrow> http_answer \<times> 'w"
  ho_order :: "nat list \<Rightarrow> nat list"

text \<open>What becomes of one configured hook: what it adds to the snapshot.\<close>

definition load_hook :: "'w hook_os \<Rightarrow> string \<Rightarrow> hook_source \<Rightarrow> bool \<Rightarrow> hook \<Rightarrow> hook_snapshot" where
  "load_hook os path source executable h0 =
     (let h = h0\<lparr>hk_Source := source\<rparr>; disabled = (\<lambda>reason. empty_snapshot\<lparr>sn_Disabled := [(h, reason)]\<rparr>) in
      case validateHook h of
        Some e \<Rightarrow> disabled (ho_error_text os e)
      | None \<Rightarrow>
          if \<not> executable then disabled ''project hooks are disabled until workspace trust exists''
          else case (if hk_Kind h = KindHTTP then ValidateURL (ho_net os) (hk_URL h) hookPolicy else None) of
            Some e \<Rightarrow>
              let reason = ''http hook destination rejected: '' @ ho_net_text os e in
              (disabled reason)\<lparr>sn_Warnings := [path @ '': '' @ ho_kind_text os (hk_Kind h) @ '' '' @
                 ho_event_text os (hk_Event h) @ '' '' @ reason]\<rparr>
          | None \<Rightarrow>
              if \<not> Kind_Executable (hk_Kind h)
              then disabled (ho_kind_text os (hk_Kind h) @ '' hooks are disabled in Phase 9'')
              else empty_snapshot\<lparr>sn_Hooks := [h\<lparr>hk_Enabled := True\<rparr>]\<rparr>)"

definition loadFile :: "'w hook_os \<Rightarrow> string \<Rightarrow> hook_source \<Rightarrow> bool \<Rightarrow> hook_snapshot" where
  "loadFile os path source executable =
     (case ho_ReadFile os path of
        Inl e \<Rightarrow> empty_snapshot\<lparr>sn_Warnings := [path @ '': '' @ e]\<rparr>
      | Inr None \<Rightarrow> empty_snapshot
      | Inr (Some b) \<Rightarrow>
          (case ho_parseConfig os b of
             Inl e \<Rightarrow> empty_snapshot\<lparr>sn_Warnings := [path @ '': invalid JSON: '' @ e]\<rparr>
           | Inr hooks \<Rightarrow> foldl (\<lambda>snap h. merge_snapshot snap (load_hook os path source executable h)) empty_snapshot hooks))"

definition LoadSnapshot :: "'w hook_os \<Rightarrow> string \<Rightarrow> string \<Rightarrow> hook_snapshot" where
  "LoadSnapshot os userPath projectPath =
     (let snap = (if TrimSpace userPath \<noteq> [] then merge_snapshot empty_snapshot (loadFile os userPath HookUser True)
                  else empty_snapshot)
      in if TrimSpace projectPath \<noteq> [] then merge_snapshot snap (loadFile os projectPath HookProject False) else snap)"

section \<open>Running one hook\<close>

fun option_map3 :: "('a \<Rightarrow> 'a \<Rightarrow> 'a \<Rightarrow> 'b) \<Rightarrow> 'a option \<Rightarrow> 'a option \<Rightarrow> 'a option \<Rightarrow> 'b option" where
  "option_map3 f (Some a) (Some b) (Some c) = Some (f a b c)"
| "option_map3 f _ _ _ = None"

definition parseHookJSON :: "'w hook_os \<Rightarrow> string \<Rightarrow> hook_result option" where
  "parseHookJSON os raw0 =
     (let raw = TrimSpace raw0 in
      if raw = [] then Some no_result
      else case ho_unmarshal os raw of
        Inl e \<Rightarrow> Some (hook_warning (''failed to parse hook JSON: '' @ e))
      | Inr res \<Rightarrow>
          if \<not> Decision_Valid (hr_Decision res)
          then Some (hook_warning (''invalid hook decision: '' @ (case hr_Decision res of HookOther d \<Rightarrow> d | _ \<Rightarrow> [])))
          else option_map3 (\<lambda>reason warning context.
              let res = res\<lparr>hr_Reason := reason, hr_Warning := warning, hr_AdditionalContext := context\<rparr> in
              if hr_UpdatedInput res \<noteq> [] \<and> TrimSpace (hr_UpdatedInput res) \<noteq> ''null''
              then res\<lparr>hr_Warning := (if hr_Warning res = [] then ''hook updated_input ignored in Phase 9''
                     else hr_Warning res @ ''; hook updated_input ignored in Phase 9''), hr_UpdatedInput := []\<rparr>
              else res)
            (sanitize (hr_Reason res)) (sanitize (hr_Warning res)) (sanitize (hr_AdditionalContext res)))"

definition baseEnv :: "'w hook_os \<Rightarrow> string list" where
  "baseEnv os =
     concat (map (\<lambda>name. case ho_LookupEnv os name of Some value \<Rightarrow> [name @ ''='' @ value] | None \<Rightarrow> [])
       [''PATH'', ''HOME'', ''USER'', ''LOGNAME'', ''SHELL'', ''TMPDIR'', ''TEMP'', ''TMP'', ''SystemRoot'', ''ComSpec'', ''USERPROFILE''])"

definition hookEnv :: "'w hook_os \<Rightarrow> hook \<Rightarrow> hook_config \<Rightarrow> string list" where
  "hookEnv os h cfg =
     baseEnv os @ [''NANDOCODEGO_PROJECT_DIR='' @ hc_WorkingDir cfg, ''NANDOCODEGO_SESSION_ID='' @ hc_SessionID cfg]
     @ map (\<lambda>(k, v). k @ ''='' @ v) (filter (\<lambda>(k, v). TrimSpace k \<noteq> []) (hk_Env h))"

definition runCommandHook :: "'w hook_os \<Rightarrow> hook \<Rightarrow> envelope \<Rightarrow> hook_config \<Rightarrow> 'w \<Rightarrow> hook_result option \<times> 'w" where
  "runCommandHook os h e cfg w =
     (case ho_marshal os e of
        Inl err \<Rightarrow> (Some (hook_warning (''failed to encode hook input: '' @ err)), w)
      | Inr payload \<Rightarrow>
          (case ho_shell os (hk_Command h) (hc_WorkingDir cfg) (hookEnv os h cfg) payload
                  (hook_Timeout h (hc_DefaultTimeout cfg)) w of
             (HookTimedOut, w) \<Rightarrow> (Some (hook_warning ''hook timed out''), w)
           | (Exited stdout, w) \<Rightarrow> (parseHookJSON os stdout, w)
           | (HookFailed code stderr, w) \<Rightarrow>
               (map_option (\<lambda>reason.
                  let reason = (if reason = [] then ''hook command failed'' else reason) in
                  if code = 2 then no_result\<lparr>hr_Decision := HookDeny, hr_Reason := reason\<rparr> else hook_warning reason)
                  (sanitize stderr), w)))"

abbreviation hook_input_text :: "string \<Rightarrow> string \<Rightarrow> string" where
  "hook_input_text prompt payload \<equiv> prompt @ [NL, NL] @ ''Hook input JSON:'' @ NL # payload"

definition runPromptHook :: "'w hook_os \<Rightarrow> hook \<Rightarrow> envelope \<Rightarrow> hook_config \<Rightarrow> 'w \<Rightarrow> hook_result option \<times> 'w" where
  "runPromptHook os h e cfg w =
     (case ho_chat os of
        None \<Rightarrow> (Some (hook_warning ''prompt hook skipped: llm client is nil''), w)
      | Some chat \<Rightarrow>
          (case ho_marshal os e of
             Inl err \<Rightarrow> (Some (hook_warning (''failed to encode hook input: '' @ err)), w)
           | Inr payload \<Rightarrow>
               (case chat (hc_Model cfg)
                  ''You are a hook policy checker. Return JSON with decision allow, deny, ask, or omit decision for no decision.''
                  (hook_input_text (hk_Prompt h) payload) (hook_Timeout h (hc_DefaultTimeout cfg)) w of
                  (Inl err, w) \<Rightarrow> (Some (hook_warning (''prompt hook failed: '' @ err)), w)
                | (Inr contents, w) \<Rightarrow> (parseHookJSON os (concat contents), w))))"

definition failed_open :: "string \<Rightarrow> hook_result" where
  "failed_open why = no_result\<lparr>hr_Decision := HookAllow, hr_Warning := why\<rparr>"

definition runAgentHook :: "'w hook_os \<Rightarrow> hook \<Rightarrow> envelope \<Rightarrow> hook_config \<Rightarrow> 'w \<Rightarrow> hook_result option \<times> 'w" where
  "runAgentHook os h e cfg w =
     (case ho_chat os of
        None \<Rightarrow> (Some (hook_warning ''agent hook skipped: llm client is nil''), w)
      | Some chat \<Rightarrow>
          (case ho_marshal os e of
             Inl err \<Rightarrow> (Some (hook_warning (''failed to encode hook input: '' @ err)), w)
           | Inr payload \<Rightarrow>
               (case chat (hc_Model cfg)
                  ''Return JSON only: {\"decision\":\"allow|deny|ask\",\"reason\":\"...\"}''
                  (hook_input_text (hk_Prompt h) payload) (hook_Timeout h (hc_DefaultTimeout cfg)) w of
                  (Inl err, w) \<Rightarrow> (map_option (\<lambda>t. failed_open (''agent hook failed open: '' @ t)) (sanitize err), w)
                | (Inr contents, w) \<Rightarrow>
                    (map_option (\<lambda>res.
                       if \<not> Decision_Valid (hr_Decision res) \<or> hr_Decision res = HookNone
                       then failed_open ''agent hook parse failed open'' else res)
                       (parseHookJSON os (concat contents)), w))))"

text \<open>The request goes through the guarded client, whose redirects and dials \<open>Net_Guard\<close> describes.\<close>

definition runHTTPHook :: "'w hook_os \<Rightarrow> hook \<Rightarrow> envelope \<Rightarrow> hook_config \<Rightarrow> 'w \<Rightarrow> hook_result option \<times> 'w" where
  "runHTTPHook os h e cfg w =
     (case ValidateURL (ho_net os) (hk_URL h) hookPolicy of
        Some err \<Rightarrow> (Some (hook_warning (''http hook blocked for '' @ ho_quote os (hk_URL h) @ '': '' @ ho_net_text os err)), w)
      | None \<Rightarrow>
          let method = ToUpper (TrimSpace (hk_Method h));
              method = (if method = [] then ''POST'' else method);
              timeout = min (hook_Timeout h (hc_DefaultTimeout cfg)) 10000000000;
              body = (case ho_marshal os e of Inl _ \<Rightarrow> [] | Inr b \<Rightarrow> b)
          in case ho_request os method (hk_URL h) of
               Inl err \<Rightarrow> (Some (hook_warning (''http hook request failed: '' @ err)), w)
             | Inr u \<Rightarrow>
                 (case snd (client_do (ho_net os) hookPolicy [] u) of
                    Some err \<Rightarrow> (Some (hook_warning (''http hook call failed: '' @ ho_net_text os err)), w)
                  | None \<Rightarrow>
                      (case ho_http os method u
                              ((''Content-Type'', ''application/json'') # filter (\<lambda>(k, v). TrimSpace k \<noteq> []) (hk_Env h))
                              body timeout w of
                         (CallFailed err, w) \<Rightarrow> (Some (hook_warning (''http hook call failed: '' @ err)), w)
                       | (Answered status answer, w) \<Rightarrow>
                           if 400 \<le> status then (Some (hook_warning (''http hook status '' @ Itoa status)), w)
                           else case ho_decodeHTTP os answer of
                             None \<Rightarrow> (Some no_result, w)
                           | Some out \<Rightarrow>
                               (option_map3 (\<lambda>reason warning _.
                                  no_result\<lparr>hr_Decision := hr_Decision out, hr_Reason := reason, hr_Warning := warning\<rparr>)
                                  (sanitize (hr_Reason out)) (sanitize (hr_Warning out)) (Some []), w))))"

definition runHook :: "'w hook_os \<Rightarrow> hook \<Rightarrow> envelope \<Rightarrow> hook_config \<Rightarrow> 'w \<Rightarrow> hook_result option \<times> 'w" where
  "runHook os h e cfg w =
     (case hk_Kind h of
        KindCommand \<Rightarrow> runCommandHook os h e cfg w
      | KindPrompt \<Rightarrow> runPromptHook os h e cfg w
      | KindAgent \<Rightarrow> runAgentHook os h e cfg w
      | KindHTTP \<Rightarrow> runHTTPHook os h e cfg w
      | KindOther k \<Rightarrow> (Some (hook_warning (''unknown hook kind: '' @ k)), w))"

section \<open>Running the hooks of an event\<close>

definition note_texts :: "hook_result \<Rightarrow> hook_result \<Rightarrow> hook_result" where
  "note_texts out r =
     (let out = (if TrimSpace (hr_Warning r) \<noteq> []
            then out\<lparr>hr_Warning := (if hr_Warning out = [] then hr_Warning r
                   else hr_Warning out @ ''; '' @ hr_Warning r)\<rparr> else out)
      in if TrimSpace (hr_Reason r) \<noteq> [] \<and> hr_Reason out = [] then out\<lparr>hr_Reason := hr_Reason r\<rparr> else out)"

definition decided :: "hook_result \<Rightarrow> hook_result \<Rightarrow> hook_decision \<Rightarrow> hook_result" where
  "decided out r d =
     (let out = out\<lparr>hr_Decision := d\<rparr> in if hr_Reason r \<noteq> [] then out\<lparr>hr_Reason := hr_Reason r\<rparr> else out)"

lemma hr_Decision_simps [simp]:
  "hr_Decision (note_texts out r) = hr_Decision out" "hr_Decision (decided out r d) = d"
  by (simp_all add: note_texts_def decided_def Let_def)

fun aggregate_from :: "hook_result \<Rightarrow> hook_result list \<Rightarrow> hook_result" where
  "aggregate_from out [] = out"
| "aggregate_from out (r # rs) =
     (let out = note_texts out r in
      case hr_Decision r of
        HookDeny \<Rightarrow> decided out r HookDeny
      | HookAsk \<Rightarrow> aggregate_from (if hr_Decision out \<noteq> HookDeny then decided out r HookAsk else out) rs
      | HookAllow \<Rightarrow> aggregate_from (if hr_Decision out = HookNone then decided out r HookAllow else out) rs
      | _ \<Rightarrow> aggregate_from out rs)"

definition aggregate :: "hook_result list \<Rightarrow> hook_result" where
  "aggregate rs = aggregate_from no_result rs"

text \<open>The hooks with the given indices, one after the other; a panic of one ends the process.\<close>

fun run_hooks :: "'w hook_os \<Rightarrow> hook list \<Rightarrow> envelope \<Rightarrow> hook_config \<Rightarrow> nat list \<Rightarrow> hook_result list \<Rightarrow> 'w \<Rightarrow>
    hook_result list option \<times> 'w" where
  "run_hooks os hooks e cfg [] rs w = (Some rs, w)"
| "run_hooks os hooks e cfg (i # ns) rs w =
     (case runHook os (hooks ! i) e cfg w of
        (None, w) \<Rightarrow> (None, w)
      | (Some r, w) \<Rightarrow> run_hooks os hooks e cfg ns (rs[i := r]) w)"

definition dispatchAll :: "'w hook_os \<Rightarrow> hook_snapshot \<Rightarrow> hook_config \<Rightarrow> envelope \<Rightarrow> 'w \<Rightarrow> hook_result list option \<times> 'w" where
  "dispatchAll os snap cfg e w =
     (let hooks = matchingHooks snap e; n = length hooks in
      run_hooks os hooks e cfg
        (filter (\<lambda>i. \<not> hk_ParallelSafe (hooks ! i)) [0..<n] @ ho_order os (filter (\<lambda>i. hk_ParallelSafe (hooks ! i)) [0..<n]))
        (replicate n no_result) w)"

definition Dispatch :: "'w hook_os \<Rightarrow> hook_snapshot \<Rightarrow> hook_config \<Rightarrow> envelope \<Rightarrow> 'w \<Rightarrow> hook_result option \<times> 'w" where
  "Dispatch os snap cfg e w =
     (case dispatchAll os snap cfg e w of
        (None, w) \<Rightarrow> (None, w)
      | (Some rs, w) \<Rightarrow> (Some (if length rs = 0 then no_result else aggregate rs), w))"

section \<open>Hooks on tool calls\<close>

record 'i tool_hook_event =
  th_ToolName :: string
  th_Input :: 'i
  th_Target :: string
  th_Result :: "string option"
  th_Err :: "string option"

definition summarize_json :: "string option \<Rightarrow> string option" where
  "summarize_json b = (case b of None \<Rightarrow> Some [] | Some s \<Rightarrow> sanitize s)"

definition hook_envelope :: "hook_config \<Rightarrow> string \<Rightarrow> string \<Rightarrow> hook_event \<Rightarrow> tool_input option \<Rightarrow> string \<Rightarrow> envelope" where
  "hook_envelope cfg model mode event tool summary =
     \<lparr>env_Event = event, env_SessionID = hc_SessionID cfg, env_WorkingDir = hc_WorkingDir cfg, env_Tool = tool,
      env_ConversationSummary = summary, env_Metadata = [(''model'', model), (''permission_mode'', mode)]\<rparr>"

definition tool_envelope :: "'i input_view \<Rightarrow> hook_config \<Rightarrow> string \<Rightarrow> string \<Rightarrow> hook_event \<Rightarrow> 'i tool_hook_event \<Rightarrow> envelope option" where
  "tool_envelope v cfg model mode event t =
     option_map3 (\<lambda>i r err. hook_envelope cfg model mode event
         (Some \<lparr>ti_Name = th_ToolName t, ti_Target = th_Target t, ti_InputSummary = i, ti_ResultSummary = r, ti_Error = err\<rparr>) [])
       (summarize_json (marshal v (th_Input t))) (summarize_json (th_Result t))
       (case th_Err t of None \<Rightarrow> Some [] | Some e \<Rightarrow> sanitize e)"

fun mapDecision :: "hook_decision \<Rightarrow> decision" where
  "mapDecision HookAllow = DecisionAllow"
| "mapDecision HookAsk = DecisionAsk"
| "mapDecision HookDeny = DecisionDeny"
| "mapDecision _ = DecisionDeny"

text \<open>
  The decision of the hooks about a tool call and their warning; the JSON of a call without a result
  is \<open>null\<close>'s summary, a parameter of the event.
\<close>

definition preToolDecision :: "'w hook_os \<Rightarrow> hook_snapshot \<Rightarrow> hook_config \<Rightarrow> 'i input_view \<Rightarrow>
    (prompt \<Rightarrow> (decision \<times> string) option) option \<Rightarrow> string \<Rightarrow> string \<Rightarrow> string option \<Rightarrow> ('c, 'i) request \<Rightarrow> 'w \<Rightarrow>
    ('i Permission_Types.result option \<times> string list) option \<times> 'w" where
  "preToolDecision os snap cfg v ask_user model mode null req w =
     (let target = ExtractTarget v (rq_Input req) in
      case tool_envelope v cfg model mode EventPreToolUse
             \<lparr>th_ToolName = rq_ToolName req, th_Input = rq_Input req, th_Target = target, th_Result = null, th_Err = None\<rparr> of
        None \<Rightarrow> (None, w)
      | Some e \<Rightarrow>
          (case Dispatch os snap cfg e w of
             (None, w) \<Rightarrow> (None, w)
           | (Some res, w) \<Rightarrow>
               let notices = (if hr_Warning res \<noteq> [] then [hr_Warning res] else []);
                   by_hook = mk_result (mapDecision (hr_Decision res)) StageHook (hr_Reason res);
                   asked = (if hr_Decision res = HookAsk then (case ask_user of None \<Rightarrow> None | Some f \<Rightarrow>
                     f \<lparr>prompt_ToolName = rq_ToolName req, prompt_Target = target, prompt_Reason = hr_Reason res\<rparr>) else None)
               in (Some (if \<not> Decisive res then None
                    else Some ((case asked of
                        Some (decision, reason) \<Rightarrow>
                          mk_result decision StagePrompt (if reason = [] then hr_Reason res else reason)
                      | None \<Rightarrow> by_hook)\<lparr>res_UpdatedInput := Some (rq_Input req)\<rparr>), notices), w)))"

text \<open>What \<open>Runner.Run\<close> installs as the run's hook: the hooks first, then the hook it replaces.\<close>

definition wrapped_HookDecision :: "(('c, 'i) request \<Rightarrow> 'i Permission_Types.result option) \<Rightarrow>
    (('c, 'i) request \<Rightarrow> 'i Permission_Types.result option) option \<Rightarrow>
    ('c, 'i) request \<Rightarrow> 'i Permission_Types.result option" where
  "wrapped_HookDecision own prior req =
     (case own req of Some res \<Rightarrow> Some res | None \<Rightarrow> (case prior of None \<Rightarrow> None | Some h \<Rightarrow> h req))"

definition hook_PostToolUse :: "'w hook_os \<Rightarrow> hook_snapshot \<Rightarrow> hook_config \<Rightarrow> 'i input_view \<Rightarrow> string \<Rightarrow> string \<Rightarrow>
    'i tool_hook_event \<Rightarrow> 'w \<Rightarrow> hook_result option \<times> 'w" where
  "hook_PostToolUse os snap cfg v model mode t w =
     (case tool_envelope v cfg model mode EventPostToolUse t of
        None \<Rightarrow> (None, w)
      | Some e \<Rightarrow>
          (case dispatchAll os snap cfg e w of
             (None, w) \<Rightarrow> (None, w)
           | (Some rs, w) \<Rightarrow>
               (Some (if length rs = 0 then no_result
                  else (aggregate rs)\<lparr>hr_AdditionalContext :=
                    JoinStr (filter (\<lambda>c. c \<noteq> []) (map (\<lambda>r. TrimSpace (hr_AdditionalContext r)) rs)) ''; ''\<rparr>), w)))"

section \<open>Matching\<close>

text \<open>What one rune of a pattern may stand for.\<close>

fun stands_for :: "nat \<Rightarrow> nat list \<Rightarrow> bool" where
  "stands_for p s = (if p = 0x2A then 0x0A \<notin> set s else if p = 0x3F then length s = 1 \<and> 0x0A \<notin> set s else s = [p])"

declare stands_for.simps [simp del]

lemma stands_for_simps [simp]:
  "stands_for R_star s \<longleftrightarrow> 0x0A \<notin> set s"
  "p \<noteq> R_star \<Longrightarrow> p \<noteq> R_quest \<Longrightarrow> stands_for p s \<longleftrightarrow> s = [p]"
  "stands_for R_quest [t] \<longleftrightarrow> t \<noteq> 0x0A"
  by (auto simp: stands_for.simps)


lemma hook_wild_sound: "hook_wild ps ts \<Longrightarrow> \<exists>ss. ts = concat ss \<and> list_all2 stands_for ps ss"
proof (induction ps ts rule: hook_wild.induct)
  case (2 p ps)
  then obtain ss where "concat ss = []" "list_all2 stands_for ps ss" by fastforce
  with 2(2) show ?case by (intro exI [of _ "[] # ss"]) simp
next
  case (3 p ps t ts)
  consider "p = 0x2A" "hook_wild ps (t # ts)" | "p = 0x2A" "t \<noteq> 0x0A" "hook_wild (p # ps) ts"
    | "p \<noteq> 0x2A" "p = 0x3F \<and> t \<noteq> 0x0A \<or> p \<noteq> 0x3F \<and> p = t" "hook_wild ps ts"
    using 3(5) by (auto split: if_splits)
  then show ?case
  proof cases
    case 1
    with 3(1) obtain ss where "t # ts = concat ss" "list_all2 stands_for ps ss" by auto
    with 1 show ?thesis by (intro exI [of _ "[] # ss"]) simp
  next
    case 2
    with 3(2) obtain s ss where "ts = concat (s # ss)" "list_all2 stands_for (p # ps) (s # ss)"
      by (metis list_all2_Cons1)
    with 2 show ?thesis by (intro exI [of _ "(t # s) # ss"]) simp
  next
    case 3
    then obtain ss where "ts = concat ss" "list_all2 stands_for ps ss"
      using "3.IH"(3,4) by (cases "p = 0x3F") auto
    with 3 show ?thesis by (intro exI [of _ "[t] # ss"]) auto
  qed
qed simp

lemma hook_wild_star: "0x0A \<notin> set s \<Longrightarrow> hook_wild ps ts \<Longrightarrow> hook_wild (0x2A # ps) (s @ ts)"
proof (induction s)
  case Nil
  then show ?case by (cases ts) simp_all
qed simp

lemma hook_wild_complete: "list_all2 stands_for ps ss \<Longrightarrow> hook_wild ps (concat ss)"
proof (induction ps ss rule: list_all2_induct)
  case (Cons p ps s ss)
  show ?case
  proof (cases "p = 0x2A")
    case True
    with Cons show ?thesis by (simp add: hook_wild_star)
  next
    case False
    with Cons(1) obtain t where "s = [t]" "p = 0x3F \<and> t \<noteq> 0x0A \<or> p \<noteq> 0x3F \<and> t = p"
      by (cases s) (auto simp: stands_for.simps split: if_splits)
    with Cons False show ?thesis by auto
  qed
qed simp

text \<open>
  The pattern of a hook matches a target exactly if the target can be cut into pieces, one for each
  rune of the pattern: for a star any piece, for a question mark one rune, both without line feeds, and
  otherwise the rune itself.
\<close>

theorem hook_match_exact:
  "hook_wildcardMatch pattern target \<longleftrightarrow>
    (\<exists>ss. runes target = concat ss \<and> list_all2 stands_for (runes pattern) ss)"
  unfolding hook_wildcardMatch_def using hook_wild_sound hook_wild_complete by metis

text \<open>A line feed in a command keeps every pattern without one from matching, unlike in permission rules.\<close>

lemma line_feed_escapes_hook: "\<not> hook_wildcardMatch ''rm *'' (''rm a'' @ [NL, CHR ''b''])"
  by (simp add: hook_wildcardMatch_def runes_ascii of_char_def)

section \<open>Results\<close>

lemma aggregate_from_decision:
  assumes "hr_Decision out \<in> {HookNone, HookAllow, HookAsk}"
  shows "hr_Decision (aggregate_from out rs) =
    (if list_ex (\<lambda>r. hr_Decision r = HookDeny) rs then HookDeny
     else if hr_Decision out = HookAsk \<or> list_ex (\<lambda>r. hr_Decision r = HookAsk) rs then HookAsk
     else if hr_Decision out = HookAllow \<or> list_ex (\<lambda>r. hr_Decision r = HookAllow) rs then HookAllow
     else HookNone)"
  using assms
proof (induction rs arbitrary: out)
  case (Cons r rs)
  show ?case
    using Cons.prems by (cases "hr_Decision r") (auto simp: Cons.IH)
qed auto

text \<open>
  The results of several hooks become the strictest of their decisions: deny if one denies, else ask if
  one asks, else allow if one allows, else none.
\<close>

theorem strictest_hook_wins:
  "hr_Decision (aggregate rs) =
    (if list_ex (\<lambda>r. hr_Decision r = HookDeny) rs then HookDeny
     else if list_ex (\<lambda>r. hr_Decision r = HookAsk) rs then HookAsk
     else if list_ex (\<lambda>r. hr_Decision r = HookAllow) rs then HookAllow
     else HookNone)"
  using aggregate_from_decision [of no_result rs] by (simp add: aggregate_def no_result_def)

section \<open>Loaded hooks\<close>

lemma merge_snapshot_hooks [simp]: "sn_Hooks (merge_snapshot s t) = sn_Hooks s @ sn_Hooks t" "sn_Hooks empty_snapshot = []"
  by (simp_all add: merge_snapshot_def empty_snapshot_def)

lemma foldl_merge_hooks:
  "sn_Hooks (foldl (\<lambda>snap h. merge_snapshot snap (f h)) snap hooks) = sn_Hooks snap @ concat (map (\<lambda>h. sn_Hooks (f h)) hooks)"
  by (induction hooks arbitrary: snap) simp_all

definition runnable :: "'w hook_os \<Rightarrow> hook \<Rightarrow> bool" where
  "runnable os h = (validateHook h = None \<and> (hk_Kind h = KindHTTP \<longrightarrow> ValidateURL (ho_net os) (hk_URL h) hookPolicy = None))"

lemma load_hook_hooks:
  "sn_Hooks (load_hook os path source executable h) =
    (if executable \<and> runnable os h then [h\<lparr>hk_Source := source, hk_Enabled := True\<rparr>] else [])"
proof -
  have "validateHook (h\<lparr>hk_Source := source\<rparr>) = validateHook h" by (simp add: validateHook_def)
  moreover have "Kind_Executable (hk_Kind h)" if "validateHook h = None"
    using that by (cases "hk_Kind h") (simp_all add: validateHook_def Kind_Executable_def Kind_Valid_def)
  ultimately show ?thesis
    by (auto simp: load_hook_def runnable_def Let_def split: option.split)
qed

lemma loadFile_hooks:
  "sn_Hooks (loadFile os path source executable) =
    (case ho_ReadFile os path of
       Inr (Some b) \<Rightarrow> (case ho_parseConfig os b of
         Inr hooks \<Rightarrow> (if executable
           then map (\<lambda>h. h\<lparr>hk_Source := source, hk_Enabled := True\<rparr>) (filter (runnable os) hooks) else [])
       | Inl _ \<Rightarrow> [])
     | _ \<Rightarrow> [])"
proof -
  have "concat (map (\<lambda>h. sn_Hooks (load_hook os path source executable h)) hooks) =
      (if executable then map (\<lambda>h. h\<lparr>hk_Source := source, hk_Enabled := True\<rparr>) (filter (runnable os) hooks) else [])" for hooks
    by (induction hooks) (simp_all add: load_hook_hooks)
  then show ?thesis
    by (simp add: loadFile_def foldl_merge_hooks empty_snapshot_def split: sum.split option.split)
qed

text \<open>
  C9. Only the user's own hooks ever run: the hooks of a session are exactly the valid ones of the user's file,
  in its order, those of kind http only with a URL the network guard accepts; whatever a project's file
  says, none of its hooks is among them.
\<close>

theorem only_user_hooks_run:
  "sn_Hooks (LoadSnapshot os userPath projectPath) =
    (if TrimSpace userPath = [] then []
     else case ho_ReadFile os userPath of
       Inr (Some b) \<Rightarrow> (case ho_parseConfig os b of
         Inr hooks \<Rightarrow> map (\<lambda>h. h\<lparr>hk_Source := HookUser, hk_Enabled := True\<rparr>) (filter (runnable os) hooks)
       | Inl _ \<Rightarrow> [])
     | _ \<Rightarrow> [])"
  by (simp add: LoadSnapshot_def loadFile_hooks Let_def split: sum.split option.split)

section \<open>Dispatch\<close>

lemma run_hooks_results:
  assumes "run_hooks os hooks e cfg ns rs w = (Some rs', w')"
  shows "length rs' = length rs"
    and "i < length rs \<Longrightarrow> i \<in> set ns \<Longrightarrow> \<exists>w1. fst (runHook os (hooks ! i) e cfg w1) = Some (rs' ! i)"
    and "i \<notin> set ns \<Longrightarrow> rs' ! i = rs ! i"
proof -
  have "length rs' = length rs
    \<and> (i < length rs \<longrightarrow> i \<in> set ns \<longrightarrow> (\<exists>w1. fst (runHook os (hooks ! i) e cfg w1) = Some (rs' ! i)))
    \<and> (i \<notin> set ns \<longrightarrow> rs' ! i = rs ! i)" for i
    using assms
  proof (induction ns arbitrary: rs w)
    case (Cons n ns)
    from Cons.prems obtain r w2 where r: "runHook os (hooks ! n) e cfg w = (Some r, w2)"
      "run_hooks os hooks e cfg ns (rs[n := r]) w2 = (Some rs', w')"
      by (auto split: prod.splits option.splits)
    from r(1) have "fst (runHook os (hooks ! n) e cfg w) = Some r" by simp
    with Cons.IH [OF r(2)] show ?case
      by (cases "i = n"; cases "i \<in> set ns") auto
  qed simp
  then show "length rs' = length rs"
    and "i < length rs \<Longrightarrow> i \<in> set ns \<Longrightarrow> \<exists>w1. fst (runHook os (hooks ! i) e cfg w1) = Some (rs' ! i)"
    and "i \<notin> set ns \<Longrightarrow> rs' ! i = rs ! i"
    by blast+
qed

text \<open>What the scheduler may do: run every parallel hook once, in any order.\<close>

definition fair_order :: "'w hook_os \<Rightarrow> bool" where
  "fair_order os = (\<forall>ns. set (ho_order os ns) = set ns)"

lemma dispatchAll_results:
  assumes "dispatchAll os snap cfg e w = (Some rs, w')" "fair_order os"
  shows "list_all2 (\<lambda>h r. \<exists>w1. fst (runHook os h e cfg w1) = Some r) (matchingHooks snap e) rs"
proof -
  let ?hooks = "matchingHooks snap e"
  let ?n = "length ?hooks"
  let ?ns = "filter (\<lambda>i. \<not> hk_ParallelSafe (?hooks ! i)) [0..<?n]
    @ ho_order os (filter (\<lambda>i. hk_ParallelSafe (?hooks ! i)) [0..<?n])"
  from assms(1) have r: "run_hooks os ?hooks e cfg ?ns (replicate ?n no_result) w = (Some rs, w')"
    by (simp add: dispatchAll_def Let_def)
  have "set (ho_order os (filter (\<lambda>i. hk_ParallelSafe (?hooks ! i)) [0..<?n]))
      = set (filter (\<lambda>i. hk_ParallelSafe (?hooks ! i)) [0..<?n])"
    using assms(2) unfolding fair_order_def by blast
  then have "i \<in> set ?ns" if "i < ?n" for i using that by auto
  with run_hooks_results(1,2) [OF r] show ?thesis by (auto simp: list_all2_conv_all_nth)
qed

section \<open>Hooks and the permission resolver\<close>

lemma Resolve_silent_hook:
  "Resolve sep v (cb\<lparr>HookDecision := Some (\<lambda>_. None)\<rparr>) req = Resolve sep v (cb\<lparr>HookDecision := None\<rparr>) req"
proof -
  have "run_hook (cb\<lparr>HookDecision := Some (\<lambda>_. None)\<rparr>) r = None" "run_hook (cb\<lparr>HookDecision := None\<rparr>) r = None" for r
    by (simp_all add: run_hook_def)
  moreover have "run_prompt (cb\<lparr>HookDecision := h\<rparr>) p = run_prompt cb p"
    "run_classifier (cb\<lparr>HookDecision := h\<rparr>) r pr = run_classifier cb r pr"
    "Observer (cb\<lparr>HookDecision := h\<rparr>) = Observer cb" for h p r pr
    by (simp_all add: run_prompt_def run_classifier_def)
  ultimately show ?thesis unfolding Resolve_def by (simp only: option.case)
qed

lemma option_map3_Some:
  "option_map3 f a b c = Some x \<Longrightarrow> \<exists>a' b' c'. a = Some a' \<and> b = Some b' \<and> c = Some c' \<and> x = f a' b' c'"
  by (cases a; cases b; cases c) auto

lemma tool_envelope_fields:
  "tool_envelope v cfg model mode event t = Some e \<Longrightarrow> env_Event e = event
    \<and> map_option (\<lambda>t. (ti_Name t, ti_Target t)) (env_Tool e) = Some (th_ToolName t, th_Target t)"
  unfolding tool_envelope_def by (drule option_map3_Some) (auto simp: hook_envelope_def)

lemma preToolDecision_decision:
  assumes "preToolDecision os snap cfg v ask_user model mode null req w = (Some (d, notices), w')"
  obtains e rs where "tool_envelope v cfg model mode EventPreToolUse
      \<lparr>th_ToolName = rq_ToolName req, th_Input = rq_Input req, th_Target = ExtractTarget v (rq_Input req),
       th_Result = null, th_Err = None\<rparr> = Some e"
    "dispatchAll os snap cfg e w = (Some rs, w')"
    "hr_Decision (aggregate rs) = HookDeny \<Longrightarrow> \<exists>res. d = Some res \<and> res_Decision res = DecisionDeny \<and> res_Stage res = StageHook"
    "hr_Decision (aggregate rs) = HookNone \<Longrightarrow> d = None"
proof -
  from assms obtain e res where e: "tool_envelope v cfg model mode EventPreToolUse
      \<lparr>th_ToolName = rq_ToolName req, th_Input = rq_Input req, th_Target = ExtractTarget v (rq_Input req),
       th_Result = null, th_Err = None\<rparr> = Some e"
    and res: "Dispatch os snap cfg e w = (Some res, w')"
    by (auto simp: preToolDecision_def Let_def split: option.splits prod.splits)
  from res obtain rs where rs: "dispatchAll os snap cfg e w = (Some rs, w')" "res = aggregate rs"
    by (auto simp: Dispatch_def aggregate_def split: option.splits prod.splits)
  have "d = (if \<not> Decisive res then None
      else Some ((case (if hr_Decision res = HookAsk then (case ask_user of None \<Rightarrow> None | Some f \<Rightarrow>
          f \<lparr>prompt_ToolName = rq_ToolName req, prompt_Target = ExtractTarget v (rq_Input req), prompt_Reason = hr_Reason res\<rparr>)
          else None) of
          Some (decision, reason) \<Rightarrow> mk_result decision StagePrompt (if reason = [] then hr_Reason res else reason)
        | None \<Rightarrow> mk_result (mapDecision (hr_Decision res)) StageHook (hr_Reason res))\<lparr>res_UpdatedInput := Some (rq_Input req)\<rparr>))"
    using assms e res by (simp add: preToolDecision_def Let_def)
  then show ?thesis using that [OF e rs(1)] unfolding rs(2) by (auto simp: Decisive_def mk_result_def)
qed

text \<open>
  C8. A denying hook is final and silent hooks change nothing: if one of the matching hooks answers a tool
  call with deny, the resolver denies the call, whatever the mode, the rules, the tool and the other
  hooks say; and if none of them takes a decision, the resolver decides exactly as without hooks.
\<close>

theorem hook_verdict:
  assumes "preToolDecision os snap cfg v ask_user model mode null req w = (Some (d, notices), w')"
    and "valid_request req" "fair_order os"
  shows "\<exists>e rs. dispatchAll os snap cfg e w = (Some rs, w')
    \<and> env_Event e = EventPreToolUse
    \<and> map_option (\<lambda>t. (ti_Name t, ti_Target t)) (env_Tool e) = Some (rq_ToolName req, ExtractTarget v (rq_Input req))
    \<and> list_all2 (\<lambda>h r. \<exists>w1. fst (runHook os h e cfg w1) = Some r) (matchingHooks snap e) rs
    \<and> (list_ex (\<lambda>r. hr_Decision r = HookDeny) rs \<longrightarrow>
        res_Decision (fst (Resolve sep v (cb\<lparr>HookDecision := Some (\<lambda>_. d)\<rparr>) req)) = DecisionDeny)
    \<and> (list_all (\<lambda>r. \<not> Decisive r) rs \<longrightarrow>
        Resolve sep v (cb\<lparr>HookDecision := Some (\<lambda>_. d)\<rparr>) req = Resolve sep v (cb\<lparr>HookDecision := None\<rparr>) req)"
proof -
  from preToolDecision_decision [OF assms(1)] obtain e rs where
    e: "tool_envelope v cfg model mode EventPreToolUse
      \<lparr>th_ToolName = rq_ToolName req, th_Input = rq_Input req, th_Target = ExtractTarget v (rq_Input req),
       th_Result = null, th_Err = None\<rparr> = Some e"
    and rs: "dispatchAll os snap cfg e w = (Some rs, w')"
    and deny: "hr_Decision (aggregate rs) = HookDeny \<Longrightarrow>
      \<exists>res. d = Some res \<and> res_Decision res = DecisionDeny \<and> res_Stage res = StageHook"
    and none: "hr_Decision (aggregate rs) = HookNone \<Longrightarrow> d = None" by metis
  note all = dispatchAll_results [OF rs assms(3)]
  have env: "env_Event e = EventPreToolUse"
    "map_option (\<lambda>t. (ti_Name t, ti_Target t)) (env_Tool e) = Some (rq_ToolName req, ExtractTarget v (rq_Input req))"
    using tool_envelope_fields [OF e] by simp_all
  have "res_Decision (fst (Resolve sep v (cb\<lparr>HookDecision := Some (\<lambda>_. d)\<rparr>) req)) = DecisionDeny"
    if "list_ex (\<lambda>r. hr_Decision r = HookDeny) rs"
  proof -
    from that have "hr_Decision (aggregate rs) = HookDeny"
      using aggregate_from_decision [of no_result rs] by (simp add: aggregate_def no_result_def)
    then obtain res where d: "d = Some res" "res_Decision res = DecisionDeny" using deny by blast
    from hook_decides [OF assms(2), of "cb\<lparr>HookDecision := Some (\<lambda>_. d)\<rparr>" res] d show ?thesis
      by (simp add: run_hook_def)
  qed
  moreover have "Resolve sep v (cb\<lparr>HookDecision := Some (\<lambda>_. d)\<rparr>) req = Resolve sep v (cb\<lparr>HookDecision := None\<rparr>) req"
    if n: "list_all (\<lambda>r. \<not> Decisive r) rs"
  proof -
    have "\<not> list_ex (\<lambda>r. hr_Decision r = x) rs" if "x \<in> {HookDeny, HookAsk, HookAllow}" for x
      using that n by (auto simp: list_ex_iff list_all_iff Decisive_def)
    then have "hr_Decision (aggregate rs) = HookNone"
      using aggregate_from_decision [of no_result rs] by (simp add: aggregate_def no_result_def)
    then have "d = None" by (rule none)
    then show ?thesis by (simp only: Resolve_silent_hook)
  qed
  ultimately show ?thesis using rs all env by blast
qed

section \<open>Hooks that fail\<close>

text \<open>
  An agent hook whose model call fails allows the call, and the hooks decide before the rules are
  looked at, so the call runs even against a deny rule.
\<close>

lemma agent_hook_error_allows:
  assumes "ho_chat os = Some (\<lambda>model system user timeout w. (Inl [], w))" "ho_marshal os e = Inr payload"
  shows "map_option hr_Decision (fst (runAgentHook os h e cfg w)) = Some HookAllow"
  using assms by (simp add: runAgentHook_def failed_open_def sanitize_def TrimSpace_Nil ToUpper_def string_of_runes_def redact_def)

text \<open>
  Redaction looks for a marker in the upper-case text; a letter whose upper case takes more bytes moves
  the place found beyond the end of the text.
\<close>

lemma redaction_panics: "redact (encode_rune 0x250 @ ''KEY='') ''KEY='' = None"
proof -
  have e: "encode_rune 0x250 = [char_of (201::nat), char_of (144::nat)]"
    by (simp add: encode_rune_def encode_valid_def valid_rune_def)
  have r: "runes (encode_rune 0x250 @ ''KEY='') = [0x250, 75, 69, 89, 61]"
    by (simp add: runes_encode_rune valid_rune_def runes_ascii of_char_def)
  have "unicode_ToUpper 0x250 = 0x2C6F" by (simp add: unicode_ToUpper_def upper_table_def)
  then have "ToUpper (encode_rune 0x250 @ ''KEY='') = encode_rune 0x2C6F @ ''KEY=''"
    by (simp add: ToUpper_def r string_of_runes_def unicode_ToUpper_ascii encode_rune_ascii char_of_def bit_0)
  then show ?thesis
    by (simp add: redact_def e encode_rune_def encode_valid_def valid_rune_def Let_def)
qed

text \<open>A command hook that exits with status 2 denies.\<close>

definition demo_hook :: hook where
  "demo_hook = \<lparr>hk_Kind = KindCommand, hk_Event = EventPreToolUse, hk_Matcher = [], hk_Command = ''check'', hk_Prompt = [],
     hk_URL = [], hk_Method = [], hk_TimeoutSec = 0, hk_ParallelSafe = False, hk_Env = [], hk_Source = HookUser, hk_Enabled = True\<rparr>"

definition demo_hook_os :: "'w hook_os" where
  "demo_hook_os = \<lparr>ho_ReadFile = (\<lambda>_. Inr None), ho_parseConfig = (\<lambda>_. Inr []), ho_error_text = (\<lambda>_. []), ho_kind_text = (\<lambda>_. []),
     ho_event_text = (\<lambda>_. []), ho_net_text = (\<lambda>_. []), ho_quote = id,
     ho_net = \<lparr>ParseURL = (\<lambda>_. Inl []), ParseAddr = (\<lambda>_. None), SplitHostPort = Inl, canonicalAddr = (\<lambda>_. []),
       Lookup_host = (\<lambda>_ _. Inl []), Dial = (\<lambda>_ _ _. None), Location = (\<lambda>_ _. None)\<rparr>,
     ho_marshal = (\<lambda>_. Inr []), ho_unmarshal = Inl, ho_decodeHTTP = (\<lambda>_. None), ho_LookupEnv = (\<lambda>_. None),
     ho_shell = (\<lambda>_ _ _ _ _ w. (HookFailed 2 [], w)), ho_chat = None, ho_request = (\<lambda>_. Inl), ho_http = (\<lambda>_ _ _ _ _ w. (CallFailed [], w)),
     ho_order = id\<rparr>"

definition demo_hook_config :: hook_config where
  "demo_hook_config = \<lparr>hc_SessionID = [], hc_Model = [], hc_PermissionMode = [], hc_WorkingDir = [], hc_DefaultTimeout = 0\<rparr>"

lemma sanitize_Nil [simp]: "sanitize [] = Some []"
  by (simp add: sanitize_def ToUpper_def string_of_runes_def redact_def)

theorem hook_verdict_witness:
  "\<exists>d notices. fst (preToolDecision demo_hook_os \<lparr>sn_Hooks = [demo_hook], sn_Disabled = [], sn_Warnings = []\<rparr> demo_hook_config demo_view
      None [] [] None (demo_request ModeBypass no_rules PermAllow) ()) = Some (d, notices)
    \<and> res_Decision (fst (Resolve CHR ''/'' demo_view (demo_callbacks\<lparr>HookDecision := Some (\<lambda>_. d)\<rparr>)
        (demo_request ModeBypass no_rules PermAllow))) = DecisionDeny"
proof -
  let ?snap = "\<lparr>sn_Hooks = [demo_hook], sn_Disabled = [], sn_Warnings = []\<rparr>"
  let ?req = "demo_request ModeBypass no_rules PermAllow"
  obtain d notices w' where p: "preToolDecision demo_hook_os ?snap demo_hook_config demo_view None [] [] None ?req () = (Some (d, notices), w')"
    by (simp add: preToolDecision_def tool_envelope_def hook_envelope_def summarize_json_def demo_view_def demo_request_def Dispatch_def
        dispatchAll_def matchingHooks_def matchesHook_def demo_hook_def runHook_def runCommandHook_def demo_hook_os_def Let_def
        demo_hook_config_def)
  have v: "valid_request ?req" by (simp add: valid_request_def demo_request_def)
  have f: "fair_order (demo_hook_os :: unit hook_os)" by (simp add: fair_order_def demo_hook_os_def)
  from hook_verdict [OF p v f, of "CHR ''/''" demo_callbacks] obtain e rs where
    e: "env_Event e = EventPreToolUse"
    and rs: "list_all2 (\<lambda>h r. \<exists>w1. fst (runHook (demo_hook_os :: unit hook_os) h e demo_hook_config w1) = Some r) (matchingHooks ?snap e) rs"
    and deny: "list_ex (\<lambda>r. hr_Decision r = HookDeny) rs \<longrightarrow>
      res_Decision (fst (Resolve CHR ''/'' demo_view (demo_callbacks\<lparr>HookDecision := Some (\<lambda>_. d)\<rparr>) ?req)) = DecisionDeny" by blast
  from e have "matchingHooks ?snap e = [demo_hook]" by (simp add: matchingHooks_def matchesHook_def demo_hook_def)
  moreover have "map_option hr_Decision (fst (runHook demo_hook_os demo_hook e demo_hook_config w)) = Some HookDeny" for w :: unit
    by (simp add: runHook_def runCommandHook_def demo_hook_os_def demo_hook_def)
  ultimately have "list_ex (\<lambda>r. hr_Decision r = HookDeny) rs" using rs
    by (auto simp: list_all2_Cons1)
  with deny p show ?thesis by (intro exI [of _ d] exI [of _ notices]) simp
qed

end
