(* ===== verification/Server_Save.thy ===== *)
theory Server_Save
  imports Server_Session File_Tools Hook_Dispatch
begin

text \<open>
  Saving a file from the browser (\<open>handlePutFiles\<close> in \<open>internal/server/handler_files.go\<close>,
  \<open>save_permission.go\<close>, \<open>file_write_tracking.go\<close>): the path boundary, the writes of the agent that are
  under way, the content the client has seen, the hooks, the permission rules and the atomic write
  work together here. The request is one goroutine; what others do meanwhile shows in what it reads:
  the two looks at pending writes, the lock, the disk as the hooks leave it, and the symbolic links at the
  time of the write.
\<close>

section \<open>The permission of a save\<close>

fun first_form :: "char \<Rightarrow> rules \<Rightarrow> string \<Rightarrow> string list \<Rightarrow> rule option" where
  "first_form sep rs tool [] = None"
| "first_form sep rs tool (f # fs) =
     (case FirstMatchingRule sep rs tool f of Some (r, _) \<Rightarrow> Some r | None \<Rightarrow> first_form sep rs tool fs)"

definition rule_result :: "decision \<Rightarrow> rule \<Rightarrow> 'i option \<Rightarrow> 'i Permission_Types.result" where
  "rule_result d r updated = \<lparr>res_Decision = d, res_Stage = StageRule, res_Reason = ''matched rule: '' @ Pattern r,
     res_UpdatedInput = updated, res_Rule = Some r\<rparr>"

definition resolveSavePermission :: "char \<Rightarrow> 'i input_view \<Rightarrow> ('c, 'i) callbacks \<Rightarrow> ('c, 'i) request \<Rightarrow> string list \<Rightarrow>
    'i Permission_Types.result \<times> (('c, 'i) request \<times> 'i Permission_Types.result) list" where
  "resolveSavePermission sep v cb req forms =
     observe (Observer cb) req
       (let denyOnly = \<lparr>AlwaysAllow = [], AlwaysDeny = AlwaysDeny (rq_Rules req), AlwaysAsk = []\<rparr>;
            askOnly = \<lparr>AlwaysAllow = [], AlwaysDeny = [], AlwaysAsk = AlwaysAsk (rq_Rules req)\<rparr>
        in case first_form sep denyOnly (rq_ToolName req) forms of
             Some r \<Rightarrow> rule_result DecisionDeny r None
           | None \<Rightarrow>
               let res = fst (Resolve sep v (cb\<lparr>Observer := False\<rparr>) req);
                   res = (if res_Decision res = DecisionAllow
                     then case first_form sep askOnly (rq_ToolName req) forms of
                         Some r \<Rightarrow> rule_result DecisionAsk r (res_UpdatedInput res)
                       | None \<Rightarrow> res
                     else res);
                   mode = Normalize (rq_Mode req)
               in if mode = ModePlan \<and> res_Decision res = DecisionAllow
                  then (mk_result DecisionDeny StageMode ''plan mode blocks saving files'')\<lparr>res_Rule := res_Rule res\<rparr>
                  else if mode = ModeAcceptEdits \<and> res_Decision res = DecisionAsk \<and> res_Stage res = StageMode
                  then (mk_result DecisionAllow StageMode ''acceptEdits allows saving files'')\<lparr>res_UpdatedInput := res_UpdatedInput res\<rparr>
                  else res)"

section \<open>The forms of a path\<close>

definition startsWithParent :: "string \<Rightarrow> bool" where
  "startsWithParent rel = HasPrefix rel ''../''"

definition canonicalSavePath :: "path_env \<Rightarrow> string \<Rightarrow> string \<Rightarrow> string" where
  "canonicalSavePath env workDir resolvedTarget =
     (case pe_EvalSymlinks env workDir of
        Inl _ \<Rightarrow> resolvedTarget
      | Inr root \<Rightarrow>
          (case Rel root resolvedTarget of
             Inl _ \<Rightarrow> resolvedTarget
           | Inr rel \<Rightarrow> if rel \<noteq> ''..'' \<and> \<not> startsWithParent rel then rel else resolvedTarget))"

fun first_occurrences :: "'a list \<Rightarrow> 'a set \<Rightarrow> 'a list" where
  "first_occurrences [] seen = []"
| "first_occurrences (x # xs) seen =
     (if x \<in> seen then first_occurrences xs seen else x # first_occurrences xs (insert x seen))"

definition saveTargetForms :: "string \<Rightarrow> string \<Rightarrow> string \<Rightarrow> string \<Rightarrow> string list" where
  "saveTargetForms workDir canon resolved raw =
     first_occurrences (filter (\<lambda>f. f \<noteq> []) ([canon, resolved, raw] @ (if IsAbs canon then [] else [JoinPath [workDir, canon]]))) {}"

fun containingRoot :: "string \<Rightarrow> string list \<Rightarrow> (string \<times> string) option" where
  "containingRoot resolved [] = None"
| "containingRoot resolved (root # roots) =
     (case Rel root resolved of
        Inr rel \<Rightarrow> if rel \<noteq> ''..'' \<and> \<not> HasPrefix rel ''../'' then Some (root, rel) else containingRoot resolved roots
      | Inl _ \<Rightarrow> containingRoot resolved roots)"

definition evaluated_root :: "path_env \<Rightarrow> string \<Rightarrow> string list" where
  "evaluated_root env r =
     (if TrimSpace r = [] then []
      else case Abs_path env r of
        Inl _ \<Rightarrow> []
      | Inr a \<Rightarrow> (case pe_EvalSymlinks env a of Inl _ \<Rightarrow> [] | Inr ev \<Rightarrow> [Clean ev]))"

definition locateInsideRoots :: "path_env \<Rightarrow> string \<Rightarrow> (string \<times> string \<times> string) option" where
  "locateInsideRoots env target =
     (case pe_EvalSymlinks env target of
        Inl _ \<Rightarrow> None
      | Inr resolved \<Rightarrow>
          map_option (\<lambda>(root, rel). (resolved, root, rel))
            (containingRoot resolved (concat (map (evaluated_root env) (pe_WorkingDir env # pe_AdditionalWorkingDirs env)))))"

definition resolveInsideRoots :: "path_env \<Rightarrow> string \<Rightarrow> string option" where
  "resolveInsideRoots env target = map_option fst (locateInsideRoots env target)"

definition openInsideRoots :: "(string \<Rightarrow> bool) \<Rightarrow> path_env \<Rightarrow> string \<Rightarrow> (string \<times> string) option" where
  "openInsideRoots opens env target =
     (case locateInsideRoots env target of
        None \<Rightarrow> None
      | Some (_, root, rel) \<Rightarrow> if opens root then Some (root, rel) else None)"

definition sameWritePath :: "path_env \<Rightarrow> string \<Rightarrow> string \<Rightarrow> bool" where
  "sameWritePath env a b =
     (let follow = (\<lambda>p. case pe_EvalSymlinks env p of Inr x \<Rightarrow> x | Inl _ \<Rightarrow> p)
      in Clean (follow a) = Clean (follow b))"

definition writePending :: "path_env \<Rightarrow> string list \<Rightarrow> (string \<times> string) list \<Rightarrow> string \<Rightarrow> bool" where
  "writePending env activeWrites pending path =
     (list_ex (\<lambda>active. sameWritePath env active path) activeWrites
      \<or> list_ex (\<lambda>(toolName, target). is_write_tool toolName
            \<and> (case ResolvePath env target PathWrite of Inl _ \<Rightarrow> False | Inr candidate \<Rightarrow> sameWritePath env candidate path)) pending)"

definition allowSavedPath :: "char \<Rightarrow> path_env \<Rightarrow> string \<Rightarrow> string \<Rightarrow> ('d, 'm, 'u) Session \<Rightarrow> ('d, 'm, 'u) Session" where
  "allowSavedPath sep env workDir canon s =
     (let forms = canon # (if IsAbs canon then []
            else JoinPath [workDir, canon] # (case pe_EvalSymlinks env workDir of Inl _ \<Rightarrow> [] | Inr root \<Rightarrow> [JoinPath [root, canon]]))
      in fold (AllowSession sep ''FileWrite'') (first_occurrences forms {}) s)"

section \<open>Memos of hook decisions\<close>

text \<open>A memo is the result of the hooks, \<open>None\<close> if they took no decision; the list has one entry per key.\<close>

type_synonym 'i save_memos = "(string \<times> 'i Permission_Types.result option) list"

definition dropSaveHookMemo :: "string \<Rightarrow> 'i save_memos \<Rightarrow> 'i save_memos" where
  "dropSaveHookMemo key ms = filter (\<lambda>(k, _). k \<noteq> key) ms"

definition putSaveHookMemo :: "string \<Rightarrow> 'i Permission_Types.result option \<Rightarrow> 'i save_memos \<Rightarrow> 'i save_memos" where
  "putSaveHookMemo key memo ms = (key, memo) # dropSaveHookMemo key (if 32 < length ms then [] else ms)"

definition takeSaveHookMemo :: "string \<Rightarrow> 'i save_memos \<Rightarrow> 'i Permission_Types.result option option \<times> 'i save_memos" where
  "takeSaveHookMemo key ms = (map_of ms key, dropSaveHookMemo key ms)"

section \<open>The request\<close>

record saveFilesRequest =
  sr_Content :: string
  sr_BaseSHA256 :: string
  sr_Confirm :: string

datatype save_event = SaveHookNotice string | FileSaved string nat string string

text \<open>
  What the request meets: the JSON decoder, SHA-256 in hexadecimal, the roots that can be opened, the two
  looks at the agent's writes and prompts, whether the path lock is free, the links at the end, the hooks.
\<close>

record ('c, 'd) save_env =
  sv_sep :: char
  sv_io :: io_env
  sv_decode :: "string \<Rightarrow> saveFilesRequest option"
  sv_Sum256 :: "string \<Rightarrow> string"
  sv_OpenRoot :: "string \<Rightarrow> bool"
  sv_activeWrites :: "bool \<Rightarrow> string list"
  sv_pending :: "bool \<Rightarrow> (string \<times> string) list"
  sv_lockFree :: "string \<Rightarrow> bool"
  sv_EvalLater :: "string \<Rightarrow> string + string"
  sv_view :: "WriteInput input_view"
  sv_ToolContext :: "'c tool_context_scheme"
  sv_hook_os :: "disk hook_os"
  sv_hooks :: hook_snapshot
  sv_hook_cfg :: hook_config
  sv_Model :: string
  sv_null :: "string option"
  sv_saved :: "string option"
  sv_now :: int
  sv_data :: "save_event \<Rightarrow> 'd"

record ('d, 'm, 'u) save_state =
  st_session :: "('d, 'm, 'u) Session"
  st_disk :: disk
  st_memos :: "WriteInput save_memos"

text \<open>\<open>Aborted\<close>: a panic in the handler, which the server turns into a closed connection.\<close>

datatype save_answer = SaveError nat | SaveReason nat string | NeedsConfirm | Saved string | Aborted

definition filesMaxContent :: nat where
  "filesMaxContent = 2 * 1024 * 1024"

definition is_hex :: "string \<Rightarrow> bool" where
  "is_hex s = (even (length s) \<and> list_all (\<lambda>c. is_digit c \<or> c \<in> set ''abcdefABCDEF'') s)"

definition decode_save :: "('c, 'd) save_env \<Rightarrow> string \<Rightarrow> saveFilesRequest option" where
  "decode_save env body =
     (case sv_decode env (take (filesMaxContent + 4096) body) of
        None \<Rightarrow> None
      | Some r \<Rightarrow>
          if filesMaxContent < length (sr_Content r) \<or> \<not> utf8_Valid (sr_Content r) \<or> length (sr_BaseSHA256 r) \<noteq> 64
            \<or> sr_Confirm r \<noteq> [] \<and> sr_Confirm r \<noteq> ''once'' \<and> sr_Confirm r \<noteq> ''always''
            \<or> \<not> is_hex (sr_BaseSHA256 r)
          then None else Some r)"

text \<open>The working directory of the process stands in for a session without one.\<close>

definition with_workdir :: "io_env \<Rightarrow> io_env option" where
  "with_workdir io =
     (if TrimSpace (pe_WorkingDir io) = []
      then (case pe_Getwd io of Inl _ \<Rightarrow> None | Inr wd \<Rightarrow> Some (io\<lparr>pe_WorkingDir := wd\<rparr>))
      else Some io)"

text \<open>What the checks before the hooks find out.\<close>

record save_target =
  tg_io :: io_env
  tg_request :: saveFilesRequest
  tg_path :: string
  tg_target :: string
  tg_hash :: string
  tg_perm :: nat
  tg_canon :: string

definition prepare_save :: "('c, 'd) save_env \<Rightarrow> string \<Rightarrow> string \<Rightarrow> disk \<Rightarrow> save_answer + save_target" where
  "prepare_save env path body d =
     (if TrimSpace path = [] then Inl (SaveError 400)
      else case decode_save env body of
        None \<Rightarrow> Inl (SaveError 400)
      | Some r \<Rightarrow>
        case with_workdir (sv_io env) of
          None \<Rightarrow> Inl (SaveError 500)
        | Some io \<Rightarrow>
        case ResolvePath (paths_of io) path PathRead of
          Inl _ \<Rightarrow> Inl (SaveReason 403 ''path not allowed'')
        | Inr resolved \<Rightarrow>
        case openInsideRoots (sv_OpenRoot env) (paths_of io) resolved of
          None \<Rightarrow> Inl (SaveReason 403 ''path not allowed'')
        | Some (root, rel) \<Rightarrow>
        let target = JoinPath [root, rel] in
        if writePending (paths_of io) (sv_activeWrites env False) (sv_pending env False) target
        then Inl (SaveReason 423 ''agent is writing this file'')
        else if \<not> sv_lockFree env target then Inl (SaveReason 423 ''agent is writing this file'')
        else if writePending (paths_of io) (sv_activeWrites env True) (sv_pending env True) target
        then Inl (SaveReason 423 ''agent is writing this file'')
        else
        case os_Stat io d target of
          Inr (Regular _ perm _) \<Rightarrow>
            (case os_ReadFile io d target of
               Inl _ \<Rightarrow> Inl (SaveError 500)
             | Inr prior \<Rightarrow>
                 let h = sv_Sum256 env prior in
                 if \<not> EqualFold (sr_BaseSHA256 r) h then Inl (SaveReason 409 ''file changed'')
                 else if \<not> utf8_Valid prior \<or> char_of (0 :: nat) \<in> set prior then Inl (SaveReason 415 ''binary file'')
                 else Inr \<lparr>tg_io = io, tg_request = r, tg_path = path, tg_target = target, tg_hash = h, tg_perm = perm,
                   tg_canon = canonicalSavePath (paths_of io) (pe_WorkingDir io) target\<rparr>)
        | _ \<Rightarrow> Inl (SaveReason 403 ''not a regular file''))"

definition emit_save :: "('c, 'd) save_env \<Rightarrow> string \<Rightarrow> save_event \<Rightarrow> ('d, 'm, 'u) save_state \<Rightarrow> ('d, 'm, 'u) save_state" where
  "emit_save env kind e st = st\<lparr>st_session := Emit (sv_now env) kind (Some (sv_data env e)) (st_session st)\<rparr>"

definition save_request_of :: "('c, 'd) save_env \<Rightarrow> save_target \<Rightarrow> mode \<Rightarrow> rules \<Rightarrow> ('c, WriteInput) request" where
  "save_request_of env tg mode rules =
     \<lparr>rq_Mode = mode, rq_Rules = rules, rq_Tool = Some (\<lambda>ctx i. write_checkPermissions ctx (Some i)),
      rq_ToolName = ''FileWrite'', rq_Input = \<lparr>wi_Path = tg_canon tg, wi_Content = sr_Content (tg_request tg)\<rparr>,
      rq_ToolContext = sv_ToolContext env\<rparr>"

definition saveMemoKey :: "('c, 'd) save_env \<Rightarrow> string \<Rightarrow> string \<Rightarrow> string \<Rightarrow> string" where
  "saveMemoKey env path base content = path @ char_of (0 :: nat) # base @ char_of (0 :: nat) # sv_Sum256 env content"

definition memo_key :: "('c, 'd) save_env \<Rightarrow> save_target \<Rightarrow> string" where
  "memo_key env tg = saveMemoKey env (tg_canon tg) (sr_BaseSHA256 (tg_request tg)) (sr_Content (tg_request tg))"

text \<open>The hook of the request: the memo of an earlier round, or the hooks themselves; \<open>None\<close> is a panic.\<close>

definition save_hook :: "('c, 'd) save_env \<Rightarrow> save_target \<Rightarrow> ('c, WriteInput) request \<Rightarrow> ('d, 'm, 'u) save_state \<Rightarrow>
    WriteInput Permission_Types.result option option \<times> ('d, 'm, 'u) save_state" where
  "save_hook env tg req st =
     (let key = memo_key env tg;
          (memo, ms) = (if sr_Confirm (tg_request tg) \<noteq> [] then takeSaveHookMemo key (st_memos st) else (None, st_memos st));
          st = st\<lparr>st_memos := ms\<rparr>
      in case memo of
           Some res \<Rightarrow> (Some res, st)
         | None \<Rightarrow>
             (case preToolDecision (sv_hook_os env) (sv_hooks env) (sv_hook_cfg env) (sv_view env) None (sv_Model env)
                     (mode_String (rq_Mode req)) (sv_null env) req (st_disk st) of
                (None, d) \<Rightarrow> (None, st\<lparr>st_disk := d\<rparr>)
              | (Some (res, notices), d) \<Rightarrow>
                  let st = foldl (\<lambda>st n. emit_save env ''hook_notice'' (SaveHookNotice n) st) (st\<lparr>st_disk := d\<rparr>) notices
                  in (Some res, st\<lparr>st_memos := putSaveHookMemo key res (st_memos st)\<rparr>)))"

abbreviation save_callbacks :: "WriteInput Permission_Types.result option \<Rightarrow> ('c, WriteInput) callbacks" where
  "save_callbacks res \<equiv> \<lparr>HookDecision = Some (\<lambda>_. res), Prompt = None, Classifier = None, Observer = False\<rparr>"

text \<open>The decision: the hooks run, exactly once, unless a deny rule matches some form of the path.\<close>

definition decide_save :: "('c, 'd) save_env \<Rightarrow> save_target \<Rightarrow> ('d, 'm, 'u) save_state \<Rightarrow>
    WriteInput Permission_Types.result option \<times> ('d, 'm, 'u) save_state" where
  "decide_save env tg st =
     (let req = save_request_of env tg (se_permMode (st_session st)) (se_permRules (st_session st));
          forms = saveTargetForms (pe_WorkingDir (tg_io tg)) (tg_canon tg) (tg_target tg) (tg_path tg);
          denied = first_form (sv_sep env) \<lparr>AlwaysAllow = [], AlwaysDeny = AlwaysDeny (rq_Rules req), AlwaysAsk = []\<rparr>
            ''FileWrite'' forms \<noteq> None;
          (hook, st) = (if denied then (Some None, st) else save_hook env tg (normalized req) st)
      in case hook of
           None \<Rightarrow> (None, st)
         | Some res \<Rightarrow> (Some (fst (resolveSavePermission (sv_sep env) (sv_view env) (save_callbacks res) req forms)), st))"

definition save_source :: "decision \<Rightarrow> stage \<Rightarrow> string \<Rightarrow> string" where
  "save_source d stage confirm =
     (if d = DecisionAsk then (if confirm = ''always'' then ''user_always'' else ''user_once'')
      else if stage = StageRule \<or> stage = StageHook then ''rule'' else ''mode'')"

text \<open>The write and what follows it; the links may have changed since the checks.\<close>

definition commit_save :: "('c, 'd) save_env \<Rightarrow> save_target \<Rightarrow> string \<Rightarrow> ('d, 'm, 'u) save_state \<Rightarrow>
    save_answer \<times> ('d, 'm, 'u) save_state" where
  "commit_save env tg source st =
     (let io = (tg_io tg)\<lparr>pe_EvalSymlinks := sv_EvalLater env\<rparr>; r = tg_request tg; target = tg_target tg in
      if resolveInsideRoots (paths_of io) target \<noteq> Some target then (SaveReason 403 ''path not allowed'', st)
      else case os_ReadFile io (st_disk st) target of
        Inl _ \<Rightarrow> (SaveError 500, st)
      | Inr latest \<Rightarrow>
          if sv_Sum256 env latest \<noteq> tg_hash tg then (SaveReason 409 ''file changed'', st)
          else case AtomicWrite io target (sr_Content r) (tg_perm tg) (st_disk st) of
            (Some _, d) \<Rightarrow> (SaveError 500, st\<lparr>st_disk := d\<rparr>)
          | (None, d) \<Rightarrow>
              let st = st\<lparr>st_disk := d\<rparr>;
                  st = (if source = ''user_always''
                    then st\<lparr>st_session := allowSavedPath (sv_sep env) (paths_of io) (pe_WorkingDir io) (tg_canon tg) (st_session st)\<rparr>
                    else st);
                  h = sv_Sum256 env (sr_Content r)
              in case hook_PostToolUse (sv_hook_os env) (sv_hooks env) (sv_hook_cfg env) (sv_view env) (sv_Model env)
                        (mode_String (se_permMode (st_session st)))
                        \<lparr>th_ToolName = ''FileWrite'', th_Input = \<lparr>wi_Path = tg_canon tg, wi_Content = sr_Content r\<rparr>,
                         th_Target = tg_canon tg, th_Result = sv_saved env, th_Err = None\<rparr> (st_disk st) of
                   (None, d) \<Rightarrow> (Aborted, st\<lparr>st_disk := d\<rparr>)
                 | (Some post, d) \<Rightarrow>
                     let st = st\<lparr>st_disk := d\<rparr>;
                         st = (if hr_Warning post \<noteq> [] \<or> hr_AdditionalContext post \<noteq> [] \<or> hr_Reason post \<noteq> []
                           then emit_save env ''hook_notice'' (SaveHookNotice (TrimSpace (hr_Warning post @ '' ''
                             @ hr_AdditionalContext post @ '' '' @ hr_Reason post))) st else st)
                     in (Saved h, emit_save env ''file_saved'' (FileSaved (tg_canon tg) (length (sr_Content r)) h source) st))"

definition handlePutFiles :: "('c, 'd) save_env \<Rightarrow> string \<Rightarrow> string \<Rightarrow> ('d, 'm, 'u) save_state option \<Rightarrow>
    save_answer \<times> ('d, 'm, 'u) save_state option" where
  "handlePutFiles env path body found =
     (case found of
        None \<Rightarrow> (SaveError 404, None)
      | Some st \<Rightarrow>
          (case prepare_save env path body (st_disk st) of
             Inl answer \<Rightarrow> (answer, Some st)
           | Inr tg \<Rightarrow>
               (case decide_save env tg st of
                  (None, st) \<Rightarrow> (Aborted, Some st)
                | (Some decision, st) \<Rightarrow>
                    let confirm = sr_Confirm (tg_request tg);
                        dropped = st\<lparr>st_memos := dropSaveHookMemo (memo_key env tg) (st_memos st)\<rparr>
                    in if res_Decision decision = DecisionDeny then (SaveReason 403 (res_Reason decision), Some dropped)
                       else if res_Decision decision = DecisionAsk \<and> confirm = [] then (NeedsConfirm, Some st)
                       else case commit_save env tg (save_source (res_Decision decision) (res_Stage decision) confirm) dropped of
                         (answer, st) \<Rightarrow> (answer, Some st))))"

section \<open>What the permission of a save is\<close>

lemma first_form_None:
  "first_form sep \<lparr>AlwaysAllow = [], AlwaysDeny = ds, AlwaysAsk = as\<rparr> tool forms = None \<longleftrightarrow>
    \<not> list_ex (\<lambda>f. bucket_hit (\<lambda>p. matches sep p tool f) (ds @ as)) forms"
proof (induction forms)
  case (Cons f forms)
  have "(FirstMatchingRule sep \<lparr>AlwaysAllow = [], AlwaysDeny = ds, AlwaysAsk = as\<rparr> tool f = None)
      = (\<not> bucket_hit (\<lambda>p. matches sep p tool f) (ds @ as))"
    unfolding FirstMatchingRule_def first_match_def
    by (auto simp: bucket_hit_def list_ex_iff find_None_iff find_Some_iff split: option.split)
  with Cons show ?case by (cases "FirstMatchingRule sep \<lparr>AlwaysAllow = [], AlwaysDeny = ds, AlwaysAsk = as\<rparr> tool f") auto
qed simp

text \<open>Some spelling of the file matches a rule of a bucket.\<close>

definition some_form_hit :: "char \<Rightarrow> string \<Rightarrow> string list \<Rightarrow> rule list \<Rightarrow> bool" where
  "some_form_hit sep tool forms rs = list_ex (\<lambda>f. bucket_hit (\<lambda>p. matches sep p tool f) rs) forms"


text \<open>In plan mode a save that a hook or rule allows is offered for confirmation if an ask rule matches.\<close>

lemma plan_mode_may_ask:
  assumes "Normalize (rq_Mode req) = ModePlan" "res_Decision (fst (Resolve sep v (cb\<lparr>Observer := False\<rparr>) req)) = DecisionAllow"
    and "\<not> some_form_hit sep (rq_ToolName req) forms (AlwaysDeny (rq_Rules req))"
    and "some_form_hit sep (rq_ToolName req) forms (AlwaysAsk (rq_Rules req))"
  shows "res_Decision (fst (resolveSavePermission sep v cb req forms)) = DecisionAsk"
  using assms first_form_None [of sep "AlwaysDeny (rq_Rules req)" "[]" "rq_ToolName req" forms]
    first_form_None [of sep "[]" "AlwaysAsk (rq_Rules req)" "rq_ToolName req" forms]
  by (auto simp: resolveSavePermission_def some_form_hit_def rule_result_def Let_def)

section \<open>What a save writes\<close>

definition later_io :: "('c, 'd) save_env \<Rightarrow> save_target \<Rightarrow> io_env" where
  "later_io env tg = (tg_io tg)\<lparr>pe_EvalSymlinks := sv_EvalLater env\<rparr>"

definition post_disk :: "('c, 'd) save_env \<Rightarrow> save_target \<Rightarrow> mode \<Rightarrow> disk \<Rightarrow> disk" where
  "post_disk env tg mode d =
     snd (hook_PostToolUse (sv_hook_os env) (sv_hooks env) (sv_hook_cfg env) (sv_view env) (sv_Model env) (mode_String mode)
       \<lparr>th_ToolName = ''FileWrite'', th_Input = \<lparr>wi_Path = tg_canon tg, wi_Content = sr_Content (tg_request tg)\<rparr>,
        th_Target = tg_canon tg, th_Result = sv_saved env, th_Err = None\<rparr> d)"

lemma allowSession_mode [simp]: "se_permMode (AllowSession sep tool target s) = se_permMode s"
  by (simp add: AllowSession_def split: option.split)

lemma allowSavedPath_mode [simp]: "se_permMode (allowSavedPath sep env wd canon s) = se_permMode s"
proof -
  have "se_permMode (fold (AllowSession sep tool) fs s) = se_permMode s" for fs tool by (induction fs arbitrary: s) simp_all
  then show ?thesis unfolding allowSavedPath_def Let_def by (simp only:)
qed

lemma emit_save_disk [simp]: "st_disk (emit_save env kind e st) = st_disk st"
  by (simp add: emit_save_def)

text \<open>The file under a path got new content, and the hooks after the write ran.\<close>

definition file_saved :: "('c, 'd) save_env \<Rightarrow> save_target \<Rightarrow> mode \<Rightarrow> disk \<Rightarrow> disk \<Rightarrow> bool" where
  "file_saved env tg mode d d' =
     (\<exists>latest e. os_ReadFile (later_io env tg) d (tg_target tg) = Inr latest \<and> sv_Sum256 env latest = tg_hash tg
        \<and> resolveInsideRoots (paths_of (later_io env tg)) (tg_target tg) = Some (tg_target tg)
        \<and> entry (later_io env tg) (tg_target tg) = Inr e
        \<and> d' = post_disk env tg mode (d(e \<mapsto> Regular (sr_Content (tg_request tg)) (tg_perm tg) (io_now (later_io env tg)))))"

lemma commit_save_disk:
  assumes "commit_save env tg source st = (ans, st')" "temp_fresh (later_io env tg) (st_disk st)"
  shows "(ans \<noteq> Aborted \<and> (\<forall>h. ans \<noteq> Saved h) \<and> (\<forall>q. st_disk st' q = st_disk st q \<or> temp_left (later_io env tg) q))
    \<or> (ans = Aborted \<or> ans = Saved (sv_Sum256 env (sr_Content (tg_request tg))))
      \<and> file_saved env tg (se_permMode (st_session st)) (st_disk st) (st_disk st')"
proof (cases "resolveInsideRoots (paths_of (later_io env tg)) (tg_target tg) = Some (tg_target tg)")
  case False
  then show ?thesis using assms(1) by (auto simp: commit_save_def later_io_def Let_def)
next
  case inside: True
  show ?thesis
  proof (cases "os_ReadFile (later_io env tg) (st_disk st) (tg_target tg)")
    case (Inl e)
    then show ?thesis using assms(1) inside by (auto simp: commit_save_def later_io_def Let_def)
  next
    case latest: (Inr latest)
    show ?thesis
    proof (cases "sv_Sum256 env latest = tg_hash tg")
      case False
      then show ?thesis using assms(1) inside latest by (auto simp: commit_save_def later_io_def Let_def)
    next
      case same: True
      obtain r d where w: "AtomicWrite (later_io env tg) (tg_target tg) (sr_Content (tg_request tg)) (tg_perm tg) (st_disk st) = (r, d)"
        by fastforce
      show ?thesis
      proof (cases r)
        case (Some e)
        with w assms(1) inside latest same have "ans = SaveError 500" "st_disk st' = d"
          by (auto simp: commit_save_def later_io_def Let_def)
        with AtomicWrite_error [OF w [unfolded Some] assms(2)] show ?thesis by simp
      next
        case None
        from AtomicWrite_ok [OF w [unfolded None] assms(2)] obtain e where e: "entry (later_io env tg) (tg_target tg) = Inr e"
          "d = (st_disk st)(e \<mapsto> Regular (sr_Content (tg_request tg)) (tg_perm tg) (io_now (later_io env tg)))" by metis
        have "(ans = Aborted \<or> ans = Saved (sv_Sum256 env (sr_Content (tg_request tg))))
            \<and> st_disk st' = post_disk env tg (se_permMode (st_session st)) d"
          using assms(1) inside latest same w None
          unfolding commit_save_def Let_def later_io_def [symmetric] post_disk_def
          by (auto split: prod.splits option.splits if_splits)
        with e inside latest same show ?thesis unfolding file_saved_def by blast
      qed
    qed
  qed
qed

lemma prepared_facts:
  assumes "prepare_save env path body d = Inr tg"
  obtains resolved root rel prior perm mt where
    "decode_save env body = Some (tg_request tg)" "with_workdir (sv_io env) = Some (tg_io tg)"
    "ResolvePath (paths_of (tg_io tg)) path PathRead = Inr resolved"
    "openInsideRoots (sv_OpenRoot env) (paths_of (tg_io tg)) resolved = Some (root, rel)" "tg_target tg = JoinPath [root, rel]"
    "\<not> writePending (paths_of (tg_io tg)) (sv_activeWrites env True) (sv_pending env True) (tg_target tg)"
    "os_ReadFile (tg_io tg) d (tg_target tg) = Inr prior" "tg_hash tg = sv_Sum256 env prior"
    "EqualFold (sr_BaseSHA256 (tg_request tg)) (tg_hash tg)" "utf8_Valid prior"
  using assms unfolding prepare_save_def Let_def
  by (auto split: if_splits option.splits sum.splits prod.splits file_node.splits)

text \<open>The disk as the hooks of the request leave it, and the temporary file that may be left behind.\<close>

definition left_by_hooks :: "('c, 'd) save_env \<Rightarrow> string \<Rightarrow> string \<Rightarrow> ('d, 'm, 'u) save_state \<Rightarrow> disk" where
  "left_by_hooks env path body st =
     (case prepare_save env path body (st_disk st) of
        Inl _ \<Rightarrow> st_disk st | Inr tg \<Rightarrow> st_disk (snd (decide_save env tg st)))"

definition save_temp_left :: "('c, 'd) save_env \<Rightarrow> string \<Rightarrow> string \<Rightarrow> ('d, 'm, 'u) save_state \<Rightarrow> string \<Rightarrow> bool" where
  "save_temp_left env path body st q =
     (case prepare_save env path body (st_disk st) of Inl _ \<Rightarrow> False | Inr tg \<Rightarrow> temp_left (later_io env tg) q)"

text \<open>What package \<open>os\<close> promises of the temporary file, at the time of the write.\<close>

definition save_temp_fresh :: "('c, 'd) save_env \<Rightarrow> string \<Rightarrow> string \<Rightarrow> ('d, 'm, 'u) save_state \<Rightarrow> bool" where
  "save_temp_fresh env path body st =
     (\<forall>tg. prepare_save env path body (st_disk st) = Inr tg \<longrightarrow>
        temp_fresh (later_io env tg) (st_disk (snd (decide_save env tg st))))"

text \<open>
  C10. A save writes only what it may: unless a file was saved, every file is as the hooks left it, apart from
  a temporary file that could not be removed; and a file is saved only if the request is well formed, the
  path lies inside the workspace, the agent has no write to it under way, the resolver allows the save or
  the user confirmed it, and the file on disk right before the write has the content the client has seen,
  by its hash. Then the file has exactly the new content and its old permission, no other file changed, and
  the client gets the new hash.
\<close>

theorem saved_only_as_permitted:
  assumes "handlePutFiles env path body (Some st) = (ans, Some st')" "save_temp_fresh env path body st"
  shows "(\<forall>h. ans \<noteq> Saved h)
      \<and> (\<forall>q. st_disk st' q = left_by_hooks env path body st q \<or> save_temp_left env path body st q)
    \<or> (\<exists>tg decision sth prior. decode_save env body = Some (tg_request tg)
      \<and> \<not> writePending (paths_of (tg_io tg)) (sv_activeWrites env True) (sv_pending env True) (tg_target tg)
      \<and> os_ReadFile (tg_io tg) (st_disk st) (tg_target tg) = Inr prior
      \<and> EqualFold (sr_BaseSHA256 (tg_request tg)) (tg_hash tg) \<and> tg_hash tg = sv_Sum256 env prior
      \<and> decide_save env tg st = (Some decision, sth)
      \<and> res_Decision decision \<noteq> DecisionDeny \<and> (res_Decision decision = DecisionAsk \<longrightarrow> sr_Confirm (tg_request tg) \<noteq> [])
      \<and> file_saved env tg (se_permMode (st_session sth)) (st_disk sth) (st_disk st')
      \<and> (ans = Aborted \<or> ans = Saved (sv_Sum256 env (sr_Content (tg_request tg)))))"
proof (cases "prepare_save env path body (st_disk st)")
  case (Inl a)
  then have "ans = a" "st' = st" using assms(1) by (simp_all add: handlePutFiles_def)
  moreover have "a \<noteq> Saved h" for h using Inl unfolding prepare_save_def Let_def
    by (auto split: if_splits option.splits sum.splits prod.splits file_node.splits)
  ultimately show ?thesis using Inl by (intro disjI1) (simp add: left_by_hooks_def)
next
  case (Inr tg)
  obtain dec sth where dec: "decide_save env tg st = (dec, sth)" by fastforce
  have left: "left_by_hooks env path body st = st_disk sth" "save_temp_left env path body st q = temp_left (later_io env tg) q" for q
    using Inr dec by (simp_all add: left_by_hooks_def save_temp_left_def)
  show ?thesis
  proof (cases dec)
    case None
    then have "ans = Aborted" "st' = sth" using assms(1) Inr dec by (simp_all add: handlePutFiles_def)
    then show ?thesis by (intro disjI1) (simp add: left)
  next
    case (Some decision)
    let ?confirm = "sr_Confirm (tg_request tg)"
    let ?dropped = "sth\<lparr>st_memos := dropSaveHookMemo (memo_key env tg) (st_memos sth)\<rparr>"
    consider "res_Decision decision = DecisionDeny \<or> res_Decision decision = DecisionAsk \<and> ?confirm = []"
      | "res_Decision decision \<noteq> DecisionDeny" "res_Decision decision = DecisionAsk \<longrightarrow> ?confirm \<noteq> []" by blast
    then show ?thesis
    proof cases
      case 1
      then have "\<forall>h. ans \<noteq> Saved h" "st_disk st' = st_disk sth"
        using assms(1) Inr dec Some by (auto simp: handlePutFiles_def Let_def split: if_splits)
      then show ?thesis by (intro disjI1) (simp add: left)
    next
      case 2
      then have c: "commit_save env tg (save_source (res_Decision decision) (res_Stage decision) ?confirm) ?dropped = (ans, st')"
        using assms(1) Inr dec Some by (auto simp: handlePutFiles_def Let_def split: if_splits prod.splits)
      have f: "temp_fresh (later_io env tg) (st_disk ?dropped)"
        using assms(2) Inr dec by (simp add: save_temp_fresh_def)
      from commit_save_disk [OF c f] show ?thesis
      proof
        assume "ans \<noteq> Aborted \<and> (\<forall>h. ans \<noteq> Saved h) \<and> (\<forall>q. st_disk st' q = st_disk ?dropped q \<or> temp_left (later_io env tg) q)"
        then show ?thesis by (intro disjI1) (simp add: left)
      next
        assume "(ans = Aborted \<or> ans = Saved (sv_Sum256 env (sr_Content (tg_request tg))))
          \<and> file_saved env tg (se_permMode (st_session ?dropped)) (st_disk ?dropped) (st_disk st')"
        then have saved: "ans = Aborted \<or> ans = Saved (sv_Sum256 env (sr_Content (tg_request tg)))"
          "file_saved env tg (se_permMode (st_session sth)) (st_disk sth) (st_disk st')" by simp_all
        from prepared_facts [OF Inr] obtain prior where
          "decode_save env body = Some (tg_request tg)"
          "\<not> writePending (paths_of (tg_io tg)) (sv_activeWrites env True) (sv_pending env True) (tg_target tg)"
          "os_ReadFile (tg_io tg) (st_disk st) (tg_target tg) = Inr prior" "tg_hash tg = sv_Sum256 env prior"
          "EqualFold (sr_BaseSHA256 (tg_request tg)) (tg_hash tg)" by metis
        with 2 dec [unfolded Some] saved show ?thesis by (intro disjI2) blast
      qed
    qed
  qed
qed

text \<open>A confirmed save of a session in default mode.\<close>

definition demo_save :: "(unit, unit) save_env" where
  "demo_save = \<lparr>sv_sep = CHR ''/'', sv_io = demo_io,
     sv_decode = (\<lambda>_. Some \<lparr>sr_Content = ''hi'', sr_BaseSHA256 = replicate 64 (CHR ''0''), sr_Confirm = ''once''\<rparr>),
     sv_Sum256 = (\<lambda>s. replicate 64 (if s = ''hi'' then CHR ''1'' else CHR ''0'')), sv_OpenRoot = (\<lambda>_. True),
     sv_activeWrites = (\<lambda>_. []), sv_pending = (\<lambda>_. []), sv_lockFree = (\<lambda>_. True), sv_EvalLater = Inr,
     sv_view = \<lparr>asPermissionTarget = Some \<circ> wi_Path, asPath = (\<lambda>_. None), asCommand = (\<lambda>_. None), asQuery = (\<lambda>_. None),
       marshal = (\<lambda>_. None), unmarshalFields = (\<lambda>_. None)\<rparr>,
     sv_ToolContext = \<lparr>tc_PermissionMode = PermissionDefault\<rparr>, sv_hook_os = demo_hook_os, sv_hooks = empty_snapshot,
     sv_hook_cfg = demo_hook_config, sv_Model = [], sv_null = None, sv_saved = None, sv_now = 7, sv_data = (\<lambda>_. ())\<rparr>"

definition demo_save_state :: "(unit, unit, unit) save_state" where
  "demo_save_state = \<lparr>st_session = newSession ''s'' 1 no_rules ModeDefault, st_disk = w_disk demo_world, st_memos = []\<rparr>"

lemma demo_save_paths:
  "with_workdir demo_io = Some demo_io" "openInsideRoots (\<lambda>_. True) (paths_of demo_io) ''/w/a'' = Some (''/w'', ''a'')"
  "JoinPath [''/w'', ''a''] = ''/w/a''" "canonicalSavePath (paths_of demo_io) (pe_WorkingDir demo_io) ''/w/a'' = ''a''"
  "saveTargetForms ''/w'' ''a'' ''/w/a'' ''a'' = [''a'', ''/w/a'']"
  by (simp_all add: with_workdir_def openInsideRoots_def locateInsideRoots_def evaluated_root_def canonicalSavePath_def
      startsWithParent_def saveTargetForms_def path_simps demo_io_def path_env.defs)

definition demo_target :: save_target where
  "demo_target = \<lparr>tg_io = demo_io,
     tg_request = \<lparr>sr_Content = ''hi'', sr_BaseSHA256 = replicate 64 (CHR ''0''), sr_Confirm = ''once''\<rparr>,
     tg_path = ''a'', tg_target = ''/w/a'', tg_hash = replicate 64 (CHR ''0''), tg_perm = 493, tg_canon = ''a''\<rparr>"

lemma demo_save_prepared: "prepare_save demo_save ''a'' [] (w_disk demo_world) = Inr demo_target"
proof -
  have d: "decode_save demo_save [] = Some (tg_request demo_target)"
    by (simp add: decode_save_def demo_save_def demo_target_def filesMaxContent_def utf8_Valid_def chunks_ascii decode_rune.simps
        is_hex_def is_digit_def list_all_iff)
  have s: "os_Stat demo_io (w_disk demo_world) ''/w/a'' = Inr (Regular [CHR ''x'', CHR '' '', NL, CHR ''y'', NL] 493 0)"
    by (simp add: os_Stat_def demo_faults demo_entry demo_disk followed_def)
  have u: "utf8_Valid [CHR ''x'', CHR '' '', NL, CHR ''y'', NL]"
    by (simp add: utf8_Valid_def chunks_ascii decode_rune.simps)
  have n: "char_of (0 :: nat) \<notin> set [CHR ''x'', CHR '' '', NL, CHR ''y'', NL]" by (simp add: char_of_def)
  have "TrimSpace ''a'' \<noteq> []" by (simp add: path_simps)
  then show ?thesis
    using d s u n by (simp add: prepare_save_def demo_save_paths demo_paths_resolve demo_read demo_target_def
        writePending_def demo_save_def Let_def)
qed

lemma demo_save_decided:
  obtains decision sth where "decide_save demo_save demo_target demo_save_state = (Some decision, sth)"
    "res_Decision decision = DecisionAsk" "st_disk sth = w_disk demo_world"
proof -
  let ?req = "save_request_of demo_save demo_target ModeDefault no_rules"
  have m: "se_permMode (st_session demo_save_state) = ModeDefault" "se_permRules (st_session demo_save_state) = no_rules"
    by (simp_all add: demo_save_state_def newSession_def Emit_def Let_def)
  have no: "dispatchAll demo_hook_os empty_snapshot cfg e w = (Some [], w)" for cfg e and w :: disk
    by (simp add: dispatchAll_def matchingHooks_def empty_snapshot_def demo_hook_os_def)
  have h: "save_hook demo_save demo_target (normalized ?req) demo_save_state
    = (Some None, demo_save_state\<lparr>st_memos := putSaveHookMemo (memo_key demo_save demo_target) None []\<rparr>)"
    by (simp add: save_hook_def takeSaveHookMemo_def dropSaveHookMemo_def demo_save_state_def demo_target_def preToolDecision_def
        demo_save_def tool_envelope_def summarize_json_def save_request_of_def normalized_def Dispatch_def no Decisive_def
        no_result_def Let_def)
  have nr: "AlwaysDeny no_rules = []" "AlwaysAsk no_rules = []" "rq_Rules ?req = no_rules" "rq_Mode ?req = ModeDefault"
    by (simp_all add: no_rules_def save_request_of_def)
  have f: "first_form sep \<lparr>AlwaysAllow = [], AlwaysDeny = [], AlwaysAsk = []\<rparr> tool forms = None" for sep tool forms
    using first_form_None [of sep "[]" "[]" tool forms] by (simp add: bucket_hit_def list_ex_iff)
  have r: "res_Decision (fst (Resolve sep v (save_callbacks None) ?req)) = DecisionAsk" for sep v
    by (simp add: Resolve_def save_request_of_def run_hook_def FirstMatchingRule_def first_match_def no_rules_def
        write_checkPermissions_def modifies_permission_def neutralContext_def run_prompt_def run_classifier_def ask_like_default_def
        mk_result_def Let_def)
  have "res_Decision (fst (resolveSavePermission sep v (save_callbacks None) ?req forms)) = DecisionAsk" for sep v forms
    using r [of sep v] by (simp add: resolveSavePermission_def nr f Let_def)
  with that [of "fst (resolveSavePermission (sv_sep demo_save) (sv_view demo_save) (save_callbacks None) ?req
      (saveTargetForms (pe_WorkingDir (tg_io demo_target)) (tg_canon demo_target) (tg_target demo_target) (tg_path demo_target)))"] h
  show ?thesis by (simp add: decide_save_def m nr f Let_def) (simp add: demo_save_state_def)
qed

lemma demo_save_committed:
  assumes "st_disk st = w_disk demo_world"
  shows "fst (commit_save demo_save demo_target source st) = Saved (replicate 64 (CHR ''1''))"
proof -
  have io: "entry (later_io demo_save demo_target) ''/w/a'' = Inr ''/w/a''"
    by (simp add: later_io_def demo_target_def entry_def path_simps demo_io_def)
  have faults: "io_Read (later_io demo_save demo_target) p = None" "io_CreateTemp (later_io demo_save demo_target) = Inr ''/w/t''"
    "io_Write (later_io demo_save demo_target) = None" "io_Chmod (later_io demo_save demo_target) = None"
    "io_Sync (later_io demo_save demo_target) = None" "io_Close (later_io demo_save demo_target) = None"
    "io_Rename (later_io demo_save demo_target) = None" for p
    by (simp_all add: later_io_def demo_target_def demo_io_def)
  have loc: "resolveInsideRoots (paths_of (later_io demo_save demo_target)) ''/w/a'' = Some ''/w/a''"
    by (simp add: resolveInsideRoots_def locateInsideRoots_def evaluated_root_def later_io_def demo_target_def demo_save_def
        path_simps demo_io_def path_env.defs)
  have rd: "os_ReadFile (later_io demo_save demo_target) (w_disk demo_world) ''/w/a'' = Inr [CHR ''x'', CHR '' '', NL, CHR ''y'', NL]"
    by (simp add: os_ReadFile_def io faults demo_disk followed_def)
  obtain d where w: "AtomicWrite (later_io demo_save demo_target) ''/w/a'' c p (w_disk demo_world) = (None, d c p)" for c p
    by (simp add: AtomicWrite_def os_Rename_def io faults demo_disk Let_def)
  have no: "hook_PostToolUse demo_hook_os empty_snapshot cfg v md mode t w = (Some no_result, w)"
    if "marshal v (th_Input t) = None" "th_Result t = None" "th_Err t = None" for cfg v md mode t and w :: disk
    using that by (simp add: hook_PostToolUse_def tool_envelope_def summarize_json_def dispatchAll_def matchingHooks_def
        empty_snapshot_def demo_hook_os_def)
  have t: "tg_target demo_target = ''/w/a''" "sr_Content (tg_request demo_target) = ''hi''"
    "tg_hash demo_target = replicate 64 (CHR ''0'')" by (simp_all add: demo_target_def)
  have s: "sv_hook_os demo_save = demo_hook_os" "sv_hooks demo_save = empty_snapshot" "sv_saved demo_save = None"
    "marshal (sv_view demo_save) x = None" "sv_Sum256 demo_save c = replicate 64 (if c = ''hi'' then CHR ''1'' else CHR ''0'')" for x c
    by (simp_all add: demo_save_def)
  show ?thesis
    unfolding commit_save_def Let_def later_io_def [symmetric] assms t loc
    by (simp add: rd w s no)
qed

theorem saved_only_as_permitted_witness:
  "\<exists>st'. handlePutFiles demo_save ''a'' [] (Some demo_save_state) = (Saved (replicate 64 (CHR ''1'')), Some st')
    \<and> (\<exists>tg mode d. file_saved demo_save tg mode d (st_disk st'))"
proof -
  obtain decision sth where d: "decide_save demo_save demo_target demo_save_state = (Some decision, sth)"
    "res_Decision decision = DecisionAsk" "st_disk sth = w_disk demo_world" by (rule demo_save_decided)
  have disk: "st_disk demo_save_state = w_disk demo_world" by (simp add: demo_save_state_def)
  have confirm: "sr_Confirm (tg_request demo_target) = ''once''" by (simp add: demo_target_def)
  let ?st = "sth\<lparr>st_memos := dropSaveHookMemo (memo_key demo_save demo_target) (st_memos sth)\<rparr>"
  let ?source = "save_source DecisionAsk (res_Stage decision) ''once''"
  have "fst (commit_save demo_save demo_target ?source ?st) = Saved (replicate 64 (CHR ''1''))"
    by (rule demo_save_committed) (simp add: d(3))
  then obtain st' where c: "commit_save demo_save demo_target ?source ?st = (Saved (replicate 64 (CHR ''1'')), st')"
    by (metis prod.collapse)
  have h: "handlePutFiles demo_save ''a'' [] (Some demo_save_state) = (Saved (replicate 64 (CHR ''1'')), Some st')"
    using demo_save_prepared d c by (simp add: handlePutFiles_def disk confirm Let_def)
  have "save_temp_fresh demo_save ''a'' [] demo_save_state"
    using demo_save_prepared d(1,3)
    by (simp add: save_temp_fresh_def demo_save_state_def temp_fresh_def later_io_def demo_target_def demo_io_def demo_world_def)
  from saved_only_as_permitted [OF h this] h show ?thesis by blast
qed

section \<open>Reading a file or directory for the browser\<close>

definition filesLanguage :: "string \<Rightarrow> string" where
  "filesLanguage path =
     (let ext = ToLower (Ext path) in
      if ext = ''.go'' then ''go''
      else if ext \<in> {''.js'', ''.mjs'', ''.cjs''} then ''javascript''
      else if ext = ''.json'' then ''json''
      else if ext \<in> {''.html'', ''.htm''} then ''html''
      else if ext = ''.css'' then ''css''
      else if ext \<in> {''.yaml'', ''.yml''} then ''yaml''
      else if ext = ''.toml'' then ''toml''
      else if ext \<in> {''.sh'', ''.bash'', ''.zsh''} then ''shell''
      else if ext \<in> {''.md'', ''.markdown''} then ''markdown''
      else ''text'')"

datatype files_answer =
    FilesError nat
  | FilesDir "(string \<times> bool \<times> int) list"
  | FilesTooLarge nat
  | FilesContent string string nat string

text \<open>
  An entry of the directory walk has its path, whether it is a directory, its size, and whether it was
  skipped; the walk itself is a parameter, and so is which errors of the system mean a missing file.
\<close>

definition handleGetFiles :: "('c, 'd) save_env \<Rightarrow> (string \<Rightarrow> bool) \<Rightarrow> (string \<Rightarrow> (string \<times> bool \<times> int \<times> bool) list option) \<Rightarrow>
    string \<Rightarrow> disk option \<Rightarrow> files_answer" where
  "handleGetFiles env notExist walk path0 found =
     (case found of
        None \<Rightarrow> FilesError 404
      | Some d \<Rightarrow>
        case with_workdir (sv_io env) of
          None \<Rightarrow> FilesError 500
        | Some io \<Rightarrow>
        let path = (if path0 = [] then ''.'' else path0) in
        case ResolvePath (paths_of io) path PathRead of
          Inl e \<Rightarrow> FilesError (if (case e of NotExist \<Rightarrow> True | OS_Error t \<Rightarrow> notExist t | _ \<Rightarrow> False) then 404 else 403)
        | Inr resolved \<Rightarrow>
        case openInsideRoots (sv_OpenRoot env) (paths_of io) resolved of
          None \<Rightarrow> FilesError 403
        | Some (root, rel) \<Rightarrow>
        let target = JoinPath [root, rel] in
        case os_Stat io d target of
          Inl _ \<Rightarrow> FilesError 404
        | Inr Directory \<Rightarrow>
            (case walk target of
               None \<Rightarrow> FilesError 500
             | Some walked \<Rightarrow>
                 FilesDir (map (\<lambda>(p, isdir, size, _). (Base p, isdir, size))
                   (filter (\<lambda>(p, _, _, skipped). \<not> skipped \<and> Slash \<notin> set p) walked)))
        | Inr (Symlink _) \<Rightarrow> FilesError 415
        | Inr (Regular c _ _) \<Rightarrow>
            if filesMaxContent < length c then FilesTooLarge (length c)
            else case os_ReadFile io d target of
              Inl _ \<Rightarrow> FilesError 500
            | Inr all \<Rightarrow>
                let content = take (filesMaxContent + 1) all in
                if filesMaxContent < length content then FilesTooLarge (length content)
                else if char_of (0 :: nat) \<in> set (take 8192 content) then FilesError 415
                else if \<not> utf8_Valid content then FilesError 415
                else FilesContent content (sv_Sum256 env content) (length content) (filesLanguage target))"

text \<open>A file the browser is shown is at most two mebibytes of valid UTF-8, inside the workspace.\<close>

lemma shown_file:
  assumes "handleGetFiles env notExist walk path (Some d) = FilesContent content h n lang"
  obtains io resolved root rel where "with_workdir (sv_io env) = Some io"
    "ResolvePath (paths_of io) (if path = [] then ''.'' else path) PathRead = Inr resolved"
    "openInsideRoots (sv_OpenRoot env) (paths_of io) resolved = Some (root, rel)"
    "os_ReadFile io d (JoinPath [root, rel]) = Inr content" "utf8_Valid content" "length content \<le> filesMaxContent"
    "h = sv_Sum256 env content"
proof -
  from assms obtain io resolved root rel all where a: "with_workdir (sv_io env) = Some io"
    "ResolvePath (paths_of io) (if path = [] then ''.'' else path) PathRead = Inr resolved"
    "openInsideRoots (sv_OpenRoot env) (paths_of io) resolved = Some (root, rel)"
    "os_ReadFile io d (JoinPath [root, rel]) = Inr all" "content = take (filesMaxContent + 1) all"
    "utf8_Valid content" "length content \<le> filesMaxContent" "h = sv_Sum256 env content"
    unfolding handleGetFiles_def Let_def
    by (auto split: option.splits sum.splits prod.splits file_node.splits if_splits)
  from a(5,7) have all: "all = content" by (cases "length all \<le> filesMaxContent + 1") auto
  show ?thesis by (rule that [OF a(1-3) a(4) [unfolded all] a(6-8)])
qed

text \<open>What the browser shows can be saved: the hash it got passes the check of a save.\<close>

lemma shown_hash_accepted:
  assumes "handleGetFiles env notExist walk path (Some d) = FilesContent content h n lang"
  shows "EqualFold h (sv_Sum256 env content)"
  using assms by (rule shown_file) simp

end
