(* ===== verification/Evidence_Ranges.thy ===== *)
theory Evidence_Ranges
  imports File_Tools Context_Window "HOL-Library.Product_Lexorder" "HOL-Library.AList"
begin

text \<open>
  Which lines of a large file go into a prompt (\<open>internal/contextpack/range_pipeline.go\<close>, and the line
  ranges of mentions in \<open>internal/mentions/line_range.go\<close>): head, tail and lines around search terms,
  merged into ranges, read in the order of their priority until the budget is used up. The properties:
  merging covers exactly the chosen lines and the gaps of at most two lines between them, and what is read
  stays within the budget and is text of the file.
\<close>

section \<open>Line ranges in mentions\<close>

fun last_index :: "string \<Rightarrow> string \<Rightarrow> nat option" where
  "last_index [] sub = (if sub = [] then Some 0 else None)"
| "last_index (c # s) sub =
     (case last_index s sub of Some i \<Rightarrow> Some (Suc i) | None \<Rightarrow> if HasPrefix (c # s) sub then Some 0 else None)"

text \<open>\<open>strings.Split\<close> with a separator of several bytes.\<close>

function Split_str :: "string \<Rightarrow> string \<Rightarrow> string list" where
  "Split_str s sep =
     (case Index_of s sep of
        None \<Rightarrow> [s]
      | Some i \<Rightarrow> if sep = [] then [s] else take i s # Split_str (drop (i + length sep) s) sep)"
  by auto
termination
proof (relation "measure (\<lambda>(s, sep). length s)", goal_cases)
  case (2 s sep i)
  from Index_of_bound [OF 2(1)] 2(2) show ?case by (cases sep) auto
qed simp

declare Split_str.simps [simp del]

definition range_number :: "string \<Rightarrow> int option" where
  "range_number s =
     (if s = [] \<or> \<not> list_all (\<lambda>r. 48 \<le> r \<and> r \<le> 57) (runes s) then None
      else Some (foldl (\<lambda>n r. wrap64 (wrap64 (n * 10) + int (r - 48))) 0 (runes s)))"

definition ParseLineRangeToken :: "string \<Rightarrow> (string \<times> int \<times> int) option" where
  "ParseLineRangeToken token =
     (case last_index token ''#L'' of
        None \<Rightarrow> None
      | Some idx \<Rightarrow>
          if idx = 0 then None
          else case Split_str (drop (idx + 2) token) ''-L'' of
            [a, b] \<Rightarrow>
              (case (range_number (TrimSpace a), range_number (TrimSpace b)) of
                 (Some s, Some e) \<Rightarrow> if s \<le> 0 \<or> e < s then None else Some (take idx token, s, e)
               | _ \<Rightarrow> None)
          | _ \<Rightarrow> None)"

fun mention_token :: "nat list \<Rightarrow> nat list" where
  "mention_token rs = takeWhile (\<lambda>r. \<not> is_space r) rs"

function sanitize_runes :: "nat list \<Rightarrow> string" where
  "sanitize_runes [] = []"
| "sanitize_runes (r # rs) =
     (if r \<noteq> 64 then encode_rune r @ sanitize_runes rs
      else
        let tok = string_of_runes (mention_token rs);
            tok = (if Contains tok ''#L''
              then (case ParseLineRangeToken tok of Some (path, _, _) \<Rightarrow> path | None \<Rightarrow> tok) else tok)
        in CHR ''@'' # tok @ sanitize_runes (drop (length (mention_token rs)) rs))"
  by pat_completeness auto
termination by (relation "measure length") auto

definition sanitizeInputForExpansion :: "string \<Rightarrow> string" where
  "sanitizeInputForExpansion input = sanitize_runes (runes input)"

section \<open>Metadata of a file\<close>

record headingEntry =
  hd_Line :: int
  hd_Level :: nat
  hd_Text :: string

record mentionRef =
  mr_Path :: string
  mr_Abs :: string
  mr_IsDir :: bool
  mr_Tree :: string
  mr_SizeBytes :: int
  mr_HasLineRange :: bool
  mr_LineRangeStart :: int
  mr_LineRangeEnd :: int

record fileEvidenceMetadata =
  fm_Path :: string
  fm_AbsPath :: string
  fm_Bytes :: int
  fm_Lines :: int
  fm_Extension :: string
  fm_Format :: string
  fm_UTF8 :: bool
  fm_HeadingCount :: nat
  fm_FirstHeading :: string
  fm_LastHeading :: string
  fm_LogLike :: bool
  fm_StatusLike :: bool
  fm_Headings :: "headingEntry list"

record selectedRange =
  rg_StartLine :: int
  rg_EndLine :: int
  rg_Kind :: string
  rg_Reason :: string
  rg_Score :: int

definition largeFileBytesThreshold :: int where "largeFileBytesThreshold = 16 * 1024"

definition shouldUseRangePipeline :: "mentionRef \<Rightarrow> bool" where
  "shouldUseRangePipeline ref =
     (\<not> mr_IsDir ref \<and> (mr_HasLineRange ref \<or> largeFileBytesThreshold \<le> mr_SizeBytes ref))"

definition looksLikeLogOrStatusPath :: "string \<Rightarrow> bool" where
  "looksLikeLogOrStatusPath path =
     list_ex (Contains (ToLower (Base path)))
       [''log'', ''changelog'', ''status'', ''phase'', ''todo'', ''task'', ''progress'', ''summary'']"

definition parseMarkdownHeading :: "int \<Rightarrow> string \<Rightarrow> headingEntry option" where
  "parseMarkdownHeading lineNo line =
     (let trim = TrimSpace line; level = length (takeWhile (\<lambda>c. c = CHR ''#'') trim) in
      if level = 0 \<or> 6 < level \<or> length trim \<le> level \<or> trim ! level \<noteq> CHR '' '' then None
      else let t = TrimSpace (drop level trim) in
        if t = [] then None else Some \<lparr>hd_Line = lineNo, hd_Level = level, hd_Text = t\<rparr>)"

fun headings_from :: "int \<Rightarrow> string list \<Rightarrow> headingEntry list option" where
  "headings_from n [] = Some []"
| "headings_from n (chunk # cs) =
     (let chunk = (if n = 1 then TrimPrefix chunk BOM else chunk) in
      if \<not> utf8_Valid chunk then None
      else map_option (\<lambda>hs. (case parseMarkdownHeading n (line_of chunk) of Some h \<Rightarrow> [h] | None \<Rightarrow> []) @ hs)
        (headings_from (n + 1) cs))"

definition scanFileEvidenceMetadata :: "io_env \<Rightarrow> disk \<Rightarrow> mentionRef \<Rightarrow> fileEvidenceMetadata option" where
  "scanFileEvidenceMetadata env d ref =
     (case os_Stat env d (mr_Abs ref) of
        Inr (Regular c _ _) \<Rightarrow>
          (case os_ReadFile env d (mr_Abs ref) of
             Inl _ \<Rightarrow> None
           | Inr content \<Rightarrow>
               map_option (\<lambda>hs. let ext = ToLower (Ext (mr_Path ref)); log = looksLikeLogOrStatusPath (mr_Path ref) in
                   \<lparr>fm_Path = mr_Path ref, fm_AbsPath = mr_Abs ref, fm_Bytes = int (length c), fm_Lines = int (length (read_strings content)),
                    fm_Extension = ext, fm_Format = (if ext = ''.md'' \<or> ext = ''.markdown'' then ''markdown'' else ''text''),
                    fm_UTF8 = True, fm_HeadingCount = length hs, fm_FirstHeading = (if hs = [] then [] else hd_Text (hd hs)),
                    fm_LastHeading = (if hs = [] then [] else hd_Text (last hs)), fm_LogLike = log, fm_StatusLike = log, fm_Headings = hs\<rparr>)
                 (headings_from 1 (read_strings content)))
      | _ \<Rightarrow> None)"

section \<open>Choosing ranges\<close>

definition lexicalTerms :: "string \<Rightarrow> string list" where
  "lexicalTerms input =
     filter (\<lambda>t. 3 \<le> length t)
       (Fields (map (\<lambda>c. if c \<in> set ''.,:;?!-_/'' then CHR '' '' else c) (ToLower input)))"

definition default_terms :: "string list" where
  "default_terms = [''complete'', ''completed'', ''implemented'', ''implementation'', ''pending'', ''blocked'',
     ''blocker'', ''todo'', ''remaining'', ''next'', ''status'', ''issue'', ''risk'', ''regression'',
     ''validation'', ''context'', ''packing'']"

definition lexicalSearchTerms :: "string \<Rightarrow> string list" where
  "lexicalSearchTerms input = sort (remdups (default_terms @ filter (\<lambda>t. 3 \<le> length t) (lexicalTerms input)))"

definition match_range :: "int \<Rightarrow> int \<Rightarrow> string \<Rightarrow> selectedRange" where
  "match_range totalLines lineNo term =
     \<lparr>rg_StartLine = max 1 (lineNo - 20), rg_EndLine = min totalLines (lineNo + 40), rg_Kind = ''match'',
      rg_Reason = ''matched: '' @ term, rg_Score = 9\<rparr>"

fun match_lines :: "string list \<Rightarrow> int \<Rightarrow> int \<Rightarrow> string list \<Rightarrow> selectedRange list" where
  "match_lines terms totalLines n [] = []"
| "match_lines terms totalLines n (chunk # cs) =
     (case find (Contains (ToLower (line_of chunk))) terms of
        Some t \<Rightarrow> [match_range totalLines n t]
      | None \<Rightarrow> []) @ match_lines terms totalLines (n + 1) cs"

definition scanMatchRanges :: "io_env \<Rightarrow> disk \<Rightarrow> string \<Rightarrow> string list \<Rightarrow> int \<Rightarrow> selectedRange list" where
  "scanMatchRanges env d absPath terms totalLines =
     (if terms = [] \<or> totalLines \<le> 0 then []
      else case os_ReadFile env d absPath of
        Inl _ \<Rightarrow> []
      | Inr content \<Rightarrow> take 12 (match_lines terms totalLines 1 (read_strings content)))"

definition merge_step :: "selectedRange list \<Rightarrow> selectedRange \<Rightarrow> selectedRange list" where
  "merge_step merged r =
     (if rg_StartLine r \<le> 0 \<or> rg_EndLine r < rg_StartLine r then merged
      else case merged of
        [] \<Rightarrow> [r]
      | prev # older \<Rightarrow>
          if rg_StartLine r \<le> rg_EndLine prev + 3
          then prev\<lparr>rg_EndLine := max (rg_EndLine prev) (rg_EndLine r),
                 rg_Kind := if rg_Kind prev \<noteq> rg_Kind r then ''merged'' else rg_Kind prev,
                 rg_Reason := if rg_Reason prev = [] then rg_Reason r else rg_Reason prev\<rparr> # older
          else r # merged)"

text \<open>The merged ranges are kept newest first; \<open>sort_key\<close> is stable, like \<open>sort.SliceStable\<close>.\<close>

definition mergeSelectedRanges :: "selectedRange list \<Rightarrow> selectedRange list" where
  "mergeSelectedRanges ranges = rev (foldl merge_step [] (sort_key (\<lambda>r. (rg_StartLine r, rg_EndLine r)) ranges))"

text \<open>The lines of a range; the ranges that count.\<close>

definition range_lines :: "selectedRange \<Rightarrow> int set" where
  "range_lines r = {rg_StartLine r..rg_EndLine r}"

definition proper :: "selectedRange \<Rightarrow> bool" where
  "proper r = (0 < rg_StartLine r \<and> rg_StartLine r \<le> rg_EndLine r)"

text \<open>What holds of the merged ranges, newest first, of the ranges seen so far.\<close>

definition merge_inv :: "selectedRange list \<Rightarrow> selectedRange list \<Rightarrow> bool" where
  "merge_inv seen merged =
     (sorted_wrt (\<lambda>b a. rg_EndLine a + 3 < rg_StartLine b) merged
      \<and> (\<forall>m \<in> set merged. proper m
          \<and> (\<exists>r \<in> set seen. proper r \<and> rg_StartLine r = rg_StartLine m) \<and> (\<exists>r \<in> set seen. proper r \<and> rg_EndLine r = rg_EndLine m)
          \<and> (\<forall>l \<in> range_lines m. \<exists>r \<in> set seen. proper r \<and> rg_StartLine r \<le> l \<and> l \<le> rg_EndLine r + 2))
      \<and> (\<forall>r \<in> set seen. proper r \<longrightarrow> (\<exists>m \<in> set merged. rg_StartLine m \<le> rg_StartLine r \<and> rg_EndLine r \<le> rg_EndLine m)))"

lemma merge_inv_more:
  assumes "merge_inv seen merged" "\<not> proper r"
  shows "merge_inv (seen @ [r]) merged"
  using assms unfolding merge_inv_def by auto

lemma merge_inv_new:
  assumes "merge_inv seen merged" "proper r" "\<forall>m \<in> set merged. rg_EndLine m + 3 < rg_StartLine r"
  shows "merge_inv (seen @ [r]) (r # merged)"
  using assms unfolding merge_inv_def range_lines_def by (auto; fastforce)

lemma merge_inv_join:
  assumes inv: "merge_inv seen (prev # older)" and r: "proper r" "rg_StartLine prev \<le> rg_StartLine r"
    "rg_StartLine r \<le> rg_EndLine prev + 3"
    and m: "rg_StartLine m = rg_StartLine prev" "rg_EndLine m = max (rg_EndLine prev) (rg_EndLine r)"
  shows "merge_inv (seen @ [r]) (m # older)"
proof -
  have p: "proper prev" "\<exists>r \<in> set seen. proper r \<and> rg_StartLine r = rg_StartLine prev"
    "\<exists>r \<in> set seen. proper r \<and> rg_EndLine r = rg_EndLine prev"
    "\<forall>l \<in> range_lines prev. \<exists>r \<in> set seen. proper r \<and> rg_StartLine r \<le> l \<and> l \<le> rg_EndLine r + 2"
    using inv by (auto simp: merge_inv_def)
  have m_proper: "proper m" using p(1) r m by (auto simp: proper_def)
  have near: "\<exists>q \<in> set (seen @ [r]). proper q \<and> rg_StartLine q \<le> l \<and> l \<le> rg_EndLine q + 2" if "l \<in> range_lines m" for l
  proof (cases "l \<le> rg_EndLine prev")
    case True
    with that p(4) m(1) show ?thesis by (auto simp: range_lines_def)
  next
    case after: False
    show ?thesis
    proof (cases "rg_StartLine r \<le> l")
      case True
      with that after r(1) m show ?thesis by (auto simp: range_lines_def)
    next
      case False
      from p(3) obtain q where "q \<in> set seen" "proper q" "rg_EndLine q = rg_EndLine prev" by blast
      with False after r(3) show ?thesis by (intro bexI [of _ q]) (auto simp: proper_def)
    qed
  qed
  have ends: "\<exists>q \<in> set (seen @ [r]). proper q \<and> rg_EndLine q = rg_EndLine m"
    using p(3) r(1) m(2) by (cases "rg_EndLine r \<le> rg_EndLine prev") (auto simp: max_def)
  have older: "sorted_wrt (\<lambda>b a. rg_EndLine a + 3 < rg_StartLine b) (m # older)"
    using inv m(1) by (simp add: merge_inv_def)
  show ?thesis
    unfolding merge_inv_def
  proof (intro conjI older ballI impI)
    fix x assume x: "x \<in> set (m # older)"
    show "proper x" using x m_proper inv by (auto simp: merge_inv_def)
    show "\<exists>q \<in> set (seen @ [r]). proper q \<and> rg_StartLine q = rg_StartLine x"
      using x p(2) m(1) inv by (auto simp: merge_inv_def)
    show "\<exists>q \<in> set (seen @ [r]). proper q \<and> rg_EndLine q = rg_EndLine x"
      using x ends inv by (auto simp: merge_inv_def)
    fix l assume "l \<in> range_lines x"
    then show "\<exists>q \<in> set (seen @ [r]). proper q \<and> rg_StartLine q \<le> l \<and> l \<le> rg_EndLine q + 2"
      using x near inv by (auto simp: merge_inv_def)
  next
    fix q assume q: "q \<in> set (seen @ [r])" "proper q"
    consider "q = r" | "q \<in> set seen" using q(1) by auto
    then show "\<exists>x \<in> set (m # older). rg_StartLine x \<le> rg_StartLine q \<and> rg_EndLine q \<le> rg_EndLine x"
    proof cases
      case 1
      with r(2) m show ?thesis by auto
    next
      case 2
      with q(2) inv obtain x where "x \<in> set (prev # older)" "rg_StartLine x \<le> rg_StartLine q" "rg_EndLine q \<le> rg_EndLine x"
        unfolding merge_inv_def by blast
      with m show ?thesis by auto
    qed
  qed
qed

lemma merge_inv_step:
  assumes inv: "merge_inv seen merged" and starts: "\<forall>q \<in> set seen. rg_StartLine q \<le> rg_StartLine r"
  shows "merge_inv (seen @ [r]) (merge_step merged r)"
proof (cases "proper r")
  case False
  then have "merge_step merged r = merged" by (auto simp: merge_step_def proper_def)
  with merge_inv_more [OF inv False] show ?thesis by simp
next
  case True
  then have ok: "\<not> (rg_StartLine r \<le> 0 \<or> rg_EndLine r < rg_StartLine r)" by (auto simp: proper_def)
  show ?thesis
  proof (cases merged)
    case Nil
    with merge_inv_new [OF inv True] ok show ?thesis by (simp add: merge_step_def)
  next
    case (Cons prev older)
    show ?thesis
    proof (cases "rg_StartLine r \<le> rg_EndLine prev + 3")
      case False
      have "rg_EndLine m + 3 < rg_StartLine r" if "m \<in> set merged" for m
        using that False inv Cons by (auto simp: merge_inv_def proper_def dest!: bspec [of "set older" _ m])
      with merge_inv_new [OF inv True] ok False Cons show ?thesis by (simp add: merge_step_def)
    next
      case join: True
      have "rg_StartLine prev \<le> rg_StartLine r" using inv starts Cons by (fastforce simp: merge_inv_def)
      from merge_inv_join [OF inv [unfolded Cons] True this join]
      show ?thesis using ok join Cons by (simp add: merge_step_def)
    qed
  qed
qed

lemma merge_inv_fold:
  "sorted (map rg_StartLine (seen @ rs)) \<Longrightarrow> merge_inv seen merged \<Longrightarrow> merge_inv (seen @ rs) (foldl merge_step merged rs)"
proof (induction rs arbitrary: seen merged)
  case (Cons r rs)
  then have "\<forall>q \<in> set seen. rg_StartLine q \<le> rg_StartLine r" by (auto simp: sorted_append)
  from merge_inv_step [OF Cons.prems(2) this] Cons.IH [of "seen @ [r]"] Cons.prems(1) show ?case by simp
qed simp

lemma merged_inv: "merge_inv (sort_key (\<lambda>r. (rg_StartLine r, rg_EndLine r)) ranges) (rev (mergeSelectedRanges ranges))"
proof -
  let ?rs = "sort_key (\<lambda>r. (rg_StartLine r, rg_EndLine r)) ranges"
  have "sorted (map (\<lambda>r. (rg_StartLine r, rg_EndLine r)) ?rs)" by simp
  then have "sorted (map rg_StartLine ?rs)" unfolding sorted_map by (rule sorted_wrt_mono_rel [rotated]) auto
  then show ?thesis using merge_inv_fold [of "[]" ?rs "[]"] by (simp add: merge_inv_def mergeSelectedRanges_def)
qed

lemma merged_proper:
  assumes "m \<in> set (mergeSelectedRanges ranges)"
  obtains r where "proper m" "r \<in> set ranges" "rg_EndLine r = rg_EndLine m"
  using merged_inv [of ranges] assms unfolding merge_inv_def by auto

text \<open>
  C22. Merging the chosen ranges loses nothing and reads little else: the merged ranges are in order with
  more than two lines between any two, every proper range lies within one of them, each begins and ends
  where some chosen range does, and every line in one is a chosen line or at most two lines behind one.
\<close>

theorem merged_ranges_exact:
  fixes ranges :: "selectedRange list"
  defines "ms \<equiv> mergeSelectedRanges ranges" and "rs \<equiv> filter proper ranges"
  shows "sorted_wrt (\<lambda>a b. rg_EndLine a + 3 < rg_StartLine b) ms
    \<and> list_all (\<lambda>r. list_ex (\<lambda>m. range_lines r \<subseteq> range_lines m) ms) rs
    \<and> list_all (\<lambda>m. proper m \<and> rg_StartLine m \<in> rg_StartLine ` set rs \<and> rg_EndLine m \<in> rg_EndLine ` set rs
        \<and> range_lines m \<subseteq> (\<Union>r \<in> set rs. {rg_StartLine r..rg_EndLine r + 2})) ms"
proof -
  let ?rs = "sort_key (\<lambda>r. (rg_StartLine r, rg_EndLine r)) ranges"
  let ?m = "foldl merge_step [] ?rs"
  have inv: "merge_inv ?rs ?m" using merged_inv [of ranges] by (simp add: mergeSelectedRanges_def)
  have ms: "ms = rev ?m" by (simp add: ms_def mergeSelectedRanges_def)
  have rs: "set rs = {r \<in> set ?rs. proper r}" by (auto simp: rs_def)
  have 1: "sorted_wrt (\<lambda>a b. rg_EndLine a + 3 < rg_StartLine b) ms"
    using inv by (simp add: ms merge_inv_def sorted_wrt_rev)
  have 2: "\<exists>m \<in> set ms. range_lines r \<subseteq> range_lines m" if "r \<in> set rs" for r
  proof -
    from that inv obtain m where "m \<in> set ms" "rg_StartLine m \<le> rg_StartLine r" "rg_EndLine r \<le> rg_EndLine m"
      unfolding rs ms merge_inv_def by auto
    then show ?thesis by (auto simp: range_lines_def)
  qed
  have 3: "proper m \<and> rg_StartLine m \<in> rg_StartLine ` set rs \<and> rg_EndLine m \<in> rg_EndLine ` set rs
      \<and> range_lines m \<subseteq> (\<Union>r \<in> set rs. {rg_StartLine r..rg_EndLine r + 2})" if "m \<in> set ms" for m
  proof -
    from that inv have *: "proper m" "\<exists>r \<in> set rs. rg_StartLine r = rg_StartLine m" "\<exists>r \<in> set rs. rg_EndLine r = rg_EndLine m"
      "\<forall>l \<in> range_lines m. \<exists>r \<in> set rs. rg_StartLine r \<le> l \<and> l \<le> rg_EndLine r + 2"
      using rs unfolding ms merge_inv_def by (fastforce, fastforce, fastforce, simp, meson)
    from *(2,3) have "rg_StartLine m \<in> rg_StartLine ` set rs" "rg_EndLine m \<in> rg_EndLine ` set rs" by (metis image_eqI)+
    moreover have "range_lines m \<subseteq> (\<Union>r \<in> set rs. {rg_StartLine r..rg_EndLine r + 2})" using *(4) by fastforce
    ultimately show ?thesis using *(1) by blast
  qed
  from 1 2 3 show ?thesis by (auto simp: list_all_iff list_ex_iff)
qed

section \<open>The manifest of headings\<close>

definition manifest_entry :: "string list \<Rightarrow> nat \<Rightarrow> nat \<Rightarrow> headingEntry \<Rightarrow> bool" where
  "manifest_entry terms n i h = (i < 16 \<or> int n - 16 \<le> int i \<or> list_ex (Contains (ToLower (hd_Text h))) terms)"

definition heading_line :: "headingEntry \<Rightarrow> string" where
  "heading_line h = ''L'' @ Itoa (hd_Line h) @ '' '' @ replicate (hd_Level h) (CHR ''#'') @ '' '' @ hd_Text h @ [NL]"

definition buildHeadingManifest :: "fileEvidenceMetadata \<Rightarrow> string list \<Rightarrow> string" where
  "buildHeadingManifest meta terms =
     (let hs = fm_Headings meta in
      if fm_Format meta \<noteq> ''markdown'' \<or> hs = [] then []
      else
        let matches = take 32 (map snd (filter (\<lambda>(i, h). manifest_entry terms (length hs) i h) (enumerate 0 hs)))
        in if matches = [] then []
           else TrimSuffix (concat (map heading_line matches)
             @ (if length matches < length hs
                then ''... omitted '' @ Itoa (int (length hs - length matches)) @ '' headings ...'' @ [NL] else [])) [NL])"

section \<open>Reading the ranges within the budget\<close>

definition isTailLikeRange :: "selectedRange \<Rightarrow> fileEvidenceMetadata \<Rightarrow> bool" where
  "isTailLikeRange r meta =
     (if fm_Lines meta \<le> 0 then False
      else if rg_Kind r = ''tail'' \<or> Contains (ToLower (rg_Reason r)) ''recent status'' then True
      else fm_Lines meta \<le> rg_EndLine r)"

definition rangePriority :: "selectedRange \<Rightarrow> fileEvidenceMetadata \<Rightarrow> int" where
  "rangePriority r meta =
     (if fm_LogLike meta \<or> fm_StatusLike meta
      then if isTailLikeRange r meta then 0
        else if rg_Kind r = ''match'' \<or> Contains (rg_Kind r) ''match'' then 1
        else if rg_Kind r = ''head'' then 2
        else 3
      else if rg_Kind r = ''head'' then 0
      else if isTailLikeRange r meta then 1
      else if rg_Kind r = ''match'' \<or> Contains (rg_Kind r) ''match'' then 2
      else 3)"

definition prioritizeRangesForBudget :: "selectedRange list \<Rightarrow> fileEvidenceMetadata \<Rightarrow> selectedRange list" where
  "prioritizeRangesForBudget ranges meta = sort_key (\<lambda>r. (rangePriority r meta, rg_StartLine r)) ranges"

definition rangeReadWindow :: "selectedRange \<Rightarrow> fileEvidenceMetadata \<Rightarrow> int \<Rightarrow> int \<times> int" where
  "rangeReadWindow r meta remainingBytes =
     (let lineLimit = rg_EndLine r - rg_StartLine r + 1; startLine = rg_StartLine r in
      if lineLimit < 1 then (startLine, 1)
      else if isTailLikeRange r meta \<and> 0 < remainingBytes
      then let approxLines = max 1 (remainingBytes div 80) in
        if approxLines < lineLimit then (max (rg_StartLine r) (rg_EndLine r - approxLines + 1), approxLines)
        else (startLine, lineLimit)
      else (startLine, lineLimit))"

definition selectRangesForFile :: "io_env \<Rightarrow> disk \<Rightarrow> string \<Rightarrow> mentionRef \<Rightarrow> fileEvidenceMetadata \<Rightarrow> selectedRange list \<times> string" where
  "selectRangesForFile env d input ref meta =
     (if mr_HasLineRange ref
      then ([\<lparr>rg_StartLine = mr_LineRangeStart ref, rg_EndLine = mr_LineRangeEnd ref, rg_Kind = ''explicit'',
          rg_Reason = ''explicit mention line range'', rg_Score = 100\<rparr>], [])
      else
        let headEnd = min (fm_Lines meta) 120;
            tailStart = max 1 (fm_Lines meta - 220 + 1);
            terms = lexicalSearchTerms input;
            ranges = (if 0 < headEnd then [\<lparr>rg_StartLine = 1, rg_EndLine = headEnd, rg_Kind = ''head'',
                rg_Reason = ''document context'', rg_Score = 10\<rparr>] else [])
              @ (if 0 < fm_Lines meta then [\<lparr>rg_StartLine = tailStart, rg_EndLine = fm_Lines meta, rg_Kind = ''tail'',
                rg_Reason = ''recent status'', rg_Score = 14\<rparr>] else [])
              @ scanMatchRanges env d (mr_Abs ref) terms (fm_Lines meta)
        in (mergeSelectedRanges ranges, buildHeadingManifest meta terms))"

record OmittedEvidence =
  om_Path :: string
  om_Kind :: string
  om_Reason :: string
  om_BytesOmitted :: int

definition omit_file :: "mentionRef \<Rightarrow> string \<Rightarrow> int \<Rightarrow> OmittedEvidence" where
  "omit_file ref reason n = \<lparr>om_Path = mr_Path ref, om_Kind = ''file'', om_Reason = reason, om_BytesOmitted = n\<rparr>"

definition range_key :: "selectedRange \<Rightarrow> string" where
  "range_key r = rg_Kind r @ '':'' @ Itoa (rg_StartLine r) @ ''-'' @ Itoa (rg_EndLine r)"

text \<open>\<open>ContentByKey\<close> is a map; the list has one entry per key, the order is that of the reads.\<close>

type_synonym contents = "(string \<times> ReadRangeResult) list"

fun read_ranges :: "io_env \<Rightarrow> disk \<Rightarrow> mentionRef \<Rightarrow> fileEvidenceMetadata \<Rightarrow> selectedRange list \<Rightarrow> int \<Rightarrow>
    contents \<Rightarrow> int \<Rightarrow> OmittedEvidence list \<Rightarrow> contents \<times> int \<times> OmittedEvidence list \<times> int" where
  "read_ranges env d ref meta [] remaining contents consumed omitted = (contents, consumed, omitted, remaining)"
| "read_ranges env d ref meta (r # rs) remaining contents consumed omitted =
     (if remaining \<le> 0 then (contents, consumed, omitted @ [omit_file ref ''budget'' (fm_Bytes meta)], remaining)
      else
        let (startLine, lineLimit) = rangeReadWindow r meta remaining in
        case ReadRange env d (mr_Abs ref) startLine lineLimit remaining of
          Inl _ \<Rightarrow> read_ranges env d ref meta rs remaining contents consumed
                     (omitted @ [omit_file ref ''read_error'' (fm_Bytes meta)])
        | Inr res \<Rightarrow>
            if TrimSpace (Content res) = [] then read_ranges env d ref meta rs remaining contents consumed omitted
            else let n = int (length (Content res)) in
              read_ranges env d ref meta rs (remaining - n) (AList.update (range_key r) res contents) (consumed + n) omitted)"

record fileRangeEvidence =
  fr_Meta :: fileEvidenceMetadata
  fr_Ranges :: "selectedRange list"
  fr_ContentByKey :: contents
  fr_HeadingDigest :: string
  fr_PartialNotice :: string
  fr_OmittedBytes :: int

definition range_notice :: string where
  "range_notice = ''The requested file range was too large for the current context budget and has been truncated. Use a smaller line range or search for specific content if more precision is needed.''"

definition large_notice :: string where
  "large_notice = ''This file was too large to include fully. The included ranges are partial evidence. Use FileRead/Grep-style tools to inspect omitted ranges before making claims that depend on them.''"

definition partial_notice :: "mentionRef \<Rightarrow> fileEvidenceMetadata \<Rightarrow> contents \<Rightarrow> string" where
  "partial_notice ref meta contents =
     (if mr_HasLineRange ref \<and> list_ex (\<lambda>(k, res). Truncated res) contents then range_notice
      else if largeFileBytesThreshold \<le> fm_Bytes meta then large_notice else [])"

definition buildRangeEvidence :: "io_env \<Rightarrow> disk \<Rightarrow> mentionRef \<Rightarrow> string \<Rightarrow> int \<Rightarrow>
    (fileRangeEvidence \<times> int \<times> OmittedEvidence list) option" where
  "buildRangeEvidence env d ref input maxChars =
     (case scanFileEvidenceMetadata env d ref of
        None \<Rightarrow> None
      | Some meta \<Rightarrow>
          let (selected, manifest) = selectRangesForFile env d input ref meta;
              maxChars = (if maxChars < 1 then 1 else maxChars);
              (contents, consumed, omitted, remaining) =
                read_ranges env d ref meta (prioritizeRangesForBudget selected meta) maxChars [] 0 [];
              cost = int (length manifest);
              (manifest, total) = (if manifest = [] then ([], consumed)
                else if cost \<le> remaining then (manifest, consumed + cost) else ([], consumed))
          in Some (\<lparr>fr_Meta = meta, fr_Ranges = selected, fr_ContentByKey = contents, fr_HeadingDigest = manifest,
                fr_PartialNotice = partial_notice ref meta contents, fr_OmittedBytes = max 0 (fm_Bytes meta - consumed)\<rparr>,
              total, omitted))"

section \<open>Rendering\<close>

definition padded_number :: "int \<Rightarrow> string" where
  "padded_number n = replicate (5 - length (Itoa n)) (CHR '' '') @ Itoa n"

fun numbered_content :: "int \<Rightarrow> string list \<Rightarrow> string" where
  "numbered_content n [] = []"
| "numbered_content n [line] = (if line = [] then [] else padded_number n @ ''  '' @ line @ [NL])"
| "numbered_content n (line # l # ls) = padded_number n @ ''  '' @ line @ [NL] @ numbered_content (n + 1) (l # ls)"

definition renderNumberedContent :: "string \<Rightarrow> int \<Rightarrow> string" where
  "renderNumberedContent content startLine =
     (if TrimSpace content = [] then [] else TrimSuffix (numbered_content startLine (Split content NL)) [NL])"

definition range_end :: "ReadRangeResult \<Rightarrow> int" where
  "range_end res = (let e = StartLine res + LineCount res - 1 in if e < StartLine res then StartLine res else e)"

definition attr :: "string \<Rightarrow> string \<Rightarrow> string" where
  "attr name v = '' '' @ name @ [CHR ''='', CHR 0x22] @ v @ [CHR 0x22]"

definition render_range :: "fileRangeEvidence \<Rightarrow> selectedRange \<Rightarrow> string" where
  "render_range ev r =
     (case map_of (fr_ContentByKey ev) (range_key r) of
        None \<Rightarrow> []
      | Some res \<Rightarrow>
          if TrimSpace (Content res) = [] then []
          else NL # ''<file_range'' @ attr ''path'' (fm_Path (fr_Meta ev)) @ attr ''kind'' (rg_Kind r)
            @ attr ''lines'' (Itoa (StartLine res) @ ''-'' @ Itoa (range_end res)) @ attr ''reason'' (rg_Reason r) @ ''>'' @ [NL]
            @ renderNumberedContent (Content res) (StartLine res) @ NL # ''</file_range>'' @ [NL])"

definition renderRangeEvidenceBlock :: "fileRangeEvidence \<Rightarrow> string" where
  "renderRangeEvidenceBlock ev =
     (let meta = fr_Meta ev in
      NL # ''<file_metadata'' @ attr ''path'' (fm_Path meta) @ ''>'' @ [NL]
      @ ''bytes: '' @ Itoa (fm_Bytes meta) @ [NL] @ ''lines: '' @ Itoa (fm_Lines meta) @ [NL]
      @ ''format: '' @ fm_Format meta @ [NL] @ ''strategy: range_pipeline'' @ [NL]
      @ (if fr_HeadingDigest ev \<noteq> [] then ''heading_manifest:'' @ [NL] @ fr_HeadingDigest ev @ [NL] else [])
      @ ''omitted_bytes: '' @ Itoa (max 0 (fr_OmittedBytes ev)) @ [NL] @ ''</file_metadata>'' @ [NL]
      @ concat (map (render_range ev) (fr_Ranges ev))
      @ (if TrimSpace (fr_PartialNotice ev) \<noteq> []
         then NL # ''<partial_file_notice'' @ attr ''path'' (fm_Path meta) @ ''>'' @ [NL] @ fr_PartialNotice ev @ [NL]
           @ ''</partial_file_notice>'' @ [NL]
         else []))"

section \<open>What is read\<close>

definition bytes_in :: "contents \<Rightarrow> int" where
  "bytes_in contents = sum_list (map (\<lambda>(k, res). int (length (Content res))) contents)"

lemma bytes_in_update: "bytes_in (AList.update k res contents) \<le> bytes_in contents + int (length (Content res))"
  unfolding bytes_in_def by (induction contents) auto

lemma headings_valid: "headings_from n cs = Some hs \<Longrightarrow> 1 \<le> n \<Longrightarrow> list_all utf8_Valid cs"
proof (induction cs arbitrary: n hs)
  case (Cons c cs)
  from Cons.prems have "utf8_Valid (if n = 1 then TrimPrefix c BOM else c)" "headings_from (n + 1) cs \<noteq> None"
    by (auto simp: Let_def split: if_splits)
  with Cons.IH [of "n + 1"] Cons.prems(2) show ?case by (auto simp: utf8_Valid_BOM split: if_splits)
qed simp

lemma scanned_file:
  assumes "scanFileEvidenceMetadata env d ref = Some meta"
  obtains content where "os_ReadFile env d (mr_Abs ref) = Inr content" "utf8_Valid content"
    "fm_Lines meta = int (length (read_strings content))" "0 \<le> fm_Bytes meta"
proof -
  from assms obtain c p t content hs where a: "os_Stat env d (mr_Abs ref) = Inr (Regular c p t)"
    "os_ReadFile env d (mr_Abs ref) = Inr content" "headings_from 1 (read_strings content) = Some hs"
    "fm_Lines meta = int (length (read_strings content))" "fm_Bytes meta = int (length c)"
    unfolding scanFileEvidenceMetadata_def Let_def by (auto split: sum.splits file_node.splits)
  show ?thesis
    by (rule that [OF a(2)]) (use a headings_valid [OF a(3)] in \<open>simp_all add: utf8_Valid_read_strings\<close>)
qed

lemma ReadRange_reads:
  assumes "ReadRange env d path s l m = Inr res" "os_ReadFile env d path = Inr content"
    and "1 \<le> s" "1 \<le> l" "0 \<le> m"
  obtains res' where "selectLineRangeFromReader path content s l m = Inr res'" "Content res = Content res'"
    "StartLine res = StartLine res'" "LineCount res = LineCount res'"
proof -
  from assms(1) have "\<exists>res'. readLineRange env d path s l m = Inr res' \<and> Content res = Content res'
      \<and> StartLine res = StartLine res' \<and> LineCount res = LineCount res'"
    using assms(3-5) unfolding ReadRange_def Let_def
    by (auto simp: lineRangeResult.defs split: sum.splits file_node.splits)
  then obtain res' where r: "readLineRange env d path s l m = Inr res'" "Content res = Content res'"
    "StartLine res = StartLine res'" "LineCount res = LineCount res'" by blast
  from r(1) have "selectLineRangeFromReader path content s l m = Inr res'"
    using assms(2) unfolding readLineRange_def Let_def by (auto simp: readers_same split: sum.splits if_splits)
  with r show ?thesis by (intro that)
qed

text \<open>The window that is read lies within the range; its numbers do not overflow.\<close>

lemma window_in_range:
  assumes "proper r" "rg_EndLine r < 2 ^ 63 - 1" "rangeReadWindow r meta m = (s, l)"
  shows "rg_StartLine r \<le> s \<and> 1 \<le> s \<and> 1 \<le> l \<and> s + l - 1 \<le> rg_EndLine r \<and> s + l < 2 ^ 63"
  using assms unfolding rangeReadWindow_def proper_def Let_def
  by (auto simp: max_def split: if_splits)

text \<open>What was read for a range: a prefix of lines of the file that lie in the range.\<close>

definition lines_read :: "string \<Rightarrow> selectedRange \<Rightarrow> ReadRangeResult \<Rightarrow> bool" where
  "lines_read content r res =
     (\<exists>s e. rg_StartLine r \<le> s \<and> e \<le> rg_EndLine r \<and> prefix (Content res) (Join (wanted s e (text_lines content)) NL))"

lemma range_is_read:
  assumes "os_ReadFile env d path = Inr content" "utf8_Valid content" "proper r" "rg_EndLine r < 2 ^ 63 - 1" "0 < m"
    and "rangeReadWindow r meta m = (s, l)" "ReadRange env d path s l m = Inr res"
  shows "lines_read content r res \<and> int (length (Content res)) \<le> m"
proof -
  note w = window_in_range [OF assms(3,4,6)]
  then obtain res' where r: "selectLineRangeFromReader path content s l m = Inr res'" "Content res = Content res'"
    using ReadRange_reads [OF assms(7,1)] assms(5) by auto
  from w have num: "1 \<le> s" "1 \<le> l" "s + l < 2 ^ 63" "0 \<le> m" using assms(5) by simp_all
  from range_read [OF assms(2) num, of path] r(1) have
    "prefix (Content res') (Join (wanted s (s + l - 1) (text_lines content)) NL)"
    "m = 0 \<or> int (length (Content res')) \<le> m" by auto
  with r(2) w assms(5) show ?thesis unfolding lines_read_def by auto
qed

lemma read_ranges_inv:
  assumes "read_ranges env d ref meta rs m contents consumed omitted = (contents', consumed', omitted', m')"
    and "os_ReadFile env d (mr_Abs ref) = Inr content" "utf8_Valid content"
    and "\<forall>r \<in> set rs. proper r \<and> rg_EndLine r < 2 ^ 63 - 1" "0 \<le> m"
  shows "m' + consumed' = m + consumed \<and> 0 \<le> m' \<and> bytes_in contents' - consumed' \<le> bytes_in contents - consumed
    \<and> (\<forall>(k, res) \<in> set contents'. (k, res) \<in> set contents \<or> (\<exists>r \<in> set rs. k = range_key r \<and> lines_read content r res))"
  using assms
proof (induction rs arbitrary: m contents consumed omitted)
  case (Cons r rs)
  obtain s l where w: "rangeReadWindow r meta m = (s, l)" by fastforce
  show ?case
  proof (cases "m \<le> 0")
    case True
    with Cons.prems show ?thesis by auto
  next
    case False
    show ?thesis
    proof (cases "ReadRange env d (mr_Abs ref) s l m")
      case (Inl e)
      with False w Cons.prems(1) have
        "read_ranges env d ref meta rs m contents consumed (omitted @ [omit_file ref ''read_error'' (fm_Bytes meta)])
          = (contents', consumed', omitted', m')" by simp
      from Cons.IH [OF this] Cons.prems show ?thesis by fastforce
    next
      case (Inr res)
      show ?thesis
      proof (cases "TrimSpace (Content res) = []")
        case True
        with Inr False w Cons.prems(1) have
          "read_ranges env d ref meta rs m contents consumed omitted = (contents', consumed', omitted', m')" by simp
        from Cons.IH [OF this] Cons.prems show ?thesis by fastforce
      next
        case shown: False
        let ?n = "int (length (Content res))"
        have r: "lines_read content r res" "?n \<le> m"
          using range_is_read [OF Cons.prems(2,3) _ _ _ w Inr] Cons.prems(4) False by auto
        from shown Inr False w Cons.prems(1) have
          "read_ranges env d ref meta rs (m - ?n) (AList.update (range_key r) res contents) (consumed + ?n) omitted
            = (contents', consumed', omitted', m')" by (simp add: Let_def)
        from Cons.IH [OF this Cons.prems(2,3)] Cons.prems(4) r(2) have ih:
          "m' + consumed' = m + consumed" "0 \<le> m'"
          "bytes_in contents' - consumed' \<le> bytes_in (AList.update (range_key r) res contents) - (consumed + ?n)"
          "\<forall>(k, res') \<in> set contents'. (k, res') \<in> set (AList.update (range_key r) res contents)
            \<or> (\<exists>r \<in> set rs. k = range_key r \<and> lines_read content r res')" by auto
        have upd: "set (AList.update k v xs) \<subseteq> insert (k, v) (set xs)" for k :: string and v :: ReadRangeResult and xs
          by (induction xs) auto
        have "bytes_in contents' - consumed' \<le> bytes_in contents - consumed"
          using ih(3) bytes_in_update [of "range_key r" res contents] by linarith
        moreover have "\<forall>(k, res') \<in> set contents'. (k, res') \<in> set contents
            \<or> (\<exists>q \<in> set (r # rs). k = range_key q \<and> lines_read content q res')"
          using ih(4) upd [of "range_key r" res contents] r(1) by fastforce
        ultimately show ?thesis using ih(1,2) by blast
      qed
    qed
  qed
qed auto

lemma selected_ok:
  assumes "selectRangesForFile env d input ref meta = (selected, manifest)"
    and "mr_HasLineRange ref \<Longrightarrow> 0 < mr_LineRangeStart ref \<and> mr_LineRangeStart ref \<le> mr_LineRangeEnd ref \<and> mr_LineRangeEnd ref < 2 ^ 63 - 1"
    and "fm_Lines meta < 2 ^ 63 - 1" "r \<in> set selected"
  shows "proper r \<and> rg_EndLine r < 2 ^ 63 - 1"
proof (cases "mr_HasLineRange ref")
  case True
  with assms show ?thesis by (auto simp: selectRangesForFile_def proper_def)
next
  case False
  have matched: "rg_EndLine q \<le> n" if "q \<in> set (match_lines terms n k cs)" for q n terms k cs
    using that by (induction terms n k cs rule: match_lines.induct) (auto simp: match_range_def split: option.splits)
  have "rg_EndLine q \<le> n" if "q \<in> set (scanMatchRanges env d p terms n)" for q n p terms
    using that matched by (auto simp: scanMatchRanges_def split: if_splits sum.splits dest: in_set_takeD)
  with False assms(1,4) obtain ranges where "r \<in> set (mergeSelectedRanges ranges)" "\<forall>q \<in> set ranges. rg_EndLine q \<le> fm_Lines meta"
    unfolding selectRangesForFile_def Let_def by (fastforce split: if_splits)
  then show ?thesis using assms(3) by (metis merged_proper order_le_less_trans)
qed

text \<open>
  C21. The evidence taken from a large file keeps to its budget and is text of the file: the contents read
  and the manifest of headings together are at most the bytes reported as used, which are at most the
  budget; every content is a prefix of consecutive lines within one of the selected ranges; and the bytes
  reported as omitted are those of the file that were not read.
\<close>

theorem range_evidence_within_budget:
  assumes "buildRangeEvidence env d ref input maxChars = Some (ev, consumed, omitted)"
    and "os_ReadFile env d (mr_Abs ref) = Inr content"
    and "mr_HasLineRange ref \<Longrightarrow> 0 < mr_LineRangeStart ref \<and> mr_LineRangeStart ref \<le> mr_LineRangeEnd ref \<and> mr_LineRangeEnd ref < 2 ^ 63 - 1"
    and "fm_Lines (fr_Meta ev) < 2 ^ 63 - 1"
  shows "bytes_in (fr_ContentByKey ev) + int (length (fr_HeadingDigest ev)) \<le> consumed \<and> consumed \<le> max 1 maxChars
    \<and> fr_OmittedBytes ev = max 0 (fm_Bytes (fr_Meta ev) - (consumed - int (length (fr_HeadingDigest ev))))
    \<and> (\<forall>(k, res) \<in> set (fr_ContentByKey ev). \<exists>r \<in> set (fr_Ranges ev). k = range_key r \<and> lines_read content r res)"
proof -
  obtain meta where meta: "scanFileEvidenceMetadata env d ref = Some meta"
    using assms(1) by (auto simp: buildRangeEvidence_def split: option.splits)
  obtain selected manifest where sel: "selectRangesForFile env d input ref meta = (selected, manifest)" by fastforce
  let ?max = "if maxChars < 1 then 1 else maxChars"
  obtain contents used om rest where rd:
    "read_ranges env d ref meta (prioritizeRangesForBudget selected meta) ?max [] 0 [] = (contents, used, om, rest)"
    by (metis prod.collapse)
  define kept where "kept = (manifest \<noteq> [] \<and> int (length manifest) \<le> rest)"
  have ev: "fr_Meta ev = meta" "fr_Ranges ev = selected" "fr_ContentByKey ev = contents"
    "fr_HeadingDigest ev = (if kept then manifest else [])" "fr_OmittedBytes ev = max 0 (fm_Bytes meta - used)"
    "consumed = (if kept then used + int (length manifest) else used)"
    using assms(1) by (auto simp: buildRangeEvidence_def meta sel rd kept_def Let_def split: if_splits)
  from scanned_file [OF meta] assms(2) have v: "utf8_Valid content" by auto
  have "\<forall>r \<in> set (prioritizeRangesForBudget selected meta). proper r \<and> rg_EndLine r < 2 ^ 63 - 1"
    using selected_ok [OF sel assms(3)] assms(4) ev(1) by (auto simp: prioritizeRangesForBudget_def)
  from read_ranges_inv [OF rd assms(2) v this] have inv: "rest + used = ?max" "0 \<le> rest" "bytes_in contents \<le> used"
    "\<forall>(k, res) \<in> set contents. \<exists>r \<in> set selected. k = range_key r \<and> lines_read content r res"
    by (auto simp: bytes_in_def prioritizeRangesForBudget_def)
  from inv(1) have "rest + used = max 1 maxChars" by (simp add: max_def)
  with inv(2-4) show ?thesis unfolding ev by (auto simp: kept_def)
qed

lemma scan_succeeds:
  assumes "os_Stat env d (mr_Abs ref) = Inr (Regular c p t)" "os_ReadFile env d (mr_Abs ref) = Inr content" "utf8_Valid content"
  shows "\<exists>meta. scanFileEvidenceMetadata env d ref = Some meta \<and> fm_Lines meta = int (length (read_strings content))"
proof -
  have "\<exists>hs. headings_from n cs = Some hs" if "list_all utf8_Valid cs" for n cs
    using that by (induction cs arbitrary: n) (auto simp: Let_def utf8_Valid_BOM)
  then obtain hs where "headings_from 1 (read_strings content) = Some hs"
    using assms(3) by (auto simp: utf8_Valid_read_strings)
  then show ?thesis by (simp add: scanFileEvidenceMetadata_def assms(1,2) Let_def)
qed

lemma evidence_built:
  assumes "scanFileEvidenceMetadata env d ref = Some meta"
  shows "\<exists>ev consumed omitted. buildRangeEvidence env d ref input maxChars = Some (ev, consumed, omitted) \<and> fr_Meta ev = meta"
  unfolding buildRangeEvidence_def assms by (simp add: Let_def split: prod.split)

text \<open>A file of five bytes whose lines one and two are mentioned.\<close>

definition demo_ref :: mentionRef where
  "demo_ref = \<lparr>mr_Path = ''a'', mr_Abs = ''/w/a'', mr_IsDir = False, mr_Tree = [], mr_SizeBytes = 5, mr_HasLineRange = True,
     mr_LineRangeStart = 1, mr_LineRangeEnd = 2\<rparr>"

theorem range_evidence_within_budget_witness:
  "\<exists>ev consumed omitted. buildRangeEvidence demo_io (w_disk demo_world) demo_ref ''why?'' 3 = Some (ev, consumed, omitted)
    \<and> consumed \<le> 3"
proof -
  let ?c = "[CHR ''x'', CHR '' '', NL, CHR ''y'', NL]"
  have s: "os_Stat demo_io (w_disk demo_world) ''/w/a'' = Inr (Regular ?c 493 0)"
    by (simp add: os_Stat_def demo_faults demo_entry demo_disk followed_def)
  have u: "utf8_Valid ?c" by (simp add: utf8_Valid_def chunks_ascii decode_rune.simps)
  have "os_ReadFile demo_io (w_disk demo_world) (mr_Abs demo_ref) = Inr ?c" "mr_Abs demo_ref = ''/w/a''"
    by (simp_all add: demo_ref_def demo_read)
  with scan_succeeds [OF _ _ u, of demo_io "w_disk demo_world" demo_ref] s
  have "\<exists>meta. scanFileEvidenceMetadata demo_io (w_disk demo_world) demo_ref = Some meta \<and> fm_Lines meta = int (length (read_strings ?c))"
    by metis
  then obtain meta where m: "scanFileEvidenceMetadata demo_io (w_disk demo_world) demo_ref = Some meta"
    "fm_Lines meta = int (length (read_strings ?c))" by blast
  obtain ev consumed omitted where b: "buildRangeEvidence demo_io (w_disk demo_world) demo_ref ''why?'' 3 = Some (ev, consumed, omitted)"
    "fr_Meta ev = meta" using evidence_built [OF m(1)] by blast
  have "fm_Lines (fr_Meta ev) < 2 ^ 63 - 1" by (simp add: b(2) m(2) read_strings_def)
  moreover have "os_ReadFile demo_io (w_disk demo_world) (mr_Abs demo_ref) = Inr ?c" by (simp add: demo_ref_def demo_read)
  ultimately have "consumed \<le> 3" using range_evidence_within_budget [OF b(1)] by (auto simp: demo_ref_def)
  with b(1) show ?thesis by blast
qed

section \<open>A range that ends behind the file\<close>

text \<open>
  A mentioned range whose end lies behind the file counts as the tail of the file, so with a small budget
  its last lines are read, and these do not exist: of a file of a thousand lines nothing is read.
\<close>

lemma range_past_end_lost:
  assumes "fm_Lines meta = 1000"
  shows "rangeReadWindow \<lparr>rg_StartLine = 1, rg_EndLine = 100000, rg_Kind = ''explicit'', rg_Reason = [], rg_Score = 100\<rparr> meta 30000
    = (99626, 375)"
  using assms by (simp add: rangeReadWindow_def isTailLikeRange_def)

section \<open>Line ranges are read back\<close>

lemma digits_ascii: "list_all is_digit s \<Longrightarrow> is_ascii s"
  by (auto simp: is_ascii_def is_digit_def list_all_iff)

lemma range_number_digits:
  assumes "list_all is_digit s" "s \<noteq> []" "decimal_value s < 2 ^ 63"
  shows "range_number s = Some (int (decimal_value s))"
proof -
  let ?f = "\<lambda>n r. wrap64 (wrap64 (n * 10) + int (r - 48))"
  have "foldl ?f 0 (map of_char s) = int (decimal_value s)"
    using assms(1,3)
  proof (induction s rule: rev_induct)
    case (snoc c s)
    let ?v = "int (decimal_value s)" and ?d = "int (of_char c - 48)"
    have v: "?v * 10 + ?d < 2 ^ 63" "0 \<le> ?v" "0 \<le> ?d" using snoc.prems(2) by (simp_all flip: of_nat_less_iff)
    have ih: "foldl ?f 0 (map of_char s) = ?v" using snoc v by simp
    have "wrap64 (?v * 10) = ?v * 10" "wrap64 (?v * 10 + ?d) = ?v * 10 + ?d"
      using v by (intro wrap64_id; linarith)+
    with ih show ?case by simp
  qed (simp add: decimal_value_def)
  moreover have "list_all (\<lambda>r. 48 \<le> r \<and> r \<le> 57) (map of_char s :: nat list)"
    using assms(1) by (auto simp: list_all_iff is_digit_def)
  ultimately show ?thesis
    using assms(2) runes_is_ascii [OF digits_ascii [OF assms(1)]] by (simp add: range_number_def)
qed

lemma TrimSpace_digits: "list_all is_digit s \<Longrightarrow> TrimSpace s = s"
proof (rule TrimSpace_trimmed)
  assume d: "list_all is_digit s"
  then have "chunks s = map (\<lambda>c. (of_char c, [c])) s" by (induction s) (auto simp: chunks_ascii is_digit_def)
  moreover have "\<not> is_space (of_char c)" if "c \<in> set s" for c using d that by (auto simp: list_all_iff is_digit_def is_space_def)
  ultimately show "trimmed s" by (cases s) (auto simp: trimmed_def last_map)
qed

lemma last_index_behind:
  assumes "CHR ''#'' \<notin> set t"
  shows "last_index (p @ ''#L'' @ t) ''#L'' = Some (length p)"
proof -
  have none: "last_index t ''#L'' = None" using assms by (induction t) auto
  then have "last_index (''#L'' @ t) ''#L'' = Some 0" using assms by simp
  then show ?thesis by (induction p) auto
qed

lemma Index_of_behind:
  assumes "CHR ''-'' \<notin> set a"
  shows "Index_of (a @ ''-L'' @ b) ''-L'' = Some (length a)" "CHR ''-'' \<notin> set b \<Longrightarrow> Index_of b ''-L'' = None"
  using assms by (induction a) (auto, induction b, auto)

text \<open>C1. A line range that is written into a mention is read back, whatever the path is.\<close>

theorem line_range_roundtrip:
  assumes "path \<noteq> []" "0 < s" "s \<le> e" "e < 2 ^ 63"
  shows "ParseLineRangeToken (path @ ''#L'' @ Itoa s @ ''-L'' @ Itoa e) = Some (path, s, e)"
proof -
  have d: "Itoa s = FormatUint (nat s)" "Itoa e = FormatUint (nat e)" using assms by (simp_all add: Itoa_def)
  have no: "CHR ''-'' \<notin> set (FormatUint n)" "CHR ''#'' \<notin> set (FormatUint n)" for n
    using FormatUint_digits [of n] by (auto simp: list_all_iff is_digit_def)
  have i: "last_index (path @ ''#L'' @ Itoa s @ ''-L'' @ Itoa e) ''#L'' = Some (length path)"
    by (rule last_index_behind) (simp add: d no)
  have sp: "Split_str (Itoa s @ ''-L'' @ Itoa e) ''-L'' = [Itoa s, Itoa e]"
    using Index_of_behind [of "Itoa s" "Itoa e"] no by (simp add: d Split_str.simps)
  have n: "range_number (Itoa s) = Some s" "range_number (Itoa e) = Some e"
    using range_number_digits [of "Itoa s"] range_number_digits [of "Itoa e"] assms by (simp_all add: d FormatUint_digits)
  have t: "TrimSpace (Itoa s) = Itoa s" "TrimSpace (Itoa e) = Itoa e" by (simp_all add: d TrimSpace_digits FormatUint_digits)
  show ?thesis using assms(1-3) i by (simp add: ParseLineRangeToken_def sp [unfolded append_Cons append_Nil] n t)
qed

theorem line_range_roundtrip_witness: "ParseLineRangeToken (''a#Lb'' @ ''#L'' @ Itoa 3 @ ''-L'' @ Itoa 70) = Some (''a#Lb'', 3, 70)"
  by (rule line_range_roundtrip) simp_all

text \<open>Numbers are not checked for overflow: 2 ^ 64 + 1 is read as line 1.\<close>

lemma line_number_wraps: "ParseLineRangeToken ''a#L18446744073709551617-L2'' = Some (''a'', 1, 2)"
proof -
  have "runes s = map of_char s" if "is_ascii s" for s using that by (rule runes_is_ascii)
  then have r: "runes ''18446744073709551617'' = map of_char ''18446744073709551617''" "runes ''2'' = map of_char ''2''"
    by (simp_all add: is_ascii_def)
  have "range_number ''18446744073709551617'' = Some 1" "range_number ''2'' = Some 2"
    by (simp_all add: range_number_def r wrap64_def)
  moreover have "TrimSpace ''18446744073709551617'' = ''18446744073709551617''" "TrimSpace ''2'' = ''2''"
    by (simp_all add: TrimSpace_digits is_digit_def)
  ultimately show ?thesis by (simp add: ParseLineRangeToken_def Split_str.simps)
qed

section \<open>The budget, whatever the range\<close>

definition scan_small :: "int \<Rightarrow> scan \<Rightarrow> bool" where
  "scan_small m st = (selectedBytes st = int (length (Join (sel_lines st) NL)) \<and> selectedBytes st \<le> m)"

lemma select_line_small:
  assumes "scan_small m st" "0 < m"
  shows "scan_small m (select_line s m line st)"
proof -
  have cut: "int (length (truncateUTF8ToBytes line n)) \<le> n" if "0 < n" for n using truncate_length that by simp
  show ?thesis
    using assms cut [of "m - selectedBytes st - (if sel_lines st \<noteq> [] then 1 else 0)"]
    unfolding select_line_def scan_small_def Let_def by (auto simp: length_Join_snoc)
qed

lemma scan_lines_small: "scan_lines s e m cs st = Some st' \<Longrightarrow> scan_small m st \<Longrightarrow> 0 < m \<Longrightarrow> scan_small m st'"
proof (induction cs arbitrary: st)
  case (Cons c cs)
  have after: "scan_small m (after_line e st) = scan_small m st" for st by (simp add: after_line_def scan_small_def Let_def)
  have counted: "scan_small m (st\<lparr>lineNumber := n\<rparr>) = scan_small m st" for n by (simp add: scan_small_def)
  from Cons show ?case by (auto simp: Let_def after counted select_line_small split: if_splits)
qed simp

lemma range_content_bound:
  assumes "selectLineRangeFromReader path content s l m = Inr res" "0 < m"
  shows "int (length (Content res)) \<le> m"
proof -
  from assms obtain st where "scan_lines (if s \<le> 0 then 1 else s)
      (wrap64 (wrap64 ((if s \<le> 0 then 1 else s) + (if l \<le> 0 then 1 else l)) - 1)) m (read_strings content) scan_init = Some st"
    "Content res = [] \<or> Content res = Join (sel_lines st) NL"
    unfolding selectLineRangeFromReader_def Let_def by (auto split: option.splits if_splits)
  moreover from this(1) have "scan_small m st"
    by (rule scan_lines_small) (use assms(2) in \<open>simp_all add: scan_small_def scan_init_def\<close>)
  ultimately show ?thesis using assms(2) by (auto simp: scan_small_def)
qed

lemma ReadRange_bound:
  assumes "ReadRange env d path s l m = Inr res" "0 < m"
  shows "int (length (Content res)) \<le> m"
proof -
  from assms have "\<exists>s l res'. readLineRange env d path s l m = Inr res' \<and> Content res = Content res'"
    unfolding ReadRange_def Let_def by (auto simp: lineRangeResult.defs split: sum.splits file_node.splits; metis)
  then obtain s' l' res' where "readLineRange env d path s' l' m = Inr res'" "Content res = Content res'" by blast
  then obtain content where "selectLineRangeFromReader path content s' l' m = Inr res'"
    unfolding readLineRange_def Let_def by (auto simp: readers_same split: sum.splits if_splits)
  from range_content_bound [OF this assms(2)] \<open>Content res = Content res'\<close> show ?thesis by simp
qed

lemma read_ranges_budget:
  "read_ranges env d ref meta rs m contents consumed omitted = (contents', consumed', omitted', m') \<Longrightarrow> 0 \<le> m
    \<Longrightarrow> m' + consumed' = m + consumed \<and> 0 \<le> m' \<and> consumed \<le> consumed'"
proof (induction env d ref meta rs m contents consumed omitted rule: read_ranges.induct)
  case (2 env d ref meta r rs m contents consumed omitted)
  obtain s l where w: "rangeReadWindow r meta m = (s, l)" by fastforce
  show ?case
  proof (cases "m \<le> 0")
    case False
    then show ?thesis
    proof (cases "ReadRange env d (mr_Abs ref) s l m")
      case (Inl e)
      with 2 False w show ?thesis by auto
    next
      case (Inr res)
      with ReadRange_bound [OF Inr] False have "int (length (Content res)) \<le> m" by simp
      with 2(2) [OF False w [symmetric] _ Inr] 2(3) [OF False w [symmetric] _ Inr] 2(4,5) False w Inr show ?thesis
        by (cases "TrimSpace (Content res) = []") (auto simp: Let_def)
    qed
  qed (use 2 in auto)
qed auto

lemma evidence_consumed:
  assumes "buildRangeEvidence env d ref input maxChars = Some (ev, consumed, omitted)"
  shows "0 \<le> consumed \<and> consumed \<le> max 1 maxChars"
proof -
  obtain meta where meta: "scanFileEvidenceMetadata env d ref = Some meta"
    using assms by (auto simp: buildRangeEvidence_def split: option.splits)
  obtain selected manifest where sel: "selectRangesForFile env d input ref meta = (selected, manifest)" by fastforce
  let ?max = "if maxChars < 1 then 1 else maxChars"
  obtain contents used om rest where rd:
    "read_ranges env d ref meta (prioritizeRangesForBudget selected meta) ?max [] 0 [] = (contents, used, om, rest)"
    by (metis prod.collapse)
  from read_ranges_budget [OF rd] have "rest + used = ?max" "0 \<le> rest" "0 \<le> used" by (auto split: if_splits)
  moreover from assms have "consumed = used \<or> int (length manifest) \<le> rest \<and> consumed = used + int (length manifest)"
    by (auto simp: buildRangeEvidence_def meta sel rd Let_def split: if_splits)
  ultimately show ?thesis by (auto simp: max_def split: if_splits)
qed

end
