(* ===== verification/Text_Chunks.thy ===== *)
theory Text_Chunks
  imports Go_Text
begin

text \<open>
  Splitting a file for the map/reduce analysis (\<open>internal/analysis/chunker.go\<close>): chunks of a bounded
  size that end after a line feed, or at least between two characters. The properties: the chunks are
  the text, in order and without gaps, within the bound, and valid UTF-8 if the text is.
\<close>

section \<open>The chunker\<close>

record FileChunk =
  fc_Path :: string
  ChunkIndex :: nat
  StartByte :: nat
  EndByte :: nat
  chunk_Text :: string
  EstTokens :: nat

definition estimateTokens :: "string \<Rightarrow> nat" where
  "estimateTokens s = (if s = [] then 0 else (length s + 3) div 4)"

text \<open>The loop from \<open>end\<close> down to \<open>start + 64\<close>.\<close>

fun last_newline :: "string \<Rightarrow> nat \<Rightarrow> nat \<Rightarrow> nat option" where
  "last_newline raw lo 0 = None"
| "last_newline raw lo (Suc i) =
     (if Suc i \<le> lo then None else if raw ! i = NL then Some (Suc i) else last_newline raw lo i)"

fun shrink_to_valid :: "string \<Rightarrow> nat \<Rightarrow> nat \<Rightarrow> nat" where
  "shrink_to_valid raw start 0 = 0"
| "shrink_to_valid raw start (Suc e) =
     (if start < Suc e \<and> \<not> utf8_Valid (drop start (take (Suc e) raw)) then shrink_to_valid raw start e
      else Suc e)"

definition snapToBoundary :: "string \<Rightarrow> nat \<Rightarrow> int \<Rightarrow> nat" where
  "snapToBoundary raw start e =
     (if int (length raw) \<le> e then length raw
      else case last_newline raw (start + 64) (nat e) of
        Some i \<Rightarrow> i
      | None \<Rightarrow>
          let e = shrink_to_valid raw start (nat e) in
          if e \<le> start then start + 1 else e)"

definition chunk_end :: "string \<Rightarrow> int \<Rightarrow> nat \<Rightarrow> nat" where
  "chunk_end raw maxBytes start =
     (let e = wrap64 (int start + maxBytes) in
      if int (length raw) < e then length raw else snapToBoundary raw start e)"

lemma last_newline_Some: "last_newline raw lo i = Some j \<Longrightarrow> lo < j \<and> j \<le> i \<and> raw ! (j - 1) = NL"
  by (induction raw lo i rule: last_newline.induct) (auto split: if_splits)

lemma shrink_le: "shrink_to_valid raw start e \<le> e"
  by (induction raw start e rule: shrink_to_valid.induct) auto

lemma snap_progress: "start < length raw \<Longrightarrow> start < snapToBoundary raw start e \<and> snapToBoundary raw start e \<le> length raw"
  using last_newline_Some [of raw "start + 64" "nat e"] shrink_le [of raw start "nat e"]
  by (auto simp: snapToBoundary_def Let_def split: option.splits)

lemma chunk_end_progress: "start < length raw \<Longrightarrow> start < chunk_end raw m start \<and> chunk_end raw m start \<le> length raw"
  using snap_progress by (auto simp: chunk_end_def Let_def)

function chunks_from :: "string \<Rightarrow> string \<Rightarrow> int \<Rightarrow> nat \<Rightarrow> nat \<Rightarrow> FileChunk list" where
  "chunks_from path raw maxBytes start chunkIndex =
     (if start < length raw
      then
        let e = chunk_end raw maxBytes start;
            segment = drop start (take e raw)
        in \<lparr>fc_Path = path, ChunkIndex = chunkIndex, StartByte = start, EndByte = e, chunk_Text = segment,
            EstTokens = estimateTokens segment\<rparr> # chunks_from path raw maxBytes e (chunkIndex + 1)
      else [])"
  by pat_completeness auto
termination
  by (relation "measure (\<lambda>(path, raw, m, start, i). length raw - start)")
    (use chunk_end_progress in \<open>auto intro!: diff_less_mono2\<close>)

declare chunks_from.simps [simp del]

definition chunk_bytes :: "int \<Rightarrow> int" where
  "chunk_bytes maxTokens =
     (let maxTokens = (if maxTokens \<le> 0 then 1200 else maxTokens);
          maxBytes = wrap64 (maxTokens * 4)
      in if maxBytes < 512 then 512 else maxBytes)"

definition ChunkText :: "string \<Rightarrow> string \<Rightarrow> int \<Rightarrow> FileChunk list" where
  "ChunkText path content maxTokens =
     (if content = [] then []
      else chunks_from (TrimSpace path) content (chunk_bytes maxTokens) 0 0)"

section \<open>Valid pieces\<close>

lemma chunks_append_valid: "utf8_Valid a \<Longrightarrow> chunks (a @ b) = chunks a @ chunks b"
proof (induction a rule: chunks_induct)
  case (bad s)
  then show ?case
    using decode_rune_append [of "take 1 s" _ "drop 1 s"] by (auto simp: utf8_Valid_def chunks_bad)
next
  case (good s r w)
  have "utf8_Valid (drop w s)" using good(2,1,6) by (simp add: utf8_Valid_def chunks_good [OF good(1,2)])
  moreover have "chunks (s @ b) = (r, take w s) # chunks (drop w s @ b)"
    using good chunks_good [of "s @ b" r w] decode_rune_append [of s "(r, w)" b] by simp
  ultimately show ?case using good(5) by (simp add: chunks_good [OF good(1,2)])
qed simp

lemma utf8_Valid_rest: "utf8_Valid (a @ b) \<Longrightarrow> utf8_Valid a \<Longrightarrow> utf8_Valid b"
  using chunks_append_valid [of a b] by (simp add: utf8_Valid_def)

lemma decode_rune_width4: "decode_rune s = Some (r, w) \<Longrightarrow> w \<le> 4"
  by (cases s) (auto simp: decode_rune.simps Let_def split: if_splits list.splits)

lemma utf8_Valid_first:
  assumes "utf8_Valid s" "s \<noteq> []"
  obtains w where "0 < w" "w \<le> 4" "w \<le> length s" "utf8_Valid (take w s)"
proof (cases "decode_rune s")
  case None
  then have "decode_rune (take 1 s) \<noteq> None" using assms by (auto simp: utf8_Valid_def chunks_bad)
  then obtain rw where "decode_rune (take 1 s @ drop 1 s) = Some rw" using decode_rune_append by blast
  with None show thesis by simp
next
  case (Some rw)
  obtain r w where rw: "rw = (r, w)" by (cases rw)
  with Some have w: "0 < w" "w \<le> length s" "w \<le> 4" by (auto dest: decode_rune_width decode_rune_width4)
  have d: "decode_rune (take w s) = Some (r, w)"
    using decode_rune_shorter [of "take w s" "drop w s" r w] Some rw w by simp
  with w assms(2) have "chunks (take w s) = [(r, take w s)]" by (subst chunks_good [OF _ d]) auto
  with d have "utf8_Valid (take w s)" by (simp add: utf8_Valid_def)
  with w that show thesis by blast
qed

lemma shrink_valid: "start < shrink_to_valid raw start e \<Longrightarrow> utf8_Valid (drop start (take (shrink_to_valid raw start e) raw))"
  by (induction raw start e rule: shrink_to_valid.induct) (auto split: if_splits)

lemma shrink_maximal:
  "start < e' \<Longrightarrow> e' \<le> e \<Longrightarrow> utf8_Valid (drop start (take e' raw)) \<Longrightarrow> e' \<le> shrink_to_valid raw start e"
  by (induction raw start e rule: shrink_to_valid.induct) (auto simp: le_Suc_eq)

section \<open>The chunks are the text\<close>

lemma chunk_bytes_ge: "512 \<le> chunk_bytes maxTokens"
  by (simp add: chunk_bytes_def Let_def)

lemma piece: "start \<le> e \<Longrightarrow> drop start (take e s) @ drop e s = drop start s"
  by (metis append_take_drop_id drop_append drop_drop drop_take le_add_diff_inverse2 length_take min.cobounded2
      take_drop)

lemma chunks_from_concat: "concat (map chunk_Text (chunks_from path raw m start i)) = drop start raw"
proof (induction path raw m start i rule: chunks_from.induct)
  case (1 path raw m start i)
  show ?case
  proof (cases "start < length raw")
    case True
    then have "start \<le> chunk_end raw m start" using chunk_end_progress [OF True, of m] by simp
    with 1 [OF True refl refl] True piece show ?thesis
      by (simp add: chunks_from.simps [of path raw m start i] Let_def)
  qed (simp add: chunks_from.simps [of path raw m start i])
qed

definition chunk_of :: "string \<Rightarrow> FileChunk \<Rightarrow> bool" where
  "chunk_of raw c =
     (StartByte c < EndByte c \<and> EndByte c \<le> length raw \<and> chunk_Text c = drop (StartByte c) (take (EndByte c) raw)
      \<and> EstTokens c = (length (chunk_Text c) + 3) div 4)"

lemma chunks_from_slices:
  "list_all (chunk_of raw) (chunks_from path raw m start i)
    \<and> map ChunkIndex (chunks_from path raw m start i) = [i..<i + length (chunks_from path raw m start i)]"
proof (induction path raw m start i rule: chunks_from.induct)
  case (1 path raw m start i)
  show ?case
  proof (cases "start < length raw")
    case True
    note p = chunk_end_progress [OF True, of m]
    have "drop start (take (chunk_end raw m start) raw) \<noteq> []" using p by simp
    with 1 [OF True refl refl] True p show ?thesis
      by (simp add: chunks_from.simps [of path raw m start i] Let_def chunk_of_def estimateTokens_def upt_conv_Cons
          del: upt_Suc)
  qed (simp add: chunks_from.simps [of path raw m start i])
qed

text \<open>
  Chunking loses nothing: the chunks of a file, one after the other, are the file, byte for byte,
  also if it is not valid UTF-8; they are numbered from 0, none is empty, and each one's byte range and
  token estimate are those of its text.
\<close>

theorem chunks_are_the_text:
  "concat (map chunk_Text (ChunkText path content maxTokens)) = content
    \<and> map ChunkIndex (ChunkText path content maxTokens) = [0..<length (ChunkText path content maxTokens)]
    \<and> list_all (chunk_of content) (ChunkText path content maxTokens)"
  using chunks_from_concat [of "TrimSpace path" content "chunk_bytes maxTokens" 0 0]
    chunks_from_slices [of content "TrimSpace path" "chunk_bytes maxTokens" 0 0]
  by (simp add: ChunkText_def)

text \<open>The end of a chunk, while the sum does not overflow.\<close>

lemma chunk_end_good:
  assumes "start < length raw" "512 \<le> m" "int start + m < 2 ^ 63"
  shows "int (chunk_end raw m start) \<le> int start + m"
    and "utf8_Valid (drop start raw) \<Longrightarrow>
      utf8_Valid (drop start (take (chunk_end raw m start) raw)) \<and> utf8_Valid (drop (chunk_end raw m start) raw)"
proof -
  let ?e = "int start + m"
  have w: "wrap64 ?e = ?e" using assms by (intro wrap64_id) auto
  have bound: "int (snapToBoundary raw start ?e) \<le> ?e"
    using last_newline_Some [of raw "start + 64" "nat ?e"] shrink_le [of raw start "nat ?e"] assms(2)
    by (auto simp: snapToBoundary_def Let_def split: option.splits)
  then show "int (chunk_end raw m start) \<le> ?e" by (simp add: chunk_end_def w Let_def)
  assume v: "utf8_Valid (drop start raw)"
  define k where "k = chunk_end raw m start"
  have k: "start < k" "k \<le> length raw" using chunk_end_progress [OF assms(1), of m] by (simp_all add: k_def)
  have valid: "utf8_Valid (drop start (take k raw))"
  proof (cases "int (length raw) \<le> ?e")
    case True
    then have "k = length raw" by (simp add: k_def chunk_end_def w snapToBoundary_def Let_def)
    with v show ?thesis by simp
  next
    case False
    show ?thesis
    proof (cases "last_newline raw (start + 64) (nat ?e)")
      case (Some j)
      then have "k = j" using False by (simp add: k_def chunk_end_def w snapToBoundary_def Let_def)
      with last_newline_Some [OF Some] have j: "raw ! (k - 1) = NL" "start \<le> k - 1" "k - 1 < length raw"
        "k = Suc (k - 1)" using k by auto
      then have split: "drop start raw = drop start (take (k - 1) raw) @ NL # drop k raw"
        using piece [of start "k - 1" raw] Cons_nth_drop_Suc [of "k - 1" raw] by simp
      have "drop start (take k raw) = drop start (take (k - 1) raw) @ [NL]"
        using j take_Suc_conv_app_nth [of "k - 1" raw] by simp
      with v split show ?thesis by (simp add: utf8_Valid_append_ascii utf8_Valid_snoc_ascii)
    next
      case None
      from utf8_Valid_first [OF v] assms(1) obtain n where n: "0 < n" "n \<le> 4" "n \<le> length raw - start"
        "utf8_Valid (take n (drop start raw))" by auto
      have "utf8_Valid (drop start (take (start + n) raw))" using n(4) by (simp add: take_drop add.commute)
      then have "start + n \<le> shrink_to_valid raw start (nat ?e)"
        using n assms(2) by (intro shrink_maximal) auto
      moreover from this have "k = shrink_to_valid raw start (nat ?e)"
        using None False n(1) by (simp add: k_def chunk_end_def w snapToBoundary_def Let_def)
      ultimately show ?thesis using shrink_valid [of start raw "nat ?e"] n(1) by simp
    qed
  qed
  moreover have "drop start raw = drop start (take k raw) @ drop k raw" using piece [of start k raw] k by simp
  ultimately show "utf8_Valid (drop start (take (chunk_end raw m start) raw)) \<and> utf8_Valid (drop (chunk_end raw m start) raw)"
    using v utf8_Valid_rest unfolding k_def by metis
qed

lemma chunks_from_good:
  "512 \<le> m \<Longrightarrow> int (length raw) < 2 ^ 62 \<Longrightarrow> m < 2 ^ 62 \<Longrightarrow> utf8_Valid (drop start raw) \<Longrightarrow>
    list_all (\<lambda>c. utf8_Valid (chunk_Text c) \<and> int (length (chunk_Text c)) \<le> m) (chunks_from path raw m start i)"
proof (induction path raw m start i rule: chunks_from.induct)
  case (1 path raw m start i)
  show ?case
  proof (cases "start < length raw")
    case True
    have "int start + m < 2 ^ 63" using 1(3,4) True by simp
    note good = chunk_end_good [OF True 1(2) this]
    have "int (length (drop start (take (chunk_end raw m start) raw))) \<le> m"
      using good(1) chunk_end_progress [OF True, of m] by simp
    with good(2) 1 True show ?thesis by (simp add: chunks_from.simps [of path raw m start i] Let_def)
  qed (simp add: chunks_from.simps [of path raw m start i])
qed

lemma chunks_from_whole:
  assumes "raw \<noteq> []" "int (length raw) \<le> m" "m < 2 ^ 63"
  shows "chunks_from path raw m 0 i = [\<lparr>fc_Path = path, ChunkIndex = i, StartByte = 0, EndByte = length raw,
    chunk_Text = raw, EstTokens = estimateTokens raw\<rparr>]"
proof -
  have "wrap64 m = m" using assms by (intro wrap64_id) auto
  then have "chunk_end raw m 0 = length raw" using assms(2) by (simp add: chunk_end_def snapToBoundary_def Let_def)
  with assms(1) show ?thesis by (simp add: chunks_from.simps Let_def)
qed

text \<open>
  Chunks are bounded and whole: no chunk is larger than its budget of four bytes per token (at least
  512 bytes), and if the file is valid UTF-8 no character is cut, every chunk is valid UTF-8.
\<close>

theorem chunks_bounded_valid:
  assumes "utf8_Valid content" "int (length content) < 2 ^ 62"
  shows "list_all (\<lambda>c. utf8_Valid (chunk_Text c) \<and> int (length (chunk_Text c)) \<le> chunk_bytes maxTokens)
    (ChunkText path content maxTokens)"
proof (cases "int (length content) \<le> chunk_bytes maxTokens")
  case True
  have "chunk_bytes maxTokens < 2 ^ 63"
    using wrap64_range [of "(if maxTokens \<le> 0 then 1200 else maxTokens) * 4"] by (simp add: chunk_bytes_def Let_def)
  with True assms show ?thesis by (simp add: ChunkText_def chunks_from_whole)
next
  case False
  with assms(2) have "chunk_bytes maxTokens < 2 ^ 62" by linarith
  with chunks_from_good [OF chunk_bytes_ge assms(2) this, of 0] assms(1) show ?thesis by (simp add: ChunkText_def)
qed

theorem chunks_bounded_valid_witness:
  "list_all (\<lambda>c. utf8_Valid (chunk_Text c) \<and> int (length (chunk_Text c)) \<le> 512)
    (ChunkText ''f'' (replicate 1000 (CHR ''a'')) 1)"
proof -
  have "utf8_Valid (replicate n (CHR ''a''))" for n
    by (induction n) (simp_all add: utf8_Valid_def chunks_ascii decode_rune.simps)
  from chunks_bounded_valid [OF this, of 1000 1 "''f''"] show ?thesis by (simp add: chunk_bytes_def wrap64_def)
qed

end
