(* ===== verification/LLM_Retry.thy ===== *)
theory LLM_Retry
  imports Go_Strings
begin

text \<open>
  Retrying requests to the model (\<open>internal/llm/retry.go\<close>): the class of an error, the policy of a
  class, and the retry loop. The backoff package is a parameter, as are the function that is retried
  (the result of its \<open>i\<close>-th call) and the context; durations are in nanoseconds.
\<close>

section \<open>Substrings\<close>

definition findInString :: "string \<Rightarrow> string \<Rightarrow> bool" where
  "findInString s substr =
     list_ex (\<lambda>i. take (length substr) (drop i s) = substr) [0..<length s + 1 - length substr]"

definition containsSubstring :: "string \<Rightarrow> string \<Rightarrow> bool" where
  "containsSubstring s substr =
     (length substr \<le> length s \<and>
       (s = substr \<or>
        length substr < length s \<and>
          (take (length substr) s = substr \<or> drop (length s - length substr) s = substr \<or> findInString s substr)))"

definition containsAny :: "string \<Rightarrow> string list \<Rightarrow> bool" where
  "containsAny s substrs =
     list_ex (\<lambda>substr. length substr \<le> length s \<and> containsSubstring s substr) substrs"

lemma findInString_iff: "findInString s substr \<longleftrightarrow> sublist substr s"
proof
  assume "findInString s substr"
  then obtain i where "take (length substr) (drop i s) = substr" by (auto simp: findInString_def list_ex_iff)
  then have "s = take i s @ substr @ drop (length substr) (drop i s)" by (metis append_take_drop_id)
  then show "sublist substr s" unfolding sublist_def by blast
next
  assume "sublist substr s"
  then obtain a b where s: "s = a @ substr @ b" by (auto simp: sublist_def)
  then have "length a \<in> set [0..<length s + 1 - length substr]"
    "take (length substr) (drop (length a) s) = substr" by auto
  then show "findInString s substr" unfolding findInString_def list_ex_iff by blast
qed

text \<open>The hand-written search is the library's.\<close>

lemma containsSubstring_iff: "containsSubstring s substr \<longleftrightarrow> Contains s substr"
proof -
  have "sublist substr s" if "take (length substr) s = substr \<or> drop (length s - length substr) s = substr"
    using that by (metis sublist_take sublist_drop)
  moreover have "length substr = length s \<Longrightarrow> sublist substr s \<Longrightarrow> s = substr"
    by (auto simp: sublist_def)
  ultimately show ?thesis unfolding containsSubstring_def Contains_iff_sublist findInString_iff
    using sublist_length_le [of substr s] by (auto simp: le_less)
qed

lemma containsAny_iff: "containsAny s substrs \<longleftrightarrow> list_ex (Contains s) substrs"
  using sublist_length_le by (auto simp: containsAny_def containsSubstring_iff list_ex_iff Contains_iff_sublist)

section \<open>Classes and policies\<close>

datatype ErrorClass =
    ErrorClassUnknown
  | ErrorClassContextCanceled
  | ErrorClassContextDeadlineExceeded
  | ErrorClassHTTP4xx
  | ErrorClassHTTP404ModelMissing
  | ErrorClassHTTP5xx
  | ErrorClassNetworkTimeout

text \<open>What the code asks of an error: \<open>errors.Is\<close>, \<open>errors.As\<close> and its text.\<close>

record go_err =
  is_Canceled :: bool
  is_DeadlineExceeded :: bool
  err_StatusCode :: "int option"
  err_text :: string

definition ClassifyError :: "go_err option \<Rightarrow> ErrorClass" where
  "ClassifyError error =
     (case error of
        None \<Rightarrow> ErrorClassUnknown
      | Some err \<Rightarrow>
          if is_Canceled err then ErrorClassContextCanceled
          else if is_DeadlineExceeded err then ErrorClassContextDeadlineExceeded
          else
            let errStr = err_text err in
            if containsAny errStr [''404'', ''not found'', ''model not found''] then ErrorClassHTTP404ModelMissing
            else if containsAny errStr [''400'', ''401'', ''403''] then ErrorClassHTTP4xx
            else if containsAny errStr [''500'', ''502'', ''503'', ''504'', ''internal server error'', ''bad gateway'',
              ''service unavailable'', ''gateway timeout''] then ErrorClassHTTP5xx
            else if containsAny errStr [''timeout'', ''deadline exceeded'', ''i/o timeout'']
            then ErrorClassNetworkTimeout
            else ErrorClassUnknown)"

datatype backoff = ExponentialBackOff int int | ConstantBackOff int

record RetryPolicy =
  MaxRetries :: nat
  Backoff :: "backoff option"

abbreviation ms :: "int \<Rightarrow> int" where "ms n \<equiv> n * 1000000"

fun GetRetryPolicy :: "ErrorClass \<Rightarrow> RetryPolicy" where
  "GetRetryPolicy ErrorClassContextCanceled = \<lparr>MaxRetries = 0, Backoff = None\<rparr>"
| "GetRetryPolicy ErrorClassContextDeadlineExceeded =
     \<lparr>MaxRetries = 3, Backoff = Some (ExponentialBackOff (ms 500) (ms 10000))\<rparr>"
| "GetRetryPolicy ErrorClassHTTP5xx = \<lparr>MaxRetries = 5, Backoff = Some (ExponentialBackOff (ms 1000) (ms 30000))\<rparr>"
| "GetRetryPolicy ErrorClassHTTP404ModelMissing = \<lparr>MaxRetries = 1, Backoff = Some (ConstantBackOff 0)\<rparr>"
| "GetRetryPolicy ErrorClassHTTP4xx = \<lparr>MaxRetries = 0, Backoff = None\<rparr>"
| "GetRetryPolicy ErrorClassNetworkTimeout =
     \<lparr>MaxRetries = 3, Backoff = Some (ExponentialBackOff (ms 500) (ms 10000))\<rparr>"
| "GetRetryPolicy ErrorClassUnknown = \<lparr>MaxRetries = 1, Backoff = Some (ExponentialBackOff (ms 1000) (ms 5000))\<rparr>"

definition StatusCodeFromError :: "go_err \<Rightarrow> int option" where
  "StatusCodeFromError err =
     (case err_StatusCode err of
        Some code \<Rightarrow> Some code
      | None \<Rightarrow>
          if containsAny (err_text err) [''404''] then Some 404
          else if containsAny (err_text err) [''500''] then Some 500
          else None)"

section \<open>The retry loop\<close>

text \<open>
  \<open>fn i\<close> is the result of the \<open>i\<close>-th call, \<open>ctx_Err i\<close> the error of the context after it,
  \<open>ctx_Done i\<close> the error if the context ends during the wait that follows, and \<open>NextBackOff b\<close> the first
  interval of a fresh backoff (\<open>None\<close> is \<open>Stop\<close>).
\<close>

record retry_env =
  fn :: "nat \<Rightarrow> go_err option"
  ctx_Err :: "nat \<Rightarrow> go_err option"
  ctx_Done :: "nat \<Rightarrow> go_err option"
  NextBackOff :: "nat \<Rightarrow> backoff \<Rightarrow> int option"

datatype retry_result =
    Succeeded
  | MaxRetriesExceeded nat go_err
  | ContextEnded go_err
  | BackoffStopped nat go_err

lemma MaxRetries_le: "MaxRetries (GetRetryPolicy c) \<le> 5"
  by (cases c) simp_all

text \<open>The result, the number of calls, and the waits between them.\<close>

function retry_loop :: "retry_env \<Rightarrow> nat \<Rightarrow> retry_result \<times> nat \<times> int list" where
  "retry_loop env attempt =
     (case fn env attempt of
        None \<Rightarrow> (Succeeded, attempt + 1, [])
      | Some err \<Rightarrow>
          let policy = GetRetryPolicy (ClassifyError (Some err)) in
          if MaxRetries policy \<le> attempt then (MaxRetriesExceeded (MaxRetries policy) err, attempt + 1, [])
          else case ctx_Err env attempt of
            Some e \<Rightarrow> (ContextEnded e, attempt + 1, [])
          | None \<Rightarrow>
              (case Backoff policy of
                 None \<Rightarrow> retry_loop env (attempt + 1)
               | Some b \<Rightarrow>
                   (case NextBackOff env attempt b of
                      None \<Rightarrow> (BackoffStopped (attempt + 1) err, attempt + 1, [])
                    | Some duration \<Rightarrow>
                        (case ctx_Done env attempt of
                           Some e \<Rightarrow> (ContextEnded e, attempt + 1, [duration])
                         | None \<Rightarrow>
                             let (r, n, waits) = retry_loop env (attempt + 1) in (r, n, duration # waits)))))"
  by pat_completeness auto

termination
  by (relation "measure (\<lambda>(env, attempt). 6 - attempt)")
    (auto simp: not_le intro: diff_less_mono2 dest: less_le_trans [OF _ MaxRetries_le])

declare retry_loop.simps [simp del]

definition RetryWithPolicy :: "retry_env \<Rightarrow> retry_result \<times> nat \<times> int list" where
  "RetryWithPolicy env = retry_loop env 0"

section \<open>What the loop does\<close>

definition may_retry :: "retry_env \<Rightarrow> nat \<Rightarrow> bool" where
  "may_retry env i =
     (fn env i \<noteq> None \<and> i < MaxRetries (GetRetryPolicy (ClassifyError (fn env i))) \<and> ctx_Err env i = None)"

definition explains :: "retry_env \<Rightarrow> nat \<Rightarrow> retry_result \<Rightarrow> bool" where
  "explains env i r =
     (case r of
        Succeeded \<Rightarrow> fn env i = None
      | MaxRetriesExceeded k e \<Rightarrow> fn env i = Some e \<and> k = MaxRetries (GetRetryPolicy (ClassifyError (Some e))) \<and> k \<le> i
      | ContextEnded e \<Rightarrow> fn env i \<noteq> None \<and> (ctx_Err env i = Some e \<or> ctx_Done env i = Some e)
      | BackoffStopped k e \<Rightarrow> fn env i = Some e \<and> k = i + 1)"

lemma may_retry_bound: "may_retry env i \<Longrightarrow> i < 5"
  using MaxRetries_le by (force simp: may_retry_def intro: less_le_trans)

lemma retry_step:
  obtains (stop) r waits where "retry_loop env a = (r, a + 1, waits)" "explains env a r" "length waits \<le> 1"
  | (go_on) w where "may_retry env a" "length w \<le> 1"
      "retry_loop env a = (let (r, n, waits) = retry_loop env (a + 1) in (r, n, w @ waits))"
proof (cases "fn env a")
  case None
  then show ?thesis using stop by (simp add: retry_loop.simps [of env a] explains_def)
next
  case (Some err)
  note def = retry_loop.simps [of env a] Some
  let ?p = "GetRetryPolicy (ClassifyError (Some err))"
  consider "MaxRetries ?p \<le> a" | e where "\<not> MaxRetries ?p \<le> a" "ctx_Err env a = Some e"
    | "\<not> MaxRetries ?p \<le> a" "ctx_Err env a = None" by fastforce
  then show ?thesis
  proof cases
    case 1
    then show ?thesis using stop [of "MaxRetriesExceeded (MaxRetries ?p) err" "[]"] by (simp add: def explains_def)
  next
    case (2 e)
    then show ?thesis using stop [of "ContextEnded e" "[]"] by (simp add: def explains_def)
  next
    case 3
    then have m: "may_retry env a" by (simp add: may_retry_def Some)
    show ?thesis
    proof (cases "Backoff ?p")
      case None
      with 3 m go_on [of "[]"] show ?thesis by (simp add: def split_beta)
    next
      case b: (Some b)
      show ?thesis
      proof (cases "NextBackOff env a b")
        case None
        with 3 b stop [of "BackoffStopped (a + 1) err" "[]"] show ?thesis by (simp add: def explains_def)
      next
        case d: (Some d)
        show ?thesis
        proof (cases "ctx_Done env a")
          case None
          with 3 b d m go_on [of "[d]"] show ?thesis by (simp add: def split_beta)
        next
          case (Some e)
          with 3 b d stop [of "ContextEnded e" "[d]"] show ?thesis by (simp add: def explains_def)
        qed
      qed
    qed
  qed
qed

lemma retry_loop_trace:
  "a \<le> 5 \<Longrightarrow> retry_loop env a = (r, n, waits) \<Longrightarrow>
    a < n \<and> n \<le> 6 \<and> length waits \<le> n - a \<and> list_all (may_retry env) [a..<n - 1] \<and> explains env (n - 1) r"
proof (induction "6 - a" arbitrary: a waits rule: less_induct)
  case less
  show ?case
  proof (cases rule: retry_step [of env a])
    case (stop r' waits')
    then show ?thesis using less.prems by simp
  next
    case (go_on w)
    obtain r' n' ws where rest: "retry_loop env (a + 1) = (r', n', ws)" by (metis prod_cases3)
    with go_on less.prems have e: "r' = r" "n' = n" "waits = w @ ws" by auto
    have a: "a + 1 \<le> 5" using may_retry_bound [OF go_on(1)] by simp
    from less.hyps [OF _ a rest [unfolded e(1,2)]] less.prems(1)
    have ih: "a + 1 < n" "n \<le> 6" "length ws \<le> n - (a + 1)" "list_all (may_retry env) [a + 1..<n - 1]"
      "explains env (n - 1) r" by simp_all
    have "[a..<n - 1] = a # [a + 1..<n - 1]" using ih(1) by (simp add: upt_conv_Cons)
    with ih go_on(1,2) e(3) show ?thesis by simp
  qed
qed

text \<open>
  C24. Retrying is bounded and exact: whatever the function, the context and the backoff do, there are
  between one and six calls; every call but the last failed with an error whose class allows another
  try after that many, so a cancelled request or a client error is never repeated; and the result says
  what ended it: success exactly if the last call succeeded, otherwise the last error with the limit
  of its class, the end of the context, or a stopped backoff.
\<close>

theorem retry_exact:
  "(case RetryWithPolicy env of (r, n, waits) \<Rightarrow>
      1 \<le> n \<and> n \<le> 6 \<and> length waits \<le> n
      \<and> list_all (may_retry env) [0..<n - 1] \<and> explains env (n - 1) r)"
proof -
  obtain r n waits where "RetryWithPolicy env = (r, n, waits)" by (metis prod_cases3)
  with retry_loop_trace [of 0 env r n waits] show ?thesis by (simp add: RetryWithPolicy_def)
qed

text \<open>The search is case-sensitive, against its comment, and numbers are found anywhere in the text.\<close>

lemma search_is_case_sensitive: "\<not> containsAny ''Model Not Found'' [''not found'']"
  by (simp add: containsAny_iff)

lemma duration_read_as_status:
  "ClassifyError (Some \<lparr>is_Canceled = False, is_DeadlineExceeded = False, err_StatusCode = None,
     err_text = ''timeout after 4000ms''\<rparr>) = ErrorClassHTTP4xx"
  by (simp add: ClassifyError_def containsAny_iff Let_def)

end
