(* ===== verification/Vector_File.thy ===== *)
theory Vector_File
  imports Prelude "HOL-Library.Word"
begin

unbundle bit_operations_syntax

text \<open>
  The file of embedding vectors (\<open>internal/semantic/vectors.go\<close>): validation, writing and loading. A
  \<open>float32\<close> is its 32 bits, which is all the file format looks at; a file is its bytes. The arithmetic
  on vectors is not modelled.
\<close>

section \<open>Bytes\<close>

definition float_bytes :: "32 word \<Rightarrow> 8 word list" where
  "float_bytes w = [ucast w, ucast (drop_bit 8 w), ucast (drop_bit 16 w), ucast (drop_bit 24 w)]"

definition bytes_float :: "8 word list \<Rightarrow> 32 word" where
  "bytes_float bs = ucast (bs ! 0) OR push_bit 8 (ucast (bs ! 1)) OR push_bit 16 (ucast (bs ! 2)) OR push_bit 24 (ucast (bs ! 3))"

lemma bytes_float_bytes: "bytes_float (float_bytes w @ r) = w"
proof (rule bit_word_eqI)
  fix n assume n: "n < LENGTH(32)"
  then consider "n < 8" | "8 \<le> n" "n < 16" | "16 \<le> n" "n < 24" | "24 \<le> n" "n < 32" by fastforce
  then show "bit (bytes_float (float_bytes w @ r)) n = bit w n"
    by cases (auto simp: bytes_float_def float_bytes_def bit_simps)
qed

lemma length_float_bytes [simp]: "length (float_bytes w) = 4"
  by (simp add: float_bytes_def)

section \<open>Vectors\<close>

record VectorSet =
  Dimensions :: int
  Vectors :: "32 word list list"

datatype vector_error =
    DimensionsNotPositive
  | DimensionsMismatch int int
  | CountMismatch int int
  | VectorDimension nat int int
  | InvalidDimensions
  | CorruptLength
  | CorruptCount int int
  | IOError string

fun check_vectors :: "nat \<Rightarrow> int \<Rightarrow> 32 word list list \<Rightarrow> vector_error option" where
  "check_vectors i d [] = None"
| "check_vectors i d (vec # vecs) =
     (if int (length vec) \<noteq> d then Some (VectorDimension i (int (length vec)) d) else check_vectors (i + 1) d vecs)"

definition ValidateVectorSet :: "VectorSet \<Rightarrow> int \<Rightarrow> int \<Rightarrow> vector_error option" where
  "ValidateVectorSet vs expectedDimensions expectedCount =
     (if Dimensions vs \<le> 0 then Some DimensionsNotPositive
      else if 0 < expectedDimensions \<and> Dimensions vs \<noteq> expectedDimensions
      then Some (DimensionsMismatch (Dimensions vs) expectedDimensions)
      else if 0 \<le> expectedCount \<and> int (length (Vectors vs)) \<noteq> expectedCount
      then Some (CountMismatch (int (length (Vectors vs))) expectedCount)
      else check_vectors 0 (Dimensions vs) (Vectors vs))"

text \<open>
  \<open>WriteF32File\<close>: the error, if any, and what the file holds afterwards (\<open>None\<close> if it was not created).
  \<open>fault i\<close> is a fault of writing the \<open>i\<close>-th vector, with the number of bytes that were written.
\<close>

fun write_vectors :: "(nat \<Rightarrow> (nat \<times> string) option) \<Rightarrow> nat \<Rightarrow> int \<Rightarrow> 32 word list list \<Rightarrow> 8 word list \<Rightarrow>
    vector_error option \<times> 8 word list" where
  "write_vectors fault i d [] f = (None, f)"
| "write_vectors fault i d (vec # vecs) f =
     (if int (length vec) \<noteq> d then (Some (VectorDimension i (int (length vec)) d), f)
      else
        let bytes = concat (map float_bytes vec) in
        case fault i of
          Some (n, e) \<Rightarrow> (Some (IOError e), f @ take n bytes)
        | None \<Rightarrow> write_vectors fault (i + 1) d vecs (f @ bytes))"

definition WriteF32File :: "string option \<Rightarrow> (nat \<Rightarrow> (nat \<times> string) option) \<Rightarrow> 32 word list list \<Rightarrow> int \<Rightarrow>
    vector_error option \<times> 8 word list option" where
  "WriteF32File create_error fault vectors d =
     (if d \<le> 0 then (Some DimensionsNotPositive, None)
      else case create_error of
        Some e \<Rightarrow> (Some (IOError e), None)
      | None \<Rightarrow> let (e, f) = write_vectors fault 0 d vectors [] in (e, Some f))"

fun read_floats :: "nat \<Rightarrow> 8 word list \<Rightarrow> 32 word list" where
  "read_floats 0 bs = []"
| "read_floats (Suc n) bs = bytes_float bs # read_floats n (drop 4 bs)"

fun read_vectors :: "nat \<Rightarrow> nat \<Rightarrow> 8 word list \<Rightarrow> 32 word list list" where
  "read_vectors 0 d bs = []"
| "read_vectors (Suc n) d bs = read_floats d bs # read_vectors n d (drop (4 * d) bs)"

text \<open>A file that was opened does not fail to be read here.\<close>

definition LoadF32File :: "string + 8 word list \<Rightarrow> int \<Rightarrow> int \<Rightarrow> vector_error + 32 word list list" where
  "LoadF32File opened d expectedCount =
     (if d \<le> 0 then Inl DimensionsNotPositive
      else case opened of
        Inl e \<Rightarrow> Inl (IOError e)
      | Inr f \<Rightarrow>
          let perVector = wrap64 (d * 4) in
          if perVector \<le> 0 then Inl InvalidDimensions
          else if int (length f) mod perVector \<noteq> 0 then Inl CorruptLength
          else
            let count = int (length f) div perVector in
            if 0 \<le> expectedCount \<and> count \<noteq> expectedCount then Inl (CorruptCount count expectedCount)
            else Inr (read_vectors (nat count) (nat d) f))"

section \<open>Writing and loading\<close>

lemma write_vectors_ok:
  "list_all (\<lambda>v. int (length v) = d) vecs \<Longrightarrow> \<forall>i. fault i = None \<Longrightarrow>
    write_vectors fault i d vecs f = (None, f @ concat (map (\<lambda>v. concat (map float_bytes v)) vecs))"
  by (induction vecs arbitrary: i f) simp_all

lemma read_floats_bytes: "read_floats (length v) (concat (map float_bytes v) @ r) = v"
  by (induction v) (simp_all add: bytes_float_bytes)

lemma length_bytes: "length (concat (map float_bytes v)) = 4 * length v"
  by (induction v) simp_all

lemma read_vectors_bytes:
  "list_all (\<lambda>v. length v = d) vecs \<Longrightarrow>
    read_vectors (length vecs) d (concat (map (\<lambda>v. concat (map float_bytes v)) vecs)) = vecs"
proof (induction vecs)
  case (Cons v vecs)
  then show ?case
    using read_floats_bytes [of v "concat (map (\<lambda>v. concat (map float_bytes v)) vecs)"] length_bytes [of v] by simp
qed simp

lemma length_vectors:
  "list_all (\<lambda>v. length v = d) vecs \<Longrightarrow>
    length (concat (map (\<lambda>v. concat (map float_bytes v)) vecs)) = length vecs * (4 * d)"
  by (induction vecs) (simp_all add: length_bytes)

lemma check_vectors_None: "check_vectors i d vecs = None \<longleftrightarrow> list_all (\<lambda>v. int (length v) = d) vecs"
  by (induction vecs arbitrary: i) auto

text \<open>
  C25. Vectors survive the file: a vector set that passes validation is written without error, and
  loading the file with the same dimensions and count gives back the same vectors, bit for bit.
\<close>

theorem vectors_roundtrip:
  assumes "ValidateVectorSet vs d n = None" "Dimensions vs < 2 ^ 61" "\<forall>i. fault i = None"
  shows "\<exists>f. WriteF32File None fault (Vectors vs) (Dimensions vs) = (None, Some f)
    \<and> LoadF32File (Inr f) (Dimensions vs) n = Inr (Vectors vs)"
proof -
  let ?d = "Dimensions vs" and ?f = "concat (map (\<lambda>v. concat (map float_bytes v)) (Vectors vs))"
  from assms(1) have d: "0 < ?d" and n: "n < 0 \<or> int (length (Vectors vs)) = n"
    and vecs: "list_all (\<lambda>v. int (length v) = ?d) (Vectors vs)"
    by (auto simp: ValidateVectorSet_def check_vectors_None split: if_splits)
  then have vecs': "list_all (\<lambda>v. length v = nat ?d) (Vectors vs)" by (auto simp: list_all_iff)
  have w: "WriteF32File None fault (Vectors vs) ?d = (None, Some ?f)"
    using d write_vectors_ok [OF vecs assms(3), of 0 "[]"] by (simp add: WriteF32File_def)
  have p: "wrap64 (?d * 4) = ?d * 4" using d assms(2) by (intro wrap64_id) auto
  have "int (length ?f) = int (length (Vectors vs)) * (?d * 4)" using length_vectors [OF vecs'] d by simp
  then have "int (length ?f) mod (?d * 4) = 0" "int (length ?f) div (?d * 4) = int (length (Vectors vs))"
    using d by simp_all
  then have "LoadF32File (Inr ?f) ?d n = Inr (Vectors vs)"
    using d n read_vectors_bytes [OF vecs'] by (auto simp: LoadF32File_def p Let_def)
  with w show ?thesis by blast
qed

theorem vectors_roundtrip_witness:
  "\<exists>f. WriteF32File None (\<lambda>_. None) [[1, 0x7FC00000], [3, 4]] 2 = (None, Some f)
    \<and> LoadF32File (Inr f) 2 2 = Inr [[1, 0x7FC00000], [3, 4]]"
  using vectors_roundtrip [of "\<lparr>Dimensions = 2, Vectors = [[1, 0x7FC00000], [3, 4]]\<rparr>" 2 2 "\<lambda>_. None"]
  by (simp add: ValidateVectorSet_def)

text \<open>A vector of the wrong length is noticed only when it is reached: the file is already truncated then.\<close>

lemma bad_vector_leaves_partial_file:
  "WriteF32File None (\<lambda>_. None) [[1], [2, 3]] 1 = (Some (VectorDimension 1 2 1), Some (float_bytes 1))"
  by (simp add: WriteF32File_def)

end
