(* ===== verification/Hook_Runner.thy ===== *)
theory Hook_Runner
  imports Hook_Dispatch Agent_Run
begin

text \<open>
  The runner that puts the user's hooks around an agent run (\<open>Runner.Run\<close> in
  \<open>internal/hooks/runner.go\<close>): notices about the loaded hooks, the hooks at the start of the session, at
  the user's prompt and at the end, and the decisions the run asks its hooks for. A panic of a hook is
  \<open>None\<close>; the timings the runner sends are left out.
\<close>

section \<open>Summaries\<close>

fun summarize_from :: "string \<Rightarrow> 'a llm_Message list \<Rightarrow> string" where
  "summarize_from out [] = out"
| "summarize_from out (m # ms) =
     (if msg_Content m = [] then summarize_from out ms
      else
        let out = out @ msg_Role m @ '': '' @ msg_Content m @ [NL] in
        if 2000 < length out then take 2000 out @ NL # ''<truncated>'' else summarize_from out ms)"

definition summarizeConversation :: "'a llm_Message list \<Rightarrow> string" where
  "summarizeConversation messages = summarize_from [] messages"

lemma summarize_from_bound: "length out \<le> 2000 \<Longrightarrow> length (summarize_from out ms) \<le> 2012"
  by (induction ms arbitrary: out) (auto simp: Let_def)

section \<open>The run\<close>

definition snapshot_notices :: "'w hook_os \<Rightarrow> (hook \<Rightarrow> string) \<Rightarrow> hook_snapshot \<Rightarrow> string list" where
  "snapshot_notices os source_text snap =
     map (\<lambda>w. ''hook config warning: '' @ w) (sn_Warnings snap)
     @ map (\<lambda>(h, reason). ''hook disabled: '' @ ho_kind_text os (hk_Kind h) @ '' '' @ ho_event_text os (hk_Event h)
         @ '' from '' @ source_text h @ '': '' @ reason) (sn_Disabled snap)"

text \<open>\<open>dispatchWithNotice\<close>: the result, and the notice it sends if there is a warning.\<close>

definition dispatchWithNotice :: "'w hook_os \<Rightarrow> hook_snapshot \<Rightarrow> hook_config \<Rightarrow> envelope \<Rightarrow> 'w \<Rightarrow>
    (hook_result \<times> string list) option \<times> 'w" where
  "dispatchWithNotice os snap cfg e w =
     (case Dispatch os snap cfg e w of
        (None, w) \<Rightarrow> (None, w)
      | (Some res, w) \<Rightarrow> (Some (res, if hr_Warning res \<noteq> [] then [hr_Warning res] else []), w))"

text \<open>The events of the run itself, with the hooks of the end of the session before its terminal event.\<close>

fun forward_events :: "'w hook_os \<Rightarrow> hook_snapshot \<Rightarrow> hook_config \<Rightarrow> envelope \<Rightarrow> ('a, 'i, 'd, 'p) Event list \<Rightarrow> 'w \<Rightarrow>
    ('a, 'i, 'd, 'p) Event list option \<times> 'w" where
  "forward_events os snap cfg e [] w = (Some [], w)"
| "forward_events os snap cfg e (evt # evts) w =
     (case (case evt of Terminal _ _ _ _ \<Rightarrow> dispatchWithNotice os snap cfg e w | _ \<Rightarrow> (Some (no_result, []), w)) of
        (None, w) \<Rightarrow> (None, w)
      | (Some (_, notices), w) \<Rightarrow>
          (case forward_events os snap cfg e evts w of
             (None, w) \<Rightarrow> (None, w)
           | (Some out, w) \<Rightarrow> (Some (map HookNotice notices @ evt # out), w)))"

definition Runner_Run :: "'w hook_os \<Rightarrow> (hook \<Rightarrow> string) \<Rightarrow> hook_snapshot \<Rightarrow> hook_config \<Rightarrow> string \<Rightarrow> 'a Input \<Rightarrow>
    ('w \<Rightarrow> ('a, 'i, 'd, 'p) Event list \<times> 'w) \<Rightarrow> 'w \<Rightarrow> ('a, 'i, 'd, 'p) Event list option \<times> 'w" where
  "Runner_Run os source_text snap cfg mode i next_run w =
     (let event = (\<lambda>ev summary. hook_envelope cfg (in_Model i) mode ev None summary);
          start = map HookNotice (snapshot_notices os source_text snap)
      in case dispatchWithNotice os snap cfg (event EventSessionStart []) w of
           (None, w) \<Rightarrow> (None, w)
         | (Some (_, n1), w) \<Rightarrow>
             (case dispatchWithNotice os snap cfg (event EventUserPromptSubmit (summarizeConversation (in_Messages i))) w of
                (None, w) \<Rightarrow> (None, w)
              | (Some (res, n2), w) \<Rightarrow>
                  let sent = start @ map HookNotice (n1 @ n2) in
                  if hr_Decision res = HookDeny
                  then let reason = (if hr_Reason res = [] then ''user prompt blocked by hook'' else hr_Reason res)
                       in (Some (sent @ [HookNotice reason, Terminal TerminalStopHook reason zero_usage []]), w)
                  else case next_run w of
                    (evts, w) \<Rightarrow>
                      (case forward_events os snap cfg (event EventSessionEnd []) evts w of
                         (None, w) \<Rightarrow> (None, w)
                       | (Some out, w) \<Rightarrow> (Some (sent @ out), w))))"

text \<open>The stop hook the run gets: a denying hook ends the run, else the hook it replaces is asked.\<close>

definition wrapped_StopHook :: "'w hook_os \<Rightarrow> hook_snapshot \<Rightarrow> hook_config \<Rightarrow> string \<Rightarrow> string \<Rightarrow>
    ('a llm_Message list \<Rightarrow> 'w \<Rightarrow> string option \<times> 'w) option \<Rightarrow> 'a llm_Message list \<Rightarrow> 'w \<Rightarrow> string option option \<times> 'w" where
  "wrapped_StopHook os snap cfg model mode prior conversation w =
     (case dispatchWithNotice os snap cfg
             (hook_envelope cfg model mode EventStop None (summarizeConversation conversation)) w of
        (None, w) \<Rightarrow> (None, w)
      | (Some (res, _), w) \<Rightarrow>
          if hr_Decision res = HookDeny then (Some (Some (hr_Reason res)), w)
          else case prior of
            None \<Rightarrow> (Some None, w)
          | Some h \<Rightarrow> (case h conversation w of (r, w) \<Rightarrow> (Some r, w)))"

section \<open>Properties\<close>

fun is_terminal :: "('a, 'i, 'd, 'p) Event \<Rightarrow> bool" where
  "is_terminal (Terminal _ _ _ _) = True"
| "is_terminal _ = False"

fun is_notice :: "('a, 'i, 'd, 'p) Event \<Rightarrow> bool" where
  "is_notice (HookNotice _) = True"
| "is_notice _ = False"

lemma forward_events_filter:
  "forward_events os snap cfg e evts w = (Some out, w') \<Longrightarrow>
    filter (\<lambda>x. \<not> is_notice x) out = filter (\<lambda>x. \<not> is_notice x) evts"
proof (induction evts arbitrary: w out)
  case (Cons evt evts)
  from Cons.prems obtain notices w2 out' where
    "forward_events os snap cfg e evts w2 = (Some out', w')" "out = map HookNotice notices @ evt # out'"
    by (auto split: prod.splits option.splits)
  moreover have "filter (\<lambda>x. \<not> is_notice x) (map HookNotice ns) = []" for ns by (induction ns) auto
  ultimately show ?case using Cons.IH by auto
qed simp

text \<open>
  The hooks around a run only add notices: either a hook blocks the user's prompt, and then the run never
  starts and the only event but notices is a terminal one with reason stop hook; or all events of the run
  come through, in order, none lost and none but notices added.
\<close>

theorem runner_transparent:
  assumes "Runner_Run os source_text snap cfg mode i next_run w = (Some out, w')"
  shows "(\<exists>reason. filter (\<lambda>x. \<not> is_notice x) out = [Terminal TerminalStopHook reason zero_usage []])
    \<or> (\<exists>w1. filter (\<lambda>x. \<not> is_notice x) out = filter (\<lambda>x. \<not> is_notice x) (fst (next_run w1)))"
proof -
  have n: "filter (\<lambda>x. \<not> is_notice x) (map HookNotice ns) = []" for ns :: "string list" by (induction ns) auto
  let ?start = "map HookNotice (snapshot_notices os source_text snap)"
  obtain r1 n1 w1 r2 n2 w2 where
    d: "dispatchWithNotice os snap cfg (hook_envelope cfg (in_Model i) mode EventSessionStart None []) w = (Some (r1, n1), w1)"
      "dispatchWithNotice os snap cfg (hook_envelope cfg (in_Model i) mode EventUserPromptSubmit None
        (summarizeConversation (in_Messages i))) w1 = (Some (r2, n2), w2)"
    using assms unfolding Runner_Run_def Let_def by (auto split: prod.splits option.splits)
  show ?thesis
  proof (cases "hr_Decision r2 = HookDeny")
    case True
    let ?reason = "if hr_Reason r2 = [] then ''user prompt blocked by hook'' else hr_Reason r2"
    have "out = ?start @ map HookNotice (n1 @ n2) @ map HookNotice [?reason] @ [Terminal TerminalStopHook ?reason zero_usage []]"
      using assms d True unfolding Runner_Run_def Let_def by simp
    then have "filter (\<lambda>x. \<not> is_notice x) out = [Terminal TerminalStopHook ?reason zero_usage []]"
      by (simp only: filter_append n) simp
    then show ?thesis by blast
  next
    case False
    obtain evts w3 where e: "next_run w2 = (evts, w3)" by fastforce
    from assms d False e obtain out' where
      f: "forward_events os snap cfg (hook_envelope cfg (in_Model i) mode EventSessionEnd None []) evts w3 = (Some out', w')"
      and o: "out = (?start @ map HookNotice (n1 @ n2)) @ out'"
      unfolding Runner_Run_def Let_def by (auto split: prod.splits option.splits)
    have "filter (\<lambda>x. \<not> is_notice x) out = filter (\<lambda>x. \<not> is_notice x) (fst (next_run w2))"
      using forward_events_filter [OF f] unfolding o e by (simp only: filter_append n append_Nil fst_conv)
    then show ?thesis by blast
  qed
qed

theorem runner_transparent_witness:
  "\<exists>out. fst (Runner_Run demo_hook_os (\<lambda>_. []) empty_snapshot demo_hook_config [] demo_input
      (\<lambda>w. ([LLMRequestStarted :: (string, unit, unit, unit) Event], w)) ()) = Some out
    \<and> filter (\<lambda>x. \<not> is_notice x) out = [LLMRequestStarted]"
proof -
  have d: "dispatchWithNotice demo_hook_os empty_snapshot demo_hook_config e w = (Some (no_result, []), w)" for e w
    by (simp add: dispatchWithNotice_def Dispatch_def dispatchAll_def matchingHooks_def empty_snapshot_def demo_hook_os_def no_result_def)
  obtain out where r: "Runner_Run demo_hook_os (\<lambda>_. []) empty_snapshot demo_hook_config [] demo_input
      (\<lambda>w. ([LLMRequestStarted :: (string, unit, unit, unit) Event], w)) () = (Some out, ())"
    by (simp add: Runner_Run_def d Let_def no_result_def)
  from runner_transparent [OF r] have "filter (\<lambda>x. \<not> is_notice x) out = [LLMRequestStarted]"
  proof (elim disjE exE)
    fix reason assume f: "filter (\<lambda>x. \<not> is_notice x) out = [Terminal TerminalStopHook reason zero_usage []]"
    have "snapshot_notices (demo_hook_os :: unit hook_os) (\<lambda>_. []) empty_snapshot = []" by (simp add: snapshot_notices_def empty_snapshot_def)
    then have "out = [LLMRequestStarted]" using r by (simp add: Runner_Run_def d Let_def no_result_def)
    with f show ?thesis by simp
  qed simp
  with r show ?thesis by simp
qed

text \<open>
  A run under hooks obeys them: whenever it calls a tool, neither the runner's own hooks nor, where these
  are silent, the hook they wrap has answered this call with anything but allow.
\<close>

theorem hooked_run_obeys_hooks:
  assumes "run fuel env contextMode i counter w = Some (ok, acts)" "Ran k x \<in> set acts"
    and "HookDecision (te_callbacks (tn_tools (re_turn env))) = Some (wrapped_HookDecision own prior)"
  shows "\<exists>E ic. E = (tn_tools (re_turn env))\<lparr>te_Lookup := te_Lookup E, te_Mode := te_Mode E\<rparr>
    \<and> x = Input (with_update E ic) \<and> parse_call E (Call ic) = Inr (Tool ic, Input ic)
    \<and> (case wrapped_HookDecision own prior (normalized (call_request E ic)) of
         Some res \<Rightarrow> res_Decision res = DecisionAllow | None \<Rightarrow> True)"
proof -
  obtain i' E ic where
    E: "E = tn_tools (re_turn (run_for env i'))" "parse_call E (Call ic) = Inr (Tool ic, Input ic)"
    "res_Decision (call_decision E ic) = DecisionAllow" "x = Input (with_update E ic)"
    using run_policy [OF assms(1,2)] by (elim exE conjE) (rule that)
  let ?cb = "(te_callbacks E)\<lparr>Classifier := None\<rparr>" and ?req = "call_request E ic"
  have h: "HookDecision ?cb = Some (wrapped_HookDecision own prior)"
    using assms(3) unfolding E(1) by (simp add: run_for_def split_beta)
  have al: "res_Decision (fst (Resolve (te_sep E) (te_view E) ?cb ?req)) = DecisionAllow"
    using E(3) by (simp add: call_decision_def)
  then have v: "valid_request ?req" using invalid_denied by fastforce
  have "res_Decision res = DecisionAllow" if "wrapped_HookDecision own prior (normalized ?req) = Some res" for res
    using hook_decides [OF v, of ?cb res] that h al by (simp add: run_hook_def)
  then have "case wrapped_HookDecision own prior (normalized ?req) of
      Some res \<Rightarrow> res_Decision res = DecisionAllow | None \<Rightarrow> True"
    by (simp split: option.split)
  moreover have "E = (tn_tools (re_turn env))\<lparr>te_Lookup := te_Lookup E, te_Mode := te_Mode E\<rparr>"
    unfolding E(1) by (simp add: run_for_def split_beta)
  ultimately show ?thesis using E(2,4) by (intro exI [of _ E] exI [of _ ic] conjI)
qed

end
