(* ===== verification/Spec2Isabelle.thy ===== *)
theory Spec2Isabelle
  imports Bash_Classify Supervisor_Runs Task_Output Permission_Broker Sub_Agent Path_Lock File_Tools Server_Save Evidence_Pack
    Net_Guard LLM_Retry Text_Chunks Vector_File Hook_Runner
begin

text \<open>
  A verification library for NandoCode.
\<close>

end
